(* ===== verification/Prelude.thy ===== *)
theory Prelude
  imports Main "HOL-Library.Word" "HOL-Library.Multiset" "HOL-Library.Char_ord"
    "HOL-Library.Signed_Division"
begin

text \<open>
  Shared vocabulary of the development: names for the machine types of the C and C++ sources,
  buffers as byte lists with bounded reads and block copies, little endian words, and the
  file system result codes.  An access outside a buffer is not given a value: the checked
  accessors answer \<open>None\<close>, which the models propagate as the undefined behaviour it is in C.
\<close>

unbundle bit_operations_syntax

type_synonym byte = "8 word"
type_synonym u16 = "16 word"
type_synonym u32 = "32 word"

named_theorems buffer_simps \<open>rewriting of buffer reads and writes\<close>
named_theorems inv_intros \<open>preservation of the component invariants\<close>

section \<open>Buffers\<close>

text \<open>A checked read, a checked write, and \<open>memcpy\<close> into a buffer.\<close>

definition peek :: "'a list \<Rightarrow> nat \<Rightarrow> 'a option" where
  "peek xs i = (if i < length xs then Some (xs ! i) else None)"

definition poke :: "'a list \<Rightarrow> nat \<Rightarrow> 'a \<Rightarrow> 'a list option" where
  "poke xs i v = (if i < length xs then Some (xs[i := v]) else None)"

definition blit :: "nat \<Rightarrow> 'a list \<Rightarrow> 'a list \<Rightarrow> 'a list" where
  "blit i src dst = take i dst @ src @ drop (i + length src) dst"

lemma peek_in_range [buffer_simps, simp]: "i < length xs \<Longrightarrow> peek xs i = Some (xs ! i)"
  by (simp add: peek_def)

lemma peek_out_of_range [buffer_simps, simp]: "length xs \<le> i \<Longrightarrow> peek xs i = None"
  by (simp add: peek_def)

lemma peek_eq_Some_iff: "peek xs i = Some v \<longleftrightarrow> i < length xs \<and> v = xs ! i"
  by (auto simp: peek_def)

lemma poke_in_range [buffer_simps, simp]: "i < length xs \<Longrightarrow> poke xs i v = Some (xs[i := v])"
  by (simp add: poke_def)

lemma poke_out_of_range [buffer_simps, simp]: "length xs \<le> i \<Longrightarrow> poke xs i v = None"
  by (simp add: poke_def)

lemma length_blit [buffer_simps, simp]:
  "i + length src \<le> length dst \<Longrightarrow> length (blit i src dst) = length dst"
  by (simp add: blit_def)

lemma nth_blit [buffer_simps]:
  assumes "i + length src \<le> length dst" "k < length dst"
  shows "blit i src dst ! k =
    (if i \<le> k \<and> k < i + length src then src ! (k - i) else dst ! k)"
  using assms by (auto simp: blit_def nth_append min_def not_less)

lemma blit_inside:
  "i + length src \<le> length dst \<Longrightarrow> j < length src \<Longrightarrow> blit i src dst ! (i + j) = src ! j"
  by (simp add: nth_blit)

lemma take_blit [buffer_simps]: "i \<le> length dst \<Longrightarrow> take i (blit i src dst) = take i dst"
  by (simp add: blit_def)

section \<open>Lists\<close>

lemma take_Suc_snoc: "n < length xs \<Longrightarrow> take (Suc n) xs = take n xs @ [xs ! n]"
  by (rule take_Suc_conv_app_nth)

lemma take_update_at_end: "take (Suc n) (xs[n := v]) = take n xs @ [v]" if "n < length xs"
  using that by (simp add: take_Suc_conv_app_nth)

lemma list_eq_nthI:
  assumes "length xs = n" "length ys = n" "\<And>i. i < n \<Longrightarrow> xs ! i = ys ! i"
  shows "xs = ys"
  using assms by (auto intro: nth_equalityI)

lemma first_occurrence:
  "x \<notin> set a \<Longrightarrow> x \<notin> set a' \<Longrightarrow> a @ x # b = a' @ x # b' \<longleftrightarrow> a = a' \<and> b = b'"
proof (induction a arbitrary: a')
  case Nil
  then show ?case by (cases a') auto
next
  case (Cons y a)
  then show ?case by (cases a') auto
qed

section \<open>Formatted numbers\<close>

text \<open>What \<open>printf\<close> writes for \<open>%d\<close> and \<open>%08lx\<close>, and the text a bounded \<open>snprintf\<close> into \<open>sz\<close> bytes
  leaves when it fits with its terminating NUL.\<close>

definition hex_char :: "nat \<Rightarrow> char" where
  "hex_char n = ''0123456789abcdef'' ! n"

fun dec_text :: "nat \<Rightarrow> string" where
  "dec_text n =
     (if n < 10 then [char_of (48 + n)] else dec_text (n div 10) @ [char_of (48 + n mod 10)])"

declare dec_text.simps [simp del]

definition int_text :: "int \<Rightarrow> string" where
  "int_text i = (if i < 0 then CHR ''-'' # dec_text (nat (- i)) else dec_text (nat i))"

definition hex8_text :: "32 word \<Rightarrow> string" where
  "hex8_text w = map (\<lambda>i. hex_char (unat (drop_bit (4 * i) w) mod 16)) [7, 6, 5, 4, 3, 2, 1, 0]"

lemma length_hex8_text [simp]: "length (hex8_text w) = 8"
  by (simp add: hex8_text_def)

definition fitting :: "nat \<Rightarrow> string \<Rightarrow> string option" where
  "fitting sz s = (if length s < sz then Some s else None)"

section \<open>Words\<close>

text \<open>A 32-bit little endian value, as the sources assemble it byte by byte.\<close>

definition le32 :: "byte \<Rightarrow> byte \<Rightarrow> byte \<Rightarrow> byte \<Rightarrow> u32" where
  "le32 b0 b1 b2 b3 =
     ucast b0 OR push_bit 8 (ucast b1) OR push_bit 16 (ucast b2) OR push_bit 24 (ucast b3)"

definition le32_bytes :: "u32 \<Rightarrow> byte list" where
  "le32_bytes w = [ucast w, ucast (drop_bit 8 w), ucast (drop_bit 16 w), ucast (drop_bit 24 w)]"

lemma length_le32_bytes [simp]: "length (le32_bytes w) = 4"
  by (simp add: le32_bytes_def)

lemma le32_of_bytes:
  "le32 (ucast w) (ucast (drop_bit 8 w)) (ucast (drop_bit 16 w)) (ucast (drop_bit 24 w)) = w"
proof (rule bit_word_eqI)
  fix n
  assume "n < LENGTH(32)"
  then have "n < 8 \<or> 8 \<le> n \<and> n < 16 \<or> 16 \<le> n \<and> n < 24 \<or> 24 \<le> n \<and> n < 32" by auto
  then show "bit (le32 (ucast w) (ucast (drop_bit 8 w)) (ucast (drop_bit 16 w))
      (ucast (drop_bit 24 w))) n = bit w n"
    by (auto simp: le32_def bit_simps)
qed

text \<open>A range of a C \<open>int\<close>: the models use \<open>int\<close> for signed arithmetic that the code keeps
  inside this range.\<close>

definition int32 :: "int \<Rightarrow> bool" where
  "int32 x \<longleftrightarrow> - (2 ^ 31) \<le> x \<and> x < 2 ^ 31"

section \<open>Result codes of the file system layer\<close>

datatype fresult =
    FR_OK | FR_DISK_ERR | FR_INT_ERR | FR_NOT_READY | FR_NO_FILE | FR_NO_PATH
  | FR_INVALID_NAME | FR_DENIED | FR_EXIST | FR_INVALID_OBJECT | FR_WRITE_PROTECTED
  | FR_INVALID_DRIVE | FR_NOT_ENABLED | FR_NO_FILESYSTEM | FR_MKFS_ABORTED | FR_TIMEOUT
  | FR_LOCKED | FR_NO_MEMORY | FR_TOO_MANY_OPEN_FILES | FR_INVALID_PARAMETER
  | FR_DISK_FULL | FR_DIR_NOT_EMPTY | FR_LOOP_DETECTED

end
