(* ===== verification/Containers.thy ===== *)
theory Containers
  imports Prelude
begin

text \<open>
  The template containers of \<^verbatim>\<open>software/components\<close>: the ring buffer \<open>Fifo\<close>, the bounded
  \<open>Stack\<close> and the growing \<open>ManagedArray\<close>.  Fresh memory (\<open>new T[n]\<close>) has unspecified contents in
  C++: every constructor takes the value \<open>uninit\<close> its cells happen to hold, and the theorems hold
  for any such value.  The critical sections around the operations make each one atomic, so an
  operation is one function on the state.
\<close>

section \<open>Interfaces\<close>

text \<open>\<open>pop_many pop n q\<close> takes \<open>n\<close> elements out, in the order they come.\<close>

primrec pop_many :: "('q \<Rightarrow> 'a \<times> 'q) \<Rightarrow> nat \<Rightarrow> 'q \<Rightarrow> 'a list \<times> 'q" where
  "pop_many pop 0 q = ([], q)"
| "pop_many pop (Suc n) q =
     (case pop q of (x, q1) \<Rightarrow> case pop_many pop n q1 of (xs, q2) \<Rightarrow> (x # xs, q2))"

text \<open>A bounded first-in first-out queue, as the clients use it: what \<open>push\<close>, \<open>pop\<close> and \<open>head\<close> do
  to the sequence of waiting elements.\<close>

locale bounded_queue =
  fixes push :: "'a \<Rightarrow> 'q \<Rightarrow> 'q"
    and pop :: "'q \<Rightarrow> 'a \<times> 'q"
    and head :: "'q \<Rightarrow> 'a"
    and waiting :: "'q \<Rightarrow> 'a list"
    and room_for :: "'q \<Rightarrow> nat"
    and default :: "'q \<Rightarrow> 'a"
    and queue_ok :: "'q \<Rightarrow> bool"
  assumes push_ok: "queue_ok q \<Longrightarrow> queue_ok (push x q)"
    and pop_ok: "queue_ok q \<Longrightarrow> queue_ok (snd (pop q))"
    and push_waiting: "queue_ok q \<Longrightarrow>
      waiting (push x q) = (if length (waiting q) < room_for q then waiting q @ [x] else waiting q)"
    and push_room: "room_for (push x q) = room_for q"
    and push_default: "default (push x q) = default q"
    and pop_waiting: "queue_ok q \<Longrightarrow> waiting (snd (pop q)) = tl (waiting q)"
    and pop_room: "room_for (snd (pop q)) = room_for q"
    and pop_value: "queue_ok q \<Longrightarrow>
      fst (pop q) = (if waiting q = [] then default q else hd (waiting q))"
    and head_value: "queue_ok q \<Longrightarrow>
      head q = (if waiting q = [] then default q else hd (waiting q))"
begin

lemma push_many_ok: "queue_ok q \<Longrightarrow> queue_ok (fold push xs q)"
  by (induction xs arbitrary: q) (auto intro: push_ok)

lemma push_many_waiting:
  "queue_ok q \<Longrightarrow> length (waiting q) \<le> room_for q \<Longrightarrow>
    waiting (fold push xs q) = waiting q @ take (room_for q - length (waiting q)) xs"
proof (induction xs arbitrary: q)
  case (Cons x xs)
  let ?q = "push x q"
  have "length (waiting ?q) \<le> room_for ?q"
    using Cons.prems by (auto simp: push_waiting push_room)
  then have "waiting (fold push xs ?q) = waiting ?q @ take (room_for ?q - length (waiting ?q)) xs"
    using Cons.prems by (intro Cons.IH) (auto intro: push_ok)
  then show ?case
    using Cons.prems by (auto simp: push_waiting push_room take_Cons' Suc_diff_Suc)
qed simp

lemma pop_many_waiting:
  "queue_ok q \<Longrightarrow> n \<le> length (waiting q) \<Longrightarrow>
    fst (pop_many pop n q) = take n (waiting q) \<and> waiting (snd (pop_many pop n q)) = drop n (waiting q)"
proof (induction n arbitrary: q)
  case (Suc n)
  obtain x q1 where p: "pop q = (x, q1)" by fastforce
  have ne: "waiting q \<noteq> []" using Suc.prems by auto
  have x: "x = hd (waiting q)" using pop_value [OF Suc.prems(1)] ne p by simp
  have q1: "queue_ok q1" "waiting q1 = tl (waiting q)"
    using pop_ok [OF Suc.prems(1)] pop_waiting [OF Suc.prems(1)] p by auto
  have "fst (pop_many pop n q1) = take n (waiting q1) \<and> waiting (snd (pop_many pop n q1)) = drop n (waiting q1)"
    using Suc.prems q1 by (intro Suc.IH) auto
  then show ?case
    using p x q1 ne by (cases "waiting q") (auto split: prod.splits)
qed simp

end

text \<open>A bounded last-in first-out stack.\<close>

locale bounded_stack =
  fixes spush :: "'a \<Rightarrow> 's \<Rightarrow> bool \<times> 's"
    and spop :: "'s \<Rightarrow> 'a \<times> 's"
    and stacked :: "'s \<Rightarrow> 'a list"
    and srest :: "'s \<Rightarrow> nat"
    and stack_ok :: "'s \<Rightarrow> bool"
  assumes spush_ok: "stack_ok s \<Longrightarrow> stack_ok (snd (spush x s))"
    and spop_ok: "stack_ok s \<Longrightarrow> stack_ok (snd (spop s))"
    and spush_stacked: "stack_ok s \<Longrightarrow>
      spush x s = (True, s') \<Longrightarrow> stacked s' = x # stacked s"
    and spush_full: "stack_ok s \<Longrightarrow> fst (spush x s) \<longleftrightarrow> 0 < srest s"
    and spop_stacked: "stack_ok s \<Longrightarrow> stacked s \<noteq> [] \<Longrightarrow>
      fst (spop s) = hd (stacked s) \<and> stacked (snd (spop s)) = tl (stacked s)"
begin

lemma pop_after_push:
  assumes "stack_ok s" "0 < srest s"
  shows "fst (spop (snd (spush x s))) = x \<and>
    stacked (snd (spop (snd (spush x s)))) = stacked s"
proof -
  obtain s' where s': "spush x s = (True, s')"
    using spush_full [OF assms(1), of x] assms(2) by (cases "spush x s") auto
  then have "stacked s' = x # stacked s" "stack_ok s'"
    using spush_stacked [OF assms(1)] spush_ok [OF assms(1), of x] by auto
  with spop_stacked [of s'] s' show ?thesis by auto
qed

end

section \<open>Fifo: a ring buffer\<close>

record 'a fifo =
  f_read_pointer :: nat
  f_write_pointer :: nat
  f_capacity :: nat
  f_count :: nat
  f_elements :: "'a list"
  f_empty :: 'a

definition fifo_new :: "'a \<Rightarrow> nat \<Rightarrow> 'a \<Rightarrow> 'a fifo" where
  "fifo_new uninit sz def =
     \<lparr>f_read_pointer = 0, f_write_pointer = 0, f_capacity = sz, f_count = 0,
      f_elements = replicate sz uninit, f_empty = def\<rparr>"

definition fifo_get_count :: "'a fifo \<Rightarrow> nat" where
  "fifo_get_count q = f_count q"

definition fifo_is_empty :: "'a fifo \<Rightarrow> bool" where
  "fifo_is_empty q \<longleftrightarrow> f_count q = 0"

definition fifo_head :: "'a fifo \<Rightarrow> 'a" where
  "fifo_head q = (if f_count q = 0 then f_empty q else f_elements q ! f_read_pointer q)"

definition fifo_pop :: "'a fifo \<Rightarrow> 'a \<times> 'a fifo" where
  "fifo_pop q =
     (if f_count q = 0 then (f_empty q, q)
      else
        let ret = f_elements q ! f_read_pointer q;
            rp = f_read_pointer q + 1
        in (ret, q\<lparr>f_count := f_count q - 1,
                   f_read_pointer := (if rp \<ge> f_capacity q then 0 else rp)\<rparr>))"

definition fifo_push :: "'a \<Rightarrow> 'a fifo \<Rightarrow> 'a fifo" where
  "fifo_push e q =
     (if f_count q \<noteq> f_capacity q
      then let wp = f_write_pointer q + 1
           in q\<lparr>f_count := f_count q + 1,
                f_elements := (f_elements q)[f_write_pointer q := e],
                f_write_pointer := (if wp \<ge> f_capacity q then 0 else wp)\<rparr>
      else q)"

text \<open>The representation invariant, and the sequence of waiting elements the ring stands for.\<close>

definition fifo_ok :: "'a fifo \<Rightarrow> bool" where
  "fifo_ok q \<longleftrightarrow>
     length (f_elements q) = f_capacity q \<and> f_count q \<le> f_capacity q \<and>
     (0 < f_capacity q \<longrightarrow> f_read_pointer q < f_capacity q) \<and>
     (0 < f_capacity q \<longrightarrow> f_write_pointer q = (f_read_pointer q + f_count q) mod f_capacity q)"

definition fifo_list :: "'a fifo \<Rightarrow> 'a list" where
  "fifo_list q =
     map (\<lambda>i. f_elements q ! ((f_read_pointer q + i) mod f_capacity q)) [0..<f_count q]"

lemma fifo_new_ok [inv_intros]: "fifo_ok (fifo_new u n d)"
  by (simp add: fifo_ok_def fifo_new_def)

lemma fifo_list_new [simp]: "fifo_list (fifo_new u n d) = []"
  by (simp add: fifo_list_def fifo_new_def)

lemma fifo_new_fields [simp]: "f_capacity (fifo_new u n d) = n" "f_empty (fifo_new u n d) = d"
  by (simp_all add: fifo_new_def)

lemma length_fifo_list [simp]: "length (fifo_list q) = f_count q"
  by (simp add: fifo_list_def)

lemma wrap_increment: "r < c \<Longrightarrow> (if r + 1 \<ge> c then 0 else r + 1) = Suc r mod (c::nat)"
  by (auto simp: mod_Suc)

lemma fifo_push_ok [inv_intros]: "fifo_ok q \<Longrightarrow> fifo_ok (fifo_push e q)"
proof (cases "f_count q = f_capacity q")
  case False
  assume ok: "fifo_ok q"
  then have c: "0 < f_capacity q" using False by (auto simp: fifo_ok_def)
  then have "f_write_pointer q < f_capacity q" using ok by (auto simp: fifo_ok_def)
  from wrap_increment [OF this] ok c False show ?thesis
    by (auto simp: fifo_ok_def fifo_push_def Let_def mod_Suc_eq)
qed (simp add: fifo_push_def)

lemma fifo_pop_ok [inv_intros]: "fifo_ok q \<Longrightarrow> fifo_ok (snd (fifo_pop q))"
proof (cases "f_count q")
  case (Suc n)
  assume ok: "fifo_ok q"
  then have c: "f_read_pointer q < f_capacity q"
    using Suc by (auto simp: fifo_ok_def)
  have "(Suc (f_read_pointer q) mod f_capacity q + n) mod f_capacity q
      = Suc (f_read_pointer q + n) mod f_capacity q"
    by (simp add: mod_add_left_eq)
  with wrap_increment [OF c] ok c Suc show ?thesis
    by (auto simp: fifo_ok_def fifo_pop_def Let_def)
qed (simp add: fifo_pop_def)

lemma fifo_list_push:
  assumes ok: "fifo_ok q"
  shows "fifo_list (fifo_push e q) =
    (if length (fifo_list q) < f_capacity q then fifo_list q @ [e] else fifo_list q)"
proof (cases "f_count q < f_capacity q")
  case True
  let ?c = "f_capacity q" and ?r = "f_read_pointer q" and ?n = "f_count q"
  have w: "f_write_pointer q = (?r + ?n) mod ?c" "?r < ?c" "length (f_elements q) = ?c"
    using ok True by (auto simp: fifo_ok_def)
  have other: "(?r + ?n) mod ?c \<noteq> (?r + i) mod ?c" if "i < ?n" for i
  proof
    assume "(?r + ?n) mod ?c = (?r + i) mod ?c"
    then have "?c dvd (?r + ?n) - (?r + i)"
      using that by (subst mod_eq_dvd_iff_nat [symmetric]) simp_all
    then show False using that True by (auto dest: dvd_imp_le)
  qed
  have lt: "(?r + ?n) mod ?c < ?c" using True by simp
  show ?thesis
    using True w other lt by (auto simp: fifo_list_def fifo_push_def Let_def)
qed (use ok in \<open>auto simp: fifo_push_def fifo_ok_def\<close>)

lemma fifo_list_pop:
  assumes ok: "fifo_ok q"
  shows "fifo_list (snd (fifo_pop q)) = tl (fifo_list q)"
    and "fst (fifo_pop q) = (if fifo_list q = [] then f_empty q else hd (fifo_list q))"
proof -
  show "fifo_list (snd (fifo_pop q)) = tl (fifo_list q)"
  proof (cases "f_count q")
    case (Suc n)
    have c: "f_read_pointer q < f_capacity q" using ok Suc by (auto simp: fifo_ok_def)
    have "map (\<lambda>i. f_elements q ! ((f_read_pointer q + i) mod f_capacity q)) [0..<Suc n] =
      f_elements q ! f_read_pointer q #
      map (\<lambda>i. f_elements q ! ((f_read_pointer q + Suc i) mod f_capacity q)) [0..<n]"
      using c by (simp add: upt_conv_Cons map_Suc_upt [symmetric] del: upt_Suc)
    moreover have "snd (fifo_pop q) =
        q\<lparr>f_count := n, f_read_pointer := Suc (f_read_pointer q) mod f_capacity q\<rparr>"
      using Suc c by (cases "Suc (f_read_pointer q) = f_capacity q") (auto simp: fifo_pop_def Let_def)
    ultimately show ?thesis
      using Suc by (simp add: fifo_list_def mod_add_left_eq del: upt_Suc)
  qed (simp add: fifo_pop_def fifo_list_def)
  show "fst (fifo_pop q) = (if fifo_list q = [] then f_empty q else hd (fifo_list q))"
    using ok by (auto simp: fifo_pop_def fifo_list_def Let_def fifo_ok_def hd_map)
qed

lemma fifo_push_fields [simp]:
  "f_capacity (fifo_push e q) = f_capacity q" "f_empty (fifo_push e q) = f_empty q"
  by (simp_all add: fifo_push_def Let_def)

lemma fifo_pop_fields [simp]:
  "f_capacity (snd (fifo_pop q)) = f_capacity q" "f_empty (snd (fifo_pop q)) = f_empty q"
  by (simp_all add: fifo_pop_def Let_def)

interpretation fifo: bounded_queue fifo_push fifo_pop fifo_head fifo_list f_capacity f_empty fifo_ok
proof unfold_locales
  fix q :: "'a fifo"
  assume "fifo_ok q"
  then show "fifo_head q = (if fifo_list q = [] then f_empty q else hd (fifo_list q))"
    using fifo_list_pop(2) [of q] by (auto simp: fifo_head_def fifo_pop_def Let_def)
qed (simp_all add: fifo_list_push fifo_list_pop inv_intros)

section \<open>Stack\<close>

record 'a stk =
  s_capacity :: nat
  s_count :: nat
  s_elements :: "'a list"
  s_empty :: 'a

definition stack_new :: "'a \<Rightarrow> nat \<Rightarrow> 'a \<Rightarrow> 'a stk" where
  "stack_new uninit sz def =
     \<lparr>s_capacity = sz, s_count = 0, s_elements = replicate sz uninit, s_empty = def\<rparr>"

definition stack_is_empty :: "'a stk \<Rightarrow> bool" where
  "stack_is_empty s \<longleftrightarrow> s_count s = 0"

definition stack_top :: "'a stk \<Rightarrow> 'a" where
  "stack_top s = (if s_count s = 0 then s_empty s else s_elements s ! (s_count s - 1))"

definition stack_pop :: "'a stk \<Rightarrow> 'a \<times> 'a stk" where
  "stack_pop s =
     (if s_count s = 0 then (s_empty s, s)
      else let n = s_count s - 1 in (s_elements s ! n, s\<lparr>s_count := n\<rparr>))"

definition stack_push :: "'a \<Rightarrow> 'a stk \<Rightarrow> bool \<times> 'a stk" where
  "stack_push e s =
     (if s_count s \<noteq> s_capacity s
      then (True, s\<lparr>s_elements := (s_elements s)[s_count s := e], s_count := s_count s + 1\<rparr>)
      else (False, s))"

definition stack_ok :: "'a stk \<Rightarrow> bool" where
  "stack_ok s \<longleftrightarrow> length (s_elements s) = s_capacity s \<and> s_count s \<le> s_capacity s"

text \<open>The stacked elements, the most recent one first.\<close>

definition stack_list :: "'a stk \<Rightarrow> 'a list" where
  "stack_list s = rev (take (s_count s) (s_elements s))"

lemma stack_new_ok [inv_intros]: "stack_ok (stack_new u n d)"
  by (simp add: stack_ok_def stack_new_def)

lemma stack_list_new [simp]: "stack_list (stack_new u n d) = []"
  by (simp add: stack_list_def stack_new_def)

lemma stack_push_ok [inv_intros]: "stack_ok s \<Longrightarrow> stack_ok (snd (stack_push e s))"
  by (auto simp: stack_ok_def stack_push_def)

lemma stack_pop_ok [inv_intros]: "stack_ok s \<Longrightarrow> stack_ok (snd (stack_pop s))"
  by (auto simp: stack_ok_def stack_pop_def Let_def)

lemma stack_list_push:
  "stack_ok s \<Longrightarrow> stack_push e s = (True, s') \<Longrightarrow> stack_list s' = e # stack_list s"
  by (auto simp: stack_ok_def stack_push_def stack_list_def take_Suc_conv_app_nth split: if_splits)

lemma stack_list_pop:
  assumes "stack_ok s" "stack_list s \<noteq> []"
  shows "fst (stack_pop s) = hd (stack_list s) \<and> stack_list (snd (stack_pop s)) = tl (stack_list s)"
proof (cases "s_count s")
  case (Suc n)
  then have "n < length (s_elements s)" using assms(1) by (simp add: stack_ok_def)
  with Suc show ?thesis
    by (simp add: stack_pop_def stack_list_def Let_def take_Suc_conv_app_nth)
qed (use assms in \<open>simp add: stack_list_def\<close>)

interpretation stk: bounded_stack stack_push stack_pop stack_list "\<lambda>s. s_capacity s - s_count s" stack_ok
proof unfold_locales
  fix s :: "'a stk" and x
  assume "stack_ok s"
  then show "fst (stack_push x s) \<longleftrightarrow> 0 < s_capacity s - s_count s"
    by (auto simp: stack_ok_def stack_push_def)
qed (simp_all add: inv_intros stack_list_pop stack_list_push)

section \<open>ManagedArray\<close>

text \<open>An array that grows when an element behind its end is set.  The argument of the access
  operations is a signed \<open>int\<close>.\<close>

record 'a marray =
  m_elements :: "'a list"
  m_empty :: 'a
  m_size :: nat

definition marray_new :: "nat \<Rightarrow> 'a \<Rightarrow> 'a marray" where
  "marray_new initial def = \<lparr>m_elements = replicate initial def, m_empty = def, m_size = initial\<rparr>"

definition marray_expand :: "'a \<Rightarrow> nat \<Rightarrow> 'a marray \<Rightarrow> 'a marray" where
  "marray_expand uninit newsize a =
     a\<lparr>m_elements := take (m_size a) (m_elements a) @ replicate (newsize - m_size a) uninit,
       m_size := newsize\<rparr>"

definition marray_set :: "'a \<Rightarrow> int \<Rightarrow> 'a \<Rightarrow> 'a marray \<Rightarrow> 'a marray" where
  "marray_set uninit i el a =
     (if i < 0 then a
      else let b = (if i \<ge> int (m_size a) then marray_expand uninit (nat (i + 1)) a else a)
           in b\<lparr>m_elements := (m_elements b)[nat i := el]\<rparr>)"

definition marray_unset :: "int \<Rightarrow> 'a marray \<Rightarrow> 'a marray" where
  "marray_unset i a =
     (if i < 0 then a else if i \<ge> int (m_size a) then a
      else a\<lparr>m_elements := (m_elements a)[nat i := m_empty a]\<rparr>)"

definition marray_get :: "'a marray \<Rightarrow> int \<Rightarrow> 'a" where
  "marray_get a i =
     (if i < 0 then m_empty a else if i \<ge> int (m_size a) then m_empty a
      else m_elements a ! nat i)"

definition marray_ok :: "'a marray \<Rightarrow> bool" where
  "marray_ok a \<longleftrightarrow> length (m_elements a) = m_size a"

lemma marray_new_ok [inv_intros]: "marray_ok (marray_new n d)"
  by (simp add: marray_ok_def marray_new_def)

lemma marray_set_ok [inv_intros]: "marray_ok a \<Longrightarrow> marray_ok (marray_set u i e a)"
  by (auto simp: marray_ok_def marray_set_def marray_expand_def Let_def)

lemma marray_unset_ok [inv_intros]: "marray_ok a \<Longrightarrow> marray_ok (marray_unset i a)"
  by (auto simp: marray_ok_def marray_unset_def)

lemma marray_get_set:
  assumes "marray_ok a" "0 \<le> i"
  shows "marray_get (marray_set u i e a) j =
    (if j = i then e
     else if int (m_size a) \<le> j \<and> j < i then u
     else marray_get a j)"
proof (cases "int (m_size a) \<le> i")
  case True
  show ?thesis
  proof (cases "0 \<le> j")
    case nonneg: True
    then have "nat j = nat i \<longleftrightarrow> j = i" using assms(2) by auto
    then show ?thesis
      using True nonneg assms
      by (simp add: marray_get_def marray_set_def marray_expand_def marray_ok_def nth_append
          nth_list_update nat_less_iff) (auto simp: nth_append)
  qed (use assms in \<open>simp add: marray_get_def marray_set_def marray_expand_def Let_def\<close>)
next
  case False
  show ?thesis
  proof (cases "0 \<le> j")
    case nonneg: True
    then have "nat j = nat i \<longleftrightarrow> j = i" using assms(2) by auto
    then show ?thesis
      using False nonneg assms
      by (auto simp: marray_get_def marray_set_def marray_ok_def nth_list_update nat_less_iff)
  qed (use assms in \<open>simp add: marray_get_def marray_set_def marray_expand_def Let_def\<close>)
qed

lemma marray_get_unset:
  "marray_ok a \<Longrightarrow> marray_get (marray_unset i a) j = (if j = i then m_empty a else marray_get a j)"
  by (auto simp: marray_get_def marray_unset_def marray_ok_def nat_less_iff nth_list_update
      split: if_splits) 

section \<open>Properties\<close>

text \<open>C36: A Fifo is a bounded first-in first-out queue: after pushing any sequence of elements into
  a new queue of capacity \<open>n\<close> and popping as many as are waiting, exactly the first \<open>n\<close> elements come
  out, in the order they were pushed; later ones are dropped.\<close>

theorem fifo_order:
  "fst (pop_many fifo_pop (fifo_get_count (fold fifo_push xs (fifo_new u n d)))
     (fold fifo_push xs (fifo_new u n d))) = take n xs"
proof -
  let ?q = "fold fifo_push xs (fifo_new u n d)"
  have ok: "fifo_ok ?q" by (intro fifo.push_many_ok inv_intros)
  have "fifo_list ?q = take n xs"
    by (subst fifo.push_many_waiting) (simp_all add: inv_intros)
  moreover have "fst (pop_many fifo_pop (length (fifo_list ?q)) ?q) = fifo_list ?q"
    using fifo.pop_many_waiting [OF ok order_refl] by (simp del: length_fifo_list)
  ultimately show ?thesis by (metis fifo_get_count_def length_fifo_list)
qed

end
