(* ===== verification/Indexed_List.thy ===== *)
theory Indexed_List
  imports Prelude
begin

text \<open>
  \<open>IndexedList\<close> of \<^verbatim>\<open>software/components/indexed_list.h\<close>, the growing array most of the firmware
  keeps its objects in, with its deferred removal marks and its comb sort, and the \<open>Dict\<close> of
  \<^verbatim>\<open>dict.h\<close> that pairs two of them.  The cells of freshly allocated memory hold the unspecified
  values \<open>u\<close> (elements) and \<open>ur\<close> (removal marks).  An operation that would access the arrays
  outside their bounds answers \<open>None\<close>.
\<close>

section \<open>State and operations\<close>

record 'a ilist =
  il_array :: "'a list"
  il_empty :: 'a
  il_removal :: "byte list"
  il_size :: nat
  il_elements :: nat

definition il_new :: "'a \<Rightarrow> byte \<Rightarrow> nat \<Rightarrow> 'a \<Rightarrow> 'a ilist" where
  "il_new u ur initial def =
     \<lparr>il_array = replicate initial u, il_empty = def, il_removal = replicate initial ur,
      il_size = initial, il_elements = 0\<rparr>"

definition il_expand :: "'a \<Rightarrow> byte \<Rightarrow> 'a ilist \<Rightarrow> 'a ilist" where
  "il_expand u ur l =
     (let sz = (if il_size l = 0 then 16 else il_size l * 2); n = il_elements l
      in l\<lparr>il_size := sz,
           il_array := take n (il_array l) @ replicate (sz - n) u,
           il_removal := take n (il_removal l) @ replicate (sz - n) ur\<rparr>)"

definition il_is_empty :: "'a ilist \<Rightarrow> bool" where
  "il_is_empty l \<longleftrightarrow> il_elements l = 0"

definition il_clear_list :: "'a ilist \<Rightarrow> 'a ilist" where
  "il_clear_list l = l\<lparr>il_elements := 0\<rparr>"

definition il_mark_for_removal :: "int \<Rightarrow> 'a ilist \<Rightarrow> 'a ilist option" where
  "il_mark_for_removal idx l =
     (if idx < int (il_size l)
      then (if idx < 0 then None else Some (l\<lparr>il_removal := (il_removal l)[nat idx := 1]\<rparr>))
      else Some l)"

text \<open>\<open>purge_list\<close> compacts the arrays in place: one iteration of its loop, with the write index
  \<open>left_over\<close> as the second component.\<close>

definition il_purge_step :: "nat \<Rightarrow> 'a ilist \<times> nat \<Rightarrow> 'a ilist \<times> nat" where
  "il_purge_step i = (\<lambda>(l, left_over).
     if il_removal l ! i = 0
     then (l\<lparr>il_removal := (il_removal l)[left_over := 0],
             il_array := (if i \<noteq> left_over then (il_array l)[left_over := il_array l ! i]
                          else il_array l)\<rparr>, left_over + 1)
     else (l, left_over))"

definition il_purge_list :: "'a ilist \<Rightarrow> 'a ilist" where
  "il_purge_list l =
     (case fold il_purge_step [0..<il_elements l] (l, 0) of
        (l', left_over) \<Rightarrow> l'\<lparr>il_elements := left_over\<rparr>)"

definition il_append :: "'a \<Rightarrow> byte \<Rightarrow> 'a \<Rightarrow> 'a ilist \<Rightarrow> 'a ilist" where
  "il_append u ur el l =
     (let l1 = (if il_elements l = il_size l then il_expand u ur l else l); n = il_elements l1
      in l1\<lparr>il_array := (il_array l1)[n := el],
            il_removal := (il_removal l1)[n := 0],
            il_elements := n + 1\<rparr>)"

text \<open>The loop of \<open>prepend\<close> moves the cells up from the top.\<close>

definition shift_up :: "nat \<Rightarrow> 'b list \<Rightarrow> 'b list" where
  "shift_up n xs = fold (\<lambda>i ys. ys[i := ys ! (i - 1)]) (rev [1..<Suc n]) xs"

definition il_prepend :: "'a \<Rightarrow> byte \<Rightarrow> 'a \<Rightarrow> 'a ilist \<Rightarrow> 'a ilist" where
  "il_prepend u ur el l =
     (let l1 = (if il_elements l = il_size l then il_expand u ur l else l); n = il_elements l1
      in l1\<lparr>il_array := (shift_up n (il_array l1))[0 := el],
            il_removal := (shift_up n (il_removal l1))[0 := 0],
            il_elements := n + 1\<rparr>)"

text \<open>The loop of the removals moves the cells \<open>i+1..n\<close> down by one.\<close>

definition shift_down :: "nat \<Rightarrow> nat \<Rightarrow> 'b list \<Rightarrow> 'b list" where
  "shift_down i n xs = fold (\<lambda>j ys. ys[j := ys ! (j + 1)]) [i..<n] xs"

definition il_remove_at :: "nat \<Rightarrow> 'a ilist \<Rightarrow> 'a ilist" where
  "il_remove_at i l =
     (let n = il_elements l - 1
      in l\<lparr>il_elements := n,
           il_array := shift_down i n (il_array l),
           il_removal := shift_down i n (il_removal l)\<rparr>)"

definition il_remove :: "'a \<Rightarrow> 'a ilist \<Rightarrow> int \<times> 'a ilist" where
  "il_remove el l =
     (case find (\<lambda>i. il_array l ! i = el) [0..<il_elements l] of
        None \<Rightarrow> (-1, l)
      | Some i \<Rightarrow> (int i, il_remove_at i l))"

definition il_remove_idx :: "int \<Rightarrow> 'a ilist \<Rightarrow> (int \<times> 'a ilist) option" where
  "il_remove_idx idx l =
     (if idx < int (il_elements l)
      then (if idx < 0 then None else Some (1, il_remove_at (nat idx) l))
      else Some (0, l))"

definition swap_cells :: "nat \<Rightarrow> nat \<Rightarrow> 'b list \<Rightarrow> 'b list" where
  "swap_cells i j xs = (let temp = xs ! j in (xs[j := xs ! i])[i := temp])"

definition il_swap :: "nat \<Rightarrow> nat \<Rightarrow> 'a ilist \<Rightarrow> 'a ilist option" where
  "il_swap i j l =
     (if i < il_size l \<and> j < il_size l
      then Some (l\<lparr>il_array := swap_cells i j (il_array l),
                   il_removal := swap_cells i j (il_removal l)\<rparr>)
      else None)"

definition il_replace_idx :: "nat \<Rightarrow> 'a \<Rightarrow> 'a ilist \<Rightarrow> 'a ilist option" where
  "il_replace_idx i el l =
     (if i < il_size l then Some (l\<lparr>il_array := (il_array l)[i := el]\<rparr>) else None)"

definition il_replace :: "'a \<Rightarrow> 'a \<Rightarrow> 'a ilist \<Rightarrow> 'a ilist" where
  "il_replace el el2 l =
     (case find (\<lambda>i. il_array l ! i = el) [0..<il_elements l] of
        None \<Rightarrow> l
      | Some i \<Rightarrow> l\<lparr>il_array := (il_array l)[i := el2]\<rparr>)"

definition il_get :: "'a ilist \<Rightarrow> int \<Rightarrow> 'a" where
  "il_get l i =
     (if i < 0 then il_empty l else if i \<ge> int (il_elements l) then il_empty l
      else il_array l ! nat i)"

section \<open>Comb sort\<close>

text \<open>The comparison gets the list and two indices, as the C++ callback does.  One pass compares all
  cells \<open>gap\<close> apart and counts its swaps; the gap shrinks by 10/13 before each pass, skipping 9
  and 10, and the loop runs until a pass with gap 1 swaps nothing.\<close>

type_synonym 'a il_compare = "'a ilist \<Rightarrow> nat \<Rightarrow> nat \<Rightarrow> int"

primrec comb_pass :: "'a il_compare \<Rightarrow> nat \<Rightarrow> nat list \<Rightarrow> 'a ilist \<times> nat \<Rightarrow> ('a ilist \<times> nat) option" where
  "comb_pass compare gap [] st = Some st"
| "comb_pass compare gap (i # is) st =
     (case st of (l, swaps) \<Rightarrow>
        if compare l i (i + gap) > 0
        then (case il_swap i (i + gap) l of
                None \<Rightarrow> None
              | Some l' \<Rightarrow> comb_pass compare gap is (l', swaps + 1))
        else comb_pass compare gap is (l, swaps))"

definition next_gap :: "nat \<Rightarrow> nat" where
  "next_gap gap =
     (if gap > 1
      then let g = (10 * gap) div 13 in if g = 10 \<or> g = 9 then 11 else g
      else gap)"

partial_function (option) comb_loop :: "'a il_compare \<Rightarrow> nat \<Rightarrow> 'a ilist \<Rightarrow> 'a ilist option" where
  "comb_loop compare gap l =
     (let g = next_gap gap
      in case comb_pass compare g [0..<il_elements l - g] (l, 0) of
           None \<Rightarrow> None
         | Some (l', swaps) \<Rightarrow>
             if swaps \<noteq> 0 \<or> g > 1 then comb_loop compare g l' else Some l')"

definition il_sort :: "'a il_compare \<Rightarrow> 'a ilist \<Rightarrow> 'a ilist option" where
  "il_sort compare l =
     (if il_elements l < 2 then Some l else comb_loop compare (il_elements l - 1) l)"

section \<open>The invariant and the sequence a list stands for\<close>

definition il_ok :: "'a ilist \<Rightarrow> bool" where
  "il_ok l \<longleftrightarrow> length (il_array l) = il_size l \<and> length (il_removal l) = il_size l \<and>
     il_elements l \<le> il_size l"

definition il_list :: "'a ilist \<Rightarrow> 'a list" where
  "il_list l = take (il_elements l) (il_array l)"

definition il_marks :: "'a ilist \<Rightarrow> bool list" where
  "il_marks l = map (\<lambda>b. b \<noteq> 0) (take (il_elements l) (il_removal l))"

lemma il_new_ok [inv_intros]: "il_ok (il_new u ur n d)"
  by (simp add: il_ok_def il_new_def)

lemma il_list_new [simp]: "il_list (il_new u ur n d) = []"
  by (simp add: il_list_def il_new_def)

lemma length_il_list [simp]: "il_ok l \<Longrightarrow> length (il_list l) = il_elements l"
  by (simp add: il_list_def il_ok_def)

lemma il_expand_ok:
  assumes "il_ok l"
  shows "il_ok (il_expand u ur l)" "il_elements l < il_size (il_expand u ur l) \<or> il_elements l < il_size l"
    "il_elements (il_expand u ur l) = il_elements l" "il_list (il_expand u ur l) = il_list l"
    "il_marks (il_expand u ur l) = il_marks l" "il_empty (il_expand u ur l) = il_empty l"
  using assms by (auto simp: il_ok_def il_expand_def Let_def il_list_def il_marks_def)

lemma il_append_props:
  assumes ok: "il_ok l"
  shows "il_ok (il_append u ur e l)" "il_list (il_append u ur e l) = il_list l @ [e]"
    "il_marks (il_append u ur e l) = il_marks l @ [False]"
    "il_elements (il_append u ur e l) = Suc (il_elements l)"
    "il_empty (il_append u ur e l) = il_empty l"
proof -
  define l1 where "l1 = (if il_elements l = il_size l then il_expand u ur l else l)"
  have l1: "il_ok l1" "il_elements l1 < il_size l1" "il_list l1 = il_list l" "il_marks l1 = il_marks l"
    "il_elements l1 = il_elements l" "il_empty l1 = il_empty l"
    using il_expand_ok [OF ok] ok by (auto simp: l1_def il_ok_def)
  have app: "il_append u ur e l = l1\<lparr>il_array := (il_array l1)[il_elements l1 := e],
      il_removal := (il_removal l1)[il_elements l1 := 0], il_elements := il_elements l1 + 1\<rparr>"
    by (simp add: il_append_def l1_def Let_def)
  show "il_ok (il_append u ur e l)" using l1 by (simp add: app il_ok_def)
  show "il_list (il_append u ur e l) = il_list l @ [e]"
    using l1 by (simp add: app il_list_def il_ok_def take_update_at_end)
  show "il_marks (il_append u ur e l) = il_marks l @ [False]"
    using l1 by (simp add: app il_marks_def il_ok_def take_update_at_end)
  show "il_elements (il_append u ur e l) = Suc (il_elements l)"
    "il_empty (il_append u ur e l) = il_empty l" using l1 by (simp_all add: app)
qed

subsection \<open>Shifting, removal and prepending\<close>

lemma length_shift_down [simp]: "length (shift_down i n xs) = length xs"
proof -
  have "length (fold (\<lambda>j ys. ys[j := ys ! (j + 1)]) is xs) = length xs" for "is" :: "nat list"
    by (induction "is" arbitrary: xs) auto
  then show ?thesis by (simp add: shift_down_def)
qed

lemma nth_shift_down:
  "n < length xs \<Longrightarrow> k < length xs \<Longrightarrow>
    shift_down i n xs ! k = (if i \<le> k \<and> k < n then xs ! (k + 1) else xs ! k)"
proof (induction n arbitrary: k)
  case 0
  then show ?case by (simp add: shift_down_def)
next
  case (Suc n)
  show ?case
  proof (cases "i \<le> n")
    case True
    have "shift_down i (Suc n) xs = (shift_down i n xs)[n := shift_down i n xs ! (n + 1)]"
      using True by (simp add: shift_down_def)
    with Suc True show ?thesis by (auto simp: nth_list_update less_Suc_eq)
  qed (use Suc in \<open>auto simp: shift_down_def\<close>)
qed

lemma take_shift_down:
  assumes "i \<le> n" "n < length xs"
  shows "take n (shift_down i n xs) = take i xs @ drop (Suc i) (take (Suc n) xs)"
  using assms by (intro list_eq_nthI [where n = n]) (auto simp: nth_shift_down nth_append)

lemma length_shift_up [simp]: "length (shift_up n xs) = length xs"
proof -
  have "length (fold (\<lambda>i ys. ys[i := ys ! (i - 1)]) is xs) = length xs" for "is" :: "nat list"
    by (induction "is" arbitrary: xs) auto
  then show ?thesis by (simp add: shift_up_def)
qed

lemma nth_shift_up:
  "n < length xs \<Longrightarrow> k < length xs \<Longrightarrow>
    shift_up n xs ! k = (if 1 \<le> k \<and> k \<le> n then xs ! (k - 1) else xs ! k)"
proof (induction n arbitrary: xs k)
  case 0
  then show ?case by (simp add: shift_up_def)
next
  case (Suc n)
  have "shift_up (Suc n) xs = shift_up n (xs[Suc n := xs ! n])"
    by (simp add: shift_up_def)
  moreover have "shift_up n (xs[Suc n := xs ! n]) ! k =
      (if 1 \<le> k \<and> k \<le> n then xs[Suc n := xs ! n] ! (k - 1) else xs[Suc n := xs ! n] ! k)"
    using Suc.prems by (intro Suc.IH) auto
  ultimately show ?case
    using Suc.prems by (auto simp: nth_list_update)
qed

lemma take_shift_up:
  assumes "n < length xs"
  shows "take (Suc n) ((shift_up n xs)[0 := e]) = e # take n xs"
proof -
  have "xs \<noteq> []" using assms by auto
  with assms show ?thesis
    by (intro list_eq_nthI [where n = "Suc n"])
      (auto simp: nth_shift_up nth_list_update nth_Cons split: nat.split)
qed

lemma il_remove_at_props:
  assumes "il_ok l" "i < il_elements l"
  shows "il_ok (il_remove_at i l)"
    "il_list (il_remove_at i l) = take i (il_list l) @ drop (Suc i) (il_list l)"
    "il_elements (il_remove_at i l) = il_elements l - 1"
  using assms by (auto simp: il_ok_def il_remove_at_def Let_def il_list_def take_shift_down min_def)

lemma il_prepend_props:
  assumes ok: "il_ok l"
  shows "il_ok (il_prepend u ur e l)" "il_list (il_prepend u ur e l) = e # il_list l"
    "il_marks (il_prepend u ur e l) = False # il_marks l"
proof -
  define l1 where "l1 = (if il_elements l = il_size l then il_expand u ur l else l)"
  have l1: "il_ok l1" "il_elements l1 < il_size l1" "il_list l1 = il_list l" "il_marks l1 = il_marks l"
    "il_elements l1 = il_elements l"
    using il_expand_ok [OF ok] ok by (auto simp: l1_def il_ok_def)
  have pre: "il_prepend u ur e l = l1\<lparr>il_array := (shift_up (il_elements l1) (il_array l1))[0 := e],
      il_removal := (shift_up (il_elements l1) (il_removal l1))[0 := 0],
      il_elements := il_elements l1 + 1\<rparr>"
    by (simp add: il_prepend_def l1_def Let_def)
  show "il_ok (il_prepend u ur e l)" using l1 by (simp add: pre il_ok_def)
  have "il_elements l1 < length (il_array l1)" "il_elements l1 < length (il_removal l1)"
    using l1 by (auto simp: il_ok_def)
  note shifted = this [THEN take_shift_up]
  show "il_list (il_prepend u ur e l) = e # il_list l"
    using l1(3) shifted(1) by (simp add: pre il_list_def)
  show "il_marks (il_prepend u ur e l) = False # il_marks l"
    using l1(4) shifted(2) by (simp add: pre il_marks_def)
qed

subsection \<open>Purging\<close>

definition kept :: "'a ilist \<Rightarrow> nat \<Rightarrow> 'a list" where
  "kept l m = map (\<lambda>i. il_array l ! i) (filter (\<lambda>i. il_removal l ! i = 0) [0..<m])"

lemma length_kept: "length (kept l m) \<le> m"
  by (simp add: kept_def le_trans [OF length_filter_le])

lemma purge_steps:
  assumes ok: "il_ok l"
  shows "m \<le> il_elements l \<Longrightarrow> \<exists>l'.
    fold il_purge_step [0..<m] (l, 0) = (l', length (kept l m)) \<and> il_ok l' \<and>
    il_elements l' = il_elements l \<and> il_size l' = il_size l \<and> il_empty l' = il_empty l \<and>
    take (length (kept l m)) (il_array l') = kept l m \<and>
    (\<forall>b \<in> set (take (length (kept l m)) (il_removal l')). b = 0) \<and>
    (\<forall>k. m \<le> k \<longrightarrow> il_array l' ! k = il_array l ! k \<and> il_removal l' ! k = il_removal l ! k)"
proof (induction m)
  case 0
  then show ?case using ok by (simp add: kept_def)
next
  case (Suc m)
  then obtain l' where l': "fold il_purge_step [0..<m] (l, 0) = (l', length (kept l m))" "il_ok l'"
    "il_elements l' = il_elements l" "il_size l' = il_size l" "il_empty l' = il_empty l"
    "take (length (kept l m)) (il_array l') = kept l m"
    "\<forall>b \<in> set (take (length (kept l m)) (il_removal l')). b = 0"
    "\<forall>k. m \<le> k \<longrightarrow> il_array l' ! k = il_array l ! k \<and> il_removal l' ! k = il_removal l ! k"
    by auto
  let ?n = "length (kept l m)"
  have bounds: "?n \<le> m" "m < length (il_array l')" "m < length (il_removal l')"
    using length_kept [of l m] l' Suc.prems ok by (auto simp: il_ok_def)
  show ?case
  proof (cases "il_removal l ! m = 0")
    case True
    have kept: "kept l (Suc m) = kept l m @ [il_array l ! m]" using True by (simp add: kept_def)
    define l2 where "l2 = l'\<lparr>il_removal := (il_removal l')[?n := 0],
      il_array := (if m \<noteq> ?n then (il_array l')[?n := il_array l ! m] else il_array l')\<rparr>"
    have "fold il_purge_step [0..<Suc m] (l, 0) = (l2, Suc ?n)"
      using True l'(8) by (simp add: l'(1) l2_def il_purge_step_def)
    moreover have "il_ok l2" using l'(2) by (simp add: l2_def il_ok_def)
    moreover have "take (Suc ?n) (il_array l2) = kept l m @ [il_array l ! m]"
      using l'(6,8) bounds by (cases "m = ?n") (auto simp: l2_def take_update_at_end take_Suc_conv_app_nth)
    moreover have "\<forall>b \<in> set (take (Suc ?n) (il_removal l2)). b = 0"
      using l'(7) bounds by (simp add: l2_def take_update_at_end)
    moreover have "\<forall>k. Suc m \<le> k \<longrightarrow>
        il_array l2 ! k = il_array l ! k \<and> il_removal l2 ! k = il_removal l ! k"
      using l'(8) bounds by (auto simp: l2_def)
    ultimately show ?thesis
      using l'(3-5) by (intro exI [of _ l2]) (simp add: kept, simp add: l2_def)
  next
    case False
    then have "kept l (Suc m) = kept l m" by (simp add: kept_def)
    moreover have "fold il_purge_step [0..<Suc m] (l, 0) = il_purge_step m (l', ?n)"
      by (simp add: l'(1))
    then have "fold il_purge_step [0..<Suc m] (l, 0) = (l', ?n)"
      using False l'(8) by (simp add: il_purge_step_def)
    ultimately show ?thesis
      using l'(2-8) by (intro exI [of _ l']) (simp del: upt_Suc)
  qed
qed

lemma kept_zip:
  assumes "il_ok l"
  shows "kept l (il_elements l) = map fst (filter (\<lambda>(x, m). \<not> m) (zip (il_list l) (il_marks l)))"
proof -
  have "kept l m = map fst (filter (\<lambda>(x, m). \<not> m)
      (zip (take m (il_array l)) (map (\<lambda>b. b \<noteq> 0) (take m (il_removal l)))))"
    if "m \<le> il_size l" for m
    using that
  proof (induction m)
    case (Suc m)
    then have "m < length (il_array l)" "m < length (il_removal l)"
      using assms by (auto simp: il_ok_def)
    with Suc show ?case by (simp add: kept_def take_Suc_conv_app_nth)
  qed (simp add: kept_def)
  then show ?thesis using assms by (simp add: il_list_def il_marks_def il_ok_def)
qed

lemma il_purge_list_props:
  assumes ok: "il_ok l"
  shows "il_ok (il_purge_list l)"
    "il_list (il_purge_list l) = map fst (filter (\<lambda>(x, m). \<not> m) (zip (il_list l) (il_marks l)))"
    "\<forall>m \<in> set (il_marks (il_purge_list l)). \<not> m"
proof -
  let ?k = "kept l (il_elements l)"
  obtain l' where l': "fold il_purge_step [0..<il_elements l] (l, 0) = (l', length ?k)" "il_ok l'"
    "il_elements l' = il_elements l" "take (length ?k) (il_array l') = ?k"
    "\<forall>b \<in> set (take (length ?k) (il_removal l')). b = 0"
    using purge_steps [OF ok order_refl] by blast
  have purge: "il_purge_list l = l'\<lparr>il_elements := length ?k\<rparr>"
    by (simp add: il_purge_list_def l'(1))
  show "il_ok (il_purge_list l)"
    using l'(2,3) length_kept [of l "il_elements l"] by (auto simp: purge il_ok_def)
  show "il_list (il_purge_list l) = map fst (filter (\<lambda>(x, m). \<not> m) (zip (il_list l) (il_marks l)))"
    using l'(4) by (simp add: purge kept_zip [OF ok, symmetric]) (simp add: il_list_def)
  show "\<forall>m \<in> set (il_marks (il_purge_list l)). \<not> m"
    using l'(5) by (auto simp: purge il_marks_def)
qed

section \<open>Swapping and sorting\<close>

definition il_cells :: "'a ilist \<Rightarrow> ('a \<times> bool) list" where
  "il_cells l = zip (il_list l) (il_marks l)"

lemma length_il_marks [simp]: "il_ok l \<Longrightarrow> length (il_marks l) = il_elements l"
  by (simp add: il_marks_def il_ok_def)

lemma map_fst_il_cells: "il_ok l \<Longrightarrow> map fst (il_cells l) = il_list l"
  by (simp add: il_cells_def)

lemma length_swap_cells [simp]: "length (swap_cells i j xs) = length xs"
  by (simp add: swap_cells_def Let_def)

lemma mset_swap_cells: "i < length xs \<Longrightarrow> j < length xs \<Longrightarrow> mset (swap_cells i j xs) = mset xs"
  by (simp add: swap_cells_def Let_def mset_swap)

lemma map_swap_cells: "i < length xs \<Longrightarrow> j < length xs \<Longrightarrow>
    map f (swap_cells i j xs) = swap_cells i j (map f xs)"
  by (simp add: swap_cells_def Let_def map_update)

lemma take_swap_cells: "i < n \<Longrightarrow> j < n \<Longrightarrow> n \<le> length xs \<Longrightarrow>
    take n (swap_cells i j xs) = swap_cells i j (take n xs)"
  by (simp add: swap_cells_def Let_def take_update_swap)

lemma zip_swap_cells: "length xs = length ys \<Longrightarrow> i < length xs \<Longrightarrow> j < length xs \<Longrightarrow>
    zip (swap_cells i j xs) (swap_cells i j ys) = swap_cells i j (zip xs ys)"
  by (simp add: swap_cells_def Let_def update_zip)

lemma il_swap_in_list:
  assumes "il_ok l" "i < il_elements l" "j < il_elements l"
  obtains l' where "il_swap i j l = Some l'" "il_ok l'" "il_elements l' = il_elements l"
    "il_cells l' = swap_cells i j (il_cells l)"
proof -
  define l' where "l' = l\<lparr>il_array := swap_cells i j (il_array l),
    il_removal := swap_cells i j (il_removal l)\<rparr>"
  have "il_swap i j l = Some l'" "il_ok l'" "il_elements l' = il_elements l"
    using assms by (auto simp: il_swap_def il_ok_def l'_def)
  moreover have "il_cells l' = swap_cells i j (il_cells l)"
    using assms
    by (simp add: il_cells_def il_list_def il_marks_def l'_def il_ok_def take_swap_cells
        map_swap_cells zip_swap_cells)
  ultimately show ?thesis by (rule that)
qed

text \<open>The number of pairs out of order, which an exchange of neighbours out of order reduces by one.\<close>

fun inversions :: "('a \<Rightarrow> 'a \<Rightarrow> bool) \<Rightarrow> 'a list \<Rightarrow> nat" where
  "inversions le [] = 0"
| "inversions le (x # xs) = length (filter (\<lambda>y. \<not> le x y) xs) + inversions le xs"

lemma inversions_swap_neighbours:
  "\<not> le a b \<Longrightarrow> le b a \<Longrightarrow>
    Suc (inversions le (xs @ b # a # ys)) = inversions le (xs @ a # b # ys)"
  by (induction xs) auto

lemma inversions_swap_cells:
  assumes "Suc i < length xs" "\<not> le (xs ! i) (xs ! Suc i)" "le (xs ! Suc i) (xs ! i)"
  shows "Suc (inversions le (swap_cells i (Suc i) xs)) = inversions le xs"
proof -
  let ?a = "xs ! i" and ?b = "xs ! Suc i"
  have xs: "xs = take i xs @ ?a # ?b # drop (Suc (Suc i)) xs"
    using assms(1) by (metis Cons_nth_drop_Suc Suc_lessD append_take_drop_id)
  have "swap_cells i (Suc i) (take i xs @ a # b # zs) = take i xs @ b # a # zs" for a b zs
    using assms(1) by (simp add: swap_cells_def Let_def nth_append list_update_append min_def)
  from this [of ?a ?b "drop (Suc (Suc i)) xs"]
  have "swap_cells i (Suc i) xs = take i xs @ ?b # ?a # drop (Suc (Suc i)) xs"
    using xs by simp
  with inversions_swap_neighbours [of le ?a ?b "take i xs" "drop (Suc (Suc i)) xs"] assms(2,3) xs
  show ?thesis by simp
qed

text \<open>What the callback must do: answer a positive number exactly when the first cell's element must
  not come before the second's.\<close>

definition compares :: "('a \<Rightarrow> 'a \<Rightarrow> bool) \<Rightarrow> 'a il_compare \<Rightarrow> bool" where
  "compares le compare \<longleftrightarrow>
     (\<forall>l i j. il_ok l \<longrightarrow> i < il_elements l \<longrightarrow> j < il_elements l \<longrightarrow>
        (compare l i j > 0 \<longleftrightarrow> \<not> le (il_list l ! i) (il_list l ! j)))"

lemma comb_pass_props:
  assumes cmp: "compares le compare" and total: "\<And>x y. le x y \<or> le y x"
  shows "il_ok l \<Longrightarrow> \<forall>i \<in> set is. i + gap < il_elements l \<Longrightarrow> \<exists>l' n.
    comb_pass compare gap is (l, swaps) = Some (l', swaps + n) \<and> il_ok l' \<and>
    il_elements l' = il_elements l \<and> mset (il_cells l') = mset (il_cells l) \<and>
    (gap = 1 \<longrightarrow> inversions le (il_list l') + n = inversions le (il_list l)) \<and>
    (n = 0 \<longrightarrow> l' = l \<and> (\<forall>i \<in> set is. le (il_list l ! i) (il_list l ! (i + gap))))"
proof (induction "is" arbitrary: l swaps)
  case (Cons i "is")
  then have i: "i < il_elements l" "i + gap < il_elements l" by auto
  show ?case
  proof (cases "le (il_list l ! i) (il_list l ! (i + gap))")
    case True
    with cmp i Cons.prems have "\<not> compare l i (i + gap) > 0" by (auto simp: compares_def)
    moreover obtain l' n where "comb_pass compare gap is (l, swaps) = Some (l', swaps + n)" "il_ok l'"
      "il_elements l' = il_elements l" "mset (il_cells l') = mset (il_cells l)"
      "gap = 1 \<longrightarrow> inversions le (il_list l') + n = inversions le (il_list l)"
      "n = 0 \<longrightarrow> l' = l \<and> (\<forall>i \<in> set is. le (il_list l ! i) (il_list l ! (i + gap)))"
      using Cons.IH [of l swaps] Cons.prems by auto
    ultimately show ?thesis using True by auto
  next
    case False
    with cmp i Cons.prems have pos: "compare l i (i + gap) > 0" by (auto simp: compares_def)
    obtain l1 where l1: "il_swap i (i + gap) l = Some l1" "il_ok l1" "il_elements l1 = il_elements l"
      "il_cells l1 = swap_cells i (i + gap) (il_cells l)"
      using il_swap_in_list [OF Cons.prems(1) i] .
    obtain l' n where l': "comb_pass compare gap is (l1, Suc swaps) = Some (l', Suc swaps + n)" "il_ok l'"
      "il_elements l' = il_elements l1" "mset (il_cells l') = mset (il_cells l1)"
      "gap = 1 \<longrightarrow> inversions le (il_list l') + n = inversions le (il_list l1)"
      using Cons.IH [of l1 "Suc swaps"] Cons.prems l1 by auto
    have len: "length (il_cells l) = il_elements l" using Cons.prems by (simp add: il_cells_def)
    have "mset (il_cells l1) = mset (il_cells l)" using l1(4) i len by (simp add: mset_swap_cells)
    moreover have "il_list l1 = swap_cells i (i + gap) (il_list l)"
      using l1(2,4) Cons.prems(1) i len by (simp add: map_swap_cells flip: map_fst_il_cells)
    then have "gap = 1 \<longrightarrow> Suc (inversions le (il_list l1)) = inversions le (il_list l)"
      using False total [of "il_list l ! Suc i" "il_list l ! i"] i Cons.prems(1)
      by (auto intro!: inversions_swap_cells)
    ultimately show ?thesis
      using pos l1 l' by (intro exI [of _ l'] exI [of _ "Suc n"]) auto
  qed
qed auto

lemma next_gap_less:
  assumes "gap > 1"
  shows "next_gap gap < gap \<and> 1 \<le> next_gap gap"
proof -
  have "10 * gap div 13 < gap" "1 \<le> 10 * gap div 13" "9 \<le> 10 * gap div 13 \<Longrightarrow> 11 < gap"
    using assms by linarith+
  then show ?thesis using assms by (auto simp: next_gap_def Let_def)
qed

lemma next_gap_1 [simp]: "next_gap (Suc 0) = 1"
  by (simp add: next_gap_def)

lemma comb_loop_props:
  assumes cmp: "compares le compare" and total: "\<And>x y. le x y \<or> le y x" and trans: "transp le"
  shows "il_ok l \<Longrightarrow> 1 \<le> gap \<Longrightarrow> \<exists>l'. comb_loop compare gap l = Some l' \<and> il_ok l' \<and>
    mset (il_cells l') = mset (il_cells l) \<and> sorted_wrt le (il_list l')"
proof (induction "(gap, l)" arbitrary: gap l
    rule: wf_induct_rule [OF wf_measures [of "[fst, \<lambda>(g, l). inversions le (il_list l)]"]])
  case (1 gap l)
  let ?g = "next_gap gap"
  have g: "1 \<le> ?g" "gap > 1 \<Longrightarrow> ?g < gap" "\<not> gap > 1 \<Longrightarrow> ?g = gap"
    using next_gap_less [of gap] 1(3) by (auto simp: next_gap_def)
  have "\<forall>i \<in> set [0..<il_elements l - ?g]. i + ?g < il_elements l" by auto
  from comb_pass_props [where le = le and compare = compare and swaps = 0, OF cmp total 1(2) this]
  obtain l' n where l': "comb_pass compare ?g [0..<il_elements l - ?g] (l, 0) = Some (l', n)" "il_ok l'"
    "il_elements l' = il_elements l" "mset (il_cells l') = mset (il_cells l)"
    "?g = 1 \<longrightarrow> inversions le (il_list l') + n = inversions le (il_list l)"
    "n = 0 \<longrightarrow> l' = l \<and> (\<forall>i \<in> set [0..<il_elements l - ?g]. le (il_list l ! i) (il_list l ! (i + ?g)))"
    by auto
  show ?case
  proof (cases "n \<noteq> 0 \<or> ?g > 1")
    case True
    have "((?g, l'), gap, l) \<in> measures [fst, \<lambda>(g, l). inversions le (il_list l)]"
      using True g l'(5) by (cases "gap > 1") auto
    from 1(1) [OF this l'(2) g(1)] True l' show ?thesis
      by (subst comb_loop.simps) (auto simp: Let_def)
  next
    case False
    with g(1) have "?g = 1" "n = 0" by auto
    moreover have "sorted_wrt le (il_list l)"
      using l'(6) 1(2) trans calculation by (auto simp: sorted_wrt_iff_nth_Suc_transp)
    ultimately show ?thesis
      using l' by (subst comb_loop.simps) (auto simp: Let_def)
  qed
qed

lemma il_sort_props:
  assumes "compares le compare" "\<And>x y. le x y \<or> le y x" "transp le" "il_ok l"
  shows "\<exists>l'. il_sort compare l = Some l' \<and> il_ok l' \<and>
    mset (il_cells l') = mset (il_cells l) \<and> sorted_wrt le (il_list l')"
proof (cases "il_elements l < 2")
  case True
  then have "sorted_wrt le (il_list l)"
    using assms(4) by (intro sorted_wrt_mono_rel [OF _ sorted_wrt01, of _ le])
      (auto simp: il_list_def il_ok_def)
  with True assms show ?thesis by (simp add: il_sort_def)
next
  case False
  with comb_loop_props [OF assms, of "il_elements l - 1"] show ?thesis by (simp add: il_sort_def)
qed

section \<open>Properties\<close>

text \<open>C28: \<open>sort\<close> terminates and sorts: with a comparison function that reports exactly the pairs out
  of order for a total preorder, the comb sort returns, stays inside the arrays, and leaves the same
  elements with their removal marks, in order.\<close>

theorem il_sort_correct:
  assumes "compares le compare" "\<And>x y. le x y \<or> le y x" "transp le" "il_ok l"
  shows "\<exists>l'. il_sort compare l = Some l' \<and> il_ok l' \<and>
    mset (il_cells l') = mset (il_cells l) \<and> sorted_wrt le (il_list l')"
  using assms by (rule il_sort_props)

lemma il_sort_correct_witness:
  "\<exists>l'. il_sort (\<lambda>l i j. il_get l (int i) - il_get l (int j))
     \<lparr>il_array = [5, 3, 9, 1], il_empty = 0, il_removal = [0, 0, 1, 0], il_size = 4, il_elements = 4\<rparr>
     = Some l' \<and> sorted (il_list l') \<and> mset (il_list l') = {#1, 3, 5, 9 :: int#}"
proof -
  let ?l = "\<lparr>il_array = [5, 3, 9, 1], il_empty = 0, il_removal = [0, 0, 1, 0], il_size = 4,
    il_elements = 4\<rparr> :: int ilist"
  let ?cmp = "\<lambda>l i j. il_get l (int i) - il_get l (int j) :: int"
  have cmp: "compares (\<le>) ?cmp"
    by (auto simp: compares_def il_get_def il_list_def)
  have ok: "il_ok ?l" by (simp add: il_ok_def)
  obtain l' where l': "il_sort ?cmp ?l = Some l'" "il_ok l'" "mset (il_cells l') = mset (il_cells ?l)"
    "sorted_wrt (\<le>) (il_list l')"
    using il_sort_correct [OF cmp linear transp_on_le ok] by blast
  have "mset (il_list l') = image_mset fst (mset (il_cells l'))"
    using l'(2) by (simp flip: map_fst_il_cells)
  also have "\<dots> = {#1, 3, 5, 9#}"
    unfolding l'(3) by (simp add: il_cells_def il_list_def il_marks_def)
  finally show ?thesis using l' by auto
qed

text \<open>\<open>purge_list\<close> removes exactly the marked elements and keeps the others in their order, all
  of them unmarked.\<close>

lemma il_purge_correct:
  assumes "il_ok l"
  shows "il_ok (il_purge_list l) \<and>
    il_list (il_purge_list l) = map fst (filter (\<lambda>(x, m). \<not> m) (zip (il_list l) (il_marks l))) \<and>
    True \<notin> set (il_marks (il_purge_list l))"
  using il_purge_list_props [OF assms] by auto

lemma il_purge_correct_witness:
  "il_list (il_purge_list
     \<lparr>il_array = ''abcd'', il_empty = CHR ''-'', il_removal = [0, 1, 0, 1], il_size = 4,
      il_elements = 3\<rparr>) = ''ac''"
  using il_purge_correct [of "\<lparr>il_array = ''abcd'', il_empty = CHR ''-'', il_removal = [0, 1, 0, 1],
      il_size = 4, il_elements = 3\<rparr>"]
  by (simp add: il_ok_def il_list_def il_marks_def)

end
