(* ===== verification/Dictionary.thy ===== *)
theory Dictionary
  imports Indexed_List
begin

text \<open>
  \<open>Dict\<close> of \<^verbatim>\<open>software/components/dict.h\<close>: two indexed lists, one of keys and one of values, at
  equal positions.  Keys are compared with a function (such as \<open>strcmp\<close>) or, without one, by
  equality.  The interface \<open>assoc_store\<close> is what the clients of the class (the argument and route
  tables of the API) rely on.
\<close>

section \<open>Interface\<close>

locale assoc_store =
  fixes look :: "'s \<Rightarrow> 'k \<Rightarrow> 'v option"
    and update :: "'k \<Rightarrow> 'v \<Rightarrow> 's \<Rightarrow> 's"
    and same :: "'s \<Rightarrow> 'k \<Rightarrow> 'k \<Rightarrow> bool"
    and store_ok :: "'s \<Rightarrow> bool"
  assumes update_ok: "store_ok s \<Longrightarrow> store_ok (update k v s)"
    and update_same: "same (update k v s) = same s"
    and look_update: "store_ok s \<Longrightarrow>
      look (update k v s) k' = (if same s k k' then Some v else look s k')"
begin

definition update_many :: "('k \<times> 'v) list \<Rightarrow> 's \<Rightarrow> 's" where
  "update_many kvs s = fold (\<lambda>(k, v). update k v) kvs s"

lemma update_many_ok: "store_ok s \<Longrightarrow> store_ok (update_many kvs s)"
  by (induction kvs arbitrary: s) (auto simp: update_many_def intro: update_ok)

lemma update_many_look:
  "store_ok s \<Longrightarrow> look (update_many kvs s) k =
    (case find (\<lambda>(k', v). same s k' k) (rev kvs) of None \<Rightarrow> look s k | Some (k', v) \<Rightarrow> Some v)"
proof (induction kvs rule: rev_induct)
  case (snoc p kvs)
  have "same (update_many kvs s) = same s"
    by (induction kvs arbitrary: s) (auto simp: update_many_def update_same)
  then show ?case
    using snoc look_update [OF update_many_ok [OF snoc.prems]]
    by (cases p) (simp add: update_many_def)
qed (simp add: update_many_def)

end

section \<open>State and operations\<close>

record ('k, 'v) dict =
  d_keys :: "'k ilist"
  d_values :: "'v ilist"
  d_defK :: 'k
  d_defV :: 'v
  d_compare :: "('k \<Rightarrow> 'k \<Rightarrow> int) option"

text \<open>The unspecified contents of fresh memory: a key, a value and a removal mark.\<close>

type_synonym ('k, 'v) uninit = "'k \<times> 'v \<times> byte"

definition dict_new ::
  "('k, 'v) uninit \<Rightarrow> nat \<Rightarrow> 'k \<Rightarrow> 'v \<Rightarrow> ('k \<Rightarrow> 'k \<Rightarrow> int) option \<Rightarrow> ('k, 'v) dict" where
  "dict_new u initial defK defV compfunc =
     (case u of (uk, uv, ur) \<Rightarrow>
       \<lparr>d_keys = il_new uk ur initial defK, d_values = il_new uv ur initial defV,
        d_defK = defK, d_defV = defV, d_compare = compfunc\<rparr>)"

definition dict_is_empty :: "('k, 'v) dict \<Rightarrow> bool" where
  "dict_is_empty d = il_is_empty (d_keys d)"

definition dict_clear :: "('k, 'v) dict \<Rightarrow> ('k, 'v) dict" where
  "dict_clear d = d\<lparr>d_keys := il_clear_list (d_keys d), d_values := il_clear_list (d_values d)\<rparr>"

definition dict_append :: "('k, 'v) uninit \<Rightarrow> 'k \<Rightarrow> 'v \<Rightarrow> ('k, 'v) dict \<Rightarrow> ('k, 'v) dict" where
  "dict_append u key val d =
     (case u of (uk, uv, ur) \<Rightarrow>
       d\<lparr>d_keys := il_append uk ur key (d_keys d), d_values := il_append uv ur val (d_values d)\<rparr>)"

definition key_matches :: "('k \<Rightarrow> 'k \<Rightarrow> int) option \<Rightarrow> 'k \<Rightarrow> 'k \<Rightarrow> bool" where
  "key_matches compare a b = (case compare of None \<Rightarrow> a = b | Some cmp \<Rightarrow> cmp a b = 0)"

definition dict_index_of :: "('k, 'v) dict \<Rightarrow> 'k \<Rightarrow> int" where
  "dict_index_of d key =
     (case find (\<lambda>i. key_matches (d_compare d) (il_get (d_keys d) (int i)) key)
             [0..<il_elements (d_keys d)] of
        None \<Rightarrow> -1
      | Some i \<Rightarrow> int i)"

text \<open>\<open>pop\<close> passes the index to \<open>remove\<close>, which takes an element: the code only makes sense for a
  dictionary from integers to integers, where it removes the key and the value equal to the index.\<close>

definition dict_pop :: "int \<Rightarrow> (int, int) dict \<Rightarrow> int \<times> (int, int) dict" where
  "dict_pop key d =
     (let i = dict_index_of d key
      in if i \<noteq> -1
         then (i, d\<lparr>d_keys := snd (il_remove i (d_keys d)), d_values := snd (il_remove i (d_values d))\<rparr>)
         else (i, d))"

definition dict_swap :: "nat \<Rightarrow> nat \<Rightarrow> ('k, 'v) dict \<Rightarrow> ('k, 'v) dict option" where
  "dict_swap i j d =
     (case il_swap i j (d_keys d) of None \<Rightarrow> None
      | Some ks \<Rightarrow>
        (case il_swap i j (d_values d) of None \<Rightarrow> None
         | Some vs \<Rightarrow> Some (d\<lparr>d_keys := ks, d_values := vs\<rparr>)))"

definition dict_get_key :: "('k, 'v) dict \<Rightarrow> int \<Rightarrow> 'k" where
  "dict_get_key d index =
     (if index < 0 \<or> index \<ge> int (il_elements (d_keys d)) then d_defK d else il_get (d_keys d) index)"

definition dict_get_value :: "('k, 'v) dict \<Rightarrow> int \<Rightarrow> 'v" where
  "dict_get_value d index =
     (if index < 0 \<or> index \<ge> int (il_elements (d_values d)) then d_defV d else il_get (d_values d) index)"

definition dict_get_or :: "('k, 'v) dict \<Rightarrow> 'k \<Rightarrow> 'v \<Rightarrow> 'v" where
  "dict_get_or d key alt =
     (let idx = dict_index_of d key in if idx = -1 then alt else il_get (d_values d) idx)"

definition dict_set :: "('k, 'v) uninit \<Rightarrow> 'k \<Rightarrow> 'v \<Rightarrow> ('k, 'v) dict \<Rightarrow> ('k, 'v) dict" where
  "dict_set u key val d =
     (let i = dict_index_of d key
      in if i = -1 then dict_append u key val d
         else case il_replace_idx (nat i) val (d_values d) of
                None \<Rightarrow> d
              | Some vs \<Rightarrow> d\<lparr>d_values := vs\<rparr>)"

definition dict_get :: "('k, 'v) dict \<Rightarrow> 'k \<Rightarrow> 'v" where
  "dict_get d key = dict_get_or d key (d_defV d)"

section \<open>The mapping a dictionary stands for\<close>

definition dict_pairs :: "('k, 'v) dict \<Rightarrow> ('k \<times> 'v) list" where
  "dict_pairs d = zip (il_list (d_keys d)) (il_list (d_values d))"

definition dict_look :: "('k, 'v) dict \<Rightarrow> 'k \<Rightarrow> 'v option" where
  "dict_look d key =
     map_option snd (find (\<lambda>(k, v). key_matches (d_compare d) k key) (dict_pairs d))"

definition dict_ok :: "('k, 'v) dict \<Rightarrow> bool" where
  "dict_ok d \<longleftrightarrow> il_ok (d_keys d) \<and> il_ok (d_values d) \<and>
     il_elements (d_keys d) = il_elements (d_values d) \<and> equivp (key_matches (d_compare d))"

lemma key_matches_equality: "equivp (key_matches None)"
  by (auto simp: key_matches_def equivp_def fun_eq_iff)

lemma il_get_nth: "il_ok l \<Longrightarrow> i < il_elements l \<Longrightarrow> il_get l (int i) = il_list l ! i"
  by (simp add: il_get_def il_list_def)

lemma length_dict_pairs: "dict_ok d \<Longrightarrow> length (dict_pairs d) = il_elements (d_keys d)"
  by (simp add: dict_pairs_def dict_ok_def)

lemma nth_dict_pairs:
  "dict_ok d \<Longrightarrow> i < il_elements (d_keys d) \<Longrightarrow>
    dict_pairs d ! i = (il_get (d_keys d) (int i), il_get (d_values d) (int i))"
  by (simp add: dict_pairs_def dict_ok_def il_get_nth)

lemma find_nth:
  "find P xs = map_option (\<lambda>i. xs ! i) (find (\<lambda>i. P (xs ! i)) [0..<length xs])"
proof (induction xs)
  case (Cons x xs)
  have "find (\<lambda>i. P ((x # xs) ! i)) (map Suc is) = map_option Suc (find (\<lambda>i. P (xs ! i)) is)" for "is"
    by (induction "is") auto
  moreover have "[0..<length (x # xs)] = 0 # map Suc [0..<length xs]"
    by (simp add: map_Suc_upt upt_conv_Cons del: upt_Suc)
  ultimately show ?case
    using Cons by (simp del: upt_Suc add: option.map_comp comp_def)
qed simp

lemma dict_look_nth:
  "dict_look d key =
    map_option (\<lambda>i. snd (dict_pairs d ! i))
      (find (\<lambda>i. key_matches (d_compare d) (fst (dict_pairs d ! i)) key) [0..<length (dict_pairs d)])"
  using find_nth [of "\<lambda>p. key_matches (d_compare d) (fst p) key" "dict_pairs d"]
  by (simp add: dict_look_def case_prod_beta' option.map_comp comp_def)

lemma dict_index_cases:
  assumes ok: "dict_ok d"
  shows "dict_index_of d key = -1 \<and> dict_look d key = None \<or>
    (\<exists>i < il_elements (d_keys d). dict_index_of d key = int i \<and>
       key_matches (d_compare d) (fst (dict_pairs d ! i)) key \<and>
       (\<forall>j < i. \<not> key_matches (d_compare d) (fst (dict_pairs d ! j)) key) \<and>
       dict_look d key = Some (snd (dict_pairs d ! i)))"
proof -
  let ?P = "\<lambda>p. key_matches (d_compare d) (fst p) key"
  let ?f = "find (\<lambda>i. ?P (dict_pairs d ! i)) [0..<length (dict_pairs d)]"
  have look: "dict_look d key = map_option (\<lambda>i. snd (dict_pairs d ! i)) ?f"
    by (rule dict_look_nth)
  have "find (\<lambda>i. key_matches (d_compare d) (il_get (d_keys d) (int i)) key)
      [0..<il_elements (d_keys d)] = ?f"
    using ok by (intro find_cong) (auto simp: length_dict_pairs nth_dict_pairs)
  then have idx: "dict_index_of d key = (case ?f of None \<Rightarrow> -1 | Some i \<Rightarrow> int i)"
    by (simp add: dict_index_of_def)
  show ?thesis
  proof (cases ?f)
    case (Some i)
    then have "i < il_elements (d_keys d)" "?P (dict_pairs d ! i)"
      "\<forall>j < i. \<not> ?P (dict_pairs d ! j)"
      using length_dict_pairs [OF ok] by (auto simp: find_Some_iff)
    with Some look idx show ?thesis by (auto intro!: exI [of _ i])
  qed (use look idx in auto)
qed

lemma dict_get_or_look: "dict_ok d \<Longrightarrow>
    dict_get_or d key alt = (case dict_look d key of None \<Rightarrow> alt | Some v \<Rightarrow> v)"
  using dict_index_cases [of d key] by (auto simp: dict_get_or_def Let_def nth_dict_pairs)

lemma dict_new_ok: "equivp (key_matches c) \<Longrightarrow> dict_ok (dict_new u n k v c)"
  by (cases u) (simp add: dict_ok_def dict_new_def il_new_ok, simp add: il_new_def)

lemma dict_look_new [simp]: "dict_look (dict_new u n k v c) key = None"
  by (cases u) (simp add: dict_look_def dict_pairs_def dict_new_def)

lemma dict_append_props:
  assumes "dict_ok d"
  shows "dict_ok (dict_append u k v d)" "dict_pairs (dict_append u k v d) = dict_pairs d @ [(k, v)]"
  using assms by (cases u; simp add: dict_ok_def dict_append_def dict_pairs_def il_append_props)+

lemma dict_compare_set [simp]: "d_compare (dict_set u k v d) = d_compare d"
  by (auto simp: dict_set_def Let_def dict_append_def split: prod.splits option.splits)

lemma dict_set_props:
  assumes ok: "dict_ok d"
  shows "dict_ok (dict_set u k v d) \<and>
    dict_look (dict_set u k v d) k' =
      (if key_matches (d_compare d) k k' then Some v else dict_look d k')"
  using dict_index_cases [OF ok, of k]
proof (elim disjE exE conjE)
  assume new: "dict_index_of d k = -1" "dict_look d k = None"
  then have set: "dict_set u k v d = dict_append u k v d" by (simp add: dict_set_def)
  have eq: "equivp (key_matches (d_compare d))" using ok by (simp add: dict_ok_def)
  have cmp: "d_compare (dict_append u k v d) = d_compare d"
    by (simp add: dict_append_def split: prod.split)
  have "dict_look d k' = None" if "key_matches (d_compare d) k k'"
  proof -
    have "key_matches (d_compare d) x k' \<longleftrightarrow> key_matches (d_compare d) x k" for x
      using eq that by (meson equivp_symp equivp_transp)
    with new(2) show ?thesis by (simp add: dict_look_def)
  qed
  moreover have "find P (xs @ [x]) = (case find P xs of None \<Rightarrow> if P x then Some x else None | r \<Rightarrow> r)"
    for P :: "'a \<times> 'b \<Rightarrow> bool" and xs x
    by (induction xs) auto
  ultimately show ?thesis
    using dict_append_props [OF ok, of u k v]
    by (auto simp: set dict_look_def cmp split: option.splits)
next
  fix i
  assume i: "i < il_elements (d_keys d)" "dict_index_of d k = int i"
    "key_matches (d_compare d) (fst (dict_pairs d ! i)) k"
    "\<forall>j<i. \<not> key_matches (d_compare d) (fst (dict_pairs d ! j)) k"
  let ?M = "key_matches (d_compare d)"
  define d' where "d' = d\<lparr>d_values := (d_values d)\<lparr>il_array := (il_array (d_values d))[i := v]\<rparr>\<rparr>"
  have set: "dict_set u k v d = d'"
    using i ok by (simp add: dict_set_def il_replace_idx_def dict_ok_def il_ok_def d'_def)
  have ok': "dict_ok d'" using ok by (simp add: dict_ok_def il_ok_def d'_def)
  have pairs: "dict_pairs d' = (dict_pairs d)[i := (fst (dict_pairs d ! i), v)]"
    using i(1) ok
    by (intro list_eq_nthI [where n = "il_elements (d_keys d)"])
      (auto simp: dict_pairs_def d'_def il_list_def dict_ok_def il_ok_def nth_list_update)
  have sym: "?M (fst (dict_pairs d ! i)) k' \<longleftrightarrow> ?M k k'"
    and trans: "?M k k' \<Longrightarrow> ?M x k' \<longleftrightarrow> ?M x k" for x
    using i(3) ok by (auto simp: dict_ok_def) (meson equivp_symp equivp_transp)+
  have len: "length (dict_pairs d) = il_elements (d_keys d)" by (rule length_dict_pairs [OF ok])
  have "dict_look d' k' = (if ?M k k' then Some v else dict_look d k')"
  proof (cases "?M k k'")
    case True
    have "find (\<lambda>(a, b). ?M a k') (dict_pairs d') = Some (fst (dict_pairs d ! i), v)"
      unfolding find_Some_iff
      using i len True sym trans [OF True]
      by (intro exI [of _ i]) (auto simp: pairs nth_list_update)
    then show ?thesis using True by (simp add: dict_look_def d'_def)
  next
    case False
    let ?P = "\<lambda>p. ?M (fst p) k'"
    have nth: "?P (dict_pairs d' ! j) = ?P (dict_pairs d ! j)" if "j < length (dict_pairs d)" for j
      using that i(1) len by (simp add: pairs nth_list_update)
    then have "find (\<lambda>j. ?P (dict_pairs d' ! j)) [0..<length (dict_pairs d')] =
        find (\<lambda>j. ?P (dict_pairs d ! j)) [0..<length (dict_pairs d)]"
      by (intro find_cong) (auto simp: pairs)
    moreover have "snd (dict_pairs d' ! j) = snd (dict_pairs d ! j)"
      if "find (\<lambda>j. ?P (dict_pairs d ! j)) [0..<length (dict_pairs d)] = Some j" for j
      using that False sym i(1) len by (auto simp: find_Some_iff pairs nth_list_update)
    moreover have "d_compare d' = d_compare d" by (simp add: d'_def)
    ultimately have "dict_look d' k' = dict_look d k'"
      unfolding dict_look_nth
      by (cases "find (\<lambda>j. ?P (dict_pairs d ! j)) [0..<length (dict_pairs d)]") simp_all
    then show ?thesis using False by simp
  qed
  with ok' show ?thesis by (simp add: set)
qed

interpretation dct: assoc_store dict_look "dict_set u" "\<lambda>d. key_matches (d_compare d)" dict_ok for u
  by unfold_locales (simp_all add: dict_set_props)

section \<open>Properties\<close>

text \<open>C37: A dictionary is a map: after any sequence of assignments the value read for a key is the
  one assigned last to a key that compares equal, and the alternative the caller gives when there
  is none; \<open>[]\<close> answers the default value then.\<close>

theorem dict_last_assignment:
  assumes "equivp (key_matches c)"
  shows "dict_get_or (fold (\<lambda>(k, v). dict_set u k v) kvs (dict_new u n defK defV c)) key alt =
    (case find (\<lambda>(k, v). key_matches c k key) (rev kvs) of None \<Rightarrow> alt | Some (k, v) \<Rightarrow> v)"
proof -
  let ?d = "dict_new u n defK defV c"
  have ok: "dict_ok ?d" using assms by (rule dict_new_ok)
  have c: "d_compare ?d = c" by (cases u) (simp add: dict_new_def)
  show ?thesis
    using dct.update_many_ok [OF ok, of u kvs] dct.update_many_look [OF ok, of u kvs key]
    by (simp add: dct.update_many_def dict_get_or_look c split: option.splits prod.splits)
qed

lemma dict_last_assignment_witness:
  "dict_get_or (fold (\<lambda>(k, v). dict_set (0, 0, 7) k v) [(1, 10), (2, 20), (1, 30)]
     (dict_new (0, 0, 7) 0 0 (0 :: int) None)) (1 :: int) 99 = 30"
  using dict_last_assignment [OF key_matches_equality,
      where u = "(0, 0, 7)" and n = 0 and kvs = "[(1, 10), (2, 20), (1, 30 :: int)]"
        and defK = 0 and defV = 0 and key = "1 :: int" and alt = 99]
  by (simp add: key_matches_def)

end
