(* ===== verification/Recovery_Manifest.thy ===== *)
theory Recovery_Manifest
  imports Prelude
begin

text \<open>
  The signed manifest of a network recovery, \<^verbatim>\<open>software/u64ctrl/main/recovery_manifest.c\<close> and
  \<^verbatim>\<open>recovery_verify.c\<close>: finding the signature line, checking it, reading the key=value lines and
  matching a board against the serial pattern.  A pointer and a length become a list of
  characters; a NUL terminated string is the list before its NUL, so reading the terminator is
  reading the empty list.  An out parameter becomes part of the answer, which is an error
  (\<open>Inl\<close>) or a value (\<open>Inr\<close>).
\<close>

section \<open>Data\<close>

datatype recovery_result =
    RECOVERY_OK | RECOVERY_ERR_TOO_LARGE | RECOVERY_ERR_NO_SIGNATURE | RECOVERY_ERR_BAD_SIGNATURE
  | RECOVERY_ERR_SYNTAX | RECOVERY_ERR_FORMAT | RECOVERY_ERR_UNKNOWN_KEY
  | RECOVERY_ERR_DUPLICATE_KEY | RECOVERY_ERR_MISSING_KEY | RECOVERY_ERR_BAD_VALUE

definition RECOVERY_MANIFEST_MAX_SIZE :: nat where "RECOVERY_MANIFEST_MAX_SIZE = 2048"
definition RECOVERY_NAME_MAX :: nat where "RECOVERY_NAME_MAX = 63"
definition RECOVERY_SERIAL_PATTERN_MAX :: nat where "RECOVERY_SERIAL_PATTERN_MAX = 63"
definition RECOVERY_SIG_MAX :: nat where "RECOVERY_SIG_MAX = 80"
definition SIG_BASE64_MAX :: nat where "SIG_BASE64_MAX = ((RECOVERY_SIG_MAX + 2) div 3) * 4"
definition RECOVERY_IDCODE_MASK :: u32 where "RECOVERY_IDCODE_MASK = 0x0FFFFFFF"

record recovery_file =
  rf_name :: string
  rf_size :: u32
  rf_sha256 :: "byte list"

record manifest =
  mf_package :: string
  mf_idcode :: u32
  mf_serial :: string
  mf_fpga :: recovery_file
  mf_image :: recovery_file

record signature =
  signed_len :: nat
  sig_base64 :: string

definition recovery_result_name :: "recovery_result \<Rightarrow> string" where
  "recovery_result_name r =
     (case r of
        RECOVERY_OK \<Rightarrow> ''ok''
      | RECOVERY_ERR_TOO_LARGE \<Rightarrow> ''manifest too large''
      | RECOVERY_ERR_NO_SIGNATURE \<Rightarrow> ''no signature''
      | RECOVERY_ERR_BAD_SIGNATURE \<Rightarrow> ''bad signature''
      | RECOVERY_ERR_SYNTAX \<Rightarrow> ''syntax error''
      | RECOVERY_ERR_FORMAT \<Rightarrow> ''unsupported format''
      | RECOVERY_ERR_UNKNOWN_KEY \<Rightarrow> ''unknown key''
      | RECOVERY_ERR_DUPLICATE_KEY \<Rightarrow> ''duplicate key''
      | RECOVERY_ERR_MISSING_KEY \<Rightarrow> ''missing key''
      | RECOVERY_ERR_BAD_VALUE \<Rightarrow> ''bad value'')"

definition LF :: char where "LF = CHR 0x0A"

section \<open>Splitting off the signature\<close>

text \<open>The loop that walks back to the start of the last line.\<close>

fun line_start :: "string \<Rightarrow> nat \<Rightarrow> nat" where
  "line_start text 0 = 0"
| "line_start text (Suc line) = (if text ! line \<noteq> LF then line_start text line else Suc line)"

definition recovery_manifest_split :: "string \<Rightarrow> recovery_result + signature" where
  "recovery_manifest_split text =
     (let len = length text
      in if len > RECOVERY_MANIFEST_MAX_SIZE then Inl RECOVERY_ERR_TOO_LARGE
         else
           let end = (if len \<noteq> 0 \<and> text ! (len - 1) = LF then len - 1 else len);
               line = line_start text end
           in if line = 0 \<or> end - line \<le> 4 \<or> take 4 (drop line text) \<noteq> ''sig=''
              then Inl RECOVERY_ERR_NO_SIGNATURE
              else
                let b64_len = end - line - 4
                in if b64_len > SIG_BASE64_MAX then Inl RECOVERY_ERR_NO_SIGNATURE
                   else Inr \<lparr>signed_len = line, sig_base64 = take b64_len (drop (line + 4) text)\<rparr>)"

section \<open>Checking the signature\<close>

text \<open>The functions of the mbedtls library the check calls: base64 decoding into a buffer of the
  given size, SHA-256, and the public key operations (parse a PEM text with its NUL, ask whether it is
  an elliptic curve key, verify a SHA-256 signature).  \<open>psa_crypto_init\<close> is present when the build
  uses PSA and then says whether it succeeded.\<close>

record 'key crypto =
  base64_decode :: "nat \<Rightarrow> string \<Rightarrow> byte list option"
  sha256 :: "string \<Rightarrow> byte list option"
  parse_public_key :: "string \<Rightarrow> 'key option"
  is_ec_key :: "'key \<Rightarrow> bool"
  pk_verify :: "'key \<Rightarrow> byte list \<Rightarrow> byte list \<Rightarrow> bool"
  psa_crypto_init :: "bool option"

definition verify_with_key :: "'key crypto \<Rightarrow> string \<Rightarrow> byte list \<Rightarrow> byte list \<Rightarrow> bool" where
  "verify_with_key c key_pem hash sig =
     (case parse_public_key c key_pem of
        None \<Rightarrow> False
      | Some pk \<Rightarrow> is_ec_key c pk \<and> pk_verify c pk hash sig)"

definition recovery_manifest_verify ::
  "'key crypto \<Rightarrow> string \<Rightarrow> signature \<Rightarrow> string list \<Rightarrow> recovery_result" where
  "recovery_manifest_verify c text sig keys_pem =
     (case base64_decode c RECOVERY_SIG_MAX (sig_base64 sig) of
        None \<Rightarrow> RECOVERY_ERR_BAD_SIGNATURE
      | Some der \<Rightarrow>
          if length der = 0 then RECOVERY_ERR_BAD_SIGNATURE
          else if psa_crypto_init c = Some False then RECOVERY_ERR_BAD_SIGNATURE
          else case sha256 c (take (signed_len sig) text) of
                 None \<Rightarrow> RECOVERY_ERR_BAD_SIGNATURE
               | Some hash \<Rightarrow>
                   if list_ex (\<lambda>key. verify_with_key c key hash der) keys_pem
                   then RECOVERY_OK else RECOVERY_ERR_BAD_SIGNATURE)"

section \<open>Values\<close>

definition hex_digit :: "char \<Rightarrow> int" where
  "hex_digit c =
     (if CHR ''0'' \<le> c \<and> c \<le> CHR ''9'' then of_char c - of_char CHR ''0''
      else if CHR ''a'' \<le> c \<and> c \<le> CHR ''f'' then of_char c - of_char CHR ''a'' + 10
      else if CHR ''A'' \<le> c \<and> c \<le> CHR ''F'' then of_char c - of_char CHR ''A'' + 10
      else -1)"

primrec hex_loop :: "string \<Rightarrow> nat \<Rightarrow> nat \<Rightarrow> byte list option" where
  "hex_loop v i 0 = Some []"
| "hex_loop v i (Suc n) =
     (let hi = hex_digit (v ! (2 * i)); lo = hex_digit (v ! (2 * i + 1))
      in if hi < 0 \<or> lo < 0 then None
         else case hex_loop v (i + 1) n of
                None \<Rightarrow> None
              | Some bs \<Rightarrow> Some (word_of_int (push_bit 4 hi OR lo) # bs))"

definition parse_hex_bytes :: "string \<Rightarrow> nat \<Rightarrow> byte list option" where
  "parse_hex_bytes v bytes = (if length v \<noteq> 2 * bytes then None else hex_loop v 0 bytes)"

definition parse_idcode :: "string \<Rightarrow> u32 option" where
  "parse_idcode v =
     (case parse_hex_bytes v 4 of
        None \<Rightarrow> None
      | Some b \<Rightarrow> Some (push_bit 24 (ucast (b ! 0)) OR push_bit 16 (ucast (b ! 1)) OR
                        push_bit 8 (ucast (b ! 2)) OR ucast (b ! 3)))"

primrec size_loop :: "string \<Rightarrow> 64 word \<Rightarrow> 64 word option" where
  "size_loop [] n = Some n"
| "size_loop (c # cs) n =
     (if c < CHR ''0'' \<or> c > CHR ''9'' then None
      else size_loop cs (n * 10 + of_int (of_char c - of_char CHR ''0'')))"

definition parse_size :: "string \<Rightarrow> u32 option" where
  "parse_size v =
     (if length v = 0 \<or> length v > 10 then None
      else case size_loop v 0 of
             None \<Rightarrow> None
           | Some n \<Rightarrow> if n = 0 \<or> n > 0xFFFFFFFF then None else Some (ucast n))"

definition name_char :: "char \<Rightarrow> bool \<Rightarrow> bool" where
  "name_char c allow_slash \<longleftrightarrow>
     (CHR ''a'' \<le> c \<and> c \<le> CHR ''z'') \<or> (CHR ''A'' \<le> c \<and> c \<le> CHR ''Z'') \<or>
     (CHR ''0'' \<le> c \<and> c \<le> CHR ''9'') \<or>
     c = CHR ''.'' \<or> c = CHR ''_'' \<or> c = CHR ''-'' \<or> (allow_slash \<and> c = CHR ''/'')"

definition copy_name :: "string \<Rightarrow> string option" where
  "copy_name v =
     (if length v = 0 \<or> length v > RECOVERY_NAME_MAX then None
      else if list_ex (\<lambda>c. \<not> name_char c False) v then None
      else Some v)"

text \<open>The loop of \<open>copy_file_name\<close>: \<open>i\<close> walks over the name and one past it, \<open>seg\<close> is where the
  current segment starts.\<close>

function file_name_loop :: "string \<Rightarrow> nat \<Rightarrow> nat \<Rightarrow> bool" where
  "file_name_loop v seg i =
     (if i > length v then True
      else if i = length v \<or> v ! i = CHR ''/''
      then
        let n = i - seg
        in if n = 0 \<or> (n = 1 \<and> v ! seg = CHR ''.'') \<or>
              (n = 2 \<and> v ! seg = CHR ''.'' \<and> v ! (seg + 1) = CHR ''.'')
           then False
           else file_name_loop v (i + 1) (i + 1)
      else if \<not> name_char (v ! i) False then False
      else file_name_loop v seg (i + 1))"
  by pat_completeness auto

termination
  by (relation "measure (\<lambda>(v, seg, i). Suc (length v) - i)") auto

declare file_name_loop.simps [simp del]

definition copy_file_name :: "string \<Rightarrow> string option" where
  "copy_file_name v =
     (if length v = 0 \<or> length v > RECOVERY_NAME_MAX then None
      else if file_name_loop v 0 0 then Some v else None)"

section \<open>Lines and keys\<close>

datatype manifest_key =
    KEY_FORMAT | KEY_PACKAGE | KEY_IDCODE | KEY_SERIAL | KEY_FPGA_FILE | KEY_FPGA_SIZE
  | KEY_FPGA_SHA256 | KEY_IMAGE_FILE | KEY_IMAGE_SIZE | KEY_IMAGE_SHA256

definition manifest_keys :: "manifest_key list" where
  "manifest_keys = [KEY_FORMAT, KEY_PACKAGE, KEY_IDCODE, KEY_SERIAL, KEY_FPGA_FILE, KEY_FPGA_SIZE,
     KEY_FPGA_SHA256, KEY_IMAGE_FILE, KEY_IMAGE_SIZE, KEY_IMAGE_SHA256]"

fun key_name :: "manifest_key \<Rightarrow> string" where
  "key_name KEY_FORMAT = ''format''"
| "key_name KEY_PACKAGE = ''package''"
| "key_name KEY_IDCODE = ''idcode''"
| "key_name KEY_SERIAL = ''serial''"
| "key_name KEY_FPGA_FILE = ''fpga.file''"
| "key_name KEY_FPGA_SIZE = ''fpga.size''"
| "key_name KEY_FPGA_SHA256 = ''fpga.sha256''"
| "key_name KEY_IMAGE_FILE = ''image.file''"
| "key_name KEY_IMAGE_SIZE = ''image.size''"
| "key_name KEY_IMAGE_SHA256 = ''image.sha256''"

text \<open>The value of the enumeration constant, which is its bit in \<open>seen\<close>.\<close>

fun key_index :: "manifest_key \<Rightarrow> nat" where
  "key_index KEY_FORMAT = 0"
| "key_index KEY_PACKAGE = 1"
| "key_index KEY_IDCODE = 2"
| "key_index KEY_SERIAL = 3"
| "key_index KEY_FPGA_FILE = 4"
| "key_index KEY_FPGA_SIZE = 5"
| "key_index KEY_FPGA_SHA256 = 6"
| "key_index KEY_IMAGE_FILE = 7"
| "key_index KEY_IMAGE_SIZE = 8"
| "key_index KEY_IMAGE_SHA256 = 9"

definition KEY_COUNT :: nat where "KEY_COUNT = 10"

definition key_bit :: "manifest_key \<Rightarrow> u32" where
  "key_bit k = push_bit (key_index k) 1"

definition REQUIRED_KEYS :: u32 where
  "REQUIRED_KEYS = (push_bit KEY_COUNT 1 - 1) AND NOT (key_bit KEY_SERIAL)"

definition parse_value :: "manifest \<Rightarrow> manifest_key \<Rightarrow> string \<Rightarrow> manifest option" where
  "parse_value m key v =
     (case key of
        KEY_PACKAGE \<Rightarrow> map_option (\<lambda>x. m\<lparr>mf_package := x\<rparr>) (copy_name v)
      | KEY_IDCODE \<Rightarrow> map_option (\<lambda>x. m\<lparr>mf_idcode := x\<rparr>) (parse_idcode v)
      | KEY_FPGA_FILE \<Rightarrow>
          map_option (\<lambda>x. m\<lparr>mf_fpga := (mf_fpga m)\<lparr>rf_name := x\<rparr>\<rparr>) (copy_file_name v)
      | KEY_FPGA_SIZE \<Rightarrow>
          map_option (\<lambda>x. m\<lparr>mf_fpga := (mf_fpga m)\<lparr>rf_size := x\<rparr>\<rparr>) (parse_size v)
      | KEY_FPGA_SHA256 \<Rightarrow>
          map_option (\<lambda>x. m\<lparr>mf_fpga := (mf_fpga m)\<lparr>rf_sha256 := x\<rparr>\<rparr>) (parse_hex_bytes v 32)
      | KEY_IMAGE_FILE \<Rightarrow>
          map_option (\<lambda>x. m\<lparr>mf_image := (mf_image m)\<lparr>rf_name := x\<rparr>\<rparr>) (copy_file_name v)
      | KEY_IMAGE_SIZE \<Rightarrow>
          map_option (\<lambda>x. m\<lparr>mf_image := (mf_image m)\<lparr>rf_size := x\<rparr>\<rparr>) (parse_size v)
      | KEY_IMAGE_SHA256 \<Rightarrow>
          map_option (\<lambda>x. m\<lparr>mf_image := (mf_image m)\<lparr>rf_sha256 := x\<rparr>\<rparr>) (parse_hex_bytes v 32)
      | KEY_SERIAL \<Rightarrow>
          (if length v = 0 \<or> length v > RECOVERY_SERIAL_PATTERN_MAX then None
           else Some (m\<lparr>mf_serial := v\<rparr>))
      | KEY_FORMAT \<Rightarrow> None)"

text \<open>The inner loop that finds the end of a line and refuses control characters: the line and the
  text after its LF, or nothing.\<close>

fun scan_line :: "string \<Rightarrow> (string \<times> string) option" where
  "scan_line [] = None"
| "scan_line (c # cs) =
     (if c = LF then Some ([], cs)
      else if c < CHR 0x20 \<or> c > CHR 0x7E then None
      else case scan_line cs of None \<Rightarrow> None | Some (l, rest) \<Rightarrow> Some (c # l, rest))"

text \<open>The \<open>memchr\<close> for the equals sign: key and value of a line.\<close>

definition split_field :: "string \<Rightarrow> (string \<times> string) option" where
  "split_field line =
     (let k = takeWhile (\<lambda>c. c \<noteq> CHR ''='') line
      in if length k = length line \<or> k = [] then None else Some (k, drop (length k + 1) line))"

definition find_key :: "string \<Rightarrow> manifest_key option" where
  "find_key name = find (\<lambda>k. key_name k = name) manifest_keys"

lemma scan_line_shorter: "scan_line cs = Some (l, rest) \<Longrightarrow> length rest < length cs"
  by (induction cs arbitrary: l) (auto split: if_splits option.splits)

text \<open>The loop over the lines: \<open>pos\<close> is the offset of the rest of the text.\<close>

function parse_loop ::
  "nat \<Rightarrow> string \<Rightarrow> u32 \<Rightarrow> manifest \<Rightarrow> recovery_result + u32 \<times> manifest" where
  "parse_loop pos rest seen m =
     (if rest = [] then Inr (seen, m)
      else
        case scan_line rest of
          None \<Rightarrow> Inl RECOVERY_ERR_SYNTAX
        | Some (line, rest') \<Rightarrow>
            (case split_field line of
               None \<Rightarrow> Inl RECOVERY_ERR_SYNTAX
             | Some (name, v) \<Rightarrow>
                 let key = find_key name; pos' = pos + length line + 1
                 in if pos = 0
                    then
                      if key \<noteq> Some KEY_FORMAT \<or> v \<noteq> ''1'' then Inl RECOVERY_ERR_FORMAT
                      else parse_loop pos' rest' (seen OR key_bit KEY_FORMAT) m
                    else
                      case key of
                        None \<Rightarrow> Inl RECOVERY_ERR_UNKNOWN_KEY
                      | Some k \<Rightarrow>
                          if seen AND key_bit k \<noteq> 0 then Inl RECOVERY_ERR_DUPLICATE_KEY
                          else
                            case parse_value m k v of
                              None \<Rightarrow> Inl RECOVERY_ERR_BAD_VALUE
                            | Some m' \<Rightarrow> parse_loop pos' rest' (seen OR key_bit k) m'))"
  by pat_completeness auto

termination
  by (relation "measure (\<lambda>(pos, rest, seen, m). length rest)") (auto dest: scan_line_shorter)

declare parse_loop.simps [simp del]

definition manifest_zero :: manifest where
  "manifest_zero =
     \<lparr>mf_package = [], mf_idcode = 0, mf_serial = [],
      mf_fpga = \<lparr>rf_name = [], rf_size = 0, rf_sha256 = replicate 32 0\<rparr>,
      mf_image = \<lparr>rf_name = [], rf_size = 0, rf_sha256 = replicate 32 0\<rparr>\<rparr>"

definition recovery_manifest_parse :: "string \<Rightarrow> recovery_result + manifest" where
  "recovery_manifest_parse text =
     (case parse_loop 0 text 0 manifest_zero of
        Inl e \<Rightarrow> Inl e
      | Inr (seen, m) \<Rightarrow>
          if text = [] then Inl RECOVERY_ERR_FORMAT
          else if seen AND REQUIRED_KEYS \<noteq> REQUIRED_KEYS then Inl RECOVERY_ERR_MISSING_KEY
          else if seen AND key_bit KEY_SERIAL = 0 then Inr (m\<lparr>mf_serial := ''*''\<rparr>)
          else Inr m)"

section \<open>Matching a board\<close>

text \<open>The body of a character set, between the optional \<open>!\<close> and the closing bracket.\<close>

fun in_set_body :: "string \<Rightarrow> char \<Rightarrow> bool" where
  "in_set_body [] c = False"
| "in_set_body [k] c = (c = k)"
| "in_set_body [k, k'] c = (c = k \<or> c = k')"
| "in_set_body (lo # dash # hi # ks) c =
     (if dash = CHR ''-'' then (lo \<le> c \<and> c \<le> hi) \<or> in_set_body ks c
      else c = lo \<or> in_set_body (dash # hi # ks) c)"

text \<open>\<open>match_set\<close> on the pattern after its opening bracket: \<open>None\<close> is the answer \<open>-1\<close>.\<close>

definition match_set :: "string \<Rightarrow> char \<Rightarrow> (bool \<times> string) option" where
  "match_set q c =
     (let negate = (q \<noteq> [] \<and> hd q = CHR ''!'');
          first = (if negate then tl q else q);
          lead = (if first \<noteq> [] \<and> hd first = CHR '']'' then 1 else 0);
          stop = lead + length (takeWhile (\<lambda>k. k \<noteq> CHR '']'') (drop lead first))
      in if stop \<ge> length first then None
         else Some (in_set_body (take stop first) c \<noteq> negate, drop (stop + 1) first))"

text \<open>One pattern atom against a character: whether it matches, and the pattern after it.\<close>

fun match_one :: "string \<Rightarrow> char \<Rightarrow> bool \<times> string" where
  "match_one [] c = (False, [])"
| "match_one (a # p) c =
     (if a = CHR ''?'' then (True, p)
      else if a = CHR ''['' then
        (case match_set p c of Some r \<Rightarrow> r | None \<Rightarrow> (a = c, p))
      else (a = c, p))"

lemma match_set_shorter: "match_set q c = Some (m, next) \<Longrightarrow> length next \<le> length q"
  by (auto simp: match_set_def Let_def split: if_splits)

lemma match_one_shorter: "length (snd (match_one p c)) \<le> length p"
  by (cases p) (auto split: option.splits dest: match_set_shorter)

text \<open>The matching loop, with the position after the last star and where that star started.\<close>

function match_loop :: "string \<Rightarrow> string \<Rightarrow> (string \<times> string) option \<Rightarrow> bool" where
  "match_loop p s star =
     (if s = [] then dropWhile (\<lambda>c. c = CHR ''*'') p = []
      else if p \<noteq> [] \<and> hd p = CHR ''*'' then match_loop (tl p) s (Some (tl p, s))
      else if p \<noteq> [] \<and> fst (match_one p (hd s)) then match_loop (snd (match_one p (hd s))) (tl s) star
      else case star of
             None \<Rightarrow> False
           | Some (star_p, star_s) \<Rightarrow> match_loop star_p (tl star_s) (Some (star_p, tl star_s)))"
  by pat_completeness auto

termination
proof (relation "measures
    [\<lambda>(p, s, star). max (length s) (case star of None \<Rightarrow> 0 | Some (_, t) \<Rightarrow> length t),
     \<lambda>(p, s, star). max (length p) (case star of None \<Rightarrow> 0 | Some (q, _) \<Rightarrow> length q),
     \<lambda>(p, s, star). length s]"; (simp; fail)?)
  fix p s :: string and star :: "(string \<times> string) option"
  assume a: "s \<noteq> []" "p \<noteq> [] \<and> hd p = CHR ''*''"
  have "length (tl p) < length p" using a by simp
  then show "((tl p, s, Some (tl p, s)), p, s, star) \<in> measures
    [\<lambda>(p, s, star). max (length s) (case star of None \<Rightarrow> 0 | Some (_, t) \<Rightarrow> length t),
     \<lambda>(p, s, star). max (length p) (case star of None \<Rightarrow> 0 | Some (q, _) \<Rightarrow> length q),
     \<lambda>(p, s, star). length s]"
    by (auto simp: max_def)
next
  fix p s :: string and star :: "(string \<times> string) option"
  assume a: "s \<noteq> []"
  have "length (snd (match_one p (hd s))) \<le> length p" by (rule match_one_shorter)
  moreover have "length (tl s) < length s" using a by simp
  ultimately show "((snd (match_one p (hd s)), tl s, star), p, s, star) \<in> measures
    [\<lambda>(p, s, star). max (length s) (case star of None \<Rightarrow> 0 | Some (_, t) \<Rightarrow> length t),
     \<lambda>(p, s, star). max (length p) (case star of None \<Rightarrow> 0 | Some (q, _) \<Rightarrow> length q),
     \<lambda>(p, s, star). length s]"
    by (auto simp: max_def)
next
  fix p s star_p star_s :: string and star :: "(string \<times> string) option" and x2
  assume a: "s \<noteq> []" "star = Some x2" "(star_p, star_s) = x2"
  have "length (tl star_s) < max (length s) (length star_s)" using a by (cases s; cases star_s) auto
  then show "((star_p, tl star_s, Some (star_p, tl star_s)), p, s, star) \<in> measures
    [\<lambda>(p, s, star). max (length s) (case star of None \<Rightarrow> 0 | Some (_, t) \<Rightarrow> length t),
     \<lambda>(p, s, star). max (length p) (case star of None \<Rightarrow> 0 | Some (q, _) \<Rightarrow> length q),
     \<lambda>(p, s, star). length s]"
    using a by auto
qed

declare match_loop.simps [simp del]

definition recovery_serial_match :: "string \<Rightarrow> string \<Rightarrow> bool" where
  "recovery_serial_match pattern serial = match_loop pattern serial None"

definition recovery_manifest_for_board :: "manifest \<Rightarrow> u32 \<Rightarrow> string \<Rightarrow> bool" where
  "recovery_manifest_for_board m idcode serial \<longleftrightarrow>
     (mf_idcode m XOR idcode) AND RECOVERY_IDCODE_MASK = 0 \<and>
     recovery_serial_match (mf_serial m) serial"

end
