(* ===== verification/Manifest_Correct.thy ===== *)
theory Manifest_Correct
  imports Recovery_Manifest "HOL-Library.Sublist"
begin

text \<open>
  What the manifest code of \<open>Recovery_Manifest\<close> computes: the greedy serial matcher against the
  declarative meaning of patterns, the number and hex readers, the file names it lets through, the
  exact set of texts it accepts, and what a manifest that passed every check guarantees.
\<close>

section \<open>Serial patterns\<close>

text \<open>The meaning of a pattern: its tokens, and the strings a token list matches.\<close>

datatype pattern_token = Star | AnyChar | Literal char | CharSet bool string

definition set_bounds :: "string \<Rightarrow> (bool \<times> string \<times> string) option" where
  "set_bounds q =
     (let negate = (q \<noteq> [] \<and> hd q = CHR ''!'');
          first = (if negate then tl q else q);
          lead = (if first \<noteq> [] \<and> hd first = CHR '']'' then 1 else 0);
          stop = lead + length (takeWhile (\<lambda>k. k \<noteq> CHR '']'') (drop lead first))
      in if stop \<ge> length first then None
         else Some (negate, take stop first, drop (stop + 1) first))"

lemma set_bounds_shorter: "set_bounds q = Some (n, b, next) \<Longrightarrow> length next \<le> length q"
  by (auto simp: set_bounds_def Let_def split: if_splits)

lemma match_set_bounds:
  "match_set q c = map_option (\<lambda>(n, b, next). (in_set_body b c \<noteq> n, next)) (set_bounds q)"
  by (simp add: match_set_def set_bounds_def Let_def)

function pattern_tokens :: "string \<Rightarrow> pattern_token list" where
  "pattern_tokens [] = []"
| "pattern_tokens (a # p) =
     (if a = CHR ''*'' then Star # pattern_tokens p
      else if a = CHR ''?'' then AnyChar # pattern_tokens p
      else if a = CHR ''['' then
        (case set_bounds p of
           None \<Rightarrow> Literal a # pattern_tokens p
         | Some (n, b, next) \<Rightarrow> CharSet n b # pattern_tokens next)
      else Literal a # pattern_tokens p)"
  by pat_completeness auto

termination
  by (relation "measure length") (auto dest: set_bounds_shorter simp: less_Suc_eq_le)

fun token_matches :: "pattern_token \<Rightarrow> char \<Rightarrow> bool" where
  "token_matches Star c = False"
| "token_matches AnyChar c = True"
| "token_matches (Literal a) c = (a = c)"
| "token_matches (CharSet negated body) c = (in_set_body body c \<noteq> negated)"

fun tokens_match :: "pattern_token list \<Rightarrow> string \<Rightarrow> bool" where
  "tokens_match [] s = (s = [])"
| "tokens_match (Star # ts) s = (\<exists>t \<in> set (suffixes s). tokens_match ts t)"
| "tokens_match (t # ts) [] = False"
| "tokens_match (t # ts) (c # s) = (token_matches t c \<and> tokens_match ts s)"

definition glob :: "string \<Rightarrow> string \<Rightarrow> bool" where
  "glob pattern s = tokens_match (pattern_tokens pattern) s"

lemma glob_Nil [simp]: "glob [] s \<longleftrightarrow> s = []"
  by (simp add: glob_def)

lemma glob_star: "glob (CHR ''*'' # p) s \<longleftrightarrow> (\<exists>t. suffix t s \<and> glob p t)"
  by (auto simp: glob_def)

lemma glob_atom:
  assumes "p \<noteq> []" "hd p \<noteq> CHR ''*''"
  shows "\<not> glob p []"
    and "glob p (c # s) \<longleftrightarrow> fst (match_one p c) \<and> glob (snd (match_one p c)) s"
    and "snd (match_one p c) = snd (match_one p d)"
proof -
  obtain a q where p: "p = a # q" "a \<noteq> CHR ''*''" using assms by (cases p) auto
  show "\<not> glob p []" "snd (match_one p c) = snd (match_one p d)"
    "glob p (c # s) \<longleftrightarrow> fst (match_one p c) \<and> glob (snd (match_one p c)) s"
    using p by (auto simp: glob_def match_set_bounds split: option.splits)
qed

lemma glob_empty: "glob p [] \<longleftrightarrow> dropWhile (\<lambda>c. c = CHR ''*'') p = []"
proof (induction p)
  case (Cons a p)
  then show ?case
    using glob_atom(1) [of "a # p"] by (cases "a = CHR ''*''") (auto simp: glob_star)
qed simp

text \<open>What the loop keeps: \<open>s\<close> is \<open>n\<close> characters after the start of the last star, and a string the
  pattern after that star matches can lose its first \<open>n\<close> characters to the current position.\<close>

definition star_ok :: "string \<Rightarrow> string \<Rightarrow> (string \<times> string) option \<Rightarrow> bool" where
  "star_ok p s star = (case star of None \<Rightarrow> True | Some (q, t) \<Rightarrow>
     (\<exists>n \<le> length t. s = drop n t \<and>
        (\<forall>u. glob q u \<longrightarrow> n \<le> length u \<and> glob p (drop n u))))"

definition star_matches :: "(string \<times> string) option \<Rightarrow> bool" where
  "star_matches star = (case star of None \<Rightarrow> False | Some (q, t) \<Rightarrow>
     (\<exists>u. strict_suffix u t \<and> glob q u))"

lemma star_ok_start: "star_ok p s (Some (p, s))"
  by (auto simp: star_ok_def intro!: exI [of _ 0])

lemma suffix_strict: "suffix u s \<longleftrightarrow> u = s \<or> strict_suffix u s"
  by (auto simp: strict_suffix_def)

lemma strict_suffix_tl: "t \<noteq> [] \<Longrightarrow> strict_suffix u t \<longleftrightarrow> suffix u (tl t)"
  by (cases t) (auto simp: strict_suffix_def suffix_Cons dest: suffix_length_le)

lemma star_matches_shift:
  assumes "star_ok p s star" "star_matches star"
  shows "s \<noteq> [] \<and> (\<exists>u. suffix u s \<and> glob p u)"
proof -
  obtain q t u n where st: "star = Some (q, t)" "strict_suffix u t" "glob q u" "n \<le> length t" "s = drop n t"
    "n \<le> length u" "glob p (drop n u)"
    using assms by (auto simp: star_ok_def star_matches_def split: option.splits prod.splits)
  from st(2) obtain v where v: "t = v @ u" "v \<noteq> []" by (auto simp: strict_suffix_def suffix_def)
  have "suffix (drop n u) s"
  proof -
    have "drop n u = drop (n - (n - length v)) (drop (n - length v) u)" by simp
    then have "suffix (drop n u) (drop (n - length v) u)" by (metis suffix_drop)
    then show ?thesis by (simp add: st(5) v(1) suffix_appendI)
  qed
  moreover have "length u < length t" using v by simp
  ultimately show ?thesis using st by auto
qed

lemma match_loop_correct: "star_ok p s star \<Longrightarrow> match_loop p s star \<longleftrightarrow> glob p s \<or> star_matches star"
proof (induction p s star rule: match_loop.induct)
  case (1 p s star)
  consider (stop) "s = []" | (star) p' where "s \<noteq> []" "p = CHR ''*'' # p'"
    | (step) "s \<noteq> []" "p \<noteq> []" "hd p \<noteq> CHR ''*''" "fst (match_one p (hd s))"
    | (fail) "s \<noteq> []" "p = [] \<or> hd p \<noteq> CHR ''*'' \<and> \<not> fst (match_one p (hd s))"
    by (cases p) auto
  then show ?case
  proof cases
    case stop
    then show ?thesis
      using star_matches_shift [OF 1(4)] by (subst match_loop.simps) (auto simp: glob_empty)
  next
    case star
    have "match_loop p s star \<longleftrightarrow> glob p' s \<or> star_matches (Some (p', s))"
      using 1(1) star star_ok_start by (subst match_loop.simps) simp
    also have "\<dots> \<longleftrightarrow> (\<exists>u. suffix u s \<and> glob p' u)"
      by (auto simp: star_matches_def suffix_strict)
    also have "\<dots> \<longleftrightarrow> glob p s \<or> star_matches star"
      using star_matches_shift [OF 1(4)] star(2) by (auto simp: glob_star intro: suffix_order.trans)
    finally show ?thesis .
  next
    case step
    let ?next = "snd (match_one p (hd s))"
    obtain c s' where s: "s = c # s'" using step(1) by (cases s) auto
    have "star_ok ?next (tl s) star"
    proof (cases star)
      case (Some qt)
      obtain q t where qt: "qt = (q, t)" by (cases qt)
      from 1(4) obtain n where n: "n \<le> length t" "s = drop n t"
        "\<And>u. glob q u \<Longrightarrow> n \<le> length u \<and> glob p (drop n u)"
        by (auto simp: Some qt star_ok_def)
      have "Suc n \<le> length u \<and> glob ?next (drop (Suc n) u)" if "glob q u" for u
      proof (cases "drop n u")
        case Nil
        with n(3) [OF that] glob_atom(1) [OF step(2,3)] show ?thesis by simp
      next
        case (Cons d u')
        have "drop (Suc n) u = u'" using Cons by (metis drop_Suc list.sel(3) tl_drop)
        moreover have "Suc n \<le> length u" using Cons by (cases "n < length u") auto
        moreover have "glob ?next u'"
          using n(3) [OF that] Cons glob_atom(2) [OF step(2,3), of d u']
            glob_atom(3) [OF step(2,3), of d c] by (simp add: s)
        ultimately show ?thesis by simp
      qed
      moreover have "Suc n \<le> length t" "tl s = drop (Suc n) t"
        using n(1,2) step(1) by (auto simp: drop_Suc tl_drop Suc_le_eq order_le_less)
      ultimately show ?thesis by (auto simp: Some qt star_ok_def)
    qed (simp add: star_ok_def)
    then have "match_loop ?next (tl s) star \<longleftrightarrow> glob ?next (tl s) \<or> star_matches star"
      using 1(2) step by simp
    then show ?thesis
      using step glob_atom(2) [OF step(2,3), of c s'] by (subst match_loop.simps) (simp add: s)
  next
    case fail
    obtain c s' where s: "s = c # s'" using fail(1) by (cases s) auto
    have no: "\<not> glob p s" using fail glob_atom(2) [of p c s'] by (cases "p = []") (auto simp: s)
    show ?thesis
    proof (cases star)
      case None
      with fail no show ?thesis by (subst match_loop.simps) (auto simp: star_matches_def)
    next
      case (Some qt)
      obtain q t where qt: "qt = (q, t)" by (cases qt)
      have t: "t \<noteq> []" using 1(4) fail(1) by (auto simp: Some qt star_ok_def)
      have "match_loop p s star = match_loop q (tl t) (Some (q, tl t))"
        using fail by (subst match_loop.simps) (auto simp: Some qt)
      also have "\<dots> \<longleftrightarrow> glob q (tl t) \<or> star_matches (Some (q, tl t))"
        using 1(3) fail Some qt star_ok_start by auto
      also have "\<dots> \<longleftrightarrow> star_matches star"
        using t by (auto simp: Some qt star_matches_def strict_suffix_tl suffix_strict)
      finally show ?thesis using no by simp
    qed
  qed
qed

section \<open>Numbers\<close>

definition is_digit :: "char \<Rightarrow> bool" where
  "is_digit c \<longleftrightarrow> CHR ''0'' \<le> c \<and> c \<le> CHR ''9''"

definition dec_step :: "char \<Rightarrow> nat \<Rightarrow> nat" where
  "dec_step c n = n * 10 + (of_char c - 48)"

definition dec_value :: "string \<Rightarrow> nat" where
  "dec_value cs = fold dec_step cs 0"

lemma digit_value: "is_digit c \<Longrightarrow> 48 \<le> (of_char c :: nat) \<and> (of_char c :: nat) \<le> 57"
  by (simp add: is_digit_def less_eq_char_def)

lemma digit_int: "is_digit c \<Longrightarrow> of_int (of_char c - of_char CHR ''0'') = (of_nat (of_char c - 48) :: 64 word)"
proof -
  assume "is_digit c"
  then have le: "48 \<le> (of_char c :: nat)" by (simp add: digit_value)
  have "(of_int (of_char c - of_char CHR ''0'') :: 64 word) = of_nat (of_char c) - 48"
    by (simp add: of_int_of_char of_nat_of_char)
  also have "\<dots> = of_nat (of_char c - 48)"
    by (simp only: of_nat_diff [OF le] of_nat_numeral)
  finally show ?thesis .
qed

lemma size_loop_digits:
  "size_loop cs (of_nat n) = (if list_all is_digit cs then Some (of_nat (fold dec_step cs n)) else None)"
proof (induction cs arbitrary: n)
  case (Cons c cs)
  show ?case
  proof (cases "is_digit c")
    case True
    then have "of_nat n * 10 + of_int (of_char c - of_char CHR ''0'') = (of_nat (dec_step c n) :: 64 word)"
      by (simp only: digit_int dec_step_def) simp
    then have "size_loop (c # cs) (of_nat n) = size_loop cs (of_nat (dec_step c n))"
      using True by (simp only: size_loop.simps is_digit_def not_less [symmetric]) simp
    with True Cons show ?thesis by simp
  qed (auto simp: is_digit_def)
qed simp

lemma dec_bound: "list_all is_digit cs \<Longrightarrow> fold dec_step cs n < (n + 1) * 10 ^ length cs"
proof (induction cs arbitrary: n)
  case (Cons c cs)
  have "fold dec_step cs (dec_step c n) < (dec_step c n + 1) * 10 ^ length cs"
    using Cons by simp
  also have "\<dots> \<le> (10 * (n + 1)) * 10 ^ length cs"
    using Cons.prems digit_value [of c] by (intro mult_right_mono) (auto simp: dec_step_def)
  finally show ?case by (simp add: algebra_simps)
qed simp

lemma unat_eq_iff: "n < 2 ^ 32 \<Longrightarrow> unat (w :: u32) = n \<longleftrightarrow> of_nat n = w"
  by (auto simp: unat_of_nat take_bit_nat_eq_self_iff)

lemma unat_of_nat_64: "n < 2 ^ 64 \<Longrightarrow> unat (of_nat n :: 64 word) = n"
  by (simp add: unat_of_nat take_bit_nat_eq_self_iff)

lemma word64_of_nat:
  assumes "n < 10 ^ 10"
  shows "(of_nat n :: 64 word) = 0 \<longleftrightarrow> n = 0"
    "(of_nat n :: 64 word) > 0xFFFFFFFF \<longleftrightarrow> n > 0xFFFFFFFF"
    "ucast (of_nat n :: 64 word) = (of_nat n :: u32)"
proof -
  have "n < 2 ^ 64" using assms by simp
  note unat = unat_of_nat_64 [OF this]
  show "(of_nat n :: 64 word) = 0 \<longleftrightarrow> n = 0" using unat by (metis unsigned_eq_0_iff)
  have "(0xFFFFFFFF :: nat) < 2 ^ 64" by simp
  from unat_of_nat_64 [OF this] have max: "unat (0xFFFFFFFF :: 64 word) = 0xFFFFFFFF"
    unfolding of_nat_numeral .
  show "(of_nat n :: 64 word) > 0xFFFFFFFF \<longleftrightarrow> n > 0xFFFFFFFF"
    unfolding word_less_nat_alt unat max ..
  have "(of_nat (unat (of_nat n :: 64 word)) :: u32) = ucast (of_nat n :: 64 word)"
    by (rule of_nat_unat)
  then show "ucast (of_nat n :: 64 word) = (of_nat n :: u32)" unfolding unat by (rule sym)
qed

lemma dec_value_bound: "list_all is_digit v \<Longrightarrow> length v \<le> 10 \<Longrightarrow> dec_value v < 10 ^ 10"
  using dec_bound [of v 0] power_increasing [of "length v" 10 "10 :: nat"]
  by (simp add: dec_value_def)

lemma parse_size_iff:
  "parse_size v = Some w \<longleftrightarrow>
     1 \<le> length v \<and> length v \<le> 10 \<and> list_all is_digit v \<and>
     0 < dec_value v \<and> dec_value v < 2 ^ 32 \<and> unat w = dec_value v"
proof (cases "1 \<le> length v \<and> length v \<le> 10 \<and> list_all is_digit v")
  case True
  then have len: "\<not> (length v = 0 \<or> length v > 10)" by auto
  have "size_loop v 0 = Some (of_nat (dec_value v))"
    using size_loop_digits [of v 0] True by (simp add: dec_value_def)
  moreover have "dec_value v < 10 ^ 10" using True dec_value_bound by blast
  note word64_of_nat [OF this]
  ultimately have "parse_size v = (if dec_value v = 0 \<or> dec_value v > 0xFFFFFFFF then None
      else Some (of_nat (dec_value v)))"
    unfolding parse_size_def by (simp only: len if_False option.case)
  then have "parse_size v = Some w \<longleftrightarrow>
      0 < dec_value v \<and> dec_value v < 2 ^ 32 \<and> of_nat (dec_value v) = w"
    by auto
  then show ?thesis using True unat_eq_iff [of "dec_value v" w] by auto
next
  case False
  then have "length v = 0 \<or> length v > 10 \<or> size_loop v 0 = None"
    using size_loop_digits [of v 0] by (cases v) auto
  then have "parse_size v = None" by (auto simp: parse_size_def)
  with False show ?thesis by auto
qed

text \<open>Hexadecimal digits, written the way \<^verbatim>\<open>manifest.py\<close> writes a digest.\<close>

definition hex_text :: "byte list \<Rightarrow> string" where
  "hex_text bs = concat (map (\<lambda>b. [hex_char (unat b div 16), hex_char (unat b mod 16)]) bs)"

lemma hex_digit_char: "n < 16 \<Longrightarrow> hex_digit (hex_char n) = int n"
proof -
  assume "n < 16"
  moreover have "list_all (\<lambda>n. hex_digit (hex_char n) = int n) [0..<16]" by code_simp
  ultimately show ?thesis by (simp add: list_all_iff)
qed

lemma nibbles: "word_of_int (push_bit 4 (int (unat b div 16)) OR int (unat b mod 16)) = (b :: byte)"
proof -
  have "push_bit 4 (int (unat b div 16)) OR int (unat b mod 16) = int (unat b)"
  proof -
    have "push_bit 4 (int (unat b div 16)) = push_bit 4 (drop_bit 4 (int (unat b)))"
      by (simp only: drop_bit_eq_div zdiv_int) simp
    moreover have "int (unat b mod 16) = take_bit 4 (int (unat b))"
      by (simp only: take_bit_eq_mod zmod_int) simp
    moreover have "push_bit 4 (drop_bit 4 x) OR take_bit 4 x = x" for x :: int
      by (rule bit_eqI) (auto simp: bit_simps)
    ultimately show ?thesis by (simp only:)
  qed
  then show ?thesis by simp
qed

lemma hex_loop_text:
  "hex_loop (pre @ hex_text bs) i (length bs) = Some bs" if "length pre = 2 * i"
  using that
proof (induction bs arbitrary: pre i)
  case (Cons b bs)
  let ?h = "[hex_char (unat b div 16), hex_char (unat b mod 16)]"
  have "hex_loop ((pre @ ?h) @ hex_text bs) (i + 1) (length bs) = Some bs"
    using Cons.prems by (intro Cons.IH) simp
  moreover have "pre @ hex_text (b # bs) = (pre @ ?h) @ hex_text bs" by (simp add: hex_text_def)
  moreover have "unat b < 256" using unsigned_less [of b, where ?'a = nat] by simp
  ultimately show ?case
    using Cons.prems hex_digit_char [of "unat b div 16"] hex_digit_char [of "unat b mod 16"]
    by (simp add: nth_append nibbles Let_def)
qed simp

lemma length_hex_text [simp]: "length (hex_text bs) = 2 * length bs"
  by (induction bs) (auto simp: hex_text_def)

lemma parse_hex_text: "parse_hex_bytes (hex_text bs) (length bs) = Some bs"
  using hex_loop_text [of "[]" 0 bs] by (simp add: parse_hex_bytes_def)

lemma hex_loop_length: "hex_loop v i n = Some bs \<Longrightarrow> length bs = n"
  by (induction n arbitrary: i bs) (auto simp: Let_def split: if_splits option.splits)

section \<open>File names\<close>

text \<open>A path as the list of its segments; a safe one stays below the directory it is relative to.\<close>

fun segments :: "string \<Rightarrow> string list" where
  "segments [] = [[]]"
| "segments (c # cs) =
     (if c = CHR ''/'' then [] # segments cs
      else case segments cs of [] \<Rightarrow> [[c]] | s # ss \<Rightarrow> (c # s) # ss)"

definition segment_safe :: "string \<Rightarrow> bool" where
  "segment_safe s \<longleftrightarrow> s \<noteq> [] \<and> s \<noteq> ''.'' \<and> s \<noteq> ''..'' \<and> list_all (\<lambda>c. name_char c False) s"

definition path_safe :: "string \<Rightarrow> bool" where
  "path_safe v \<longleftrightarrow> length v \<le> RECOVERY_NAME_MAX \<and> list_all segment_safe (segments v)"

lemma segments_ne [simp]: "segments v \<noteq> []"
  by (induction v) (auto split: list.splits)

lemma segments_no_slash: "CHR ''/'' \<notin> set v \<Longrightarrow> segments v = [v]"
  by (induction v) auto

lemma segments_slash: "CHR ''/'' \<notin> set a \<Longrightarrow> segments (a @ CHR ''/'' # b) = a # segments b"
  by (induction a) auto

lemma segments_chars: "list_all (\<lambda>c. name_char c False) a \<Longrightarrow> CHR ''/'' \<notin> set a"
  by (auto simp: list_all_iff name_char_def less_eq_char_def)

lemma segments_char: "c \<in> set v \<Longrightarrow> c \<noteq> CHR ''/'' \<Longrightarrow> \<exists>s \<in> set (segments v). c \<in> set s"
  by (induction v) (auto split: list.splits)

lemma file_name_loop_correct:
  "seg \<le> i \<Longrightarrow> i \<le> length v \<Longrightarrow>
   list_all (\<lambda>c. name_char c False) (take (i - seg) (drop seg v)) \<Longrightarrow>
   file_name_loop v seg i \<longleftrightarrow> list_all segment_safe (segments (drop seg v))"
proof (induction v seg i rule: file_name_loop.induct)
  case (1 v seg i)
  let ?cur = "take (i - seg) (drop seg v)"
  let ?bad = "i - seg = 0 \<or> (i - seg = 1 \<and> v ! seg = CHR ''.'') \<or>
    (i - seg = 2 \<and> v ! seg = CHR ''.'' \<and> v ! (seg + 1) = CHR ''.'')"
  have len: "length ?cur = i - seg" using 1(3,4) by simp
  have two: "xs = [a, b] \<longleftrightarrow> length xs = 2 \<and> xs ! 0 = a \<and> xs ! 1 = b" for xs :: string and a b
    by (auto simp: length_Suc_conv numeral_2_eq_2)
  have one: "xs = [a] \<longleftrightarrow> length xs = 1 \<and> xs ! 0 = a" for xs :: string and a
    by (auto simp: length_Suc_conv)
  have safe: "segment_safe ?cur \<longleftrightarrow> \<not> ?bad"
    unfolding segment_safe_def two one using 1(3-5) len by auto
  have noslash: "CHR ''/'' \<notin> set ?cur" using 1(5) by (rule segments_chars)
  consider (fin) "i = length v" | (slash) "i < length v" "v ! i = CHR ''/''"
    | (char) "i < length v" "v ! i \<noteq> CHR ''/''"
    using 1(4) by linarith
  then show ?case
  proof cases
    case fin
    then have "drop seg v = ?cur" using 1(3) by simp
    then have "segments (drop seg v) = [?cur]" using segments_no_slash noslash by metis
    moreover have "file_name_loop v (i + 1) (i + 1)" by (subst file_name_loop.simps) (simp add: fin)
    ultimately show ?thesis
      using safe fin by (subst file_name_loop.simps) (simp add: Let_def)
  next
    case slash
    have "drop seg v = ?cur @ CHR ''/'' # drop (Suc i) v"
      using slash 1(3) by (metis Cons_nth_drop_Suc append_take_drop_id drop_drop le_add_diff_inverse2)
    then have "segments (drop seg v) = ?cur # segments (drop (Suc i) v)"
      using segments_slash [OF noslash] by metis
    moreover have "\<not> ?bad \<Longrightarrow> file_name_loop v (i + 1) (i + 1) \<longleftrightarrow>
        list_all segment_safe (segments (drop (i + 1) v))"
      using slash by (intro 1(1)) auto
    ultimately show ?thesis
      using safe slash by (subst file_name_loop.simps) (simp add: Let_def)
  next
    case char
    show ?thesis
    proof (cases "name_char (v ! i) False")
      case True
      have "take (i + 1 - seg) (drop seg v) = ?cur @ [v ! i]"
        using char 1(3) by (simp add: Suc_diff_le take_Suc_conv_app_nth)
      then have "file_name_loop v seg (i + 1) \<longleftrightarrow> list_all segment_safe (segments (drop seg v))"
        using char True 1(3,5) by (intro 1(2)) auto
      then show ?thesis using char True by (subst file_name_loop.simps) simp
    next
      case False
      have "v ! i \<in> set (drop seg v)"
        using char 1(3) by (auto simp: in_set_conv_nth intro!: exI [of _ "i - seg"])
      then obtain s where "s \<in> set (segments (drop seg v))" "v ! i \<in> set s"
        using segments_char char(2) by blast
      then have "\<not> list_all segment_safe (segments (drop seg v))"
        using False by (auto simp: list_all_iff segment_safe_def)
      then show ?thesis using char False by (subst file_name_loop.simps) simp
    qed
  qed
qed

lemma copy_file_name_iff: "copy_file_name v = Some w \<longleftrightarrow> w = v \<and> path_safe v"
proof -
  have "file_name_loop v 0 0 \<longleftrightarrow> list_all segment_safe (segments v)"
    using file_name_loop_correct [of 0 0 v] by simp
  moreover have "list_all segment_safe (segments v) \<Longrightarrow> v \<noteq> []"
    by (cases v) (auto simp: segment_safe_def)
  ultimately show ?thesis by (auto simp: copy_file_name_def path_safe_def)
qed

section \<open>The texts that are accepted\<close>

text \<open>The text of a line, and the effect of the lines after the first.\<close>

definition printable :: "string \<Rightarrow> bool" where
  "printable v = list_all (\<lambda>c. CHR 0x20 \<le> c \<and> c \<le> CHR 0x7E) v"

definition field_text :: "manifest_key \<times> string \<Rightarrow> string" where
  "field_text f = key_name (fst f) @ CHR ''='' # snd f @ [LF]"

definition fields_text :: "(manifest_key \<times> string) list \<Rightarrow> string" where
  "fields_text fs = concat (map field_text fs)"

fun apply_fields :: "(manifest_key \<times> string) list \<Rightarrow> manifest \<Rightarrow> manifest option" where
  "apply_fields [] m = Some m"
| "apply_fields ((k, v) # fs) m =
     (case parse_value m k v of None \<Rightarrow> None | Some m' \<Rightarrow> apply_fields fs m')"

fun see_fields :: "(manifest_key \<times> string) list \<Rightarrow> u32 \<Rightarrow> u32" where
  "see_fields [] seen = seen"
| "see_fields ((k, v) # fs) seen = see_fields fs (seen OR key_bit k)"

lemma scan_line_iff: "scan_line t = Some (l, r) \<longleftrightarrow> t = l @ LF # r \<and> printable l"
proof (induction t arbitrary: l)
  case (Cons c t)
  have lf: "\<not> (CHR 0x20 \<le> LF)" by (simp add: LF_def less_eq_char_def)
  show ?case
  proof (cases "c = LF")
    case True
    then show ?thesis using lf by (cases l) (auto simp: printable_def)
  next
    case False
    show ?thesis
    proof (cases "CHR 0x20 \<le> c \<and> c \<le> CHR 0x7E")
      case True
      then have "scan_line (c # t) = (case scan_line t of None \<Rightarrow> None | Some (l, rest) \<Rightarrow> Some (c # l, rest))"
        using False by auto
      also have "\<dots> = Some (l, r) \<longleftrightarrow> (\<exists>l'. l = c # l' \<and> scan_line t = Some (l', r))"
        by (auto split: option.splits)
      finally show ?thesis
        unfolding Cons using True False by (cases l) (auto simp: printable_def)
    next
      case bad: False
      then have "scan_line (c # t) = None" using False by auto
      moreover have "\<not> (c # t = l @ LF # r \<and> printable l)"
        using bad False by (cases l) (auto simp: printable_def)
      ultimately show ?thesis by auto
    qed
  qed
qed (simp add: printable_def)

lemma split_field_iff:
  "split_field l = Some (n, v) \<longleftrightarrow> l = n @ CHR ''='' # v \<and> n \<noteq> [] \<and> CHR ''='' \<notin> set n"
proof (cases "CHR ''='' \<in> set l")
  case True
  then obtain a b where l: "l = a @ CHR ''='' # b" "CHR ''='' \<notin> set a"
    by (meson split_list_first)
  have "takeWhile (\<lambda>c. c \<noteq> CHR ''='') (a @ CHR ''='' # b) = a"
    using l(2) by (subst takeWhile_append2) auto
  then have "split_field l = (if a = [] then None else Some (a, b))"
    by (simp add: split_field_def Let_def l(1))
  moreover have "l = n @ CHR ''='' # v \<and> CHR ''='' \<notin> set n \<longleftrightarrow> n = a \<and> v = b"
    using l first_occurrence [of "CHR ''=''" a n b v] by auto
  ultimately show ?thesis by auto
next
  case False
  then have tw: "takeWhile (\<lambda>c. c \<noteq> CHR ''='') l = l" by (auto simp: takeWhile_eq_all_conv)
  have "split_field l = None" unfolding split_field_def Let_def tw by simp
  moreover have "l \<noteq> n @ CHR ''='' # v" using False by auto
  ultimately show ?thesis by simp
qed

lemma key_name_inj: "key_name k = key_name k' \<longleftrightarrow> k = k'"
  by (cases k; cases k'; simp)

lemma find_key_iff: "find_key n = Some k \<longleftrightarrow> n = key_name k"
proof
  assume "find_key n = Some k"
  then show "n = key_name k" by (auto simp: find_key_def find_Some_iff)
next
  assume "n = key_name k"
  then show "find_key n = Some k" by (cases k) (simp_all add: find_key_def manifest_keys_def)
qed

lemma key_name_text: "key_name k \<noteq> []" "CHR ''='' \<notin> set (key_name k)" "printable (key_name k)"
  by (cases k; simp add: printable_def less_eq_char_def)+

lemma key_index_inj: "key_index k = key_index k' \<longleftrightarrow> k = k'"
  by (cases k; cases k'; simp)

lemma key_index_bound: "key_index k < 10"
  by (cases k) auto

lemma bit_key_bit: "bit (key_bit k) n \<longleftrightarrow> n = key_index k"
  using key_index_bound [of k] by (auto simp: key_bit_def bit_simps)

lemma seen_and_key: "seen AND key_bit k = 0 \<longleftrightarrow> \<not> bit seen (key_index k)"
  using order.strict_trans2 [OF key_index_bound [of k], of 32]
  by (auto simp: bit_eq_iff [where 'a = "32 word"] bit_simps bit_key_bit)

lemma seen_or_key: "bit (seen OR key_bit k) (key_index k') \<longleftrightarrow> bit seen (key_index k') \<or> k = k'"
  by (auto simp: bit_simps bit_key_bit key_index_inj)

lemma bit_see_fields:
  "bit (see_fields fs seen) (key_index k) \<longleftrightarrow> bit seen (key_index k) \<or> k \<in> fst ` set fs"
  by (induction fs seen rule: see_fields.induct) (auto simp: seen_or_key)

lemma bit_required: "bit REQUIRED_KEYS n \<longleftrightarrow> n < 10 \<and> n \<noteq> 3"
proof -
  have "REQUIRED_KEYS = mask 10 AND NOT (key_bit KEY_SERIAL)"
    by (simp add: REQUIRED_KEYS_def KEY_COUNT_def mask_eq_exp_minus_1 push_bit_eq_mult)
  note eq = this
  show ?thesis unfolding eq by (auto simp: bit_simps bit_key_bit)
qed

lemma all_required: "seen AND REQUIRED_KEYS = REQUIRED_KEYS \<longleftrightarrow>
    (\<forall>k. k \<noteq> KEY_SERIAL \<longrightarrow> bit seen (key_index k))"
proof -
  have "seen AND REQUIRED_KEYS = REQUIRED_KEYS \<longleftrightarrow> (\<forall>n. n < 10 \<and> n \<noteq> 3 \<longrightarrow> bit seen n)"
  proof -
    have "n < 10 \<Longrightarrow> n < 32" for n :: nat by simp
    then have "(\<forall>n < 32. (P n \<and> n < 10 \<and> n \<noteq> 3) = (n < 10 \<and> n \<noteq> 3)) \<longleftrightarrow>
        (\<forall>n. n < 10 \<and> n \<noteq> 3 \<longrightarrow> P n)" for P :: "nat \<Rightarrow> bool" by blast
    then show ?thesis
      by (simp add: bit_eq_iff [where 'a = "32 word"] bit_and_iff bit_required)
  qed
  also have "\<dots> \<longleftrightarrow> (\<forall>k. k \<noteq> KEY_SERIAL \<longrightarrow> bit seen (key_index k))"
  proof
    assume b: "\<forall>n. n < 10 \<and> n \<noteq> 3 \<longrightarrow> bit seen n"
    show "\<forall>k. k \<noteq> KEY_SERIAL \<longrightarrow> bit seen (key_index k)"
      using b key_index_bound key_index_inj [of _ KEY_SERIAL] by auto
  next
    assume b: "\<forall>k. k \<noteq> KEY_SERIAL \<longrightarrow> bit seen (key_index k)"
    have "\<exists>k. n = key_index k" if "n < 10" for n
    proof -
      have "n \<in> key_index ` set manifest_keys"
        using that by (simp add: manifest_keys_def) presburger
      then show ?thesis by blast
    qed
    then show "\<forall>n. n < 10 \<and> n \<noteq> 3 \<longrightarrow> bit seen n"
      using b by (metis key_index.simps(4))
  qed
  finally show ?thesis .
qed

definition fields_ok :: "u32 \<Rightarrow> (manifest_key \<times> string) list \<Rightarrow> bool" where
  "fields_ok seen fs \<longleftrightarrow> list_all (\<lambda>f. printable (snd f)) fs \<and> distinct (map fst fs) \<and>
     list_all (\<lambda>f. \<not> bit seen (key_index (fst f))) fs"

lemma fields_ok_Nil [simp]: "fields_ok seen []"
  by (simp add: fields_ok_def)

lemma fields_ok_Cons: "fields_ok seen ((k, v) # fs) \<longleftrightarrow>
    printable v \<and> \<not> bit seen (key_index k) \<and> fields_ok (seen OR key_bit k) fs"
  by (auto simp: fields_ok_def list_all_iff seen_or_key)

lemma field_text_ne [simp]: "field_text f \<noteq> []"
  by (simp add: field_text_def)

lemma find_key_name [simp]: "find_key (key_name k) = Some k"
  by (simp add: find_key_iff)

lemma key_index_0 [simp]: "key_index k = 0 \<longleftrightarrow> k = KEY_FORMAT"
  by (cases k) auto

lemma field_text_line:
  assumes "printable v"
  shows "scan_line (field_text (k, v) @ r) = Some (key_name k @ CHR ''='' # v, r)"
    "split_field (key_name k @ CHR ''='' # v) = Some (key_name k, v)"
    "find_key (key_name k) = Some k" "field_text (k, v) @ r \<noteq> []"
proof -
  have "printable (key_name k @ CHR ''='' # v)"
    using assms key_name_text(3) [of k] by (simp add: printable_def less_eq_char_def)
  then show "scan_line (field_text (k, v) @ r) = Some (key_name k @ CHR ''='' # v, r)"
    by (simp add: scan_line_iff field_text_def)
  show "split_field (key_name k @ CHR ''='' # v) = Some (key_name k, v)"
    by (simp add: split_field_iff key_name_text)
  show "find_key (key_name k) = Some k" by (simp add: find_key_iff)
  show "field_text (k, v) @ r \<noteq> []" by (simp add: field_text_def)
qed

lemma line_is_field:
  assumes "scan_line t = Some (line, r)" "split_field line = Some (n, v)" "find_key n = Some k"
  shows "t = field_text (k, v) @ r" "printable v"
  using assms by (auto simp: scan_line_iff split_field_iff find_key_iff field_text_def printable_def)

lemma fields_text_simps [simp]:
  "fields_text [] = []" "fields_text (f # fs) = field_text f @ fields_text fs"
  by (simp_all add: fields_text_def)

lemma parse_loop_sound:
  "parse_loop pos t seen m = Inr (seen', m') \<Longrightarrow> pos \<noteq> 0 \<Longrightarrow>
   \<exists>fs. t = fields_text fs \<and> fields_ok seen fs \<and> seen' = see_fields fs seen \<and>
     apply_fields fs m = Some m'"
proof (induction pos t seen m rule: parse_loop.induct)
  case (1 pos t seen m)
  show ?case
  proof (cases "t = []")
    case True
    with 1(3) show ?thesis by (intro exI [of _ "[]"]) (simp add: parse_loop.simps)
  next
    case False
    from 1(3,4) False obtain line r n v k m1 where
      ln: "scan_line t = Some (line, r)" "split_field line = Some (n, v)" "find_key n = Some k"
        "seen AND key_bit k = 0" "parse_value m k v = Some m1"
      and rec: "parse_loop (pos + length line + 1) r (seen OR key_bit k) m1 = Inr (seen', m')"
      by (subst (asm) parse_loop.simps) (auto simp: Let_def split: option.splits if_splits prod.splits)
    obtain fs where fs: "r = fields_text fs" "fields_ok (seen OR key_bit k) fs"
      "seen' = see_fields fs (seen OR key_bit k)" "apply_fields fs m1 = Some m'"
    proof -
      have "\<not> seen AND key_bit k \<noteq> 0" "pos + length line + 1 \<noteq> 0" using ln(4) by auto
      from 1(2) [OF False ln(1) refl ln(2) refl refl refl 1(4) ln(3) this(1) ln(5) rec this(2)] that
      show ?thesis by blast
    qed
    with ln line_is_field [OF ln(1-3)] show ?thesis
      by (intro exI [of _ "(k, v) # fs"]) (simp add: fields_ok_Cons seen_and_key)
  qed
qed

lemma parse_loop_complete:
  "fields_ok seen fs \<Longrightarrow> apply_fields fs m = Some m' \<Longrightarrow> pos \<noteq> 0 \<Longrightarrow>
   parse_loop pos (fields_text fs) seen m = Inr (see_fields fs seen, m')"
proof (induction fs arbitrary: pos seen m)
  case (Cons f fs)
  obtain k v where f: "f = (k, v)" by (cases f)
  with Cons.prems obtain m1 where m1: "parse_value m k v = Some m1" "apply_fields fs m1 = Some m'"
    by (auto split: option.splits)
  have v: "printable v" "seen AND key_bit k = 0" "fields_ok (seen OR key_bit k) fs"
    using Cons.prems f by (auto simp: fields_ok_Cons seen_and_key)
  then show ?case
    using Cons.IH [OF v(3) m1(2)] m1(1) Cons.prems(3) field_text_line [OF v(1), of k]
    by (subst parse_loop.simps) (simp add: f Let_def)
qed (simp add: parse_loop.simps)

text \<open>The lines of a well-formed manifest after \<open>format=1\<close>: printable values, no key twice, and every
  key but the serial pattern there.\<close>

definition manifest_fields :: "(manifest_key \<times> string) list \<Rightarrow> bool" where
  "manifest_fields fs \<longleftrightarrow> list_all (\<lambda>f. printable (snd f)) fs \<and>
     distinct (KEY_FORMAT # map fst fs) \<and> (\<forall>k. k \<in> {KEY_FORMAT, KEY_SERIAL} \<union> fst ` set fs)"

definition with_serial :: "(manifest_key \<times> string) list \<Rightarrow> manifest \<Rightarrow> manifest" where
  "with_serial fs m = (if KEY_SERIAL \<notin> fst ` set fs then m\<lparr>mf_serial := ''*''\<rparr> else m)"

lemma parse_first_line:
  "parse_loop 0 t 0 m = Inr x \<longleftrightarrow>
    (t = [] \<and> x = (0, m)) \<or>
    (\<exists>r. t = field_text (KEY_FORMAT, ''1'') @ r \<and>
       parse_loop (length ''format=1'' + 1) r (key_bit KEY_FORMAT) m = Inr x)"
proof (cases "t = []")
  case True
  then show ?thesis by (auto simp: parse_loop.simps field_text_def)
next
  case False
  have p: "printable ''1''" by (simp add: printable_def less_eq_char_def)
  show ?thesis
  proof
    assume "parse_loop 0 t 0 m = Inr x"
    with False obtain line r where
      ln: "scan_line t = Some (line, r)" "split_field line = Some (key_name KEY_FORMAT, ''1'')"
        "parse_loop (0 + length line + 1) r (0 OR key_bit KEY_FORMAT) m = Inr x"
      by (subst (asm) parse_loop.simps)
        (auto simp: Let_def find_key_iff split: option.splits if_splits prod.splits)
    then have "line = ''format=1''" by (simp add: split_field_iff)
    with ln line_is_field [OF ln(1,2) find_key_name] show "t = [] \<and> x = (0, m) \<or>
      (\<exists>r. t = field_text (KEY_FORMAT, ''1'') @ r \<and>
       parse_loop (length ''format=1'' + 1) r (key_bit KEY_FORMAT) m = Inr x)"
      by (auto simp: find_key_iff)
  next
    assume "t = [] \<and> x = (0, m) \<or> (\<exists>r. t = field_text (KEY_FORMAT, ''1'') @ r \<and>
       parse_loop (length ''format=1'' + 1) r (key_bit KEY_FORMAT) m = Inr x)"
    with False obtain r where r: "t = field_text (KEY_FORMAT, ''1'') @ r"
      "parse_loop (length ''format=1'' + 1) r (key_bit KEY_FORMAT) m = Inr x" by auto
    show "parse_loop 0 t 0 m = Inr x"
      using r(2) field_text_line(1) [OF p, of KEY_FORMAT r] field_text_line(2) [OF p, of KEY_FORMAT]
        find_key_name [of KEY_FORMAT] False
      by (subst parse_loop.simps) (simp add: Let_def flip: r(1))
  qed
qed

lemma manifest_parse_iff:
  "recovery_manifest_parse text = Inr m \<longleftrightarrow>
    (\<exists>fs m'. text = field_text (KEY_FORMAT, ''1'') @ fields_text fs \<and> manifest_fields fs \<and>
       apply_fields fs manifest_zero = Some m' \<and> m = with_serial fs m')"
proof -
  let ?s = "key_bit KEY_FORMAT"
  have loop: "parse_loop (length ''format=1'' + 1) r ?s manifest_zero = Inr (seen, m') \<longleftrightarrow>
    (\<exists>fs. r = fields_text fs \<and> fields_ok ?s fs \<and> seen = see_fields fs ?s \<and>
       apply_fields fs manifest_zero = Some m')" for r seen m'
    using parse_loop_sound [of _ r ?s manifest_zero seen m'] parse_loop_complete [of ?s _ manifest_zero m']
    by (auto 0 3)
  have ok: "fields_ok ?s fs \<and> see_fields fs ?s AND REQUIRED_KEYS = REQUIRED_KEYS \<longleftrightarrow> manifest_fields fs" for fs
    unfolding all_required bit_see_fields bit_key_bit key_index_inj
    by (auto simp: fields_ok_def manifest_fields_def list_all_iff bit_key_bit key_index_inj
        intro: rev_image_eqI)
  have serial: "see_fields fs ?s AND key_bit KEY_SERIAL = 0 \<longleftrightarrow> KEY_SERIAL \<notin> fst ` set fs" for fs
    unfolding seen_and_key bit_see_fields bit_key_bit key_index_inj by auto
  have "recovery_manifest_parse text = Inr m \<longleftrightarrow>
    (\<exists>seen m'. parse_loop 0 text 0 manifest_zero = Inr (seen, m') \<and> text \<noteq> [] \<and>
       seen AND REQUIRED_KEYS = REQUIRED_KEYS \<and>
       m = (if seen AND key_bit KEY_SERIAL = 0 then m'\<lparr>mf_serial := ''*''\<rparr> else m'))"
    by (auto simp: recovery_manifest_parse_def split: sum.splits prod.splits if_splits)
  also have "\<dots> \<longleftrightarrow> (\<exists>fs m'. text = field_text (KEY_FORMAT, ''1'') @ fields_text fs \<and>
      (fields_ok ?s fs \<and> see_fields fs ?s AND REQUIRED_KEYS = REQUIRED_KEYS) \<and>
      apply_fields fs manifest_zero = Some m' \<and>
      m = (if see_fields fs ?s AND key_bit KEY_SERIAL = 0 then m'\<lparr>mf_serial := ''*''\<rparr> else m'))"
  proof (cases "text = []")
    case True
    then show ?thesis unfolding parse_first_line by simp
  next
    case False
    then show ?thesis unfolding parse_first_line loop by blast
  qed
  finally show ?thesis unfolding ok serial with_serial_def .
qed

section \<open>What an accepted manifest holds\<close>

fun field_valid :: "manifest_key \<Rightarrow> manifest \<Rightarrow> bool" where
  "field_valid KEY_FORMAT m = True"
| "field_valid KEY_PACKAGE m =
     (mf_package m \<noteq> [] \<and> length (mf_package m) \<le> RECOVERY_NAME_MAX \<and>
      list_all (\<lambda>c. name_char c False) (mf_package m))"
| "field_valid KEY_IDCODE m = True"
| "field_valid KEY_SERIAL m =
     (mf_serial m \<noteq> [] \<and> length (mf_serial m) \<le> RECOVERY_SERIAL_PATTERN_MAX)"
| "field_valid KEY_FPGA_FILE m = path_safe (rf_name (mf_fpga m))"
| "field_valid KEY_FPGA_SIZE m = (0 < unat (rf_size (mf_fpga m)))"
| "field_valid KEY_FPGA_SHA256 m = (length (rf_sha256 (mf_fpga m)) = 32)"
| "field_valid KEY_IMAGE_FILE m = path_safe (rf_name (mf_image m))"
| "field_valid KEY_IMAGE_SIZE m = (0 < unat (rf_size (mf_image m)))"
| "field_valid KEY_IMAGE_SHA256 m = (length (rf_sha256 (mf_image m)) = 32)"

lemma parse_hex_length: "parse_hex_bytes v n = Some bs \<Longrightarrow> length bs = n"
  by (auto simp: parse_hex_bytes_def split: if_splits dest: hex_loop_length)

lemma parse_size_pos: "parse_size v = Some w \<Longrightarrow> 0 < unat w"
  using parse_size_iff [of v w] by auto

lemma copy_file_name_safe: "copy_file_name v = Some w \<Longrightarrow> path_safe w"
  by (simp add: copy_file_name_iff)

lemma copy_name_valid: "copy_name v = Some w \<Longrightarrow>
    w \<noteq> [] \<and> length w \<le> RECOVERY_NAME_MAX \<and> list_all (\<lambda>c. name_char c False) w"
  by (auto simp: copy_name_def list_ex_iff list_all_iff split: if_splits)

lemmas value_valid = parse_hex_length parse_size_pos copy_file_name_safe copy_name_valid

lemma parse_value_valid:
  assumes "parse_value m k v = Some m'"
  shows "field_valid k m'" "field_valid k' m \<Longrightarrow> field_valid k' m'"
proof -
  show "field_valid k m'"
    using assms by (cases k) (auto simp: parse_value_def split: if_splits dest: value_valid)
  show "field_valid k' m \<Longrightarrow> field_valid k' m'"
    using assms
    by (cases k) (cases k'; auto simp: parse_value_def split: if_splits dest: value_valid)+
qed

lemma apply_fields_valid:
  "apply_fields fs m = Some m' \<Longrightarrow> k \<in> fst ` set fs \<or> field_valid k m \<Longrightarrow> field_valid k m'"
proof (induction fs m rule: apply_fields.induct)
  case (2 k1 v fs m)
  then obtain m1 where m1: "parse_value m k1 v = Some m1" "apply_fields fs m1 = Some m'"
    by (auto split: option.splits)
  with 2 parse_value_valid [OF m1(1)] show ?case by auto
qed simp

lemma manifest_parse_valid:
  assumes "recovery_manifest_parse text = Inr m"
  shows "field_valid k m"
proof -
  obtain fs m' where fs: "manifest_fields fs" "apply_fields fs manifest_zero = Some m'"
    "m = with_serial fs m'"
    using assms by (auto simp: manifest_parse_iff)
  show ?thesis
  proof (cases "k = KEY_SERIAL")
    case True
    then show ?thesis
      using apply_fields_valid [OF fs(2), of KEY_SERIAL]
      by (auto simp: fs(3) with_serial_def RECOVERY_SERIAL_PATTERN_MAX_def)
  next
    case False
    moreover have "k = KEY_FORMAT \<or> k \<in> fst ` set fs"
      using fs(1) False by (auto simp: manifest_fields_def)
    ultimately have "field_valid k m'" using apply_fields_valid [OF fs(2), of k] by auto
    with False show ?thesis by (cases k) (auto simp: fs(3) with_serial_def)
  qed
qed

section \<open>The signature line\<close>

lemma line_start_props:
  "e \<le> length text \<Longrightarrow> line_start text e \<le> e \<and>
   (line_start text e = 0 \<or> text ! (line_start text e - 1) = LF) \<and>
   LF \<notin> set (drop (line_start text e) (take e text))"
proof (induction "text" e rule: line_start.induct)
  case (2 t n)
  then show ?case by (auto simp: take_Suc_conv_app_nth)
qed simp

lemma line_start_append:
  assumes "LF \<notin> set b" "a \<noteq> []" "last a = LF"
  shows "line_start (a @ b @ c) (length a + length b) = length a"
  using assms(1)
proof (induction b arbitrary: c rule: rev_induct)
  case Nil
  with assms(2,3) show ?case by (cases a rule: rev_cases) auto
next
  case (snoc x b)
  then show ?case using snoc.IH [of "x # c"] by (auto simp: nth_append)
qed

lemma manifest_split_sound:
  assumes "recovery_manifest_split text = Inr sig"
  shows "\<exists>body b64 tail. text = body @ ''sig='' @ b64 @ tail \<and> tail \<in> {[], [LF]} \<and>
    length text \<le> RECOVERY_MANIFEST_MAX_SIZE \<and> body \<noteq> [] \<and> last body = LF \<and> b64 \<noteq> [] \<and>
    LF \<notin> set b64 \<and> length b64 \<le> SIG_BASE64_MAX \<and>
    sig = \<lparr>signed_len = length body, sig_base64 = b64\<rparr>"
proof -
  define e where "e = (if length text \<noteq> 0 \<and> text ! (length text - 1) = LF then length text - 1
    else length text)"
  define n where "n = line_start text e"
  have split: "length text \<le> RECOVERY_MANIFEST_MAX_SIZE" "n \<noteq> 0" "4 < e - n"
    "take 4 (drop n text) = ''sig=''" "e - n - 4 \<le> SIG_BASE64_MAX"
    "sig = \<lparr>signed_len = n, sig_base64 = take (e - n - 4) (drop (n + 4) text)\<rparr>"
    using assms unfolding recovery_manifest_split_def Let_def e_def [symmetric] n_def [symmetric]
    by (auto split: if_splits)
  have e: "e \<le> length text" by (simp add: e_def)
  from line_start_props [OF this] have n: "n \<le> e" "text ! (n - 1) = LF" "LF \<notin> set (drop n (take e text))"
    using split(2) by (auto simp: n_def)
  let ?b = "take (e - n - 4) (drop (n + 4) text)"
  have mid: "drop n (take e text) = ''sig='' @ ?b"
  proof -
    have "drop n (take e text) = take (e - n) (drop n text)" by (simp add: drop_take)
    also have "\<dots> = take 4 (drop n text) @ take (e - n - 4) (drop 4 (drop n text))"
      using split(3) by (metis le_add_diff_inverse less_imp_le take_add)
    finally show ?thesis by (simp add: split(4) add.commute)
  qed
  have tail: "drop e text \<in> {[], [LF]}"
    by (auto simp: e_def drop_eq_Nil2 intro: nth_equalityI)
  have "text = take n text @ drop n (take e text) @ drop e text"
    using n(1) by (metis append.assoc append_take_drop_id min.absorb1 take_take)
  moreover have "last (take n text) = LF"
    using split(2) n e by (subst last_conv_nth) auto
  moreover have "LF \<notin> set ?b" using n(3) unfolding mid by auto
  moreover have "?b \<noteq> []" "length ?b \<le> SIG_BASE64_MAX" "take n text \<noteq> []" "length (take n text) = n"
    using split n e by auto
  ultimately show ?thesis
    using split(1,6) tail mid
    by (intro exI [of _ "take n text"] exI [of _ ?b] exI [of _ "drop e text"]) simp
qed

lemma manifest_split_complete:
  assumes "text = body @ ''sig='' @ b64 @ tail" "tail = [] \<or> tail = [LF]"
    "length text \<le> RECOVERY_MANIFEST_MAX_SIZE" "body \<noteq> []" "last body = LF" "b64 \<noteq> []"
    "LF \<notin> set b64" "length b64 \<le> SIG_BASE64_MAX"
  shows "recovery_manifest_split text = Inr \<lparr>signed_len = length body, sig_base64 = b64\<rparr>"
proof -
  define e where "e = (if length text \<noteq> 0 \<and> text ! (length text - 1) = LF then length text - 1
    else length text)"
  have "last b64 \<noteq> LF" using assms(6,7) last_in_set by metis
  then have e: "e = length body + length (''sig='' @ b64)"
    using assms(1,2,6) by (auto simp: e_def nth_append last_conv_nth)
  have "LF \<notin> set (''sig='' @ b64)" using assms(7) by (simp add: LF_def)
  from line_start_append [OF this assms(4,5), of tail]
  have n: "line_start text e = length body" by (simp add: e assms(1))
  show ?thesis
    unfolding recovery_manifest_split_def Let_def e_def [symmetric] n
    using assms e by simp
qed

section \<open>Properties\<close>

text \<open>C3: The serial matcher is exact: the greedy loop that only ever backtracks to the last star accepts
  a serial precisely when the tokens of the pattern (stars, single characters, sets and ranges) can
  be matched against it in some way.\<close>

theorem serial_match_exact:
  "recovery_serial_match pattern serial \<longleftrightarrow> tokens_match (pattern_tokens pattern) serial"
  using match_loop_correct [of pattern serial None]
  by (simp add: recovery_serial_match_def star_ok_def star_matches_def glob_def)


text \<open>C17: What an accepted manifest holds is safe to use: file names whose segments are never empty,
  \<open>.\<close> or \<open>..\<close> and hold no special characters, so they stay below the manifest's own location; file
  sizes that are not zero; hashes of 32 bytes; a package name and a serial pattern that fit.\<close>

theorem manifest_contents_safe:
  assumes "recovery_manifest_parse t = Inr m"
  shows "path_safe (rf_name (mf_fpga m)) \<and> path_safe (rf_name (mf_image m)) \<and>
    0 < unat (rf_size (mf_fpga m)) \<and> 0 < unat (rf_size (mf_image m)) \<and>
    length (rf_sha256 (mf_fpga m)) = 32 \<and> length (rf_sha256 (mf_image m)) = 32 \<and>
    list_all (\<lambda>c. name_char c False) (mf_package m) \<and> length (mf_package m) \<le> RECOVERY_NAME_MAX \<and>
    mf_serial m \<noteq> [] \<and> length (mf_serial m) \<le> RECOVERY_SERIAL_PATTERN_MAX"
  using manifest_parse_valid [OF assms, of KEY_FPGA_FILE] manifest_parse_valid [OF assms, of KEY_IMAGE_FILE]
    manifest_parse_valid [OF assms, of KEY_FPGA_SIZE] manifest_parse_valid [OF assms, of KEY_IMAGE_SIZE]
    manifest_parse_valid [OF assms, of KEY_FPGA_SHA256]
    manifest_parse_valid [OF assms, of KEY_IMAGE_SHA256]
    manifest_parse_valid [OF assms, of KEY_PACKAGE] manifest_parse_valid [OF assms, of KEY_SERIAL]
  by simp

definition sample_hash :: "byte list" where
  "sample_hash = replicate 31 0xA5 @ [0x3C]"

definition sample_fields :: "(manifest_key \<times> string) list" where
  "sample_fields =
     [(KEY_PACKAGE, ''u64e2-3.14''), (KEY_IDCODE, ''0362c093''), (KEY_FPGA_FILE, ''fpga/u64.bit''),
      (KEY_FPGA_SIZE, ''2192121''), (KEY_FPGA_SHA256, hex_text sample_hash),
      (KEY_IMAGE_FILE, ''update.ue2''), (KEY_IMAGE_SIZE, ''8123456''),
      (KEY_IMAGE_SHA256, hex_text sample_hash)]"

definition sample_manifest :: manifest where
  "sample_manifest =
     \<lparr>mf_package = ''u64e2-3.14'', mf_idcode = 0x0362c093, mf_serial = ''*'',
      mf_fpga = \<lparr>rf_name = ''fpga/u64.bit'', rf_size = 2192121, rf_sha256 = sample_hash\<rparr>,
      mf_image = \<lparr>rf_name = ''update.ue2'', rf_size = 8123456, rf_sha256 = sample_hash\<rparr>\<rparr>"

lemma sample_parses:
  "recovery_manifest_parse (field_text (KEY_FORMAT, ''1'') @ fields_text sample_fields) =
    Inr sample_manifest"
  by code_simp

lemma manifest_contents_safe_witness:
  "path_safe (rf_name (mf_fpga sample_manifest)) \<and> length (rf_sha256 (mf_image sample_manifest)) = 32"
  using manifest_contents_safe [OF sample_parses] by simp

text \<open>C21: The split finds exactly the signature line that is last: it succeeds precisely for a text of
  at most 2048 bytes made of a signed part that ends in a line feed, then \<open>sig=\<close>, then 1 to 108
  characters without a line feed, then at most one line feed; and it answers those two parts.\<close>

theorem manifest_split_exact:
  "recovery_manifest_split t = Inr s \<longleftrightarrow>
    (\<exists>body b64 tail. t = body @ ''sig='' @ b64 @ tail \<and> tail \<in> {[], [LF]} \<and>
      length t \<le> RECOVERY_MANIFEST_MAX_SIZE \<and> body \<noteq> [] \<and> last body = LF \<and> b64 \<noteq> [] \<and>
      LF \<notin> set b64 \<and> length b64 \<le> SIG_BASE64_MAX \<and>
      s = \<lparr>signed_len = length body, sig_base64 = b64\<rparr>)"
  using manifest_split_sound [of t s] manifest_split_complete [of t] by blast

text \<open>A size is read exactly: the reader accepts one to ten decimal digits whose value is not zero
  and fits in 32 bits, and answers that value; its 64-bit accumulator never wraps.\<close>

lemma parse_size_exact:
  "parse_size v = Some w \<longleftrightarrow>
     1 \<le> length v \<and> length v \<le> 10 \<and> list_all is_digit v \<and>
     0 < dec_value v \<and> dec_value v < 2 ^ 32 \<and> unat w = dec_value v"
  by (rule parse_size_iff)

end
