(* ===== verification/Recovery_Url.thy ===== *)
theory Recovery_Url
  imports Prelude
begin

text \<open>
  The URLs of a recovery, \<^verbatim>\<open>software/u64ctrl/main/recovery_url.c\<close>: which server URLs are
  acceptable, the request a board sends, the URL of a file next to its manifest, and where a
  redirect leads.  A NUL terminated string is the list of the characters before the NUL.  A function
  that fills a buffer of \<open>sz\<close> bytes answers \<open>None\<close> where the code returns false, and what it left
  in the buffer otherwise.
\<close>

section \<open>The code\<close>

definition RECOVERY_URL_MAX :: nat where "RECOVERY_URL_MAX = 127"

definition starts_with :: "string \<Rightarrow> string \<Rightarrow> bool" where
  "starts_with p s \<longleftrightarrow> take (length p) s = p"

definition strcspn :: "string \<Rightarrow> string \<Rightarrow> nat" where
  "strcspn s reject = length (takeWhile (\<lambda>c. c \<notin> set reject) s)"

definition scheme_len :: "string \<Rightarrow> nat" where
  "scheme_len url =
     (if starts_with ''http://'' url then 7 else if starts_with ''https://'' url then 8 else 0)"

definition recovery_url_valid :: "string \<Rightarrow> bool" where
  "recovery_url_valid url =
     (let len = length url
      in if len = 0 then True
         else if len > RECOVERY_URL_MAX then False
         else if list_ex (\<lambda>c. c \<le> CHR 0x20 \<or> c > CHR 0x7E) url then False
         else
           let s = scheme_len url
           in s \<noteq> 0 \<and> s < length url \<and> url ! s \<noteq> CHR ''/'' \<and> url ! s \<noteq> CHR ''?'')"

definition url_plain :: "char \<Rightarrow> bool" where
  "url_plain c \<longleftrightarrow> (CHR ''A'' \<le> c \<and> c \<le> CHR ''Z'') \<or> (CHR ''a'' \<le> c \<and> c \<le> CHR ''z'') \<or>
     (CHR ''0'' \<le> c \<and> c \<le> CHR ''9'') \<or>
     c = CHR ''-'' \<or> c = CHR ''.'' \<or> c = CHR ''_'' \<or> c = CHR ''~''"

definition url_hex :: "nat \<Rightarrow> char" where
  "url_hex n = ''0123456789ABCDEF'' ! n"

text \<open>The loop over the serial; \<open>out\<close> is what the buffer holds so far.\<close>

primrec encode_loop :: "nat \<Rightarrow> string \<Rightarrow> string \<Rightarrow> string option" where
  "encode_loop sz out [] = Some out"
| "encode_loop sz out (c # cs) =
     (if length out + (if url_plain c then 1 else 3) \<ge> sz then None
      else if url_plain c then encode_loop sz (out @ [c]) cs
      else encode_loop sz
             (out @ [CHR ''%'', url_hex (of_char c div 16 mod 16), url_hex (of_char c mod 16)]) cs)"

definition recovery_request_url ::
  "nat \<Rightarrow> string \<Rightarrow> string \<Rightarrow> u32 \<Rightarrow> int \<Rightarrow> int \<Rightarrow> string option" where
  "recovery_request_url sz base serial idcode esp_major esp_minor =
     (let len = length base;
          len' = (if len \<noteq> 0 \<and> base ! (len - 1) = CHR ''/'' then len - 1 else len)
      in case fitting sz (take len' base @ ''/v1/recovery?serial='') of
           None \<Rightarrow> None
         | Some out \<Rightarrow>
             (case encode_loop sz out serial of
                None \<Rightarrow> None
              | Some out' \<Rightarrow>
                  map_option (\<lambda>rest. out' @ rest)
                    (fitting (sz - length out')
                       (''&idcode='' @ hex8_text idcode @ ''&esp='' @ int_text esp_major @ ''.'' @
                        int_text esp_minor))))"

text \<open>The loop back to the last slash before \<open>dir\<close>; it runs only when there is one.\<close>

fun dir_start :: "string \<Rightarrow> nat \<Rightarrow> nat" where
  "dir_start url 0 = 0"
| "dir_start url (Suc dir) = (if url ! dir \<noteq> CHR ''/'' then dir_start url dir else Suc dir)"

definition recovery_file_url :: "nat \<Rightarrow> string \<Rightarrow> string \<Rightarrow> string option" where
  "recovery_file_url sz manifest_url name =
     (let end = strcspn manifest_url ''?#'';
          s = scheme_len manifest_url;
          slash = (CHR ''/'' \<in> set (take (end - s) (drop s manifest_url)));
          dir = (if \<not> slash then end else dir_start manifest_url end);
          sep = (if \<not> slash then ''/'' else '''')
      in fitting sz (take dir manifest_url @ sep @ name))"

definition recovery_url_resolve :: "nat \<Rightarrow> string \<Rightarrow> string \<Rightarrow> string option" where
  "recovery_url_resolve sz base location =
     (if scheme_len location \<noteq> 0 then fitting sz location
      else if starts_with ''//'' location then
        let s = scheme_len base
        in fitting sz (take (if s \<noteq> 0 then s - 2 else 0) base @ location)
      else if starts_with ''/'' location then
        let s = scheme_len base; origin = s + strcspn (drop s base) ''/?#''
        in fitting sz (take origin base @ location)
      else recovery_file_url sz base location)"

section \<open>The parts of a URL\<close>

text \<open>A URL as the recovery uses it: a scheme, the host with its port, a path that is empty or starts
  with a slash, and a query or fragment.\<close>

record url_parts =
  u_scheme :: string
  u_host :: string
  u_path :: string
  u_rest :: string

definition url_ok :: "url_parts \<Rightarrow> bool" where
  "url_ok u \<longleftrightarrow> u_scheme u \<in> {''http:'', ''https:''} \<and> set (u_host u) \<inter> set ''/?#'' = {} \<and>
     (u_path u = [] \<or> hd (u_path u) = CHR ''/'') \<and> set (u_path u) \<inter> set ''?#'' = {} \<and>
     (u_rest u = [] \<or> hd (u_rest u) \<in> set ''?#'')"

definition origin_text :: "url_parts \<Rightarrow> string" where
  "origin_text u = u_scheme u @ ''//'' @ u_host u"

definition url_text :: "url_parts \<Rightarrow> string" where
  "url_text u = origin_text u @ u_path u @ u_rest u"

text \<open>The directory of a path: everything up to its last slash.\<close>

definition directory :: "string \<Rightarrow> string" where
  "directory p = (if p = [] then ''/'' else rev (dropWhile (\<lambda>c. c \<noteq> CHR ''/'') (rev p)))"

lemma scheme_len_text:
  assumes "url_ok u"
  shows "scheme_len (url_text u) = length (u_scheme u) + 2" "length (u_scheme u) \<ge> 5"
  using assms by (auto simp: url_ok_def url_text_def origin_text_def scheme_len_def starts_with_def)

lemma takeWhile_stop: "\<forall>c \<in> set a. P c \<Longrightarrow> b = [] \<or> \<not> P (hd b) \<Longrightarrow> takeWhile P (a @ b) = a"
  by (cases b) (auto simp: takeWhile_append takeWhile_eq_all_conv)

lemma strcspn_stop:
  assumes "set a \<inter> set reject = {}" "b = [] \<or> hd b \<in> set reject"
  shows "strcspn (a @ b) reject = length a"
  unfolding strcspn_def using assms by (subst takeWhile_stop) auto

lemma dir_start_append:
  "CHR ''/'' \<notin> set b \<Longrightarrow> dir_start (a @ CHR ''/'' # b @ c) (length a + 1 + length b) = length a + 1"
proof (induction b arbitrary: c rule: rev_induct)
  case (snoc x b)
  then show ?case using snoc.IH [of "x # c"] by (auto simp: nth_append)
qed (simp add: nth_append)

lemma directory_split:
  "CHR ''/'' \<in> set p \<Longrightarrow> \<exists>b. p = directory p @ b \<and> CHR ''/'' \<notin> set b \<and>
    (\<exists>a. directory p = a @ ''/'')"
proof -
  assume "CHR ''/'' \<in> set p"
  then obtain a b where p: "p = a @ CHR ''/'' # b" "CHR ''/'' \<notin> set b"
    by (meson split_list_last)
  have "dropWhile (\<lambda>c. c \<noteq> CHR ''/'') (rev b @ CHR ''/'' # rev a) = CHR ''/'' # rev a"
    using p(2) by (subst dropWhile_append2) auto
  then have "directory p = a @ ''/''" by (simp add: directory_def p(1))
  with p show ?thesis by auto
qed

lemma file_url_text:
  assumes ok: "url_ok u"
  shows "recovery_file_url sz (url_text u) name =
    fitting sz (origin_text u @ directory (u_path u) @ name)"
proof -
  let ?o = "origin_text u" and ?p = "u_path u" and ?r = "u_rest u"
  have clean: "set (?o @ ?p) \<inter> set ''?#'' = {}"
    using ok by (auto simp: url_ok_def origin_text_def)
  have "end": "strcspn (url_text u) ''?#'' = length (?o @ ?p)"
    using strcspn_stop [OF clean, of ?r] ok by (simp add: url_text_def url_ok_def)
  have s: "scheme_len (url_text u) = length (u_scheme u) + 2" by (rule scheme_len_text [OF ok])
  have mid: "take (length (?o @ ?p) - (length (u_scheme u) + 2))
      (drop (length (u_scheme u) + 2) (url_text u)) = u_host u @ ?p"
    by (simp add: url_text_def origin_text_def)
  have host: "CHR ''/'' \<notin> set (u_host u)" using ok by (auto simp: url_ok_def)
  show ?thesis
  proof (cases "?p = []")
    case True
    then show ?thesis
      unfolding recovery_file_url_def Let_def "end" s mid
      using host by (simp add: url_text_def directory_def)
  next
    case False
    then have slash: "CHR ''/'' \<in> set ?p" using ok by (cases ?p) (auto simp: url_ok_def)
    from directory_split [OF this] obtain a b where p: "?p = (a @ ''/'') @ b" "CHR ''/'' \<notin> set b"
      "directory ?p = a @ ''/''" by auto
    have "dir_start (url_text u) (length (?o @ ?p)) = length (?o @ directory ?p)"
    proof -
      have "url_text u = (?o @ a) @ CHR ''/'' # b @ ?r"
        "length (?o @ ?p) = length (?o @ a) + 1 + length b"
        using p(1) by (simp_all add: url_text_def)
      then have "dir_start (url_text u) (length (?o @ ?p)) = length (?o @ a) + 1"
        using dir_start_append [OF p(2), of "?o @ a" ?r] by (simp only:)
      then show ?thesis by (simp add: p(3))
    qed
    moreover have "take (length (?o @ directory ?p)) (url_text u) = ?o @ directory ?p"
      using p(1,3) by (simp add: url_text_def)
    ultimately show ?thesis
      unfolding recovery_file_url_def Let_def "end" s mid using slash by simp
  qed
qed

lemma resolve_text:
  assumes ok: "url_ok u"
  shows "scheme_len loc \<noteq> 0 \<Longrightarrow> recovery_url_resolve sz (url_text u) loc = fitting sz loc"
    "starts_with ''//'' loc \<Longrightarrow>
       recovery_url_resolve sz (url_text u) loc = fitting sz (u_scheme u @ loc)"
    "starts_with ''/'' loc \<Longrightarrow> \<not> starts_with ''//'' loc \<Longrightarrow>
       recovery_url_resolve sz (url_text u) loc = fitting sz (origin_text u @ loc)"
    "scheme_len loc = 0 \<Longrightarrow> \<not> starts_with ''/'' loc \<Longrightarrow>
       recovery_url_resolve sz (url_text u) loc =
         fitting sz (origin_text u @ directory (u_path u) @ loc)"
proof -
  note s = scheme_len_text [OF ok]
  have slash: "scheme_len loc = 0" if "starts_with ''/'' loc"
    using that by (cases loc) (auto simp: scheme_len_def starts_with_def)
  have two: "starts_with ''/'' loc" if "starts_with ''//'' loc"
    using that by (cases loc) (auto simp: starts_with_def)
  show "scheme_len loc \<noteq> 0 \<Longrightarrow> recovery_url_resolve sz (url_text u) loc = fitting sz loc"
    by (simp add: recovery_url_resolve_def)
  show "starts_with ''//'' loc \<Longrightarrow>
       recovery_url_resolve sz (url_text u) loc = fitting sz (u_scheme u @ loc)"
    using slash two s by (simp add: recovery_url_resolve_def url_text_def origin_text_def Let_def)
  have "drop (length (u_scheme u) + 2) (url_text u) = u_host u @ (u_path u @ u_rest u)"
    by (simp add: url_text_def origin_text_def)
  moreover have "strcspn (u_host u @ (u_path u @ u_rest u)) ''/?#'' = length (u_host u)"
    using ok by (intro strcspn_stop) (cases "u_path u"; auto simp: url_ok_def)+
  ultimately show "starts_with ''/'' loc \<Longrightarrow> \<not> starts_with ''//'' loc \<Longrightarrow>
       recovery_url_resolve sz (url_text u) loc = fitting sz (origin_text u @ loc)"
    using slash s by (simp add: recovery_url_resolve_def Let_def)
      (simp add: url_text_def origin_text_def)
  show "scheme_len loc = 0 \<Longrightarrow> \<not> starts_with ''/'' loc \<Longrightarrow>
       recovery_url_resolve sz (url_text u) loc =
         fitting sz (origin_text u @ directory (u_path u) @ loc)"
    using two by (auto simp: recovery_url_resolve_def file_url_text [OF ok])
qed

section \<open>The request\<close>

definition encode_char :: "char \<Rightarrow> string" where
  "encode_char c =
     (if url_plain c then [c]
      else [CHR ''%'', url_hex (of_char c div 16 mod 16), url_hex (of_char c mod 16)])"

definition percent_encode :: "string \<Rightarrow> string" where
  "percent_encode s = concat (map encode_char s)"

definition url_hex_value :: "char \<Rightarrow> nat" where
  "url_hex_value c = (if CHR ''A'' \<le> c then of_char c - 55 else of_char c - 48)"

fun percent_decode :: "string \<Rightarrow> string" where
  "percent_decode [] = []"
| "percent_decode (c # cs) =
     (if c = CHR ''%'' then
        (case cs of a # b # rest \<Rightarrow>
           char_of (16 * url_hex_value a + url_hex_value b) # percent_decode rest
         | _ \<Rightarrow> [])
      else c # percent_decode cs)"

lemma encode_loop_eq:
  "encode_loop sz out s =
    (if s = [] \<or> length out + length (percent_encode s) < sz then Some (out @ percent_encode s)
     else None)"
  by (induction s arbitrary: out) (auto simp: percent_encode_def encode_char_def)

lemma request_url_eq:
  "recovery_request_url sz base serial idcode esp_major esp_minor =
    fitting sz ((if base \<noteq> [] \<and> last base = CHR ''/'' then butlast base else base) @
      ''/v1/recovery?serial='' @ percent_encode serial @ ''&idcode='' @ hex8_text idcode @
      ''&esp='' @ int_text esp_major @ ''.'' @ int_text esp_minor)"
proof -
  let ?b = "if base \<noteq> [] \<and> last base = CHR ''/'' then butlast base else base"
  have "take (if length base \<noteq> 0 \<and> base ! (length base - 1) = CHR ''/'' then length base - 1
      else length base) base = ?b"
    by (auto simp: last_conv_nth butlast_conv_take)
  then show ?thesis
    unfolding recovery_request_url_def Let_def fitting_def
    by (auto simp: encode_loop_eq percent_encode_def)
qed

lemma url_hex_value_hex: "n < 16 \<Longrightarrow> url_hex_value (url_hex n) = n"
proof -
  assume "n < 16"
  moreover have "list_all (\<lambda>n. url_hex_value (url_hex n) = n) [0..<16]" by code_simp
  ultimately show ?thesis by (simp add: list_all_iff)
qed

lemma percent_roundtrip: "percent_decode (percent_encode s) = s"
proof (induction s)
  case (Cons c s)
  have less: "(of_char c :: nat) < 256" using of_char_mod_256 [of c, where 'a = nat]
    by (metis mod_less_divisor zero_less_numeral)
  then have "of_char c div 16 < (16 :: nat)" by linarith
  then have "16 * (of_char c div 16 mod 16) + of_char c mod 16 = (of_char c :: nat)" by simp
  then have "char_of (16 * url_hex_value (url_hex (of_char c div 16 mod 16)) +
      url_hex_value (url_hex (of_char c mod 16))) = c"
    by (simp add: url_hex_value_hex)
  moreover have "url_plain c \<Longrightarrow> c \<noteq> CHR ''%''" by (auto simp: url_plain_def less_eq_char_def)
  ultimately show ?case using Cons by (simp add: percent_encode_def encode_char_def)
qed (simp add: percent_encode_def)

section \<open>Properties\<close>

text \<open>C30: The URL of a file a manifest names: with any manifest URL of scheme, host, path and query,
  the result keeps scheme, host and port, keeps the path up to its last slash (the root directory
  when there is no path), drops the query, and appends the name; the only failure is that it does
  not fit in the buffer.\<close>

theorem file_url_next_to_manifest:
  assumes "url_ok u"
  shows "recovery_file_url sz (url_text u) name =
    fitting sz (origin_text u @ directory (u_path u) @ name)"
  using assms by (rule file_url_text)

lemma file_url_next_to_manifest_witness:
  "recovery_file_url 256 ''https://h.example:8443/a/b?x=1/2'' ''u64.bit'' =
     Some ''https://h.example:8443/a/u64.bit''"
  using file_url_next_to_manifest [of "\<lparr>u_scheme = ''https:'', u_host = ''h.example:8443'',
      u_path = ''/a/b'', u_rest = ''?x=1/2''\<rparr>" 256 "''u64.bit''"]
  by (simp add: url_ok_def url_text_def origin_text_def directory_def fitting_def)

text \<open>C32: Redirects are resolved as the header says: an absolute location is taken as it is, one that
  starts with two slashes keeps the scheme, one that starts with one slash keeps scheme, host and
  port, and any other is next to the last segment of the path.\<close>

theorem resolve_redirect:
  assumes "url_ok u"
  shows "recovery_url_resolve sz (url_text u) loc =
    fitting sz
      (if scheme_len loc \<noteq> 0 then loc
       else if starts_with ''//'' loc then u_scheme u @ loc
       else if starts_with ''/'' loc then origin_text u @ loc
       else origin_text u @ directory (u_path u) @ loc)"
  using resolve_text [OF assms, of loc sz] by simp

lemma resolve_redirect_witness:
  "recovery_url_resolve 256 ''http://h/a/b?q'' ''/c/d'' = Some ''http://h/c/d''"
  using resolve_redirect [of "\<lparr>u_scheme = ''http:'', u_host = ''h'', u_path = ''/a/b'',
      u_rest = ''?q''\<rparr>" 256 "''/c/d''"]
  by (simp add: url_ok_def url_text_def origin_text_def fitting_def scheme_len_def starts_with_def)


text \<open>A server URL that the check accepts although nothing in it names a host.\<close>

lemma url_valid_without_host: "recovery_url_valid ''http://#''"
  by code_simp

end
