(* ===== verification/Recovery_Image.thy ===== *)
theory Recovery_Image
  imports Prelude
begin

text \<open>
  The streaming reader of update images, \<^verbatim>\<open>software/u64ctrl/main/recovery_image.c\<close>: its state
  machine over the bytes of a stream that arrives in pieces of any size, the write callback
  included.  The callback and its context are fields of the reader, as in the code; a call of it
  answers whether it stored the bytes and the context it leaves.  Addresses, lengths and counters
  are 32-bit words.
\<close>

section \<open>State\<close>

datatype recovery_image_result =
    RECOVERY_IMAGE_OK | RECOVERY_IMAGE_ERR_FAMILY | RECOVERY_IMAGE_ERR_RANGE
  | RECOVERY_IMAGE_ERR_WRITE | RECOVERY_IMAGE_ERR_TRUNCATED | RECOVERY_IMAGE_ERR_NO_RECORDS
  | RECOVERY_IMAGE_ERR_NO_START | RECOVERY_IMAGE_ERR_FAILED

datatype image_state =
    IMAGE_DETECT | IMAGE_PREHEADER | IMAGE_HEADER | IMAGE_DATA | IMAGE_PAD | IMAGE_FAILED

definition RECOVERY_IMAGE_FINGERPRINT :: u32 where "RECOVERY_IMAGE_FINGERPRINT = 0x4115ADDE"
definition RECOVERY_IMAGE_PREHEADER :: nat where "RECOVERY_IMAGE_PREHEADER = 36"
definition RECOVERY_IMAGE_RECORD_HDR :: nat where "RECOVERY_IMAGE_RECORD_HDR = 12"

type_synonym 'c image_writer = "'c \<Rightarrow> u32 \<Rightarrow> byte list \<Rightarrow> bool \<times> 'c"

record 'c image =
  im_load_min :: u32
  im_load_max :: u32
  im_family :: "byte list option"
  im_write :: "'c image_writer"
  im_ctx :: 'c
  im_state :: image_state
  im_header :: "byte list"
  im_have :: nat
  im_addr :: u32
  im_remaining :: u32
  im_pad :: u32
  im_start :: u32
  im_records :: u32
  im_loaded :: u32
  im_error :: recovery_image_result

definition recovery_image_result_name :: "recovery_image_result \<Rightarrow> string" where
  "recovery_image_result_name r =
     (case r of
        RECOVERY_IMAGE_OK \<Rightarrow> ''ok''
      | RECOVERY_IMAGE_ERR_FAMILY \<Rightarrow> ''wrong product family''
      | RECOVERY_IMAGE_ERR_RANGE \<Rightarrow> ''outside the load window''
      | RECOVERY_IMAGE_ERR_WRITE \<Rightarrow> ''write failed''
      | RECOVERY_IMAGE_ERR_TRUNCATED \<Rightarrow> ''truncated''
      | RECOVERY_IMAGE_ERR_NO_RECORDS \<Rightarrow> ''no records''
      | RECOVERY_IMAGE_ERR_NO_START \<Rightarrow> ''no start address''
      | RECOVERY_IMAGE_ERR_FAILED \<Rightarrow> ''already failed'')"

section \<open>Operations\<close>

definition recovery_image_init ::
  "u32 \<Rightarrow> u32 \<Rightarrow> byte list option \<Rightarrow> 'c image_writer \<Rightarrow> 'c \<Rightarrow> 'c image" where
  "recovery_image_init load_min load_max family write ctx =
     \<lparr>im_load_min = load_min, im_load_max = load_max, im_family = family, im_write = write,
      im_ctx = ctx, im_state = IMAGE_DETECT, im_header = replicate RECOVERY_IMAGE_PREHEADER 0,
      im_have = 0, im_addr = 0, im_remaining = 0, im_pad = 0, im_start = 0, im_records = 0,
      im_loaded = 0, im_error = RECOVERY_IMAGE_OK\<rparr>"

definition le32_at :: "byte list \<Rightarrow> nat \<Rightarrow> u32" where
  "le32_at p i = le32 (p ! i) (p ! (i + 1)) (p ! (i + 2)) (p ! (i + 3))"

definition image_fail ::
  "'c image \<Rightarrow> recovery_image_result \<Rightarrow> recovery_image_result \<times> 'c image" where
  "image_fail im error = (error, im\<lparr>im_state := IMAGE_FAILED, im_error := error\<rparr>)"

definition in_window :: "'c image \<Rightarrow> u32 \<Rightarrow> u32 \<Rightarrow> bool" where
  "in_window im addr len \<longleftrightarrow>
     addr \<ge> im_load_min im \<and> addr < im_load_max im \<and> len \<le> im_load_max im - addr"

definition collect :: "'c image \<Rightarrow> nat \<Rightarrow> byte list \<Rightarrow> bool \<times> 'c image \<times> byte list" where
  "collect im need data =
     (let n0 = need - im_have im; n = (if n0 > length data then length data else n0);
          im1 = im\<lparr>im_header := blit (im_have im) (take n data) (im_header im),
                   im_have := im_have im + n\<rparr>
      in (im_have im1 = need, im1, drop n data))"

definition start_record :: "'c image \<Rightarrow> recovery_image_result \<times> 'c image" where
  "start_record im0 =
     (let load = le32_at (im_header im0) 0; len = le32_at (im_header im0) 4;
          start = le32_at (im_header im0) 8; im = im0\<lparr>im_have := 0\<rparr>
      in if len \<noteq> 0 \<and> \<not> in_window im load len then image_fail im RECOVERY_IMAGE_ERR_RANGE
         else (RECOVERY_IMAGE_OK,
               im\<lparr>im_start := (if start \<noteq> 0 then start else im_start im),
                  im_records := im_records im + 1, im_addr := load, im_remaining := len,
                  im_pad := (4 - (len AND 3)) AND 3,
                  im_state := (if len \<noteq> 0 then IMAGE_DATA else IMAGE_HEADER)\<rparr>))"

text \<open>\<open>strncmp\<close> for equality: a list that ends stands for its terminating NUL.\<close>

fun strncmp_equal :: "nat \<Rightarrow> byte list \<Rightarrow> byte list \<Rightarrow> bool" where
  "strncmp_equal 0 xs ys = True"
| "strncmp_equal (Suc n) xs ys =
     (let a = (case xs of [] \<Rightarrow> 0 | x # _ \<Rightarrow> x); b = (case ys of [] \<Rightarrow> 0 | y # _ \<Rightarrow> y)
      in a = b \<and> (a = 0 \<or> strncmp_equal n (tl xs) (tl ys)))"

text \<open>One round of the loop of \<open>recovery_image_feed\<close> with bytes left: it returns (\<open>Inl\<close>) or goes on
  with the rest of the data (\<open>Inr\<close>).\<close>

definition image_step ::
  "'c image \<Rightarrow> byte list \<Rightarrow> (recovery_image_result \<times> 'c image) + 'c image \<times> byte list" where
  "image_step im data =
     (case im_state im of
        IMAGE_DETECT \<Rightarrow>
          (case collect im 4 data of (full, im1, rest) \<Rightarrow>
             if full
             then Inr (im1\<lparr>im_state := (if le32_at (im_header im1) 0 = RECOVERY_IMAGE_FINGERPRINT
                                        then IMAGE_PREHEADER else IMAGE_HEADER)\<rparr>, rest)
             else Inr (im1, rest))
      | IMAGE_PREHEADER \<Rightarrow>
          (case collect im RECOVERY_IMAGE_PREHEADER data of (full, im1, rest) \<Rightarrow>
             if full
             then
               let family = drop 4 (im_header im1)
               in (case im_family im1 of
                     None \<Rightarrow> Inr (im1\<lparr>im_have := 0, im_state := IMAGE_HEADER\<rparr>, rest)
                   | Some wanted \<Rightarrow>
                       if family ! 0 \<noteq> 0 \<and> \<not> strncmp_equal 16 family wanted
                       then Inl (image_fail im1 RECOVERY_IMAGE_ERR_FAMILY)
                       else Inr (im1\<lparr>im_have := 0, im_state := IMAGE_HEADER\<rparr>, rest))
             else Inr (im1, rest))
      | IMAGE_HEADER \<Rightarrow>
          (case collect im RECOVERY_IMAGE_RECORD_HDR data of (full, im1, rest) \<Rightarrow>
             if full
             then (case start_record im1 of (r, im2) \<Rightarrow>
                     if r \<noteq> RECOVERY_IMAGE_OK then Inl (im_error im2, im2) else Inr (im2, rest))
             else Inr (im1, rest))
      | IMAGE_DATA \<Rightarrow>
          (let n = (if length data < unat (im_remaining im) then length data
                    else unat (im_remaining im))
           in case im_write im (im_ctx im) (im_addr im) (take n data) of
                (ok, ctx) \<Rightarrow>
                  let im1 = im\<lparr>im_ctx := ctx\<rparr>
                  in if \<not> ok then Inl (image_fail im1 RECOVERY_IMAGE_ERR_WRITE)
                     else
                       let im2 = im1\<lparr>im_addr := im_addr im1 + of_nat n,
                                     im_remaining := im_remaining im1 - of_nat n,
                                     im_loaded := im_loaded im1 + of_nat n\<rparr>
                       in Inr (if im_remaining im2 = 0
                               then im2\<lparr>im_state := (if im_pad im2 \<noteq> 0 then IMAGE_PAD else IMAGE_HEADER)\<rparr>
                               else im2, drop n data))
      | IMAGE_PAD \<Rightarrow>
          (let n = (if length data < unat (im_pad im) then length data else unat (im_pad im));
               im1 = im\<lparr>im_pad := im_pad im - of_nat n\<rparr>
           in Inr (if im_pad im1 = 0 then im1\<lparr>im_state := IMAGE_HEADER\<rparr> else im1, drop n data))
      | IMAGE_FAILED \<Rightarrow> Inl (RECOVERY_IMAGE_ERR_FAILED, im))"

partial_function (option) recovery_image_feed ::
  "'c image \<Rightarrow> byte list \<Rightarrow> (recovery_image_result \<times> 'c image) option" where
  "recovery_image_feed im data =
     (if data = []
      then Some (if im_state im = IMAGE_FAILED then RECOVERY_IMAGE_ERR_FAILED else RECOVERY_IMAGE_OK, im)
      else
        case image_step im data of
          Inl answer \<Rightarrow> Some answer
        | Inr (im', data') \<Rightarrow> recovery_image_feed im' data')"

declare recovery_image_feed.simps [code]

definition recovery_image_finish :: "'c image \<Rightarrow> recovery_image_result + u32" where
  "recovery_image_finish im =
     (if im_state im = IMAGE_FAILED then Inl RECOVERY_IMAGE_ERR_FAILED
      else if im_state im = IMAGE_DETECT \<and> im_have im = 0 then Inl RECOVERY_IMAGE_ERR_NO_RECORDS
      else if im_state im \<noteq> IMAGE_HEADER \<or> im_have im \<noteq> 0 then Inl RECOVERY_IMAGE_ERR_TRUNCATED
      else if im_records im = 0 then Inl RECOVERY_IMAGE_ERR_NO_RECORDS
      else if im_start im = 0 then Inl RECOVERY_IMAGE_ERR_NO_START
      else if \<not> in_window im (im_start im) 0 then Inl RECOVERY_IMAGE_ERR_RANGE
      else Inr (im_start im))"

text \<open>A stream that arrives in pieces: the caller stops at the first piece that fails.\<close>

primrec feed_pieces ::
  "'c image \<Rightarrow> byte list list \<Rightarrow> (recovery_image_result \<times> 'c image) option" where
  "feed_pieces im [] = Some (RECOVERY_IMAGE_OK, im)"
| "feed_pieces im (p # ps) =
     (case recovery_image_feed im p of
        None \<Rightarrow> None
      | Some (r, im') \<Rightarrow> if r \<noteq> RECOVERY_IMAGE_OK then Some (r, im') else feed_pieces im' ps)"

section \<open>The invariant\<close>

text \<open>In every state the reader waits for at least one more byte, the header buffer has room for what
  it waits for, and what is left of a record lies inside the window.\<close>

definition image_ok :: "'c image \<Rightarrow> bool" where
  "image_ok im \<longleftrightarrow> length (im_header im) = 36 \<and>
     (case im_state im of
        IMAGE_DETECT \<Rightarrow> im_have im < 4
      | IMAGE_PREHEADER \<Rightarrow> im_have im < 36
      | IMAGE_HEADER \<Rightarrow> im_have im < 12
      | IMAGE_DATA \<Rightarrow> im_have im = 0 \<and> 0 < unat (im_remaining im) \<and>
          im_load_min im \<le> im_addr im \<and>
          unat (im_addr im) + unat (im_remaining im) \<le> unat (im_load_max im)
      | IMAGE_PAD \<Rightarrow> im_have im = 0 \<and> 0 < unat (im_pad im)
      | IMAGE_FAILED \<Rightarrow> True)"

text \<open>The fields that never change.\<close>

definition same_setup :: "'c image \<Rightarrow> 'c image \<Rightarrow> bool" where
  "same_setup a b \<longleftrightarrow> im_load_min a = im_load_min b \<and> im_load_max a = im_load_max b \<and>
     im_family a = im_family b \<and> im_write a = im_write b"

lemma same_setup_trans: "same_setup a b \<Longrightarrow> same_setup b c \<Longrightarrow> same_setup a c"
  by (simp add: same_setup_def)

lemma same_setup_refl [simp]: "same_setup a a"
  by (simp add: same_setup_def)

lemma init_ok [inv_intros]: "image_ok (recovery_image_init lo hi f w c)"
  by (simp add: image_ok_def recovery_image_init_def RECOVERY_IMAGE_PREHEADER_def)

lemma unat_add_in_range: "unat (a :: u32) + k \<le> unat (b :: u32) \<Longrightarrow> unat (a + of_nat k) = unat a + k"
proof -
  assume le: "unat a + k \<le> unat b"
  have "unat b < 2 ^ 32" using unsigned_less [of b, where 'a = nat] by simp
  with le have "unat a + k < 2 ^ 32" by simp
  then show ?thesis by (simp add: unat_word_ariths unat_of_nat take_bit_nat_eq_self_iff)
qed

lemma unat_sub_in_range: "k \<le> unat (a :: u32) \<Longrightarrow> unat (a - of_nat k) = unat a - k"
proof -
  assume le: "k \<le> unat a"
  have "unat a < 2 ^ 32" using unsigned_less [of a, where 'a = nat] by simp
  with le have k: "unat (of_nat k :: u32) = k"
    by (simp add: unat_of_nat take_bit_nat_eq_self_iff)
  then have "of_nat k \<le> a" using le by (simp add: word_le_nat_alt)
  then show ?thesis using k by (simp add: unat_sub)
qed

lemma in_window_bounds:
  "in_window im a n \<Longrightarrow> im_load_min im \<le> a \<and> unat a + unat n \<le> unat (im_load_max im)"
  unfolding in_window_def
  using unat_sub [of a "im_load_max im"] by (auto simp: word_le_nat_alt word_less_nat_alt)

section \<open>One round\<close>

lemma collect_props:
  assumes "collect im need data = (full, im1, rest)" "im_have im < need" "need \<le> 36"
    "length (im_header im) = 36" "data \<noteq> []"
  shows "length (im_header im1) = 36" "im_have im1 \<le> need" "full \<longleftrightarrow> im_have im1 = need"
    "length rest < length data" "same_setup im im1" "im_state im1 = im_state im"
    "im_ctx im1 = im_ctx im"
  using assms by (auto simp: collect_def Let_def same_setup_def split: if_splits)

lemma start_record_props:
  assumes "start_record im = (r, im')" "length (im_header im) = 36"
  shows "image_ok im'" "same_setup im im'" "im_ctx im' = im_ctx im"
    "r = RECOVERY_IMAGE_OK \<or> im_state im' = IMAGE_FAILED \<and> im_error im' = r"
  using assms in_window_bounds [of "im\<lparr>im_have := 0\<rparr>"]
  by (auto simp: start_record_def Let_def image_fail_def same_setup_def image_ok_def unat_gt_0
      split: if_splits)

lemma image_step_ok:
  assumes "image_step im data = Inr (im', data')" "image_ok im" "data \<noteq> []"
  shows "image_ok im' \<and> length data' < length data \<and> same_setup im im'"
proof (cases "im_state im")
  case IMAGE_DETECT
  obtain full im1 rest where c: "collect im 4 data = (full, im1, rest)" by (cases "collect im 4 data")
  have "im_have im < 4" "length (im_header im) = 36" using assms(2) IMAGE_DETECT by (auto simp: image_ok_def)
  note p = collect_props [OF c this(1) _ this(2) assms(3)]
  show ?thesis
    using assms(1) p IMAGE_DETECT
    by (auto simp: image_step_def c image_ok_def same_setup_def split: if_splits)
next
  case IMAGE_PREHEADER
  obtain full im1 rest where c: "collect im 36 data = (full, im1, rest)" by (cases "collect im 36 data")
  have "im_have im < 36" "length (im_header im) = 36" using assms(2) IMAGE_PREHEADER by (auto simp: image_ok_def)
  note p = collect_props [OF c this(1) _ this(2) assms(3)]
  show ?thesis
    using assms(1) p IMAGE_PREHEADER
    by (auto simp: image_step_def RECOVERY_IMAGE_PREHEADER_def c image_ok_def same_setup_def Let_def
        split: if_splits option.splits)
next
  case IMAGE_HEADER
  obtain full im1 rest where c: "collect im 12 data = (full, im1, rest)" by (cases "collect im 12 data")
  have "im_have im < 12" "length (im_header im) = 36" using assms(2) IMAGE_HEADER by (auto simp: image_ok_def)
  note p = collect_props [OF c this(1) _ this(2) assms(3)]
  show ?thesis
  proof (cases full)
    case True
    obtain r im2 where s: "start_record im1 = (r, im2)" by (cases "start_record im1")
    show ?thesis
      using assms(1) p IMAGE_HEADER True start_record_props [OF s]
      by (auto simp: image_step_def RECOVERY_IMAGE_RECORD_HDR_def c s split: if_splits
          intro: same_setup_trans)
  next
    case False
    then show ?thesis
      using assms(1) p IMAGE_HEADER
      by (auto simp: image_step_def RECOVERY_IMAGE_RECORD_HDR_def c image_ok_def)
  qed
next
  case IMAGE_DATA
  let ?n = "if length data < unat (im_remaining im) then length data else unat (im_remaining im)"
  have n: "?n \<le> unat (im_remaining im)" "0 < ?n" "?n \<le> length data"
    using assms(2,3) IMAGE_DATA by (auto simp: image_ok_def)
  have range: "unat (im_addr im) + ?n \<le> unat (im_load_max im)"
    using assms(2) IMAGE_DATA n(1) by (auto simp: image_ok_def)
  obtain ok ctx where w: "im_write im (im_ctx im) (im_addr im) (take ?n data) = (ok, ctx)" by fastforce
  have lo: "im_load_min im \<le> im_addr im + of_nat ?n"
    using assms(2) IMAGE_DATA unat_add_in_range [OF range]
    by (auto simp: image_ok_def word_le_nat_alt)
  have sum: "unat (im_addr im + of_nat ?n) + unat (im_remaining im - of_nat ?n) \<le> unat (im_load_max im)"
    using assms(2) IMAGE_DATA unat_add_in_range [OF range] unat_sub_in_range [OF n(1)] n(1)
    by (auto simp: image_ok_def)
  have im': "ok" "data' = drop ?n data" "im' = (let im2 = im\<lparr>im_ctx := ctx, im_addr := im_addr im + of_nat ?n,
      im_remaining := im_remaining im - of_nat ?n, im_loaded := im_loaded im + of_nat ?n\<rparr>
      in if im_remaining im2 = 0
         then im2\<lparr>im_state := (if im_pad im2 \<noteq> 0 then IMAGE_PAD else IMAGE_HEADER)\<rparr> else im2)"
    using assms(1) unfolding image_step_def IMAGE_DATA Let_def by (auto simp: w split: if_splits)
  have "length data' < length data" using n im'(2) by simp
  moreover have "same_setup im im'" by (auto simp: im'(3) same_setup_def Let_def)
  moreover have "image_ok im'"
    using assms(2) IMAGE_DATA lo sum by (auto simp: im'(3) image_ok_def Let_def unat_gt_0)
  ultimately show ?thesis by simp
next
  case IMAGE_PAD
  then show ?thesis
    using assms by (auto simp: image_step_def image_ok_def Let_def same_setup_def unat_gt_0)
next
  case IMAGE_FAILED
  then show ?thesis using assms(1) by (simp add: image_step_def)
qed

lemma image_step_failed:
  assumes "image_step im data = Inl (r, im')" "image_ok im" "data \<noteq> []"
  shows "r \<noteq> RECOVERY_IMAGE_OK" "im_state im' = IMAGE_FAILED" "image_ok im'" "same_setup im im'"
proof -
  have len: "length (im_header im) = 36" using assms(2) by (simp add: image_ok_def)
  have "r \<noteq> RECOVERY_IMAGE_OK \<and> im_state im' = IMAGE_FAILED \<and> image_ok im' \<and> same_setup im im'"
  proof (cases "im_state im")
    case IMAGE_HEADER
    obtain full im1 rest where c: "collect im 12 data = (full, im1, rest)" by (cases "collect im 12 data")
    have "im_have im < 12" using assms(2) IMAGE_HEADER by (auto simp: image_ok_def)
    note p = collect_props [OF c this _ len assms(3)]
    obtain r2 im2 where s: "start_record im1 = (r2, im2)" by (cases "start_record im1")
    show ?thesis
      using assms(1) p IMAGE_HEADER start_record_props [OF s]
      by (auto simp: image_step_def RECOVERY_IMAGE_RECORD_HDR_def c s split: if_splits
          intro: same_setup_trans)
  next
    case IMAGE_PREHEADER
    obtain full im1 rest where c: "collect im 36 data = (full, im1, rest)" by (cases "collect im 36 data")
    have "im_have im < 36" using assms(2) IMAGE_PREHEADER by (auto simp: image_ok_def)
    note p = collect_props [OF c this _ len assms(3)]
    show ?thesis
      using assms(1) p IMAGE_PREHEADER
      by (auto simp: image_step_def RECOVERY_IMAGE_PREHEADER_def c image_fail_def image_ok_def Let_def
          same_setup_def split: if_splits option.splits)
  qed (use assms len in \<open>auto simp: image_step_def image_fail_def image_ok_def Let_def same_setup_def
      split: if_splits prod.splits\<close>)
  then show "r \<noteq> RECOVERY_IMAGE_OK" "im_state im' = IMAGE_FAILED" "image_ok im'" "same_setup im im'"
    by auto
qed

lemma image_feed_total:
  "image_ok im \<Longrightarrow> \<exists>r im'. recovery_image_feed im data = Some (r, im') \<and> image_ok im' \<and>
     same_setup im im' \<and> (r = RECOVERY_IMAGE_OK \<longleftrightarrow> im_state im' \<noteq> IMAGE_FAILED)"
proof (induction "length data" arbitrary: im data rule: less_induct)
  case less
  show ?case
  proof (cases "data = []")
    case False
    show ?thesis
    proof (cases "image_step im data")
      case (Inl a)
      obtain r im' where a: "a = (r, im')" by (cases a)
      with Inl False less.prems image_step_failed [of im data r im'] show ?thesis
        by (subst recovery_image_feed.simps) auto
    next
      case (Inr b)
      obtain im1 data1 where b: "b = (im1, data1)" by (cases b)
      with Inr image_step_ok [OF _ less.prems False, of im1 data1] have
        s: "image_ok im1" "length data1 < length data" "same_setup im im1" by auto
      from less.hyps [OF s(2,1)] False Inr b s(3) show ?thesis
        by (subst recovery_image_feed.simps) (auto intro: same_setup_trans)
    qed
  qed (use less.prems in \<open>simp add: recovery_image_feed.simps\<close>)
qed

section \<open>Pieces\<close>

text \<open>The contract of the write callback in the header: it is called with consecutive addresses, in
  pieces of any size, so what a piece does must not depend on how it is cut.\<close>

locale piecewise_writer =
  fixes put :: "'c image_writer"
    and inv :: "'c \<Rightarrow> bool"
  assumes write_pieces: "inv c \<Longrightarrow> xs \<noteq> [] \<Longrightarrow> ys \<noteq> [] \<Longrightarrow> put c a (xs @ ys) =
    (case put c a xs of (ok, c') \<Rightarrow>
       if ok then put c' (a + of_nat (length xs)) ys else (False, c'))"
    and write_keeps: "inv c \<Longrightarrow> inv (snd (put c a xs))"

lemma blit_blit:
  "h + length xs \<le> length b \<Longrightarrow> blit (h + length xs) zs (blit h xs b) = blit h (xs @ zs) b"
  by (simp add: blit_def add.commute add.left_commute)

lemma collect_within:
  assumes "need - im_have im \<le> length xs" "collect im need xs = (full, im1, rest)"
  shows "collect im need (xs @ ys) = (full, im1, rest @ ys)"
  using assms by (auto simp: collect_def Let_def)

lemma collect_beyond:
  assumes "length xs < need - im_have im" "im_have im < need" "need \<le> length (im_header im)"
  obtains im1 where "collect im need xs = (False, im1, [])"
    "collect im1 need ys = collect im need (xs @ ys)" "same_setup im im1" "im_state im1 = im_state im"
proof -
  define im1 where "im1 = im\<lparr>im_header := blit (im_have im) xs (im_header im),
    im_have := im_have im + length xs\<rparr>"
  have "collect im need xs = (False, im1, [])" using assms by (auto simp: collect_def im1_def Let_def)
  moreover have "collect im1 need ys = collect im need (xs @ ys)"
  proof -
    let ?k = "min (need - im_have im - length xs) (length ys)"
    have "collect im need (xs @ ys) =
        (let im2 = im\<lparr>im_header := blit (im_have im) (xs @ take ?k ys) (im_header im),
           im_have := im_have im + length xs + ?k\<rparr> in (im_have im2 = need, im2, drop ?k ys))"
      using assms(1) by (auto simp: collect_def Let_def min_def)
    moreover have "collect im1 need ys =
        (let im2 = im\<lparr>im_header := blit (im_have im + length xs) (take ?k ys)
             (blit (im_have im) xs (im_header im)),
           im_have := im_have im + length xs + ?k\<rparr> in (im_have im2 = need, im2, drop ?k ys))"
      by (auto simp: collect_def im1_def Let_def min_def)
    ultimately show ?thesis using assms by (simp add: blit_blit)
  qed
  moreover have "same_setup im im1" "im_state im1 = im_state im" by (simp_all add: im1_def same_setup_def)
  ultimately show ?thesis by (rule that)
qed

text \<open>What a caller can see of an answer: the result, the callback's context and, unless the load
  failed, the reader.  (After a failed write the counters of the reader still depend on the pieces.)\<close>

definition answer_view ::
  "recovery_image_result \<times> 'c image \<Rightarrow> recovery_image_result \<times> 'c \<times> 'c image option" where
  "answer_view a = (fst a, im_ctx (snd a), if fst a = RECOVERY_IMAGE_OK then Some (snd a) else None)"

definition round_view ::
  "(recovery_image_result \<times> 'c image) + 'c image \<times> byte list \<Rightarrow>
   (recovery_image_result \<times> 'c) + 'c image \<times> byte list" where
  "round_view a = (case a of Inl (r, im) \<Rightarrow> Inl (r, im_ctx im) | Inr x \<Rightarrow> Inr x)"

lemma round_view_simps [simp]:
  "round_view (Inl a) = Inl (fst a, im_ctx (snd a))" "round_view (Inr x) = Inr x"
  by (simp_all add: round_view_def split: prod.split)

text \<open>How a round on the first piece relates to a round on both: it ends the same way, it leaves the
  second piece untouched, or the round goes on with the second piece.\<close>

definition step_splits :: "'c image \<Rightarrow> byte list \<Rightarrow> byte list \<Rightarrow> bool" where
  "step_splits im xs ys \<longleftrightarrow>
     (\<exists>a. image_step im xs = Inl a \<and> round_view (image_step im (xs @ ys)) = round_view (Inl a)) \<or>
     (\<exists>im' d. image_step im xs = Inr (im', d) \<and> image_step im (xs @ ys) = Inr (im', d @ ys)) \<or>
     (\<exists>im'. image_step im xs = Inr (im', []) \<and>
        round_view (image_step im (xs @ ys)) = round_view (image_step im' ys))"

text \<open>What a round does once a header is complete.\<close>

definition header_done ::
  "image_state \<Rightarrow> 'c image \<Rightarrow> (recovery_image_result \<times> 'c image) + 'c image" where
  "header_done st im1 =
     (if st = IMAGE_DETECT
      then Inr (im1\<lparr>im_state := (if le32_at (im_header im1) 0 = RECOVERY_IMAGE_FINGERPRINT
                                 then IMAGE_PREHEADER else IMAGE_HEADER)\<rparr>)
      else if st = IMAGE_PREHEADER
      then (case im_family im1 of
              None \<Rightarrow> Inr (im1\<lparr>im_have := 0, im_state := IMAGE_HEADER\<rparr>)
            | Some wanted \<Rightarrow>
                if drop 4 (im_header im1) ! 0 \<noteq> 0 \<and> \<not> strncmp_equal 16 (drop 4 (im_header im1)) wanted
                then Inl (image_fail im1 RECOVERY_IMAGE_ERR_FAMILY)
                else Inr (im1\<lparr>im_have := 0, im_state := IMAGE_HEADER\<rparr>))
      else (case start_record im1 of (r, im2) \<Rightarrow>
              if r \<noteq> RECOVERY_IMAGE_OK then Inl (im_error im2, im2) else Inr im2))"

fun header_need :: "image_state \<Rightarrow> nat" where
  "header_need IMAGE_DETECT = 4"
| "header_need IMAGE_PREHEADER = 36"
| "header_need IMAGE_HEADER = 12"
| "header_need _ = 0"

lemma image_step_collect:
  assumes "header_need (im_state im) \<noteq> 0"
  shows "image_step im data =
    (case collect im (header_need (im_state im)) data of (full, im1, rest) \<Rightarrow>
       if full
       then (case header_done (im_state im) im1 of Inl a \<Rightarrow> Inl a | Inr im2 \<Rightarrow> Inr (im2, rest))
       else Inr (im1, rest))"
proof (cases "im_state im")
  case IMAGE_DETECT
  then show ?thesis by (simp add: image_step_def header_done_def split: prod.split)
next
  case IMAGE_PREHEADER
  then show ?thesis
    by (simp add: image_step_def header_done_def RECOVERY_IMAGE_PREHEADER_def Let_def
        split: prod.split option.split)
next
  case IMAGE_HEADER
  then show ?thesis
    by (simp add: image_step_def header_done_def RECOVERY_IMAGE_RECORD_HDR_def split: prod.split)
qed (use assms in simp_all)

lemma step_splits_collecting:
  assumes ok: "image_ok im" and st: "header_need (im_state im) \<noteq> 0"
  shows "step_splits im xs ys"
proof -
  let ?need = "header_need (im_state im)"
  have hv: "im_have im < ?need" "?need \<le> length (im_header im)"
    using ok st by (cases "im_state im"; simp add: image_ok_def)+
  show ?thesis
  proof (cases "?need - im_have im \<le> length xs")
    case True
    obtain full im1 rest where c: "collect im ?need xs = (full, im1, rest)" by (cases "collect im ?need xs")
    note c' = collect_within [OF True c, of ys]
    show ?thesis
      unfolding step_splits_def image_step_collect [OF st] c c' prod.case
      by (cases full; cases "header_done (im_state im) im1") simp_all
  next
    case False
    then obtain im1 where im1: "collect im ?need xs = (False, im1, [])"
      "collect im1 ?need ys = collect im ?need (xs @ ys)" "im_state im1 = im_state im"
      using collect_beyond [of xs ?need im ys] hv by (metis not_le)
    have "image_step im xs = Inr (im1, [])"
      unfolding image_step_collect [OF st] im1 by simp
    moreover have "image_step im (xs @ ys) = image_step im1 ys"
      using st unfolding image_step_collect [OF st] im1(3) [symmetric]
      by (simp add: image_step_collect im1(2,3))
    ultimately show ?thesis unfolding step_splits_def by auto
  qed
qed

lemma step_splits_pad:
  assumes ok: "image_ok im" and st: "im_state im = IMAGE_PAD" and ne: "xs \<noteq> []" "ys \<noteq> []"
  shows "step_splits im xs ys"
proof (cases "unat (im_pad im) \<le> length xs")
  case True
  then show ?thesis using st unfolding step_splits_def by (auto simp: image_step_def Let_def)
next
  case False
  then have sub: "unat (im_pad im - of_nat (length xs)) = unat (im_pad im) - length xs"
    by (intro unat_sub_in_range) simp
  define im1 where "im1 = im\<lparr>im_pad := im_pad im - of_nat (length xs)\<rparr>"
  have pos: "im_pad im1 \<noteq> 0" using False sub by (auto simp: im1_def unat_eq_zero [symmetric])
  have "image_step im xs = Inr (im1, [])"
    using False st pos by (simp add: image_step_def Let_def im1_def)
  moreover have "image_step im (xs @ ys) = image_step im1 ys"
    using False st sub by (auto simp: image_step_def Let_def im1_def of_nat_diff diff_diff_eq)
  ultimately show ?thesis unfolding step_splits_def by auto
qed

text \<open>The round on a record's data, with what it does to the reader named.\<close>

definition data_advance :: "'c image \<Rightarrow> 'c \<Rightarrow> nat \<Rightarrow> 'c image" where
  "data_advance im ctx n =
     (let im2 = im\<lparr>im_ctx := ctx, im_addr := im_addr im + of_nat n,
                   im_remaining := im_remaining im - of_nat n, im_loaded := im_loaded im + of_nat n\<rparr>
      in if im_remaining im2 = 0
         then im2\<lparr>im_state := (if im_pad im2 \<noteq> 0 then IMAGE_PAD else IMAGE_HEADER)\<rparr> else im2)"

lemma image_step_data:
  assumes "im_state im = IMAGE_DATA"
  shows "image_step im data =
    (let n = min (length data) (unat (im_remaining im))
     in case im_write im (im_ctx im) (im_addr im) (take n data) of
          (ok, ctx) \<Rightarrow> if ok then Inr (data_advance im ctx n, drop n data)
                      else Inl (image_fail (im\<lparr>im_ctx := ctx\<rparr>) RECOVERY_IMAGE_ERR_WRITE))"
proof -
  have n: "(if length data < unat (im_remaining im) then length data else unat (im_remaining im)) =
      min (length data) (unat (im_remaining im))" by auto
  show ?thesis
    unfolding image_step_def assms image_state.case Let_def n data_advance_def
    by (auto split: prod.splits)
qed

lemma data_advance_part:
  assumes "n < unat (im_remaining im)"
  shows "im_state (data_advance im c1 n) = im_state im"
    "im_write (data_advance im c1 n) = im_write im"
    "im_ctx (data_advance im c1 n) = c1"
    "im_addr (data_advance im c1 n) = im_addr im + of_nat n"
    "unat (im_remaining (data_advance im c1 n)) = unat (im_remaining im) - n"
    "data_advance (data_advance im c1 n) c2 m = data_advance im c2 (n + m)"
proof -
  have sub: "unat (im_remaining im - of_nat n) = unat (im_remaining im) - n"
    using assms by (intro unat_sub_in_range) simp
  with assms have pos: "im_remaining im - of_nat n \<noteq> 0" by (auto simp: unat_eq_zero [symmetric])
  then have adv: "data_advance im c1 n = im\<lparr>im_ctx := c1, im_addr := im_addr im + of_nat n,
      im_remaining := im_remaining im - of_nat n, im_loaded := im_loaded im + of_nat n\<rparr>"
    by (simp add: data_advance_def Let_def)
  show "im_state (data_advance im c1 n) = im_state im"
    "im_write (data_advance im c1 n) = im_write im"
    "im_ctx (data_advance im c1 n) = c1"
    "im_addr (data_advance im c1 n) = im_addr im + of_nat n"
    "unat (im_remaining (data_advance im c1 n)) = unat (im_remaining im) - n"
    using sub by (simp_all add: adv)
  show "data_advance (data_advance im c1 n) c2 m = data_advance im c2 (n + m)"
    unfolding adv by (simp add: data_advance_def Let_def add.assoc diff_diff_eq)
qed

lemma feed_step: "data \<noteq> [] \<Longrightarrow> recovery_image_feed im data =
    (case image_step im data of Inl a \<Rightarrow> Some a | Inr (im', data') \<Rightarrow> recovery_image_feed im' data')"
  by (subst recovery_image_feed.simps) simp

lemma feed_view_stop:
  assumes "data \<noteq> []" "round_view (image_step im data) = Inl (r, c)" "r \<noteq> RECOVERY_IMAGE_OK"
  shows "map_option answer_view (recovery_image_feed im data) = Some (r, c, None)"
  using assms by (auto simp: feed_step answer_view_def round_view_def split: sum.splits prod.splits)

lemma feed_view_cong:
  assumes "image_ok im" "image_ok im'" "data \<noteq> []" "data' \<noteq> []"
    "round_view (image_step im data) = round_view (image_step im' data')"
  shows "map_option answer_view (recovery_image_feed im data) =
    map_option answer_view (recovery_image_feed im' data')"
proof (cases "image_step im data")
  case (Inl a)
  obtain r im1 where a: "a = (r, im1)" by (cases a)
  have "r \<noteq> RECOVERY_IMAGE_OK" using image_step_failed(1) [of im data r im1] Inl a assms by simp
  moreover have "round_view (image_step im data) = Inl (r, im_ctx im1)" by (simp add: Inl a)
  ultimately show ?thesis
    using feed_view_stop assms(3-5) by metis
next
  case (Inr b)
  then have "image_step im' data' = Inr b"
    using assms(5) by (auto simp: round_view_def split: sum.splits)
  with Inr show ?thesis using assms(3,4) by (simp add: feed_step)
qed

lemma header_done_ctx:
  "header_done st im = Inr im2 \<Longrightarrow> im_ctx im2 = im_ctx im"
  "header_done st im = Inl (r, im2) \<Longrightarrow> im_ctx im2 = im_ctx im"
proof -
  have "im_ctx (snd (start_record im)) = im_ctx im"
    by (simp add: start_record_def image_fail_def Let_def)
  then show "header_done st im = Inr im2 \<Longrightarrow> im_ctx im2 = im_ctx im"
    "header_done st im = Inl (r, im2) \<Longrightarrow> im_ctx im2 = im_ctx im"
    by (cases "start_record im";
        auto simp: header_done_def image_fail_def split: if_splits option.splits)+
qed

lemma collect_ctx: "collect im need data = (f, im1, rest) \<Longrightarrow> im_ctx im1 = im_ctx im"
  by (auto simp: collect_def Let_def)

lemma step_collect_ctx:
  assumes "header_need (im_state im) \<noteq> 0"
  shows "image_step im data = Inr (im', d) \<Longrightarrow> im_ctx im' = im_ctx im"
    "image_step im data = Inl (r, im') \<Longrightarrow> im_ctx im' = im_ctx im"
proof -
  obtain f im1 rest where c: "collect im (header_need (im_state im)) data = (f, im1, rest)"
    by (cases "collect im (header_need (im_state im)) data")
  note ctx = collect_ctx [OF c] header_done_ctx [of "im_state im" im1]
  show "image_step im data = Inr (im', d) \<Longrightarrow> im_ctx im' = im_ctx im"
    unfolding image_step_collect [OF assms] c prod.case
    using ctx by (cases "header_done (im_state im) im1") (simp_all split: if_splits)
  show "image_step im data = Inl (r, im') \<Longrightarrow> im_ctx im' = im_ctx im"
    unfolding image_step_collect [OF assms] c prod.case
    using ctx by (cases "header_done (im_state im) im1") (simp_all split: if_splits)
qed

lemma step_data_ctx:
  assumes "im_state im = IMAGE_DATA"
    "im_write im (im_ctx im) (im_addr im) (take (min (length data) (unat (im_remaining im))) data) = (good, c)"
  shows "image_step im data = Inr (im', d) \<Longrightarrow> im_ctx im' = c"
    "image_step im data = Inl (r, im') \<Longrightarrow> im_ctx im' = c"
  unfolding image_step_data [OF assms(1)] Let_def assms(2)
  by (cases good; auto simp: image_fail_def data_advance_def Let_def)+

lemma step_other_ctx:
  assumes "im_state im = IMAGE_PAD \<or> im_state im = IMAGE_FAILED"
  shows "image_step im data = Inr (im', d) \<Longrightarrow> im_ctx im' = im_ctx im"
    "image_step im data = Inl (r, im') \<Longrightarrow> im_ctx im' = im_ctx im"
  using assms by (auto simp: image_step_def Let_def)

text \<open>A round leaves the context of the callback as it is, or as one call of the callback leaves it.\<close>

lemma step_ctx:
  assumes "image_step im data = Inr (im', d) \<or> image_step im data = Inl (r, im')"
  shows "im_ctx im' = im_ctx im \<or> (\<exists>a xs. im_ctx im' = snd (im_write im (im_ctx im) a xs))"
proof (cases "im_state im = IMAGE_DATA")
  case True
  let ?xs = "take (min (length data) (unat (im_remaining im))) data"
  obtain good c where put: "im_write im (im_ctx im) (im_addr im) ?xs = (good, c)" by fastforce
  show ?thesis using step_data_ctx [OF True put] assms put by (metis snd_conv)
next
  case False
  then have "header_need (im_state im) \<noteq> 0 \<or> im_state im = IMAGE_PAD \<or> im_state im = IMAGE_FAILED"
    by (cases "im_state im") auto
  then show ?thesis using assms step_collect_ctx step_other_ctx by metis
qed

context piecewise_writer
begin

lemma step_splits_data:
  assumes ok: "image_ok im" and st: "im_state im = IMAGE_DATA" and ne: "xs \<noteq> []" "ys \<noteq> []"
    and w: "im_write im = put" and i: "inv (im_ctx im)"
  shows "step_splits im xs ys"
proof (cases "unat (im_remaining im) \<le> length xs")
  case True
  then have m: "min (length xs) (unat (im_remaining im)) = unat (im_remaining im)"
    "min (length (xs @ ys)) (unat (im_remaining im)) = unat (im_remaining im)"
    "take (unat (im_remaining im)) (xs @ ys) = take (unat (im_remaining im)) xs"
    "drop (unat (im_remaining im)) (xs @ ys) = drop (unat (im_remaining im)) xs @ ys" by simp_all
  show ?thesis
    unfolding step_splits_def image_step_data [OF st] Let_def m
    by (auto simp: image_fail_def split: prod.splits)
next
  case False
  then have rem: "length xs < unat (im_remaining im)" by simp
  obtain good c1 where c1: "put (im_ctx im) (im_addr im) xs = (good, c1)" by fastforce
  let ?k = "min (length ys) (unat (im_remaining im) - length xs)"
  have k: "take ?k ys \<noteq> []" using rem ne by simp
  have both: "put (im_ctx im) (im_addr im) (xs @ take ?k ys) =
      (if good then put c1 (im_addr im + of_nat (length xs)) (take ?k ys) else (False, c1))"
    using write_pieces [OF i ne(1) k] c1 by simp
  have m: "min (length xs) (unat (im_remaining im)) = length xs"
    "min (length (xs @ ys)) (unat (im_remaining im)) = length xs + ?k"
    "take (length xs + ?k) (xs @ ys) = xs @ take ?k ys"
    "drop (length xs + ?k) (xs @ ys) = drop ?k ys"
    using rem by auto
  define im1 where "im1 = data_advance im c1 (length xs)"
  note adv = data_advance_part [OF rem, of c1, folded im1_def]
  show ?thesis
  proof (cases good)
    case False
    then show ?thesis
      unfolding step_splits_def image_step_data [OF st] Let_def m w both
      by (simp add: c1 image_fail_def)
  next
    case True
    have "image_step im xs = Inr (im1, [])"
      unfolding image_step_data [OF st] Let_def m w using True by (simp add: c1 im1_def)
    moreover have "round_view (image_step im (xs @ ys)) = round_view (image_step im1 ys)"
      unfolding image_step_data [OF st] image_step_data [OF adv(1) [unfolded st]] Let_def m w both adv(2-5)
      using True by (auto simp: adv(6) image_fail_def split: prod.splits)
    ultimately show ?thesis unfolding step_splits_def by auto
  qed
qed

lemma step_splits_any:
  assumes "image_ok im" "xs \<noteq> []" "ys \<noteq> []" "im_write im = put" "inv (im_ctx im)"
  shows "step_splits im xs ys"
proof (cases "im_state im")
  case IMAGE_FAILED
  then show ?thesis by (auto simp: step_splits_def image_step_def)
qed (use assms step_splits_collecting [of im xs ys] step_splits_data step_splits_pad in auto)

lemma step_inv:
  "image_step im data = Inr (im', d) \<Longrightarrow> im_write im = put \<Longrightarrow> inv (im_ctx im) \<Longrightarrow> inv (im_ctx im')"
  using step_ctx write_keeps by metis

lemma step_inv_stop:
  "image_step im data = Inl (r, im') \<Longrightarrow> im_write im = put \<Longrightarrow> inv (im_ctx im) \<Longrightarrow> inv (im_ctx im')"
  using step_ctx write_keeps by metis

lemma feed_inv:
  "image_ok im \<Longrightarrow> im_write im = put \<Longrightarrow> inv (im_ctx im) \<Longrightarrow>
   recovery_image_feed im data = Some (r, im') \<Longrightarrow> inv (im_ctx im')"
proof (induction "length data" arbitrary: im data rule: less_induct)
  case less
  show ?case
  proof (cases "data = []")
    case True
    then show ?thesis using less.prems by (simp add: recovery_image_feed.simps)
  next
    case False
    show ?thesis
    proof (cases "image_step im data")
      case (Inl a)
      then show ?thesis using less.prems step_inv_stop [of im data] False by (cases a) (auto simp: feed_step)
    next
      case (Inr b)
      obtain im1 d where b: "b = (im1, d)" by (cases b)
      note s = image_step_ok [OF Inr [unfolded b] less.prems(1) False]
      have "recovery_image_feed im1 d = Some (r, im')"
        using less.prems(4) Inr b False by (simp add: feed_step)
      then show ?thesis
        using less.hyps [of d im1] s less.prems(2) step_inv [OF Inr [unfolded b] less.prems(2,3)]
        by (simp add: same_setup_def)
    qed
  qed
qed

lemma feed_append:
  "image_ok im \<Longrightarrow> im_write im = put \<Longrightarrow> inv (im_ctx im) \<Longrightarrow> recovery_image_feed im xs = Some (r, im1) \<Longrightarrow>
   map_option answer_view (recovery_image_feed im (xs @ ys)) =
     map_option answer_view
       (if r = RECOVERY_IMAGE_OK then recovery_image_feed im1 ys else Some (r, im1))"
proof (induction "length xs" arbitrary: im xs rule: less_induct)
  case less
  show ?case
  proof (cases "xs = [] \<or> ys = []")
    case True
    then show ?thesis
    proof
      assume "xs = []"
      then show ?thesis using less.prems
        by (cases ys) (auto simp: recovery_image_feed.simps image_step_def split: if_splits)
    next
      assume ys: "ys = []"
      from image_feed_total [OF less.prems(1), of xs] less.prems(4)
      show ?thesis using ys by (auto simp: recovery_image_feed.simps [of im1])
    qed
  next
    case False
    then have ne: "xs \<noteq> []" "ys \<noteq> []" "xs @ ys \<noteq> []" by auto
    from step_splits_any [OF less.prems(1) ne(1,2) less.prems(2,3)] show ?thesis
      unfolding step_splits_def
    proof (elim disjE exE conjE)
      fix a assume a: "image_step im xs = Inl a"
        "round_view (image_step im (xs @ ys)) = round_view (Inl a)"
      obtain r' im' where a': "a = (r', im')" by (cases a)
      with image_step_failed(1) [of im xs r' im'] a ne less.prems have "r' \<noteq> RECOVERY_IMAGE_OK" by auto
      moreover have "recovery_image_feed im xs = Some a" using a ne by (simp add: feed_step)
      moreover have "map_option answer_view (recovery_image_feed im (xs @ ys)) = Some (r', im_ctx im', None)"
        using feed_view_stop [OF ne(3)] a(2) calculation(1) by (simp add: a')
      ultimately show ?thesis using less.prems(4) by (auto simp: a' answer_view_def)
    next
      fix im' d assume a: "image_step im xs = Inr (im', d)" "image_step im (xs @ ys) = Inr (im', d @ ys)"
      from image_step_ok [OF a(1) less.prems(1) ne(1)] less.prems(2)
      have im': "image_ok im'" "length d < length xs" "im_write im' = put" by (auto simp: same_setup_def)
      have "recovery_image_feed im' d = Some (r, im1)"
        using less.prems(4) a ne by (simp add: feed_step)
      from less.hyps [OF im'(2,1,3) step_inv [OF a(1) less.prems(2,3)] this] show ?thesis
        using a ne by (simp add: feed_step)
    next
      fix im' assume a: "image_step im xs = Inr (im', [])"
        "round_view (image_step im (xs @ ys)) = round_view (image_step im' ys)"
      from image_step_ok [OF a(1) less.prems(1) ne(1)] have ok': "image_ok im'" by simp
      have feed: "recovery_image_feed im' [] = Some (r, im1)"
        using less.prems(4) a ne by (simp add: feed_step)
      have view: "map_option answer_view (recovery_image_feed im (xs @ ys)) =
          map_option answer_view (recovery_image_feed im' ys)"
        by (rule feed_view_cong [OF less.prems(1) ok' ne(3,2) a(2)])
      show ?thesis
      proof (cases "im_state im' = IMAGE_FAILED")
        case True
        then have "recovery_image_feed im' ys = Some (RECOVERY_IMAGE_ERR_FAILED, im')"
          "r = RECOVERY_IMAGE_ERR_FAILED" "im1 = im'"
          using feed ne(2) by (auto simp: feed_step image_step_def recovery_image_feed.simps [of im' "[]"])
        then show ?thesis using view by simp
      next
        case False
        then have "r = RECOVERY_IMAGE_OK" "im1 = im'"
          using feed by (auto simp: recovery_image_feed.simps [of im' "[]"])
        then show ?thesis using view by simp
      qed
    qed
  qed
qed

lemma pieces_do_not_matter:
  "image_ok im \<Longrightarrow> im_write im = put \<Longrightarrow> inv (im_ctx im) \<Longrightarrow> im_state im \<noteq> IMAGE_FAILED \<Longrightarrow>
   map_option answer_view (feed_pieces im ps) =
   map_option answer_view (recovery_image_feed im (concat ps))"
proof (induction ps arbitrary: im)
  case (Cons p ps)
  from image_feed_total [OF Cons.prems(1), of p] obtain r im1 where
    f: "recovery_image_feed im p = Some (r, im1)" "image_ok im1" "same_setup im im1"
      "r = RECOVERY_IMAGE_OK \<longleftrightarrow> im_state im1 \<noteq> IMAGE_FAILED" by auto
  from feed_append [OF Cons.prems(1-3) f(1), of "concat ps"] feed_inv [OF Cons.prems(1-3) f(1)] Cons f
  show ?case
    by (auto simp: same_setup_def)
qed (simp add: recovery_image_feed.simps)

end

end
