(* ===== verification/Image_Correct.thy ===== *)
theory Image_Correct
  imports Recovery_Image
begin

text \<open>
  What the image reader of \<open>Recovery_Image\<close> accepts and does: the image format as \<^verbatim>\<open>tools/hex2bin -r\<close>
  writes it, and the theorem that a stream is accepted exactly when it is one, with the write
  callback called on the data of its records in their order.
\<close>

section \<open>The format\<close>

record image_record =
  ir_load :: u32
  ir_data :: "byte list"
  ir_start :: u32
  ir_pad :: "byte list"

definition record_bytes :: "image_record \<Rightarrow> byte list" where
  "record_bytes r = le32_bytes (ir_load r) @ le32_bytes (of_nat (length (ir_data r))) @
     le32_bytes (ir_start r) @ ir_data r @ ir_pad r"

definition record_ok :: "u32 \<Rightarrow> u32 \<Rightarrow> image_record \<Rightarrow> bool" where
  "record_ok lo hi r \<longleftrightarrow> length (ir_data r) < 2 ^ 32 \<and>
     length (ir_pad r) = (4 - length (ir_data r) mod 4) mod 4 \<and>
     (ir_data r = [] \<or> lo \<le> ir_load r \<and> ir_load r < hi \<and>
        unat (ir_load r) + length (ir_data r) \<le> unat hi)"

text \<open>What the write callback is asked to do for a record, and for a list of them until it refuses.\<close>

definition run_record :: "'c image_writer \<Rightarrow> 'c \<Rightarrow> image_record \<Rightarrow> bool \<times> 'c" where
  "run_record w c r = (if ir_data r = [] then (True, c) else w c (ir_load r) (ir_data r))"

primrec run_records :: "'c image_writer \<Rightarrow> 'c \<Rightarrow> image_record list \<Rightarrow> bool \<times> 'c" where
  "run_records w c [] = (True, c)"
| "run_records w c (r # rs) =
     (case run_record w c r of (ok, c') \<Rightarrow> if ok then run_records w c' rs else (False, c'))"

primrec last_start :: "u32 \<Rightarrow> image_record list \<Rightarrow> u32" where
  "last_start s [] = s"
| "last_start s (r # rs) = last_start (if ir_start r \<noteq> 0 then ir_start r else s) rs"

text \<open>What may come before the records: nothing, unless that would be taken for a fingerprint, or the
  36 bytes of a \<open>.cfw\<close> header of a fitting product family.\<close>

definition preheader_ok :: "byte list option \<Rightarrow> byte list \<Rightarrow> image_record list \<Rightarrow> bool" where
  "preheader_ok family pre rs \<longleftrightarrow>
     (pre = [] \<and> ir_load (hd rs) \<noteq> RECOVERY_IMAGE_FINGERPRINT) \<or>
     (length pre = 36 \<and> le32_at pre 0 = RECOVERY_IMAGE_FINGERPRINT \<and>
        (case family of None \<Rightarrow> True
         | Some f \<Rightarrow> pre ! 4 = 0 \<or> strncmp_equal 16 (drop 4 pre) f))"

section \<open>The rounds on a record\<close>

definition ready :: "'c image \<Rightarrow> bool" where
  "ready im \<longleftrightarrow> im_state im = IMAGE_HEADER \<and> im_have im = 0 \<and> length (im_header im) = 36"

lemma feed_Nil: "im_state im \<noteq> IMAGE_FAILED \<Longrightarrow> recovery_image_feed im [] = Some (RECOVERY_IMAGE_OK, im)"
  by (simp add: recovery_image_feed.simps)

definition with_header :: "'c image \<Rightarrow> byte list \<Rightarrow> 'c image" where
  "with_header im hdr = im\<lparr>im_header := blit 0 hdr (im_header im), im_have := length hdr\<rparr>"

lemma collect_zero:
  assumes "im_have im = 0" "0 < need"
  shows "collect im need data =
    (length data \<ge> need, with_header im (take need data), drop need data)"
  using assms by (auto simp: collect_def Let_def with_header_def)

lemma feed_header:
  assumes "ready im" "12 \<le> length data"
  shows "recovery_image_feed im data =
    (case start_record (with_header im (take 12 data)) of (r, im2) \<Rightarrow>
       if r \<noteq> RECOVERY_IMAGE_OK then Some (im_error im2, im2)
       else recovery_image_feed im2 (drop 12 data))"
proof -
  have "data \<noteq> []" using assms(2) by auto
  moreover have "im_state im = IMAGE_HEADER" "im_have im = 0" using assms(1) by (simp_all add: ready_def)
  ultimately show ?thesis
    using assms(2)
    by (simp add: feed_step image_step_def RECOVERY_IMAGE_RECORD_HDR_def collect_zero split: prod.split)
qed

lemma feed_header_short:
  assumes "ready im" "data \<noteq> []" "length data < 12"
  shows "recovery_image_feed im data = Some (RECOVERY_IMAGE_OK, with_header im data)"
  using assms
  by (simp add: feed_step image_step_def RECOVERY_IMAGE_RECORD_HDR_def collect_zero ready_def feed_Nil
      with_header_def)

lemma data_advance_all:
  "data_advance im c (unat (im_remaining im)) =
    im\<lparr>im_ctx := c, im_addr := im_addr im + im_remaining im, im_remaining := 0,
       im_loaded := im_loaded im + im_remaining im,
       im_state := (if im_pad im \<noteq> 0 then IMAGE_PAD else IMAGE_HEADER)\<rparr>"
  by (simp add: data_advance_def Let_def)

lemma feed_data:
  assumes "im_state im = IMAGE_DATA" "0 < unat (im_remaining im)" "unat (im_remaining im) \<le> length data"
    "im_write im (im_ctx im) (im_addr im) (take (unat (im_remaining im)) data) = (ok, c)"
  shows "recovery_image_feed im data =
    (if ok then recovery_image_feed (data_advance im c (unat (im_remaining im)))
                 (drop (unat (im_remaining im)) data)
     else Some (image_fail (im\<lparr>im_ctx := c\<rparr>) RECOVERY_IMAGE_ERR_WRITE))"
proof -
  have "data \<noteq> []" using assms(2,3) by auto
  moreover have m: "min (length data) (unat (im_remaining im)) = unat (im_remaining im)"
    using assms(3) by simp
  ultimately show ?thesis
    unfolding feed_step [OF \<open>data \<noteq> []\<close>] image_step_data [OF assms(1)] Let_def m assms(4) by simp
qed

lemma feed_data_short:
  assumes "im_state im = IMAGE_DATA" "length data < unat (im_remaining im)"
    "recovery_image_feed im data = Some (RECOVERY_IMAGE_OK, im')"
  shows "im_state im' = IMAGE_DATA"
proof (cases "data = []")
  case True
  then show ?thesis using assms by (simp add: feed_Nil)
next
  case False
  have m: "min (length data) (unat (im_remaining im)) = length data" using assms(2) by simp
  obtain ok c where w: "im_write im (im_ctx im) (im_addr im) (take (length data) data) = (ok, c)"
    by fastforce
  have st: "im_state (data_advance im c (length data)) = IMAGE_DATA"
    using data_advance_part(1) [OF assms(2)] assms(1) by simp
  show ?thesis
    using assms(3) st
    unfolding feed_step [OF False] image_step_data [OF assms(1)] Let_def m w
    by (auto simp: feed_Nil image_fail_def split: if_splits)
qed

lemma feed_pad:
  assumes "im_state im = IMAGE_PAD" "0 < unat (im_pad im)" "unat (im_pad im) \<le> length data"
  shows "recovery_image_feed im data =
    recovery_image_feed (im\<lparr>im_pad := 0, im_state := IMAGE_HEADER\<rparr>) (drop (unat (im_pad im)) data)"
proof -
  have "data \<noteq> []" using assms(2,3) by auto
  then show ?thesis using assms by (simp add: feed_step image_step_def Let_def)
qed

lemma feed_pad_short:
  assumes "im_state im = IMAGE_PAD" "length data < unat (im_pad im)"
    "recovery_image_feed im data = Some (RECOVERY_IMAGE_OK, im')"
  shows "im_state im' = IMAGE_PAD"
proof (cases "data = []")
  case False
  have "unat (im_pad im - of_nat (length data)) = unat (im_pad im) - length data"
    using assms(2) by (intro unat_sub_in_range) simp
  then have "im_pad im - of_nat (length data) \<noteq> 0" using assms(2) by (auto simp: unat_eq_zero [symmetric])
  then show ?thesis
    using assms False by (auto simp: feed_step image_step_def Let_def feed_Nil)
qed (use assms in \<open>simp add: feed_Nil\<close>)

section \<open>A whole record\<close>

lemma le32_bytes_le32: "le32_bytes (le32 a b c d) = [a, b, c, d]"
proof -
  have "ucast (drop_bit 0 (le32 a b c d)) = a" "ucast (drop_bit 8 (le32 a b c d)) = b"
    "ucast (drop_bit 16 (le32 a b c d)) = c" "ucast (drop_bit 24 (le32 a b c d)) = d"
    by (rule bit_word_eqI; auto simp: le32_def bit_simps dest: bit_imp_le_length)+
  then show ?thesis by (simp add: le32_bytes_def)
qed

lemma le32_at_append:
  "le32_at (le32_bytes w @ xs) 0 = w" "length a = n \<Longrightarrow> le32_at (a @ xs) (n + i) = le32_at xs i"
  by (simp_all add: le32_at_def le32_bytes_def le32_of_bytes nth_append)

lemma le32_at_record:
  "le32_at (record_bytes r @ xs) 0 = ir_load r"
  "le32_at (record_bytes r @ xs) 4 = of_nat (length (ir_data r))"
  "le32_at (record_bytes r @ xs) 8 = ir_start r"
  using le32_at_append(2) [of "le32_bytes (ir_load r)" 4 _ 0]
    le32_at_append(2) [of "le32_bytes (ir_load r) @ le32_bytes (of_nat (length (ir_data r)))" 8 _ 0]
  by (simp_all add: record_bytes_def le32_at_append)

lemma take_12_le32:
  assumes "12 \<le> length data"
  shows "take 12 data = le32_bytes (le32_at data 0) @ le32_bytes (le32_at data 4) @ le32_bytes (le32_at data 8)"
  unfolding le32_at_def le32_bytes_le32
  using assms by (intro list_eq_nthI [where n = 12]) (auto simp: nth_append less_Suc_eq numeral_eq_Suc)

lemma le32_at_blit:
  assumes "length h = 36" "12 \<le> length data" "i + 3 < 12"
  shows "le32_at (blit 0 (take 12 data) h) i = le32_at data i"
  using assms by (simp add: le32_at_def nth_blit)

lemma pad_value: "unat (((4 :: u32) - (n AND 3)) AND 3) = (4 - unat n mod 4) mod 4"
proof -
  have and3: "w AND 3 = take_bit 2 w" for w :: u32
    by (simp add: take_bit_eq_mask mask_eq_exp_minus_1)
  have unat_tb: "unat (take_bit 2 w) = unat w mod 4" for w :: u32
    by (simp only: unsigned_take_bit_eq) (simp add: take_bit_eq_mod)
  have "take_bit 2 n \<le> 4" by (simp add: word_le_nat_alt unat_tb)
  then have "unat (4 - take_bit 2 n) = 4 - unat n mod 4"
    by (simp add: unat_sub unat_tb)
  then show ?thesis by (simp add: and3 unat_tb)
qed

lemma in_window_iff:
  "in_window im a n \<longleftrightarrow> im_load_min im \<le> a \<and> a < im_load_max im \<and> unat a + unat n \<le> unat (im_load_max im)"
  unfolding in_window_def
  using unat_sub [of a "im_load_max im"] by (auto simp: word_le_nat_alt word_less_nat_alt)

text \<open>The step from a complete header.\<close>

lemma feed_header_cases:
  assumes im: "ready im" and len: "12 \<le> length data"
    and load: "load = le32_at data 0" and n: "n = le32_at data 4" and start: "start = le32_at data 8"
  obtains im2 where "ready im2 \<or> im_state im2 = IMAGE_DATA \<and> 0 < unat n" "im_state im2 = IMAGE_HEADER \<longleftrightarrow> n = 0"
    "same_setup im im2" "im_ctx im2 = im_ctx im" "im_addr im2 = load" "im_remaining im2 = n"
    "unat (im_pad im2) = (4 - unat n mod 4) mod 4" "im_have im2 = 0" "length (im_header im2) = 36"
    "im_start im2 = (if start \<noteq> 0 then start else im_start im)" "im_records im2 = im_records im + 1"
    "n = 0 \<or> in_window im load n" "recovery_image_feed im data = recovery_image_feed im2 (drop 12 data)"
  | r im2 where "r \<noteq> RECOVERY_IMAGE_OK" "recovery_image_feed im data = Some (r, im2)"
    "n \<noteq> 0" "\<not> in_window im load n"
proof -
  let ?h = "with_header im (take 12 data)"
  have l36: "length (im_header im) = 36" using im by (simp add: ready_def)
  have at: "le32_at (im_header ?h) 0 = load" "le32_at (im_header ?h) 4 = n" "le32_at (im_header ?h) 8 = start"
    using le32_at_blit [OF l36 len] by (simp_all add: with_header_def load n start)
  have h36: "length (im_header ?h) = 36" using l36 len by (simp add: with_header_def)
  have win: "in_window (?h\<lparr>im_have := 0\<rparr>) load n = in_window im load n"
    by (simp add: in_window_def with_header_def)
  show thesis
  proof (cases "n \<noteq> 0 \<and> \<not> in_window im load n")
    case True
    then show thesis
      using that(2) feed_header [OF im len] at win
      by (simp add: start_record_def Let_def image_fail_def)
  next
    case False
    define im2 where "im2 = ?h\<lparr>im_have := 0, im_start := (if start \<noteq> 0 then start else im_start im),
      im_records := im_records im + 1, im_addr := load, im_remaining := n,
      im_pad := (4 - (n AND 3)) AND 3, im_state := (if n \<noteq> 0 then IMAGE_DATA else IMAGE_HEADER)\<rparr>"
    have "start_record ?h = (RECOVERY_IMAGE_OK, im2)"
      using False at win by (auto simp: start_record_def Let_def im2_def with_header_def)
    then have "recovery_image_feed im data = recovery_image_feed im2 (drop 12 data)"
      using feed_header [OF im len] by simp
    moreover have "im_state im2 = IMAGE_HEADER \<longleftrightarrow> n = 0" "same_setup im im2" "im_ctx im2 = im_ctx im"
      "im_addr im2 = load" "im_remaining im2 = n" "im_have im2 = 0" "length (im_header im2) = 36"
      "im_start im2 = (if start \<noteq> 0 then start else im_start im)" "im_records im2 = im_records im + 1"
      using h36 by (simp_all add: im2_def same_setup_def with_header_def)
    moreover have "ready im2 \<or> im_state im2 = IMAGE_DATA \<and> 0 < unat n"
      using h36 by (auto simp: im2_def ready_def unat_gt_0)
    moreover have "unat (im_pad im2) = (4 - unat n mod 4) mod 4" by (simp add: im2_def pad_value)
    ultimately show thesis using that(1) False by blast
  qed
qed

text \<open>The steps from the start of a record's data to the next header.\<close>

lemma feed_body:
  assumes im: "im_state im = IMAGE_DATA" "0 < unat (im_remaining im)" "im_have im = 0"
      "length (im_header im) = 36"
    and len: "unat (im_remaining im) + unat (im_pad im) \<le> length data"
    and w: "im_write im (im_ctx im) (im_addr im) (take (unat (im_remaining im)) data) = (True, c)"
  obtains im2 where "ready im2" "same_setup im im2" "im_ctx im2 = c" "im_start im2 = im_start im"
    "im_records im2 = im_records im"
    "recovery_image_feed im data =
       recovery_image_feed im2 (drop (unat (im_remaining im) + unat (im_pad im)) data)"
proof -
  let ?n = "unat (im_remaining im)"
  define im1 where "im1 = data_advance im c ?n"
  have step: "recovery_image_feed im data = recovery_image_feed im1 (drop ?n data)"
    using feed_data [OF im(1,2) _ w] len by (simp add: im1_def)
  have im1: "im1 = im\<lparr>im_ctx := c, im_addr := im_addr im + im_remaining im, im_remaining := 0,
      im_loaded := im_loaded im + im_remaining im,
      im_state := (if im_pad im \<noteq> 0 then IMAGE_PAD else IMAGE_HEADER)\<rparr>"
    by (simp add: im1_def data_advance_all)
  show thesis
  proof (cases "im_pad im = 0")
    case True
    then show thesis
      using step im that [of im1] by (simp add: im1 ready_def same_setup_def)
  next
    case False
    define im2 where "im2 = im1\<lparr>im_pad := 0, im_state := IMAGE_HEADER\<rparr>"
    have "recovery_image_feed im1 (drop ?n data) = recovery_image_feed im2 (drop (unat (im_pad im)) (drop ?n data))"
      using feed_pad [of im1 "drop ?n data"] False len by (simp add: im1 im2_def unat_gt_0)
    then show thesis
      using step im that [of im2] by (simp add: im1 im2_def ready_def same_setup_def add.commute)
  qed
qed

lemma feed_body_sound:
  assumes im: "im_state im = IMAGE_DATA" "0 < unat (im_remaining im)"
    and ok: "recovery_image_feed im data = Some (RECOVERY_IMAGE_OK, im')" "im_state im' = IMAGE_HEADER"
  shows "unat (im_remaining im) + unat (im_pad im) \<le> length data"
    "fst (im_write im (im_ctx im) (im_addr im) (take (unat (im_remaining im)) data))"
proof -
  let ?n = "unat (im_remaining im)"
  have n: "?n \<le> length data"
    using feed_data_short [OF im(1) _ ok(1)] ok(2) by (cases "length data < ?n") auto
  obtain good c where w: "im_write im (im_ctx im) (im_addr im) (take ?n data) = (good, c)" by fastforce
  show good: "fst (im_write im (im_ctx im) (im_addr im) (take ?n data))"
    using feed_data [OF im n w] ok(1) w by (auto simp: image_fail_def split: if_splits)
  define im1 where "im1 = data_advance im c ?n"
  have step: "recovery_image_feed im1 (drop ?n data) = Some (RECOVERY_IMAGE_OK, im')"
    using feed_data [OF im n w] ok(1) w good by (simp add: im1_def)
  show "?n + unat (im_pad im) \<le> length data"
  proof (cases "im_pad im = 0")
    case False
    then have pad: "im_state im1 = IMAGE_PAD" "im_pad im1 = im_pad im"
      by (simp_all add: im1_def data_advance_all)
    have "\<not> length (drop ?n data) < unat (im_pad im1)"
      using feed_pad_short [OF pad(1) _ step] ok(2) by auto
    then show ?thesis using n pad(2) by simp
  qed (use n in simp)
qed

lemma feed_record:
  assumes im: "ready im" and r: "record_ok (im_load_min im) (im_load_max im) r"
    and run: "run_record (im_write im) (im_ctx im) r = (True, c)"
  obtains im2 where "ready im2" "same_setup im im2" "im_ctx im2 = c"
    "im_start im2 = (if ir_start r \<noteq> 0 then ir_start r else im_start im)"
    "im_records im2 = im_records im + 1"
    "recovery_image_feed im (record_bytes r @ rest) = recovery_image_feed im2 rest"
proof -
  let ?data = "record_bytes r @ rest" and ?n = "of_nat (length (ir_data r)) :: u32"
  have n: "unat ?n = length (ir_data r)"
    using r by (simp add: record_ok_def unat_of_nat take_bit_nat_eq_self_iff)
  have len: "12 \<le> length ?data" by (simp add: record_bytes_def)
  have win: "?n \<noteq> 0 \<Longrightarrow> in_window im (ir_load r) ?n"
    using r n by (auto simp: in_window_iff record_ok_def)
  have body: "drop 12 ?data = ir_data r @ ir_pad r @ rest" by (simp add: record_bytes_def)
  show thesis
  proof (rule feed_header_cases [OF im len le32_at_record(1) [symmetric] le32_at_record(2) [symmetric]
        le32_at_record(3) [symmetric]])
    fix im1
    assume im1: "ready im1 \<or> im_state im1 = IMAGE_DATA \<and> 0 < unat ?n" "im_state im1 = IMAGE_HEADER \<longleftrightarrow> ?n = 0"
      "same_setup im im1" "im_ctx im1 = im_ctx im" "im_addr im1 = ir_load r" "im_remaining im1 = ?n"
      "unat (im_pad im1) = (4 - unat ?n mod 4) mod 4" "im_have im1 = 0" "length (im_header im1) = 36"
      "im_start im1 = (if ir_start r \<noteq> 0 then ir_start r else im_start im)"
      "im_records im1 = im_records im + 1" "?n = 0 \<or> in_window im (ir_load r) ?n"
      "recovery_image_feed im ?data = recovery_image_feed im1 (drop 12 ?data)"
    show thesis
    proof (cases "ir_data r = []")
      case True
      then have "ir_pad r = []" using r by (simp add: record_ok_def)
      then show thesis
        using that [of im1] True im1 body run by (auto simp: ready_def run_record_def)
    next
      case False
      then have st: "im_state im1 = IMAGE_DATA" "0 < unat (im_remaining im1)"
        using im1(1,2,6) n by (auto simp: ready_def)
      have pad: "unat (im_pad im1) = length (ir_pad r)" using im1(7) n r by (simp add: record_ok_def)
      have w: "im_write im1 (im_ctx im1) (im_addr im1) (take (unat (im_remaining im1)) (drop 12 ?data)) = (True, c)"
        using run False im1(3,4,5,6) n body by (simp add: run_record_def same_setup_def)
      have l: "unat (im_remaining im1) + unat (im_pad im1) \<le> length (drop 12 ?data)"
        using n pad im1(6) body by simp
      obtain im2 where "ready im2" "same_setup im1 im2" "im_ctx im2 = c" "im_start im2 = im_start im1"
        "im_records im2 = im_records im1"
        "recovery_image_feed im1 (drop 12 ?data) = recovery_image_feed im2
           (drop (unat (im_remaining im1) + unat (im_pad im1)) (drop 12 ?data))"
        using feed_body [OF st im1(8,9) l w] .
      moreover have "drop (unat (im_remaining im1) + unat (im_pad im1)) (drop 12 ?data) = rest"
        using n pad im1(6) body by simp
      ultimately show thesis
        using that [of im2] im1(3,10,11,13) same_setup_trans by metis
    qed
  next
    fix e im2 assume "?n \<noteq> 0" "\<not> in_window im (ir_load r) ?n"
    then show thesis using win by simp
  qed
qed

text \<open>Conversely, a stream that ends at a record boundary starts with a record.\<close>

lemma feed_record_sound:
  assumes im: "ready im" and ne: "data \<noteq> []"
    and ok: "recovery_image_feed im data = Some (RECOVERY_IMAGE_OK, im')"
      "im_state im' = IMAGE_HEADER" "im_have im' = 0"
  obtains r rest c where "data = record_bytes r @ rest"
    "record_ok (im_load_min im) (im_load_max im) r"
    "run_record (im_write im) (im_ctx im) r = (True, c)" "length rest < length data"
proof -
  have len: "12 \<le> length data"
    using feed_header_short [OF im ne] ok ne by (cases "length data < 12") (auto simp: with_header_def)
  let ?load = "le32_at data 0" and ?n = "le32_at data 4" and ?start = "le32_at data 8"
  show thesis
  proof (rule feed_header_cases [OF im len refl refl refl])
    fix im1
    assume im1: "ready im1 \<or> im_state im1 = IMAGE_DATA \<and> 0 < unat ?n" "im_state im1 = IMAGE_HEADER \<longleftrightarrow> ?n = 0"
      "same_setup im im1" "im_ctx im1 = im_ctx im" "im_addr im1 = ?load" "im_remaining im1 = ?n"
      "unat (im_pad im1) = (4 - unat ?n mod 4) mod 4" "?n = 0 \<or> in_window im ?load ?n"
      "recovery_image_feed im data = recovery_image_feed im1 (drop 12 data)"
    let ?k = "unat ?n" and ?p = "(4 - unat ?n mod 4) mod 4"
    define r where "r = \<lparr>ir_load = ?load, ir_data = take ?k (drop 12 data), ir_start = ?start,
      ir_pad = take ?p (drop ?k (drop 12 data))\<rparr>"
    have fits: "?k + ?p \<le> length (drop 12 data) \<and>
      (?k = 0 \<or> fst (im_write im (im_ctx im) ?load (take ?k (drop 12 data))))"
    proof (cases "?n = 0")
      case False
      then have st: "im_state im1 = IMAGE_DATA" "0 < unat (im_remaining im1)"
        using im1(1,2,6) by (auto simp: ready_def)
      from feed_body_sound [OF st _ ok(2), of "drop 12 data"] ok(1) im1 show ?thesis
        by (auto simp: same_setup_def)
    qed simp
    then have lens: "length (ir_data r) = ?k" "length (ir_pad r) = ?p" by (auto simp: r_def)
    have whole: "data = record_bytes r @ drop (12 + ?k + ?p) data"
    proof -
      have "data = take 12 data @ drop 12 data" by simp
      also have "drop 12 data = take ?k (drop 12 data) @ take ?p (drop ?k (drop 12 data)) @
          drop ?p (drop ?k (drop 12 data))" by (simp only: append_take_drop_id)
      also have "take 12 data = le32_bytes ?load @ le32_bytes ?n @ le32_bytes ?start"
        by (rule take_12_le32 [OF len])
      finally show ?thesis
        using lens by (simp add: record_bytes_def r_def ac_simps)
    qed
    have "?k < 2 ^ 32" using unsigned_less [of ?n, where 'a = nat] by simp
    then have "record_ok (im_load_min im) (im_load_max im) r"
      using lens im1(8) by (auto simp: record_ok_def in_window_iff r_def)
    moreover have fst: "fst (run_record (im_write im) (im_ctx im) r)"
    proof (cases "ir_data r = []")
      case False
      then have "?k \<noteq> 0" using lens(1) by (metis length_0_conv)
      with fits False show ?thesis by (simp add: run_record_def r_def)
    qed (simp add: run_record_def)
    then obtain c where "run_record (im_write im) (im_ctx im) r = (True, c)"
      by (cases "run_record (im_write im) (im_ctx im) r") auto
    moreover have "length (drop (12 + ?k + ?p) data) < length data" using len by simp
    ultimately show thesis using that whole by blast
  next
    fix e im2 assume "e \<noteq> RECOVERY_IMAGE_OK" "recovery_image_feed im data = Some (e, im2)"
    then show thesis using ok(1) by simp
  qed
qed

section \<open>Whole streams\<close>

lemma feed_records:
  assumes "ready im" "list_all (record_ok (im_load_min im) (im_load_max im)) rs"
    "run_records (im_write im) (im_ctx im) rs = (True, c)"
  obtains im2 where "ready im2" "same_setup im im2" "im_ctx im2 = c"
    "im_start im2 = last_start (im_start im) rs" "im_records im2 = im_records im + of_nat (length rs)"
    "recovery_image_feed im (concat (map record_bytes rs)) = Some (RECOVERY_IMAGE_OK, im2)"
  using assms
proof (induction rs arbitrary: im thesis)
  case Nil
  then show ?case
    by (intro Nil(1) [of im]) (simp_all add: feed_Nil ready_def)
next
  case (Cons r rs)
  obtain c1 where c1: "run_record (im_write im) (im_ctx im) r = (True, c1)"
    "run_records (im_write im) c1 rs = (True, c)"
    using Cons.prems(4) by (auto split: prod.splits if_splits)
  obtain im1 where im1: "ready im1" "same_setup im im1" "im_ctx im1 = c1"
    "im_start im1 = (if ir_start r \<noteq> 0 then ir_start r else im_start im)"
    "im_records im1 = im_records im + 1"
    "recovery_image_feed im (record_bytes r @ concat (map record_bytes rs)) =
       recovery_image_feed im1 (concat (map record_bytes rs))"
    using feed_record [OF Cons.prems(2) _ c1(1)] Cons.prems(3) by auto
  obtain im2 where "ready im2" "same_setup im1 im2" "im_ctx im2 = c"
    "im_start im2 = last_start (im_start im1) rs" "im_records im2 = im_records im1 + of_nat (length rs)"
    "recovery_image_feed im1 (concat (map record_bytes rs)) = Some (RECOVERY_IMAGE_OK, im2)"
    using Cons.IH [of im1] im1 c1(2) Cons.prems(3) by (auto simp: same_setup_def)
  then show ?case
    using im1 by (intro Cons.prems(1) [of im2]) (auto intro: same_setup_trans)
qed

lemma feed_records_sound:
  assumes "ready im" "recovery_image_feed im data = Some (RECOVERY_IMAGE_OK, im')"
    "im_state im' = IMAGE_HEADER" "im_have im' = 0"
  obtains rs where "data = concat (map record_bytes rs)"
    "list_all (record_ok (im_load_min im) (im_load_max im)) rs"
    "run_records (im_write im) (im_ctx im) rs = (True, im_ctx im')"
  using assms
proof (induction "length data" arbitrary: im data thesis rule: less_induct)
  case less
  show ?case
  proof (cases "data = []")
    case True
    then show ?thesis using less.prems by (intro less.prems(1) [of "[]"]) (auto simp: feed_Nil ready_def)
  next
    case False
    obtain r rest c where r: "data = record_bytes r @ rest"
      "record_ok (im_load_min im) (im_load_max im) r"
      "run_record (im_write im) (im_ctx im) r = (True, c)" "length rest < length data"
      using feed_record_sound [OF less.prems(2) False less.prems(3-5)] .
    obtain im2 where im2: "ready im2" "same_setup im im2" "im_ctx im2 = c"
      "recovery_image_feed im data = recovery_image_feed im2 rest"
      using feed_record [OF less.prems(2) r(2,3), of rest] r(1) by metis
    obtain rs where "rest = concat (map record_bytes rs)"
      "list_all (record_ok (im_load_min im) (im_load_max im)) rs"
      "run_records (im_write im) c rs = (True, im_ctx im')"
      using less.hyps [OF r(4) _ im2(1), of thesis] less.prems(3-5) im2 
      by (metis same_setup_def less.hyps r(4))
    then show ?thesis
      using r by (intro less.prems(1) [of "r # rs"]) auto
  qed
qed

text \<open>A whole load: the stream in one piece, then the end.\<close>

definition load_stream ::
  "'c image_writer \<Rightarrow> 'c \<Rightarrow> u32 \<Rightarrow> u32 \<Rightarrow> byte list option \<Rightarrow> byte list \<Rightarrow> (u32 \<times> 'c) option" where
  "load_stream w c lo hi family data =
     (case recovery_image_feed (recovery_image_init lo hi family w c) data of
        Some (RECOVERY_IMAGE_OK, im) \<Rightarrow>
          (case recovery_image_finish im of Inr start \<Rightarrow> Some (start, im_ctx im) | Inl e \<Rightarrow> None)
      | _ \<Rightarrow> None)"

text \<open>The reader just behind what precedes the records: nothing, or the header of a \<open>.cfw\<close>.\<close>

lemma feed_plain:
  assumes im: "im = recovery_image_init lo hi family w c" and data: "4 \<le> length data"
    and plain: "le32_at data 0 \<noteq> RECOVERY_IMAGE_FINGERPRINT"
  shows "recovery_image_feed im data = recovery_image_feed (im\<lparr>im_state := IMAGE_HEADER\<rparr>) data"
proof -
  let ?im0 = "im\<lparr>im_state := IMAGE_HEADER\<rparr>" and ?x = "take 4 data" and ?y = "drop 4 data"
  have ne: "data \<noteq> []" using data by auto
  have init: "im_have im = 0" "length (im_header im) = 36" "im_state im = IMAGE_DETECT"
    by (simp_all add: im recovery_image_init_def RECOVERY_IMAGE_PREHEADER_def)
  have det: "collect im 4 data = (True, with_header im ?x, ?y)"
    using collect_zero [OF init(1), of 4 data] data by simp
  have h: "le32_at (im_header (with_header im ?x)) 0 = le32_at data 0"
    using init(2) data by (simp add: with_header_def le32_at_def nth_blit)
  have "recovery_image_feed im data = recovery_image_feed ((with_header im ?x)\<lparr>im_state := IMAGE_HEADER\<rparr>) ?y"
    using plain by (simp add: feed_step [OF ne] image_step_def init(3) det h)
  also have "(with_header im ?x)\<lparr>im_state := IMAGE_HEADER\<rparr> = with_header ?im0 ?x"
    by (simp add: with_header_def)
  also have "recovery_image_feed (with_header ?im0 ?x) ?y = recovery_image_feed ?im0 data"
  proof -
    have "length ?x < 12 - im_have ?im0" "im_have ?im0 < 12" "12 \<le> length (im_header ?im0)"
      using data init by auto
    from collect_beyond [OF this] obtain im1 where
      im1: "collect ?im0 12 ?x = (False, im1, [])" "collect im1 12 ?y = collect ?im0 12 (?x @ ?y)"
      by metis
    have "im1 = with_header ?im0 ?x"
      using im1(1) collect_zero [of ?im0 12 ?x] init(1) data by simp
    then have same: "collect (with_header ?im0 ?x) 12 ?y = collect ?im0 12 data"
      using im1(2) by (simp only: append_take_drop_id)
    have st: "im_state (with_header ?im0 ?x) = IMAGE_HEADER" "im_state ?im0 = IMAGE_HEADER"
      by (simp_all add: with_header_def)
    show ?thesis
    proof (cases "?y = []")
      case False
      then show ?thesis
        using same st by (simp add: feed_step ne image_step_def RECOVERY_IMAGE_RECORD_HDR_def)
    next
      case True
      then have "length data = 4" using data by simp
      moreover have "ready ?im0" using init by (simp add: ready_def)
      ultimately show ?thesis
        using feed_header_short [of ?im0 data] ne st True by (simp add: feed_Nil)
    qed
  qed
  finally show ?thesis .
qed

lemma feed_preheader:
  assumes im: "im = recovery_image_init lo hi family w c" and data: "36 \<le> length data"
    and fp: "le32_at data 0 = RECOVERY_IMAGE_FINGERPRINT"
    and fits: "case family of None \<Rightarrow> True | Some f \<Rightarrow> data ! 4 = 0 \<or> strncmp_equal 16 (take 32 (drop 4 data)) f"
  obtains im1 where "ready im1" "same_setup im im1" "im_ctx im1 = c" "im_start im1 = 0" "im_records im1 = 0"
    "recovery_image_feed im data = recovery_image_feed im1 (drop 36 data)"
proof -
  let ?x = "take 4 data" and ?y = "drop 4 data"
  have ne: "data \<noteq> []" "?y \<noteq> []" using data by auto
  have init: "im_have im = 0" "length (im_header im) = 36" "im_state im = IMAGE_DETECT"
    "im_ctx im = c" "im_start im = 0" "im_records im = 0" "im_family im = family"
    by (simp_all add: im recovery_image_init_def RECOVERY_IMAGE_PREHEADER_def)
  have det: "collect im 4 data = (True, with_header im ?x, ?y)"
    using collect_zero [OF init(1), of 4 data] data by simp
  have h: "le32_at (im_header (with_header im ?x)) 0 = le32_at data 0"
    using init(2) data by (simp add: with_header_def le32_at_def nth_blit)
  define imp where "imp = (with_header im ?x)\<lparr>im_state := IMAGE_PREHEADER\<rparr>"
  have step1: "recovery_image_feed im data = recovery_image_feed imp ?y"
    using fp by (simp add: feed_step [OF ne(1)] image_step_def init(3) det h imp_def)
  define im2 where "im2 = imp\<lparr>im_header := take 36 data, im_have := 36\<rparr>"
  have hdr: "blit 4 (take 32 ?y) (im_header imp) = take 36 data"
  proof -
    have "im_header imp = blit 0 ?x (im_header im)" by (simp add: imp_def with_header_def)
    moreover have "take 36 data = ?x @ take 32 ?y" using take_add [of 4 32 data] by simp
    ultimately show ?thesis using init(2) data by (simp add: blit_def)
  qed
  have c36: "collect imp 36 ?y = (True, im2, drop 36 data)"
  proof -
    have "im_have imp = 4" using data by (simp add: imp_def with_header_def)
    then show ?thesis
      using data hdr by (simp add: collect_def Let_def im2_def)
  qed
  define im1 where "im1 = im2\<lparr>im_have := 0, im_state := IMAGE_HEADER\<rparr>"
  have fam: "drop 4 (take 36 data) = take 32 ?y" by (simp add: drop_take)
  have "take 32 ?y ! 0 = data ! 4" using data by simp
  then have "image_step imp ?y = Inr (im1, drop 36 data)"
    using fits unfolding image_step_def RECOVERY_IMAGE_PREHEADER_def
    by (simp add: imp_def [THEN arg_cong, of im_state] c36 im2_def [THEN arg_cong, of im_header] fam
        im2_def [THEN arg_cong, of im_family] im1_def split: option.splits)
      (auto simp: imp_def im2_def with_header_def init)
  then have "recovery_image_feed im data = recovery_image_feed im1 (drop 36 data)"
    using step1 by (simp add: feed_step [OF ne(2)])
  then show thesis
    using that [of im1] data init
    by (simp add: im1_def im2_def imp_def with_header_def ready_def same_setup_def)
qed

lemma feed_fingerprint:
  assumes im: "im = recovery_image_init lo hi family w c" and data: "4 \<le> length data"
    and fp: "le32_at data 0 = RECOVERY_IMAGE_FINGERPRINT"
  shows "recovery_image_feed im data =
    recovery_image_feed ((with_header im (take 4 data))\<lparr>im_state := IMAGE_PREHEADER\<rparr>) (drop 4 data)"
proof -
  have ne: "data \<noteq> []" using data by auto
  have init: "im_have im = 0" "length (im_header im) = 36" "im_state im = IMAGE_DETECT"
    by (simp_all add: im recovery_image_init_def RECOVERY_IMAGE_PREHEADER_def)
  have "collect im 4 data = (True, with_header im (take 4 data), drop 4 data)"
    using collect_zero [OF init(1), of 4 data] data by simp
  moreover have "le32_at (im_header (with_header im (take 4 data))) 0 = le32_at data 0"
    using init(2) data by (simp add: with_header_def le32_at_def nth_blit)
  ultimately show ?thesis
    using fp by (simp add: feed_step [OF ne] image_step_def init(3))
qed

lemma feed_preheader_sound:
  assumes im: "im = recovery_image_init lo hi family w c" and data: "4 \<le> length data"
    and fp: "le32_at data 0 = RECOVERY_IMAGE_FINGERPRINT"
    and ok: "recovery_image_feed im data = Some (RECOVERY_IMAGE_OK, im')" "im_state im' = IMAGE_HEADER"
  shows "36 \<le> length data"
    "case family of None \<Rightarrow> True | Some f \<Rightarrow> data ! 4 = 0 \<or> strncmp_equal 16 (take 32 (drop 4 data)) f"
proof -
  define imp where "imp = (with_header im (take 4 data))\<lparr>im_state := IMAGE_PREHEADER\<rparr>"
  let ?y = "drop 4 data"
  have imp: "im_state imp = IMAGE_PREHEADER" "im_have imp = 4" "length (im_header imp) = 36"
    "im_family imp = family" "im_header imp = blit 0 (take 4 data) (replicate 36 0)"
    using data
    by (simp_all add: imp_def with_header_def im recovery_image_init_def RECOVERY_IMAGE_PREHEADER_def)
  have step1: "recovery_image_feed imp ?y = Some (RECOVERY_IMAGE_OK, im')"
    using feed_fingerprint [OF im data fp] ok(1) by (simp add: imp_def)
  have ne: "?y \<noteq> []"
  proof
    assume "?y = []"
    then show False using step1 ok(2) imp(1) by (simp add: feed_Nil)
  qed
  show len: "36 \<le> length data"
  proof (rule ccontr)
    assume short: "\<not> 36 \<le> length data"
    define im2 where "im2 = imp\<lparr>im_header := blit 4 ?y (im_header imp), im_have := 4 + length ?y\<rparr>"
    have "collect imp 36 ?y = (False, im2, [])"
      using short data imp(2) by (simp add: collect_def Let_def im2_def)
    then have "recovery_image_feed imp ?y = recovery_image_feed im2 []"
      by (simp add: feed_step [OF ne] image_step_def imp(1) RECOVERY_IMAGE_PREHEADER_def)
    moreover have "im_state im2 = IMAGE_PREHEADER" by (simp add: im2_def imp)
    ultimately show False using step1 ok(2) by (simp add: feed_Nil)
  qed
  define im2 where "im2 = imp\<lparr>im_header := take 36 data, im_have := 36\<rparr>"
  have "take 36 data = take 4 data @ take 32 ?y" using take_add [of 4 32 data] by simp
  then have "blit 4 (take 32 ?y) (im_header imp) = take 36 data"
    using data len by (simp add: imp(5) blit_def)
  then have c36: "collect imp 36 ?y = (True, im2, drop 36 data)"
    using len imp(2) by (simp add: collect_def Let_def im2_def)
  have fam: "drop 4 (im_header im2) = take 32 ?y" "im_family im2 = family"
    by (simp_all add: im2_def drop_take imp)
  have at: "take 32 ?y ! 0 = data ! 4" using len by simp
  show "case family of None \<Rightarrow> True | Some f \<Rightarrow> data ! 4 = 0 \<or> strncmp_equal 16 (take 32 ?y) f"
  proof (rule ccontr)
    assume bad: "\<not> ?thesis"
    then obtain f where f: "family = Some f" "data ! 4 \<noteq> 0" "\<not> strncmp_equal 16 (take 32 ?y) f"
      by (cases family) auto
    have "image_step imp ?y = Inl (image_fail im2 RECOVERY_IMAGE_ERR_FAMILY)"
      unfolding image_step_def RECOVERY_IMAGE_PREHEADER_def imp(1) image_state.case c36 prod.case
        if_True Let_def fam at f(1) option.case
      using f(2,3) by simp
    then show False using step1 by (simp add: feed_step [OF ne] image_fail_def)
  qed
qed

lemma finish_Inr:
  assumes "recovery_image_finish im = Inr start"
  shows "im_state im = IMAGE_HEADER" "im_have im = 0" "im_records im \<noteq> 0" "im_start im = start"
    "start \<noteq> 0" "im_load_min im \<le> start" "start < im_load_max im"
  using assms by (auto simp: recovery_image_finish_def in_window_def split: if_splits)

lemma finish_ready:
  "ready im \<Longrightarrow> im_records im \<noteq> 0 \<Longrightarrow> im_start im \<noteq> 0 \<Longrightarrow> im_load_min im \<le> im_start im \<Longrightarrow>
    im_start im < im_load_max im \<Longrightarrow> recovery_image_finish im = Inr (im_start im)"
  by (simp add: recovery_image_finish_def ready_def in_window_def)

lemma load_stream_complete:
  assumes pre: "preheader_ok family pre rs" and rs: "rs \<noteq> []" "list_all (record_ok lo hi) rs"
    and run: "run_records w c rs = (True, c')" and len: "length rs < 2 ^ 32"
    and start: "last_start 0 rs \<noteq> 0" "lo \<le> last_start 0 rs" "last_start 0 rs < hi"
  shows "load_stream w c lo hi family (pre @ concat (map record_bytes rs)) = Some (last_start 0 rs, c')"
proof -
  define im where "im = recovery_image_init lo hi family w c"
  let ?body = "concat (map record_bytes rs)"
  have "\<exists>im1. ready im1 \<and> same_setup im im1 \<and> im_ctx im1 = c \<and> im_start im1 = 0 \<and> im_records im1 = 0 \<and>
    recovery_image_feed im (pre @ ?body) = recovery_image_feed im1 ?body"
  proof (cases "pre = []")
    case True
    obtain r rs' where r: "rs = r # rs'" using rs(1) by (cases rs) auto
    have "le32_at ?body 0 \<noteq> RECOVERY_IMAGE_FINGERPRINT"
      using pre True le32_at_record(1) [of r] by (auto simp: preheader_ok_def r)
    moreover have "4 \<le> length ?body" by (simp add: r record_bytes_def)
    ultimately have "recovery_image_feed im ?body = recovery_image_feed (im\<lparr>im_state := IMAGE_HEADER\<rparr>) ?body"
      by (intro feed_plain [OF im_def])
    then show ?thesis
      by (intro exI [of _ "im\<lparr>im_state := IMAGE_HEADER\<rparr>"])
        (simp add: True im_def recovery_image_init_def ready_def same_setup_def
          RECOVERY_IMAGE_PREHEADER_def)
  next
    case False
    then have p: "length pre = 36" "le32_at pre 0 = RECOVERY_IMAGE_FINGERPRINT"
      "case family of None \<Rightarrow> True | Some f \<Rightarrow> pre ! 4 = 0 \<or> strncmp_equal 16 (drop 4 pre) f"
      using pre by (auto simp: preheader_ok_def)
    have fp: "le32_at (pre @ ?body) 0 = RECOVERY_IMAGE_FINGERPRINT"
      using p(1,2) by (simp add: le32_at_def nth_append)
    have fits: "case family of None \<Rightarrow> True
        | Some f \<Rightarrow> (pre @ ?body) ! 4 = 0 \<or> strncmp_equal 16 (take 32 (drop 4 (pre @ ?body))) f"
      using p(1,3) by (cases family) (simp_all add: nth_append)
    have len36: "36 \<le> length (pre @ ?body)" using p(1) by simp
    obtain im1 where "ready im1" "same_setup im im1" "im_ctx im1 = c" "im_start im1 = 0"
      "im_records im1 = 0" "recovery_image_feed im (pre @ ?body) = recovery_image_feed im1 (drop 36 (pre @ ?body))"
      using feed_preheader [OF im_def len36 fp fits] .
    moreover have "drop 36 (pre @ ?body) = ?body" using p(1) by simp
    ultimately show ?thesis by metis
  qed
  then obtain im1 where im1: "ready im1" "same_setup im im1" "im_ctx im1 = c" "im_start im1 = 0"
    "im_records im1 = 0" "recovery_image_feed im (pre @ ?body) = recovery_image_feed im1 ?body" by auto
  have flds: "im_load_min im1 = lo" "im_load_max im1 = hi" "im_write im1 = w"
    using im1(2) by (simp_all add: same_setup_def im_def recovery_image_init_def)
  obtain im2 where im2: "ready im2" "same_setup im1 im2" "im_ctx im2 = c'"
    "im_start im2 = last_start (im_start im1) rs" "im_records im2 = im_records im1 + of_nat (length rs)"
    "recovery_image_feed im1 ?body = Some (RECOVERY_IMAGE_OK, im2)"
    using feed_records [OF im1(1), of rs c'] rs(2) run flds im1(3) by metis
  have "(of_nat (length rs) :: u32) \<noteq> 0"
    using len rs(1) by (auto simp: word_of_nat_eq_0_iff dest: nat_dvd_not_less)
  then have "recovery_image_finish im2 = Inr (last_start 0 rs)"
    using finish_ready [OF im2(1)] im2(2,4,5) im1(4,5) start flds by (simp add: same_setup_def)
  then show ?thesis
    using im1(6) im2(3,6) by (simp add: load_stream_def im_def)
qed

lemma load_stream_sound:
  assumes "load_stream w c lo hi family data = Some (start, c')"
  obtains pre rs where "data = pre @ concat (map record_bytes rs)" "preheader_ok family pre rs" "rs \<noteq> []"
    "list_all (record_ok lo hi) rs" "run_records w c rs = (True, c')" "start = last_start 0 rs"
    "start \<noteq> 0" "lo \<le> start" "start < hi"
proof -
  define im where "im = recovery_image_init lo hi family w c"
  obtain im' where im': "recovery_image_feed im data = Some (RECOVERY_IMAGE_OK, im')"
    "recovery_image_finish im' = Inr start" "im_ctx im' = c'"
    using assms
    by (auto simp: load_stream_def im_def split: option.splits prod.splits sum.splits
        recovery_image_result.splits)
  note fin = finish_Inr [OF im'(2)]
  have init: "im_have im = 0" "im_state im = IMAGE_DETECT"
    by (simp_all add: im_def recovery_image_init_def)
  have len: "4 \<le> length data"
  proof (rule ccontr)
    assume short: "\<not> 4 \<le> length data"
    show False
    proof (cases "data = []")
      case True
      then show False using im'(1) fin(1) init by (simp add: feed_Nil)
    next
      case False
      then have "recovery_image_feed im data = Some (RECOVERY_IMAGE_OK, with_header im data)"
        using short init
        by (simp add: feed_step image_step_def collect_zero feed_Nil with_header_def)
      then show False using im'(1) fin(1) init by (simp add: with_header_def)
    qed
  qed
  show thesis
  proof (cases "le32_at data 0 = RECOVERY_IMAGE_FINGERPRINT")
    case False
    let ?im0 = "im\<lparr>im_state := IMAGE_HEADER\<rparr>"
    have "ready ?im0" by (simp add: im_def recovery_image_init_def ready_def RECOVERY_IMAGE_PREHEADER_def)
    moreover have "recovery_image_feed ?im0 data = Some (RECOVERY_IMAGE_OK, im')"
      using feed_plain [OF im_def len False] im'(1) by simp
    ultimately obtain rs where rs: "data = concat (map record_bytes rs)"
      "list_all (record_ok (im_load_min ?im0) (im_load_max ?im0)) rs"
      "run_records (im_write ?im0) (im_ctx ?im0) rs = (True, im_ctx im')"
      using feed_records_sound fin(1,2) by blast
    obtain r rs' where r: "rs = r # rs'" using rs(1) len by (cases rs) auto
    have "preheader_ok family [] rs"
      using False rs(1) le32_at_record(1) [of r] by (auto simp: preheader_ok_def r)
    moreover have "start = last_start 0 rs \<and> lo \<le> start \<and> start < hi"
    proof -
      obtain im2 where im2: "same_setup ?im0 im2" "im_start im2 = last_start (im_start ?im0) rs"
        "recovery_image_feed ?im0 data = Some (RECOVERY_IMAGE_OK, im2)"
        using feed_records [OF \<open>ready ?im0\<close> rs(2,3)] rs(1) by metis
      then have "im2 = im'" using \<open>recovery_image_feed ?im0 data = Some (RECOVERY_IMAGE_OK, im')\<close> by simp
      with im2(1,2) fin show ?thesis
        by (simp add: same_setup_def im_def recovery_image_init_def)
    qed
    moreover have "list_all (record_ok lo hi) rs" "run_records w c rs = (True, c')"
      using rs im'(3) by (simp_all add: im_def recovery_image_init_def)
    moreover have "data = [] @ concat (map record_bytes rs)" "rs \<noteq> []" using rs(1) r by simp_all
    ultimately show thesis using that fin(5) by blast
  next
    case True
    note p = feed_preheader_sound [OF im_def len True im'(1) fin(1)]
    obtain im1 where im1: "ready im1" "same_setup im im1" "im_ctx im1 = c" "im_records im1 = 0"
      "recovery_image_feed im data = recovery_image_feed im1 (drop 36 data)" and start1: "im_start im1 = 0"
      using feed_preheader [OF im_def p(1) True p(2)] by metis
    have "recovery_image_feed im1 (drop 36 data) = Some (RECOVERY_IMAGE_OK, im')" using im1(5) im'(1) by simp
    then obtain rs where rs: "drop 36 data = concat (map record_bytes rs)"
      "list_all (record_ok (im_load_min im1) (im_load_max im1)) rs"
      "run_records (im_write im1) (im_ctx im1) rs = (True, im_ctx im')"
      using feed_records_sound [OF im1(1)] fin(1,2) by blast
    have "rs \<noteq> []"
    proof
      assume "rs = []"
      then have "recovery_image_feed im1 [] = Some (RECOVERY_IMAGE_OK, im')" using rs(1) im1(5) im'(1) by simp
      then have "im' = im1" using im1(1) by (simp add: feed_Nil ready_def)
      then show False using fin(3) im1(4) by simp
    qed
    moreover have "preheader_ok family (take 36 data) rs"
      using p True by (cases family) (simp_all add: preheader_ok_def le32_at_def drop_take)
    moreover have "data = take 36 data @ concat (map record_bytes rs)"
      using rs(1) by (metis append_take_drop_id)
    moreover have "start = last_start 0 rs \<and> lo \<le> start \<and> start < hi"
    proof -
      obtain im2 where im2: "same_setup im1 im2" "im_start im2 = last_start (im_start im1) rs"
        "recovery_image_feed im1 (drop 36 data) = Some (RECOVERY_IMAGE_OK, im2)"
        using feed_records [OF im1(1) rs(2,3)] rs(1) by metis
      then have "im2 = im'" using im1(5) im'(1) by simp
      with im2(1,2) fin im1(2) start1 show ?thesis
        by (simp add: same_setup_def im_def recovery_image_init_def)
    qed
    moreover have "list_all (record_ok lo hi) rs" "run_records w c rs = (True, c')"
      using rs(2,3) im1(2,3) im'(3) by (simp_all add: same_setup_def im_def recovery_image_init_def)
    ultimately show thesis using that fin(5) by blast
  qed
qed

lemma length_records: "length rs \<le> length (concat (map record_bytes rs))"
  by (induction rs) (auto simp: record_bytes_def)

section \<open>Writes stay in the window\<close>

text \<open>A callback with a record of its calls: the address and the data of each.\<close>

definition logging :: "'c image_writer \<Rightarrow> ('c \<times> (u32 \<times> byte list) list) image_writer" where
  "logging w = (\<lambda>(c, log) a xs. case w c a xs of (ok, c') \<Rightarrow> (ok, (c', log @ [(a, xs)])))"

definition log_inside :: "u32 \<Rightarrow> u32 \<Rightarrow> (u32 \<times> byte list) list \<Rightarrow> bool" where
  "log_inside lo hi log \<longleftrightarrow>
     list_all (\<lambda>(a, xs). lo \<le> a \<and> unat a + length xs \<le> unat hi) log"

lemma step_log:
  assumes ok: "image_ok im" and w: "im_write im = logging w"
    and log: "log_inside (im_load_min im) (im_load_max im) (snd (im_ctx im))"
  shows "image_step im data = Inr (im', d) \<Longrightarrow>
      log_inside (im_load_min im) (im_load_max im) (snd (im_ctx im'))"
    "image_step im data = Inl (r, im') \<Longrightarrow>
      log_inside (im_load_min im) (im_load_max im) (snd (im_ctx im'))"
proof -
  let ?n = "min (length data) (unat (im_remaining im))"
  obtain good c where put: "logging w (im_ctx im) (im_addr im) (take ?n data) = (good, c)"
    by (cases "logging w (im_ctx im) (im_addr im) (take ?n data)")
  have "log_inside (im_load_min im) (im_load_max im) (snd c)" if st: "im_state im = IMAGE_DATA"
  proof -
    have "snd c = snd (im_ctx im) @ [(im_addr im, take ?n data)]"
      using put by (auto simp: logging_def split: prod.splits)
    then show ?thesis using ok st log by (auto simp: log_inside_def image_ok_def)
  qed
  moreover have "header_need (im_state im) \<noteq> 0 \<or> im_state im = IMAGE_DATA \<or>
      im_state im = IMAGE_PAD \<or> im_state im = IMAGE_FAILED" by (cases "im_state im") auto
  ultimately show "image_step im data = Inr (im', d) \<Longrightarrow>
      log_inside (im_load_min im) (im_load_max im) (snd (im_ctx im'))"
    "image_step im data = Inl (r, im') \<Longrightarrow>
      log_inside (im_load_min im) (im_load_max im) (snd (im_ctx im'))"
    using step_collect_ctx [where im = im and data = data and im' = im']
      step_other_ctx [where im = im and data = data and im' = im']
      step_data_ctx [where im = im and data = data and im' = im' and good = good and c = c]
      put log unfolding w by metis+
qed

lemma feed_log:
  "image_ok im \<Longrightarrow> im_write im = logging w \<Longrightarrow>
   log_inside (im_load_min im) (im_load_max im) (snd (im_ctx im)) \<Longrightarrow>
   recovery_image_feed im data = Some (r, im') \<Longrightarrow>
   log_inside (im_load_min im) (im_load_max im) (snd (im_ctx im'))"
proof (induction "length data" arbitrary: im data rule: less_induct)
  case less
  show ?case
  proof (cases "data = []")
    case True
    then show ?thesis using less.prems by (simp add: recovery_image_feed.simps)
  next
    case False
    show ?thesis
    proof (cases "image_step im data")
      case (Inl a)
      then show ?thesis using less.prems(4) step_log(2) [OF less.prems(1-3)] False
        by (auto simp: feed_step)
    next
      case (Inr b)
      obtain im1 d where b: "b = (im1, d)" by (cases b)
      note s = image_step_ok [OF Inr [unfolded b] less.prems(1) False]
      have "recovery_image_feed im1 d = Some (r, im')" using less.prems(4) Inr b False by (simp add: feed_step)
      moreover have "log_inside (im_load_min im1) (im_load_max im1) (snd (im_ctx im1))"
        using step_log(1) [OF less.prems(1-3) Inr [unfolded b]] s by (simp add: same_setup_def)
      ultimately show ?thesis
        using less.hyps [of d im1] s less.prems(2) by (simp add: same_setup_def)
    qed
  qed
qed

lemma feed_pieces_log:
  "image_ok im \<Longrightarrow> im_write im = logging w \<Longrightarrow>
   log_inside (im_load_min im) (im_load_max im) (snd (im_ctx im)) \<Longrightarrow>
   \<exists>r im'. feed_pieces im ps = Some (r, im') \<and>
     log_inside (im_load_min im) (im_load_max im) (snd (im_ctx im'))"
proof (induction ps arbitrary: im)
  case (Cons p ps)
  obtain r im1 where f: "recovery_image_feed im p = Some (r, im1)" "image_ok im1" "same_setup im im1"
    using image_feed_total [OF Cons.prems(1), of p] by auto
  then show ?case
    using feed_log [OF Cons.prems f(1)] Cons.IH [OF f(2)] Cons.prems(2) by (auto simp: same_setup_def)
qed simp

section \<open>Properties\<close>

text \<open>C14: The reader accepts exactly the update images: a stream is loaded, and started at \<open>start\<close>, if and
  only if it consists of an optional fitting \<open>.cfw\<close> header and one or more records, each with its data
  padded to a multiple of four and inside the load window, for which the write callback succeeded
  on the data of each in order; \<open>start\<close> is then the last non-zero start of a record, and lies in
  the window.\<close>

theorem image_stream_exact:
  assumes "length data < 2 ^ 32"
  shows "load_stream w c lo hi family data = Some (start, c') \<longleftrightarrow>
    (\<exists>pre rs. data = pre @ concat (map record_bytes rs) \<and> preheader_ok family pre rs \<and> rs \<noteq> [] \<and>
       list_all (record_ok lo hi) rs \<and> run_records w c rs = (True, c') \<and>
       start = last_start 0 rs \<and> start \<noteq> 0 \<and> lo \<le> start \<and> start < hi)"
proof
  assume "load_stream w c lo hi family data = Some (start, c')"
  from load_stream_sound [OF this] show "\<exists>pre rs. data = pre @ concat (map record_bytes rs) \<and>
       preheader_ok family pre rs \<and> rs \<noteq> [] \<and> list_all (record_ok lo hi) rs \<and>
       run_records w c rs = (True, c') \<and> start = last_start 0 rs \<and> start \<noteq> 0 \<and> lo \<le> start \<and> start < hi"
    by metis
next
  assume "\<exists>pre rs. data = pre @ concat (map record_bytes rs) \<and> preheader_ok family pre rs \<and> rs \<noteq> [] \<and>
       list_all (record_ok lo hi) rs \<and> run_records w c rs = (True, c') \<and>
       start = last_start 0 rs \<and> start \<noteq> 0 \<and> lo \<le> start \<and> start < hi"
  then obtain pre rs where r: "data = pre @ concat (map record_bytes rs)" "preheader_ok family pre rs"
    "rs \<noteq> []" "list_all (record_ok lo hi) rs" "run_records w c rs = (True, c')" "start = last_start 0 rs"
    "last_start 0 rs \<noteq> 0" "lo \<le> last_start 0 rs" "last_start 0 rs < hi" by auto
  have "length rs < 2 ^ 32" using assms length_records [of rs] by (simp add: r(1))
  from load_stream_complete [OF r(2,3,4,5) this r(7-9)]
  show "load_stream w c lo hi family data = Some (start, c')" by (simp add: r(1,6))
qed

lemma image_stream_exact_witness:
  "load_stream (\<lambda>log a xs. (True, log @ [(a, xs)])) [] 0x10000 0x20000 None
     (record_bytes \<lparr>ir_load = 0x10004, ir_data = [1, 2, 3], ir_start = 0x10004, ir_pad = [0]\<rparr>) =
   Some (0x10004, [(0x10004, [1, 2, 3])])"
proof -
  let ?r = "\<lparr>ir_load = 0x10004, ir_data = [1, 2, 3], ir_start = 0x10004, ir_pad = [0]\<rparr>"
  have len: "length (record_bytes ?r) < 2 ^ 32" by (simp add: record_bytes_def)
  show ?thesis
    by (subst image_stream_exact [OF len], rule exI [of _ "[]"], rule exI [of _ "[?r]"])
      (simp add: preheader_ok_def record_ok_def run_record_def RECOVERY_IMAGE_FINGERPRINT_def)
qed

text \<open>C15: Reading never gets stuck and never writes outside the load window: however the stream is cut
  into pieces, and whatever it holds, the reader returns, and every call of the write callback is
  for bytes inside the window.\<close>

theorem image_writes_inside_window:
  "\<exists>r im. feed_pieces (recovery_image_init lo hi family (logging w) (c, [])) pieces = Some (r, im) \<and>
    log_inside lo hi (snd (im_ctx im))"
proof -
  let ?im = "recovery_image_init lo hi family (logging w) (c, [])"
  have "log_inside (im_load_min ?im) (im_load_max ?im) (snd (im_ctx ?im))"
    by (simp add: recovery_image_init_def log_inside_def)
  from feed_pieces_log [OF init_ok _ this, of w pieces] show ?thesis
    by (simp add: recovery_image_init_def)
qed

end
