(* ===== verification/Nvs.thy ===== *)
theory Nvs
  imports Prelude
begin

text \<open>
  The non-volatile storage (NVS) of the control module, a library of the ESP-IDF that the sources
  only call.  It is a parameter of the models: a record of its operations on some storage state.
  The locale \<open>nvs_flash\<close> states what the callers rely on, as the ESP-IDF documents it: one
  namespace holds 8-bit values by key, opening for reading fails when the namespace does not exist,
  and only a commit writes to the flash.  It is interpreted on the in-memory NVS of the sources'
  own host tests, \<^verbatim>\<open>software/test/stubs/esp/nvs_stub.c\<close>.
\<close>

section \<open>The interface\<close>

datatype esp_err =
    ESP_OK | ESP_FAIL | ESP_ERR_INVALID_ARG | ESP_ERR_NVS_NOT_FOUND | ESP_ERR_CODE int

record ('s, 'h) nvs_ops =
  nvs_open :: "string \<Rightarrow> bool \<Rightarrow> 's \<Rightarrow> (esp_err + 'h) \<times> 's"
  nvs_get_u8 :: "'h \<Rightarrow> string \<Rightarrow> 's \<Rightarrow> esp_err + byte"
  nvs_set_u8 :: "'h \<Rightarrow> string \<Rightarrow> byte \<Rightarrow> 's \<Rightarrow> esp_err \<times> 's"
  nvs_commit :: "'h \<Rightarrow> 's \<Rightarrow> esp_err \<times> 's"
  nvs_close :: "'h \<Rightarrow> 's \<Rightarrow> 's"

text \<open>\<open>at_rest\<close>: no handle is open.  \<open>opened s h ns w\<close>: the only open handle is \<open>h\<close>, on namespace
  \<open>ns\<close>, for writing if \<open>w\<close>.  \<open>wear\<close> counts the writes to the flash.\<close>

locale nvs_flash =
  fixes ops :: "('s, 'h) nvs_ops"
    and stored :: "'s \<Rightarrow> string \<Rightarrow> string \<Rightarrow> byte option"
    and wear :: "'s \<Rightarrow> nat"
    and at_rest :: "'s \<Rightarrow> bool"
    and opened :: "'s \<Rightarrow> 'h \<Rightarrow> string \<Rightarrow> bool \<Rightarrow> bool"
  assumes open_read: "at_rest s \<Longrightarrow> length ns \<le> 15 \<Longrightarrow> nvs_open ops ns False s = (Inr h, s') \<Longrightarrow>
      opened s' h ns False \<and> stored s' = stored s \<and> wear s' = wear s"
    and open_read_missing: "at_rest s \<Longrightarrow> length ns \<le> 15 \<Longrightarrow> nvs_open ops ns False s = (Inl e, s') \<Longrightarrow>
      stored s ns = Map.empty \<and> at_rest s' \<and> stored s' = stored s \<and> wear s' = wear s"
    and open_write: "at_rest s \<Longrightarrow> length ns \<le> 15 \<Longrightarrow>
      \<exists>h s'. nvs_open ops ns True s = (Inr h, s') \<and> opened s' h ns True \<and> stored s' = stored s \<and>
        wear s' = wear s"
    and get_u8: "opened s h ns w \<Longrightarrow> nvs_get_u8 ops h k s =
      (case stored s ns k of None \<Rightarrow> Inl ESP_ERR_NVS_NOT_FOUND | Some v \<Rightarrow> Inr v)"
    and set_u8: "opened s h ns True \<Longrightarrow> length k \<le> 15 \<Longrightarrow> nvs_set_u8 ops h k v s = (e, s') \<Longrightarrow>
      opened s' h ns True \<and> wear s' = wear s \<and>
      stored s' = (if e = ESP_OK then (stored s)(ns := (stored s ns)(k \<mapsto> v)) else stored s)"
    and commit: "opened s h ns True \<Longrightarrow> nvs_commit ops h s = (e, s') \<Longrightarrow>
      opened s' h ns True \<and> stored s' = stored s \<and> wear s' = Suc (wear s)"
    and close: "opened s h ns w \<Longrightarrow> at_rest (nvs_close ops h s) \<and>
      stored (nvs_close ops h s) = stored s \<and> wear (nvs_close ops h s) = wear s"

section \<open>The NVS of the host tests\<close>

type_synonym nvs_entry = "string \<times> string \<times> byte"

record stub =
  st_entries :: "nvs_entry option list"
  st_handle_ns :: "string list"
  st_handle_writable :: "bool list"
  st_handle_used :: "bool list"
  st_commits :: nat

definition stub_empty :: stub where
  "stub_empty =
     \<lparr>st_entries = replicate 16 None, st_handle_ns = replicate 8 [],
      st_handle_writable = replicate 8 False, st_handle_used = replicate 8 False, st_commits = 0\<rparr>"

definition stub_open :: "string \<Rightarrow> bool \<Rightarrow> stub \<Rightarrow> (esp_err + nat) \<times> stub" where
  "stub_open ns readwrite s =
     (case find (\<lambda>i. \<not> st_handle_used s ! i) [1..<8] of
        None \<Rightarrow> (Inl ESP_FAIL, s)
      | Some handle \<Rightarrow>
          if \<not> readwrite \<and> \<not> list_ex (\<lambda>e. case e of None \<Rightarrow> False | Some (n, k, v) \<Rightarrow> n = ns) (st_entries s)
          then (Inl ESP_ERR_NVS_NOT_FOUND, s)
          else (Inr handle,
                s\<lparr>st_handle_ns := (st_handle_ns s)[handle := take 15 ns],
                  st_handle_writable := (st_handle_writable s)[handle := readwrite],
                  st_handle_used := (st_handle_used s)[handle := True]\<rparr>))"

primrec entry_get :: "string \<Rightarrow> string \<Rightarrow> nvs_entry option list \<Rightarrow> byte option" where
  "entry_get ns key [] = None"
| "entry_get ns key (e # es) =
     (case e of
        None \<Rightarrow> entry_get ns key es
      | Some (n, k, v) \<Rightarrow> if n = ns \<and> k = key then Some v else entry_get ns key es)"

definition stub_get_u8 :: "nat \<Rightarrow> string \<Rightarrow> stub \<Rightarrow> esp_err + byte" where
  "stub_get_u8 handle key s =
     (case entry_get (st_handle_ns s ! handle) key (st_entries s) of
        None \<Rightarrow> Inl ESP_ERR_NVS_NOT_FOUND
      | Some v \<Rightarrow> Inr v)"

text \<open>The two loops of \<open>nvs_set_u8\<close>: the first entry of that key, or else the first free one.\<close>

primrec entry_update :: "string \<Rightarrow> string \<Rightarrow> byte \<Rightarrow> nvs_entry option list \<Rightarrow> nvs_entry option list option" where
  "entry_update ns key v [] = None"
| "entry_update ns key v (e # es) =
     (if (case e of None \<Rightarrow> False | Some (n, k, w) \<Rightarrow> n = ns \<and> k = key)
      then Some (Some (ns, key, v) # es)
      else map_option (\<lambda>r. e # r) (entry_update ns key v es))"

primrec entry_add :: "string \<Rightarrow> string \<Rightarrow> byte \<Rightarrow> nvs_entry option list \<Rightarrow> nvs_entry option list option" where
  "entry_add ns key v [] = None"
| "entry_add ns key v (e # es) =
     (if e = None then Some (Some (take 15 ns, take 15 key, v) # es)
      else map_option (\<lambda>r. e # r) (entry_add ns key v es))"

definition stub_set_u8 :: "nat \<Rightarrow> string \<Rightarrow> byte \<Rightarrow> stub \<Rightarrow> esp_err \<times> stub" where
  "stub_set_u8 handle key v s =
     (if \<not> st_handle_writable s ! handle then (ESP_FAIL, s)
      else
        let ns = st_handle_ns s ! handle
        in case entry_update ns key v (st_entries s) of
             Some es \<Rightarrow> (ESP_OK, s\<lparr>st_entries := es\<rparr>)
           | None \<Rightarrow>
               (case entry_add ns key v (st_entries s) of
                  Some es \<Rightarrow> (ESP_OK, s\<lparr>st_entries := es\<rparr>)
                | None \<Rightarrow> (ESP_FAIL, s)))"

definition stub_commit :: "nat \<Rightarrow> stub \<Rightarrow> esp_err \<times> stub" where
  "stub_commit handle s = (ESP_OK, s\<lparr>st_commits := st_commits s + 1\<rparr>)"

definition stub_close :: "nat \<Rightarrow> stub \<Rightarrow> stub" where
  "stub_close handle s =
     (if handle < 8 then s\<lparr>st_handle_used := (st_handle_used s)[handle := False]\<rparr> else s)"

definition stub_ops :: "(stub, nat) nvs_ops" where
  "stub_ops = \<lparr>nvs_open = stub_open, nvs_get_u8 = stub_get_u8, nvs_set_u8 = stub_set_u8,
     nvs_commit = stub_commit, nvs_close = stub_close\<rparr>"

definition stub_stored :: "stub \<Rightarrow> string \<Rightarrow> string \<Rightarrow> byte option" where
  "stub_stored s ns key = entry_get ns key (st_entries s)"

definition stub_shape :: "stub \<Rightarrow> bool" where
  "stub_shape s \<longleftrightarrow> length (st_handle_ns s) = 8 \<and> length (st_handle_writable s) = 8"

definition stub_at_rest :: "stub \<Rightarrow> bool" where
  "stub_at_rest s \<longleftrightarrow> stub_shape s \<and> st_handle_used s = replicate 8 False"

definition stub_opened :: "stub \<Rightarrow> nat \<Rightarrow> string \<Rightarrow> bool \<Rightarrow> bool" where
  "stub_opened s h ns w \<longleftrightarrow> stub_shape s \<and> h < 8 \<and> length ns \<le> 15 \<and>
     st_handle_used s = (replicate 8 False)[h := True] \<and>
     st_handle_ns s ! h = ns \<and> st_handle_writable s ! h = w"

lemma entry_update_get:
  "entry_update ns key v es = Some es' \<Longrightarrow>
    entry_get n k es' = (if n = ns \<and> k = key then Some v else entry_get n k es)"
  by (induction es arbitrary: es') (auto split: if_splits option.splits)

lemma entry_update_None: "entry_update ns key v es = None \<Longrightarrow> entry_get ns key es = None"
  by (induction es) (auto split: if_splits option.splits)

lemma entry_add_get:
  "entry_add ns key v es = Some es' \<Longrightarrow> entry_get ns key es = None \<Longrightarrow>
   length ns \<le> 15 \<Longrightarrow> length key \<le> 15 \<Longrightarrow>
    entry_get n k es' = (if n = ns \<and> k = key then Some v else entry_get n k es)"
  by (induction es arbitrary: es') (auto split: if_splits option.splits)

lemma stub_open_at_rest:
  assumes "stub_at_rest s"
  shows "stub_open ns w s =
    (if \<not> w \<and> \<not> list_ex (\<lambda>e. case e of None \<Rightarrow> False | Some (n, k, v) \<Rightarrow> n = ns) (st_entries s)
     then (Inl ESP_ERR_NVS_NOT_FOUND, s)
     else (Inr 1, s\<lparr>st_handle_ns := (st_handle_ns s)[1 := take 15 ns],
                  st_handle_writable := (st_handle_writable s)[1 := w],
                  st_handle_used := (st_handle_used s)[1 := True]\<rparr>))"
proof -
  have "find (\<lambda>i. \<not> st_handle_used s ! i) [1..<8] = Some 1"
    using assms by (simp add: stub_at_rest_def upt_rec)
  then show ?thesis by (simp add: stub_open_def)
qed

lemma stub_no_namespace:
  "\<not> list_ex (\<lambda>e. case e of None \<Rightarrow> False | Some (n, k, v) \<Rightarrow> n = ns) es \<Longrightarrow> entry_get ns key es = None"
  by (induction es) (auto split: option.splits)

interpretation stub: nvs_flash stub_ops stub_stored st_commits stub_at_rest stub_opened
proof unfold_locales
  fix s s' :: stub and ns :: string and h
  assume "stub_at_rest s" "length ns \<le> 15" "nvs_open stub_ops ns False s = (Inr h, s')"
  then show "stub_opened s' h ns False \<and> stub_stored s' = stub_stored s \<and> st_commits s' = st_commits s"
    by (auto simp: stub_ops_def stub_open_at_rest stub_opened_def stub_at_rest_def stub_shape_def
        stub_stored_def fun_eq_iff split: if_splits)
next
  fix s s' :: stub and ns :: string and e
  assume "stub_at_rest s" "length ns \<le> 15" "nvs_open stub_ops ns False s = (Inl e, s')"
  then show "stub_stored s ns = Map.empty \<and> stub_at_rest s' \<and> stub_stored s' = stub_stored s \<and>
      st_commits s' = st_commits s"
    by (auto simp: stub_ops_def stub_open_at_rest stub_stored_def fun_eq_iff stub_no_namespace
        split: if_splits)
next
  fix s :: stub and ns :: string
  assume "stub_at_rest s" "length ns \<le> 15"
  then show "\<exists>h s'. nvs_open stub_ops ns True s = (Inr h, s') \<and> stub_opened s' h ns True \<and>
      stub_stored s' = stub_stored s \<and> st_commits s' = st_commits s"
    by (auto simp: stub_ops_def stub_open_at_rest stub_opened_def stub_at_rest_def stub_shape_def
        stub_stored_def fun_eq_iff)
next
  fix s :: stub and h and ns k :: string and w
  assume "stub_opened s h ns w"
  then show "nvs_get_u8 stub_ops h k s =
      (case stub_stored s ns k of None \<Rightarrow> Inl ESP_ERR_NVS_NOT_FOUND | Some v \<Rightarrow> Inr v)"
    by (simp add: stub_ops_def stub_get_u8_def stub_opened_def stub_stored_def)
next
  fix s s' :: stub and h and ns k :: string and v e
  assume a: "stub_opened s h ns True" "length k \<le> 15" "nvs_set_u8 stub_ops h k v s = (e, s')"
  then have h: "st_handle_writable s ! h" "st_handle_ns s ! h = ns" "length ns \<le> 15"
    by (simp_all add: stub_opened_def)
  show "stub_opened s' h ns True \<and> st_commits s' = st_commits s \<and> stub_stored s' =
      (if e = ESP_OK then (stub_stored s)(ns := (stub_stored s ns)(k \<mapsto> v)) else stub_stored s)"
  proof (cases "entry_update ns k v (st_entries s)")
    case (Some es)
    then show ?thesis
      using a h entry_update_get [OF Some]
      by (auto simp: stub_ops_def stub_set_u8_def stub_opened_def stub_shape_def stub_stored_def fun_eq_iff)
  next
    case None
    show ?thesis
    proof (cases "entry_add ns k v (st_entries s)")
      case (Some es)
      then show ?thesis
        using a h None entry_add_get [OF Some entry_update_None [OF None] h(3) a(2)]
        by (auto simp: stub_ops_def stub_set_u8_def stub_opened_def stub_shape_def stub_stored_def fun_eq_iff)
    next
      case none2: None
      then show ?thesis using a h None by (auto simp: stub_ops_def stub_set_u8_def)
    qed
  qed
next
  fix s s' :: stub and h and ns :: string and e
  assume "stub_opened s h ns True" "nvs_commit stub_ops h s = (e, s')"
  then show "stub_opened s' h ns True \<and> stub_stored s' = stub_stored s \<and> st_commits s' = Suc (st_commits s)"
    by (auto simp: stub_ops_def stub_commit_def stub_opened_def stub_shape_def stub_stored_def fun_eq_iff)
next
  fix s :: stub and h and ns :: string and w
  assume "stub_opened s h ns w"
  moreover from this have "(replicate 8 False)[h := False] = replicate 8 False"
    unfolding stub_opened_def by (metis list_update_id nth_replicate)
  ultimately show "stub_at_rest (nvs_close stub_ops h s) \<and> stub_stored (nvs_close stub_ops h s) = stub_stored s \<and>
      st_commits (nvs_close stub_ops h s) = st_commits s"
    by (simp add: stub_ops_def stub_close_def stub_opened_def stub_at_rest_def stub_shape_def
        stub_stored_def fun_eq_iff)
qed

end
