(* ===== verification/Power_State.thy ===== *)
theory Power_State
  imports Nvs
begin

text \<open>
  What the machine does when its input power returns, \<^verbatim>\<open>software/u64ctrl/main/power_state.c\<close>, and
  the recognition of a wake-on-LAN packet, \<^verbatim>\<open>wol_magic.c\<close>.  The settings live in the NVS, whose
  operations are the first argument and whose state is threaded through.  Logging has no effect on
  the state and is left out.
\<close>

section \<open>The code\<close>

definition NVS_NAMESPACE :: string where "NVS_NAMESPACE = ''power''"
definition NVS_KEY_MODE :: string where "NVS_KEY_MODE = ''mode''"
definition NVS_KEY_LAST :: string where "NVS_KEY_LAST = ''last''"
definition NVS_KEY_WAKE :: string where "NVS_KEY_WAKE = ''wowifi''"

definition POWERON_MODE_OFF :: byte where "POWERON_MODE_OFF = 0"
definition POWERON_MODE_ON :: byte where "POWERON_MODE_ON = 1"
definition POWERON_MODE_LAST_STATE :: byte where "POWERON_MODE_LAST_STATE = 2"
definition POWERON_MODE_MAX :: byte where "POWERON_MODE_MAX = POWERON_MODE_LAST_STATE"
definition WAKE_ON_WIFI_DISABLED :: byte where "WAKE_ON_WIFI_DISABLED = 0"
definition WAKE_ON_WIFI_ENABLED :: byte where "WAKE_ON_WIFI_ENABLED = 1"
definition WAKE_ON_WIFI_MAX :: byte where "WAKE_ON_WIFI_MAX = WAKE_ON_WIFI_ENABLED"

definition read_u8 :: "('s, 'h) nvs_ops \<Rightarrow> string \<Rightarrow> byte \<Rightarrow> 's \<Rightarrow> byte \<times> 's" where
  "read_u8 ops key dflt s =
     (case nvs_open ops NVS_NAMESPACE False s of
        (Inl err, s1) \<Rightarrow> (dflt, s1)
      | (Inr handle, s1) \<Rightarrow>
          let r = nvs_get_u8 ops handle key s1; s2 = nvs_close ops handle s1
          in case r of Inl err \<Rightarrow> (dflt, s2) | Inr value \<Rightarrow> (value, s2))"

definition write_u8 :: "('s, 'h) nvs_ops \<Rightarrow> string \<Rightarrow> byte \<Rightarrow> 's \<Rightarrow> esp_err \<times> 's" where
  "write_u8 ops key v s =
     (case nvs_open ops NVS_NAMESPACE True s of
        (Inl err, s1) \<Rightarrow> (err, s1)
      | (Inr handle, s1) \<Rightarrow>
          if nvs_get_u8 ops handle key s1 = Inr v then (ESP_OK, nvs_close ops handle s1)
          else
            (case nvs_set_u8 ops handle key v s1 of
               (err, s2) \<Rightarrow>
                 case (if err = ESP_OK then nvs_commit ops handle s2 else (err, s2)) of
                   (err', s3) \<Rightarrow> (err', nvs_close ops handle s3)))"

definition power_mode_name :: "byte \<Rightarrow> string" where
  "power_mode_name mode =
     (if mode = POWERON_MODE_OFF then ''OFF'' else if mode = POWERON_MODE_ON then ''ON''
      else if mode = POWERON_MODE_LAST_STATE then ''LAST_STATE'' else ''?'')"

definition power_get_mode :: "('s, 'h) nvs_ops \<Rightarrow> 's \<Rightarrow> byte \<times> 's" where
  "power_get_mode ops s =
     (case read_u8 ops NVS_KEY_MODE POWERON_MODE_OFF s of
        (mode, s1) \<Rightarrow> (if mode > POWERON_MODE_MAX then POWERON_MODE_OFF else mode, s1))"

definition power_set_mode :: "('s, 'h) nvs_ops \<Rightarrow> byte \<Rightarrow> 's \<Rightarrow> esp_err \<times> 's" where
  "power_set_mode ops mode s =
     (if mode > POWERON_MODE_MAX then (ESP_ERR_INVALID_ARG, s)
      else write_u8 ops NVS_KEY_MODE mode s)"

definition power_get_wake_on_wifi :: "('s, 'h) nvs_ops \<Rightarrow> 's \<Rightarrow> byte \<times> 's" where
  "power_get_wake_on_wifi ops s =
     (case read_u8 ops NVS_KEY_WAKE WAKE_ON_WIFI_DISABLED s of
        (enabled, s1) \<Rightarrow> (if enabled > WAKE_ON_WIFI_MAX then WAKE_ON_WIFI_DISABLED else enabled, s1))"

definition power_set_wake_on_wifi :: "('s, 'h) nvs_ops \<Rightarrow> byte \<Rightarrow> 's \<Rightarrow> esp_err \<times> 's" where
  "power_set_wake_on_wifi ops enabled s =
     (if enabled > WAKE_ON_WIFI_MAX then (ESP_ERR_INVALID_ARG, s)
      else write_u8 ops NVS_KEY_WAKE enabled s)"

definition power_should_watch_for_wake ::
  "('s, 'h) nvs_ops \<Rightarrow> int \<Rightarrow> bool \<Rightarrow> 's \<Rightarrow> bool \<times> 's" where
  "power_should_watch_for_wake ops machine_on have_input_path s =
     (if machine_on = 0 \<and> have_input_path
      then (case power_get_wake_on_wifi ops s of (w, s1) \<Rightarrow> (w = WAKE_ON_WIFI_ENABLED, s1))
      else (False, s))"

definition power_get_last_state :: "('s, 'h) nvs_ops \<Rightarrow> 's \<Rightarrow> byte \<times> 's" where
  "power_get_last_state ops s =
     (case read_u8 ops NVS_KEY_LAST 0 s of (v, s1) \<Rightarrow> (if v \<noteq> 0 then 1 else 0, s1))"

definition power_store_last_state :: "('s, 'h) nvs_ops \<Rightarrow> byte \<Rightarrow> 's \<Rightarrow> 's" where
  "power_store_last_state ops machine_on s =
     snd (write_u8 ops NVS_KEY_LAST (if machine_on \<noteq> 0 then 1 else 0) s)"

definition power_initial_state :: "('s, 'h) nvs_ops \<Rightarrow> int \<Rightarrow> 's \<Rightarrow> int \<times> 's" where
  "power_initial_state ops fpga_running s =
     (if fpga_running \<noteq> 0 then (1, power_store_last_state ops 1 s)
      else
        (case power_get_mode ops s of
           (mode, s1) \<Rightarrow>
             (case (if mode = POWERON_MODE_ON then (1, s1)
                    else if mode = POWERON_MODE_LAST_STATE
                    then (case power_get_last_state ops s1 of (l, s2) \<Rightarrow> (uint l, s2))
                    else (0, s1)) of
                (machine_on, s2) \<Rightarrow>
                  (machine_on, power_store_last_state ops (word_of_int machine_on) s2))))"

section \<open>Reading and writing a setting\<close>

lemmas power_keys = NVS_NAMESPACE_def NVS_KEY_MODE_def NVS_KEY_LAST_def NVS_KEY_WAKE_def

context nvs_flash
begin

definition setting :: "'s \<Rightarrow> string \<Rightarrow> byte option" where
  "setting s key = stored s NVS_NAMESPACE key"

lemma read_u8_spec:
  assumes "at_rest s" "read_u8 ops key d s = (v, s')"
  shows "v = (case setting s key of None \<Rightarrow> d | Some x \<Rightarrow> x) \<and> at_rest s' \<and> stored s' = stored s \<and>
    wear s' = wear s"
proof -
  have ns: "length NVS_NAMESPACE \<le> 15" by (simp add: NVS_NAMESPACE_def)
  obtain r s1 where o: "nvs_open ops NVS_NAMESPACE False s = (r, s1)" by fastforce
  show ?thesis
  proof (cases r)
    case (Inl e)
    with open_read_missing [OF assms(1) ns] o assms(2) show ?thesis
      by (auto simp: read_u8_def setting_def)
  next
    case (Inr h)
    with open_read [OF assms(1) ns] o have h: "opened s1 h NVS_NAMESPACE False" "stored s1 = stored s"
      "wear s1 = wear s" by auto
    from get_u8 [OF h(1), of key] close [OF h(1)] h o Inr assms(2) show ?thesis
      by (auto simp: read_u8_def setting_def Let_def split: option.splits)
  qed
qed

lemma write_u8_spec:
  assumes rest: "at_rest s" and key: "length key \<le> 15" and w: "write_u8 ops key v s = (e, s')"
  shows "at_rest s'"
    and "setting s key = Some v \<Longrightarrow> e = ESP_OK \<and> stored s' = stored s \<and> wear s' = wear s"
    and "e = ESP_OK \<Longrightarrow> stored s' = (stored s)(NVS_NAMESPACE := (stored s NVS_NAMESPACE)(key \<mapsto> v))"
    and "stored s' = stored s \<or>
      stored s' = (stored s)(NVS_NAMESPACE := (stored s NVS_NAMESPACE)(key \<mapsto> v))"
proof -
  have ns: "length NVS_NAMESPACE \<le> 15" by (simp add: NVS_NAMESPACE_def)
  obtain h s1 where o: "nvs_open ops NVS_NAMESPACE True s = (Inr h, s1)"
    and h: "opened s1 h NVS_NAMESPACE True" "stored s1 = stored s" "wear s1 = wear s"
    using open_write [OF rest ns] by auto
  have get: "nvs_get_u8 ops h key s1 = Inr v \<longleftrightarrow> setting s key = Some v"
    using get_u8 [OF h(1), of key] h(2) by (auto simp: setting_def split: option.splits)
  have "at_rest s' \<and> (setting s key = Some v \<longrightarrow> e = ESP_OK \<and> stored s' = stored s \<and> wear s' = wear s) \<and>
    (e = ESP_OK \<longrightarrow> stored s' = (stored s)(NVS_NAMESPACE := (stored s NVS_NAMESPACE)(key \<mapsto> v))) \<and>
    (stored s' = stored s \<or> stored s' = (stored s)(NVS_NAMESPACE := (stored s NVS_NAMESPACE)(key \<mapsto> v)))"
  proof (cases "setting s key = Some v")
    case True
    then have "(stored s)(NVS_NAMESPACE := (stored s NVS_NAMESPACE)(key \<mapsto> v)) = stored s"
      by (auto simp: setting_def fun_eq_iff)
    with True w o get close [OF h(1)] h show ?thesis by (simp add: write_u8_def)
  next
    case False
    obtain e2 s2 where set: "nvs_set_u8 ops h key v s1 = (e2, s2)" by fastforce
    note s2 = set_u8 [OF h(1) key set]
    show ?thesis
    proof (cases "e2 = ESP_OK")
      case True
      obtain e3 s3 where c: "nvs_commit ops h s2 = (e3, s3)" by fastforce
      have "opened s2 h NVS_NAMESPACE True" using s2 by simp
      note s3 = commit [OF this c]
      from w False True o get set c s2 s3 close [of s3 h NVS_NAMESPACE True] h show ?thesis
        by (simp add: write_u8_def)
    next
      case fail: False
      from w False fail o get set s2 close [of s2 h NVS_NAMESPACE True] h show ?thesis
        by (simp add: write_u8_def)
    qed
  qed
  then show "at_rest s'"
    and "setting s key = Some v \<Longrightarrow> e = ESP_OK \<and> stored s' = stored s \<and> wear s' = wear s"
    and "e = ESP_OK \<Longrightarrow> stored s' = (stored s)(NVS_NAMESPACE := (stored s NVS_NAMESPACE)(key \<mapsto> v))"
    and "stored s' = stored s \<or>
      stored s' = (stored s)(NVS_NAMESPACE := (stored s NVS_NAMESPACE)(key \<mapsto> v))" by auto
qed

lemma get_mode_spec:
  assumes "at_rest s"
  shows "fst (power_get_mode ops s) = (case setting s NVS_KEY_MODE of
      Some m \<Rightarrow> if m \<le> POWERON_MODE_MAX then m else POWERON_MODE_OFF | None \<Rightarrow> POWERON_MODE_OFF)"
    "at_rest (snd (power_get_mode ops s))" "stored (snd (power_get_mode ops s)) = stored s"
  using read_u8_spec [OF assms, of NVS_KEY_MODE POWERON_MODE_OFF]
  by (cases "read_u8 ops NVS_KEY_MODE POWERON_MODE_OFF s";
      auto simp: power_get_mode_def POWERON_MODE_MAX_def POWERON_MODE_LAST_STATE_def POWERON_MODE_OFF_def
        not_le split: option.splits)+

lemma get_last_spec:
  assumes "at_rest s"
  shows "fst (power_get_last_state ops s) = (case setting s NVS_KEY_LAST of
      Some v \<Rightarrow> if v \<noteq> 0 then 1 else 0 | None \<Rightarrow> 0)"
    "at_rest (snd (power_get_last_state ops s))" "stored (snd (power_get_last_state ops s)) = stored s"
  using read_u8_spec [OF assms, of NVS_KEY_LAST 0]
  by (cases "read_u8 ops NVS_KEY_LAST 0 s"; auto simp: power_get_last_state_def split: option.splits)+

lemma set_mode_then_get:
  assumes "at_rest s" "power_set_mode ops m s = (ESP_OK, s')"
  shows "m \<le> POWERON_MODE_MAX \<and> fst (power_get_mode ops s') = m \<and> at_rest s' \<and>
    fst (power_get_last_state ops s') = fst (power_get_last_state ops s)"
proof -
  have m: "m \<le> POWERON_MODE_MAX" and w: "write_u8 ops NVS_KEY_MODE m s = (ESP_OK, s')"
    using assms(2) by (auto simp: power_set_mode_def not_less split: if_splits)
  have "length NVS_KEY_MODE \<le> 15" by (simp add: NVS_KEY_MODE_def)
  note s' = write_u8_spec [OF assms(1) this w]
  have "setting s' NVS_KEY_MODE = Some m" "setting s' NVS_KEY_LAST = setting s NVS_KEY_LAST"
    using s'(3) by (simp_all add: setting_def NVS_KEY_LAST_def NVS_KEY_MODE_def)
  with m get_mode_spec(1) [OF s'(1)] get_last_spec(1) [OF s'(1)] get_last_spec(1) [OF assms(1)] s'(1)
  show ?thesis by simp
qed

lemma store_last_effect:
  assumes "at_rest s"
  shows "stored (power_store_last_state ops b s) = stored s \<or>
    fst (power_get_last_state ops (power_store_last_state ops b s)) = (if b \<noteq> 0 then 1 else 0)"
proof -
  obtain e s' where w: "write_u8 ops NVS_KEY_LAST (if b \<noteq> 0 then 1 else 0) s = (e, s')" by fastforce
  have key: "length NVS_KEY_LAST \<le> 15" by (simp add: NVS_KEY_LAST_def)
  note s' = write_u8_spec [OF assms key w]
  have "stored s' = stored s \<or> setting s' NVS_KEY_LAST = Some (if b \<noteq> 0 then 1 else 0)"
    using s'(4) by (auto simp: setting_def)
  then show ?thesis
    using get_last_spec(1) [OF s'(1)] w by (auto simp: power_store_last_state_def)
qed

text \<open>The state a cold start comes up in, as the documentation of the settings has it.\<close>

definition start_state :: "'s \<Rightarrow> int" where
  "start_state s =
     (case setting s NVS_KEY_MODE of
        None \<Rightarrow> 0
      | Some m \<Rightarrow>
          if m = POWERON_MODE_ON then 1
          else if m = POWERON_MODE_LAST_STATE
          then (case setting s NVS_KEY_LAST of None \<Rightarrow> 0 | Some v \<Rightarrow> if v \<noteq> 0 then 1 else 0)
          else 0)"

lemma store_last_spec:
  assumes "at_rest s"
  shows "at_rest (power_store_last_state ops b s)"
    "setting s NVS_KEY_LAST = Some (if b \<noteq> 0 then 1 else 0) \<Longrightarrow>
       wear (power_store_last_state ops b s) = wear s"
    "setting (power_store_last_state ops b s) NVS_KEY_MODE = setting s NVS_KEY_MODE"
proof -
  obtain e s' where w: "write_u8 ops NVS_KEY_LAST (if b \<noteq> 0 then 1 else 0) s = (e, s')" by fastforce
  have key: "length NVS_KEY_LAST \<le> 15" by (simp add: NVS_KEY_LAST_def)
  note s' = write_u8_spec [OF assms key w]
  show "at_rest (power_store_last_state ops b s)"
    "setting s NVS_KEY_LAST = Some (if b \<noteq> 0 then 1 else 0) \<Longrightarrow>
       wear (power_store_last_state ops b s) = wear s"
    "setting (power_store_last_state ops b s) NVS_KEY_MODE = setting s NVS_KEY_MODE"
    using s' w by (auto simp: power_store_last_state_def setting_def NVS_KEY_LAST_def NVS_KEY_MODE_def)
qed

lemma initial_state_spec:
  assumes "at_rest s"
  shows "fst (power_initial_state ops fpga s) = (if fpga \<noteq> 0 then 1 else start_state s)"
    "at_rest (snd (power_initial_state ops fpga s))"
    "setting (snd (power_initial_state ops fpga s)) NVS_KEY_MODE = setting s NVS_KEY_MODE"
    "stored (snd (power_initial_state ops fpga s)) = stored s \<or>
     fst (power_get_last_state ops (snd (power_initial_state ops fpga s))) =
       word_of_int (fst (power_initial_state ops fpga s))"
proof -
  obtain mode s1 where m: "power_get_mode ops s = (mode, s1)" by fastforce
  have s1: "at_rest s1" "stored s1 = stored s" "mode = (case setting s NVS_KEY_MODE of
      Some m \<Rightarrow> if m \<le> POWERON_MODE_MAX then m else POWERON_MODE_OFF | None \<Rightarrow> POWERON_MODE_OFF)"
    using get_mode_spec [OF assms] m by auto
  obtain l s2 where l: "power_get_last_state ops s1 = (l, s2)" by fastforce
  have s2: "at_rest s2" "stored s2 = stored s" "l = (case setting s NVS_KEY_LAST of
      Some v \<Rightarrow> if v \<noteq> 0 then 1 else 0 | None \<Rightarrow> 0)"
    using get_last_spec [OF s1(1)] l s1(2) by (auto simp: setting_def)
  define on where "on = (if mode = POWERON_MODE_ON then 1
    else if mode = POWERON_MODE_LAST_STATE then uint l else 0)"
  define s3 where "s3 = (if mode = POWERON_MODE_LAST_STATE then s2 else s1)"
  have s3: "at_rest s3" "setting s3 NVS_KEY_MODE = setting s NVS_KEY_MODE" "stored s3 = stored s"
    using s1 s2 by (auto simp: s3_def setting_def)
  have init: "power_initial_state ops fpga s =
      (if fpga \<noteq> 0 then (1, power_store_last_state ops 1 s)
       else (on, power_store_last_state ops (word_of_int on) s3))"
    by (auto simp: power_initial_state_def m l on_def s3_def POWERON_MODE_ON_def
        POWERON_MODE_LAST_STATE_def)
  have "on = start_state s"
    using s1(3) s2(3)
    by (auto simp: on_def start_state_def POWERON_MODE_ON_def POWERON_MODE_LAST_STATE_def
        POWERON_MODE_MAX_def POWERON_MODE_OFF_def split: option.splits)
  note on = this
  then show "fst (power_initial_state ops fpga s) = (if fpga \<noteq> 0 then 1 else start_state s)"
    by (simp add: init)
  have "on = 0 \<or> on = 1" by (simp add: on start_state_def split: option.split)
  then show "stored (snd (power_initial_state ops fpga s)) = stored s \<or>
     fst (power_get_last_state ops (snd (power_initial_state ops fpga s))) =
       word_of_int (fst (power_initial_state ops fpga s))"
    using store_last_effect [OF assms, of 1] store_last_effect [OF s3(1), of "word_of_int on"] s3(3)
    by (auto simp: init)
  show "at_rest (snd (power_initial_state ops fpga s))"
    "setting (snd (power_initial_state ops fpga s)) NVS_KEY_MODE = setting s NVS_KEY_MODE"
    using store_last_spec [OF assms] store_last_spec [OF s3(1)] s3(2) by (auto simp: init)
qed

end

section \<open>Wake-on-LAN packets\<close>

definition WOL_MAC_LEN :: nat where "WOL_MAC_LEN = 6"
definition WOL_SYNC_LEN :: nat where "WOL_SYNC_LEN = 6"
definition WOL_REPEATS :: nat where "WOL_REPEATS = 16"
definition WOL_PATTERN_LEN :: nat where "WOL_PATTERN_LEN = WOL_SYNC_LEN + WOL_REPEATS * WOL_MAC_LEN"
definition WOL_SCAN_BYTES :: nat where "WOL_SCAN_BYTES = 256"

definition sync_stream :: "byte list" where
  "sync_stream = [0xFF, 0xFF, 0xFF, 0xFF, 0xFF, 0xFF]"

definition usable_mac :: "byte list \<Rightarrow> bool" where
  "usable_mac mac \<longleftrightarrow> take WOL_MAC_LEN mac \<noteq> sync_stream \<and> take WOL_MAC_LEN mac \<noteq> [0, 0, 0, 0, 0, 0]"

text \<open>The loop that counts the repetitions of the address after the sync stream; \<open>fuel\<close> is the number
  of rounds the limit leaves.\<close>

primrec wol_repeats :: "byte list \<Rightarrow> byte list \<Rightarrow> nat \<Rightarrow> nat \<Rightarrow> nat \<Rightarrow> nat" where
  "wol_repeats frame mac at repeats 0 = repeats"
| "wol_repeats frame mac at repeats (Suc fuel) =
     (let mac_at = at + WOL_SYNC_LEN + repeats * WOL_MAC_LEN
      in if take WOL_MAC_LEN (drop mac_at frame) \<noteq> take WOL_MAC_LEN mac then repeats
         else wol_repeats frame mac at (repeats + 1) fuel)"

definition wol_is_magic_packet :: "byte list option \<Rightarrow> byte list option \<Rightarrow> bool" where
  "wol_is_magic_packet frame_p mac_p =
     (case (frame_p, mac_p) of
        (Some frame, Some mac) \<Rightarrow>
          if length frame < WOL_PATTERN_LEN \<or> \<not> usable_mac mac then False
          else
            let len = (if length frame > WOL_SCAN_BYTES then WOL_SCAN_BYTES else length frame)
            in list_ex (\<lambda>at. take WOL_SYNC_LEN (drop at frame) = sync_stream \<and>
                             wol_repeats frame mac at 0 WOL_REPEATS = WOL_REPEATS)
                 [0..<len + 1 - WOL_PATTERN_LEN]
      | _ \<Rightarrow> False)"

lemma sync_stream_replicate: "sync_stream = replicate 6 0xFF"
  by code_simp

lemmas wol_lengths = WOL_MAC_LEN_def WOL_SYNC_LEN_def WOL_REPEATS_def WOL_PATTERN_LEN_def WOL_SCAN_BYTES_def

lemma wol_repeats_full:
  "wol_repeats frame mac at r n = r + n \<longleftrightarrow>
    (\<forall>i < n. take 6 (drop (at + 6 + (r + i) * 6) frame) = take 6 mac)"
proof (induction n arbitrary: r)
  case (Suc n)
  have le: "wol_repeats frame mac at r n \<le> r + n" for r
  proof (induction n arbitrary: r)
    case (Suc n)
    then show ?case using Suc [of "Suc r"] by (simp add: Let_def)
  qed simp
  have "(\<forall>i < Suc n. P i) \<longleftrightarrow> P 0 \<and> (\<forall>i < n. P (Suc i))" for P
    by (auto simp: less_Suc_eq_0_disj)
  then show ?case
    using Suc [of "Suc r"] by (auto simp: Let_def wol_lengths)
qed simp

lemma take_concat_replicate:
  "length m = k \<Longrightarrow> length xs = n * k \<Longrightarrow>
    xs = concat (replicate n m) \<longleftrightarrow> (\<forall>i < n. take k (drop (i * k) xs) = m)"
proof (induction n arbitrary: xs)
  case (Suc n)
  have "xs = concat (replicate (Suc n) m) \<longleftrightarrow> take k xs = m \<and> drop k xs = concat (replicate n m)"
    using Suc.prems by (auto simp: append_eq_conv_conj) (metis append_take_drop_id)
  also have "\<dots> \<longleftrightarrow> take k xs = m \<and> (\<forall>i < n. take k (drop (i * k) (drop k xs)) = m)"
    using Suc by simp
  also have "\<dots> \<longleftrightarrow> (\<forall>i < Suc n. take k (drop (i * k) xs) = m)"
    by (auto simp: less_Suc_eq_0_disj add.commute)
  finally show ?case .
qed simp

text \<open>The pattern a magic packet for \<open>mac\<close> carries.\<close>

definition magic_pattern :: "byte list \<Rightarrow> byte list" where
  "magic_pattern mac = replicate 6 0xFF @ concat (replicate 16 (take 6 mac))"

lemma magic_at:
  assumes "length mac \<ge> 6" "at + 102 \<le> length frame"
  shows "take 6 (drop at frame) = sync_stream \<and> wol_repeats frame mac at 0 16 = 16 \<longleftrightarrow>
    take 102 (drop at frame) = magic_pattern mac"
proof -
  let ?t = "take 96 (drop (at + 6) frame)"
  have "wol_repeats frame mac at 0 16 = 16 \<longleftrightarrow> (\<forall>i < 16. take 6 (drop (i * 6) ?t) = take 6 mac)"
  proof -
    have "take 6 (drop (i * 6) ?t) = take 6 (drop (at + 6 + i * 6) frame)" if "i < 16" for i
      using that by (simp add: drop_take min_def add.commute)
    then show ?thesis using wol_repeats_full [of frame mac at 0 16] by simp
  qed
  also have "\<dots> \<longleftrightarrow> ?t = concat (replicate 16 (take 6 mac))"
    using take_concat_replicate [of "take 6 mac" 6 ?t 16] assms by simp
  finally have rep: "wol_repeats frame mac at 0 16 = 16 \<longleftrightarrow> ?t = concat (replicate 16 (take 6 mac))" .
  have "take 102 (drop at frame) = take 6 (drop at frame) @ ?t"
    using take_add [of 6 96 "drop at frame"] by (simp add: add.commute)
  moreover have "length (take 6 (drop at frame)) = length (replicate 6 (0xFF :: byte))"
    using assms(2) by simp
  ultimately show ?thesis
    unfolding rep magic_pattern_def sync_stream_replicate by (metis append_eq_append_conv)
qed

section \<open>Properties\<close>

text \<open>C31: A power-on mode that was stored is the one read back, only the three known modes can be
  stored, and storing it does not touch the recorded last state; for any NVS that behaves as
  documented.\<close>

theorem power_mode_persists:
  assumes "nvs_flash ops stored wear at_rest opened" "at_rest s"
    and "power_set_mode ops mode s = (ESP_OK, s')"
  shows "mode \<le> POWERON_MODE_MAX \<and> fst (power_get_mode ops s') = mode \<and>
    fst (power_get_last_state ops s') = fst (power_get_last_state ops s)"
  using nvs_flash.set_mode_then_get [OF assms] by blast

lemma stub_is_nvs: "nvs_flash stub_ops stub_stored st_commits stub_at_rest stub_opened"
  by (rule stub.nvs_flash_axioms)

lemma stub_empty_at_rest: "stub_at_rest stub_empty"
  by (simp add: stub_at_rest_def stub_shape_def stub_empty_def)

lemma power_mode_persists_witness:
  "fst (power_get_mode stub_ops (snd (power_set_mode stub_ops 2 stub_empty))) = 2"
proof -
  have "fst (power_set_mode stub_ops 2 stub_empty) = ESP_OK" by code_simp
  then have "power_set_mode stub_ops 2 stub_empty = (ESP_OK, snd (power_set_mode stub_ops 2 stub_empty))"
    by (metis prod.collapse)
  from power_mode_persists [OF stub_is_nvs stub_empty_at_rest this] show ?thesis by simp
qed

text \<open>C29: The state the machine comes up in: on when the application FPGA is loaded already, otherwise
  what the stored mode says, off when none or an unknown one is stored; and that state is recorded
  as the last one, unless the NVS could not store it and is unchanged.\<close>

theorem power_on_state:
  assumes "nvs_flash ops stored wear at_rest opened" "at_rest s"
  shows "fst (power_initial_state ops fpga s) =
      (if fpga \<noteq> 0 then 1
       else case stored s ''power'' ''mode'' of
         None \<Rightarrow> 0
       | Some m \<Rightarrow> if m = 1 then 1
                   else if m = 2
                   then (case stored s ''power'' ''last'' of None \<Rightarrow> 0 | Some v \<Rightarrow> if v \<noteq> 0 then 1 else 0)
                   else 0) \<and>
    (stored (snd (power_initial_state ops fpga s)) = stored s \<or>
     fst (power_get_last_state ops (snd (power_initial_state ops fpga s))) =
       word_of_int (fst (power_initial_state ops fpga s)))"
  using nvs_flash.initial_state_spec(1,4) [OF assms, of fpga]
  unfolding nvs_flash.start_state_def [OF assms(1)] nvs_flash.setting_def [OF assms(1)] power_keys
    POWERON_MODE_ON_def POWERON_MODE_LAST_STATE_def by (rule conjI)

lemma power_on_state_witness:
  "fst (power_initial_state stub_ops 0 stub_empty) = 0"
proof -
  have "stub_stored stub_empty ''power'' ''mode'' = None" by code_simp
  then show ?thesis using power_on_state [OF stub_is_nvs stub_empty_at_rest, of 0] by simp
qed

text \<open>The flash is spared: storing a last state that is stored already returns without a write.\<close>

lemma last_state_spares_flash:
  assumes "nvs_flash ops stored wear at_rest opened" "at_rest s"
    and "stored s ''power'' ''last'' = Some (if b \<noteq> 0 then 1 else 0)"
  shows "wear (power_store_last_state ops b s) = wear s"
  using nvs_flash.store_last_spec(2) [OF assms(1,2)] assms(3)
  by (simp add: nvs_flash.setting_def [OF assms(1)] power_keys)

lemma last_state_spares_flash_witness:
  "st_commits (power_store_last_state stub_ops 5 (power_store_last_state stub_ops 1 stub_empty)) =
   st_commits (power_store_last_state stub_ops 1 stub_empty)"
proof -
  let ?s = "power_store_last_state stub_ops 1 stub_empty"
  have "stub_stored ?s ''power'' ''last'' = Some 1" "stub_at_rest ?s" by code_simp+
  then show ?thesis using last_state_spares_flash [OF stub_is_nvs, of ?s 5] by simp
qed

text \<open>C33: A frame is taken for a magic packet exactly when the address is neither broadcast nor all
  zero and the first 256 bytes of the frame hold six FF bytes followed by sixteen copies of it.\<close>

theorem magic_packet_exact:
  assumes "length mac \<ge> 6"
  shows "wol_is_magic_packet (Some frame) (Some mac) \<longleftrightarrow>
    take 6 mac \<noteq> replicate 6 0xFF \<and> take 6 mac \<noteq> replicate 6 0 \<and>
    (\<exists>a. a + 102 \<le> min 256 (length frame) \<and> take 102 (drop a frame) = magic_pattern mac)"
proof -
  have u: "usable_mac mac \<longleftrightarrow> take 6 mac \<noteq> replicate 6 0xFF \<and> take 6 mac \<noteq> replicate 6 0"
  proof -
    have "[0, 0, 0, 0, 0, 0] = replicate 6 (0 :: byte)" by code_simp
    then show ?thesis unfolding usable_mac_def wol_lengths sync_stream_replicate by simp
  qed
  have m: "take 6 (drop a frame) = sync_stream \<and> wol_repeats frame mac a 0 16 = 16 \<longleftrightarrow>
      take 102 (drop a frame) = magic_pattern mac" if "a + 102 \<le> min 256 (length frame)" for a
    using that by (intro magic_at [OF assms]) simp
  have l: "(if length frame > 256 then 256 else length frame) = min 256 (length frame)" by simp
  have "wol_is_magic_packet (Some frame) (Some mac) \<longleftrightarrow> 102 \<le> length frame \<and> usable_mac mac \<and>
      (\<exists>a. a + 102 \<le> min 256 (length frame) \<and> take 6 (drop a frame) = sync_stream \<and>
         wol_repeats frame mac a 0 16 = 16)"
  proof (cases "102 \<le> length frame")
    case True
    have pl: "WOL_PATTERN_LEN = 102" by (simp add: wol_lengths)
    have "wol_is_magic_packet (Some frame) (Some mac) \<longleftrightarrow> usable_mac mac \<and>
      list_ex (\<lambda>a. take 6 (drop a frame) = sync_stream \<and> wol_repeats frame mac a 0 16 = 16)
        [0..<min 256 (length frame) + 1 - 102]"
      using True unfolding wol_is_magic_packet_def pl
      by (simp add: WOL_SCAN_BYTES_def WOL_SYNC_LEN_def WOL_REPEATS_def Let_def l del: upt_Suc)
    moreover have "a \<in> set [0..<min 256 (length frame) + 1 - 102] \<longleftrightarrow> a + 102 \<le> min 256 (length frame)" for a
      using True by auto
    ultimately show ?thesis using True unfolding list_ex_iff by blast
  next
    case False
    then show ?thesis by (simp add: wol_is_magic_packet_def wol_lengths)
  qed
  then show ?thesis using u m by auto
qed

lemma magic_packet_exact_witness:
  "wol_is_magic_packet (Some (replicate 6 0xFF @ concat (replicate 16 [1, 2, 3, 4, 5, 6])))
     (Some [1, 2, 3, 4, 5, 6])"
proof -
  let ?m = "[1, 2, 3, 4, 5, 6] :: byte list"
  define f where "f = replicate 6 0xFF @ concat (replicate 16 ?m)"
  have len: "length f = 102" unfolding f_def by code_simp
  moreover have "magic_pattern ?m = f" by (simp add: magic_pattern_def f_def)
  ultimately have "\<exists>a. a + 102 \<le> min 256 (length f) \<and> take 102 (drop a f) = magic_pattern ?m"
    by (intro exI [of _ 0] conjI) simp_all
  moreover have "take 6 ?m \<noteq> replicate 6 0xFF" "take 6 ?m \<noteq> replicate 6 0" by code_simp+
  moreover have "length ?m \<ge> 6" by simp
  ultimately show ?thesis using magic_packet_exact [of ?m f] unfolding f_def by blast
qed

end
