(* ===== verification/Button_Handler.thy ===== *)
theory Button_Handler
  imports Prelude
begin

text \<open>
  The power and menu buttons, \<^verbatim>\<open>software/u64ctrl/main/button_handler.c\<close>: a task that polls two
  buttons, classifies the presses, switches the regulators and obeys events posted to its queue.
  The task never returns; it is a state machine whose states are the places where it reads the
  buttons or the queue, and a step consumes what is read there: whether each button is pressed
  (its input is low) and the event at the head of the queue.  Counting is in polling rounds of one
  tick, \<open>P\<close> milliseconds (\<open>portTICK_PERIOD_MS\<close>, a parameter).  The functions of other components that
  an event calls are recorded in the state of the board.
\<close>

section \<open>Events and the board\<close>

datatype button_event =
    BUTTON_UP_SHORT | BUTTON_UP_LONG | BUTTON_DOWN_SHORT | BUTTON_DOWN_LONG
  | BUTTON_ON | BUTTON_OFF | BUTTON_ON2 | BUTTON_RECOVERY | BUTTON_OTHER byte

definition SHORT_PRESS :: nat where "SHORT_PRESS = 100"
definition LONG_PRESS :: nat where "LONG_PRESS = 1000"
definition OFF_PRESS :: nat where "OFF_PRESS = 4000"
definition IGNORE_PRESS :: nat where "IGNORE_PRESS = 300"
definition RECOVERY_PRESS :: nat where "RECOVERY_PRESS = 3000"

text \<open>The two supply rails with the history of their levels, whether the UART pins are routed, the
  last state handed to \<open>power_store_last_state\<close>, the argument of the last \<open>wake_on_wifi_update\<close>,
  whether a recovery was started and not cancelled since, how often \<open>disable_hook\<close> ran, the events
  sent to the application, and the milliseconds spent in delays.\<close>

record board =
  b_v50 :: bool
  b_mod :: bool
  b_rails :: "(bool \<times> bool) list"
  b_uart :: bool
  b_last :: bool
  b_watch :: bool
  b_recovering :: bool
  b_unhooked :: nat
  b_sent :: "button_event list"
  b_delay :: nat

definition set_v50 :: "bool \<Rightarrow> board \<Rightarrow> board" where
  "set_v50 x b = b\<lparr>b_v50 := x, b_rails := (x, b_mod b) # b_rails b\<rparr>"

definition set_mod :: "bool \<Rightarrow> board \<Rightarrow> board" where
  "set_mod x b = b\<lparr>b_mod := x, b_rails := (b_v50 b, x) # b_rails b\<rparr>"

definition delay_ms :: "nat \<Rightarrow> board \<Rightarrow> board" where
  "delay_ms n b = b\<lparr>b_delay := b_delay b + n\<rparr>"

definition regulator_enable :: "bool \<Rightarrow> nat \<Rightarrow> board \<Rightarrow> board" where
  "regulator_enable enable delay b =
     (let b0 = (if \<not> enable then b\<lparr>b_uart := False\<rparr> else b);
          b1 = (if enable
                then delay_ms 100 (set_mod True (delay_ms delay (set_v50 True b0)))
                else delay_ms 100 (set_v50 False (set_mod False b0)));
          b2 = delay_ms 100 b1
      in if enable then b2\<lparr>b_uart := True\<rparr> else b2)"

definition handle_button_event :: "button_event \<Rightarrow> board \<Rightarrow> board" where
  "handle_button_event event b0 =
     (let b = (if event \<noteq> BUTTON_RECOVERY then b0\<lparr>b_sent := b_sent b0 @ [event]\<rparr> else b0)
      in case event of
           BUTTON_ON \<Rightarrow> (regulator_enable True 0 b)\<lparr>b_last := True, b_watch := True\<rparr>
         | BUTTON_ON2 \<Rightarrow> (regulator_enable True 20 b)\<lparr>b_last := True, b_watch := True\<rparr>
         | BUTTON_RECOVERY \<Rightarrow>
             (regulator_enable True 20 b)\<lparr>b_last := True, b_watch := True, b_recovering := True\<rparr>
         | BUTTON_OFF \<Rightarrow>
             (let b1 = regulator_enable False 0 (b\<lparr>b_recovering := False\<rparr>)
              in b1\<lparr>b_unhooked := b_unhooked b1 + 1, b_last := False, b_watch := False\<rparr>)
         | _ \<Rightarrow> b)"

section \<open>The task\<close>

datatype button_pc = Poll | Holding nat | Releasing | OffHeld | Receive

record buttons =
  bt_on :: bool
  bt_up_count :: nat
  bt_down_count :: nat
  bt_pc :: button_pc
  bt_board :: board

record button_input =
  up_low :: bool
  down_low :: bool
  queued :: "button_event option"

text \<open>The part of a polling round with the machine on: the up button, then the down button.\<close>

definition poll_up :: "nat \<Rightarrow> bool \<Rightarrow> buttons \<Rightarrow> buttons" where
  "poll_up P low s =
     (if low then s\<lparr>bt_up_count := bt_up_count s + 1\<rparr>
      else
        let b = bt_board s;
            b' = (if bt_up_count s > LONG_PRESS div P
                  then delay_ms IGNORE_PRESS (handle_button_event BUTTON_UP_LONG b)
                  else if bt_up_count s > SHORT_PRESS div P
                  then delay_ms IGNORE_PRESS (handle_button_event BUTTON_UP_SHORT b)
                  else b)
        in s\<lparr>bt_board := b', bt_up_count := 0\<rparr>)"

definition poll_down :: "nat \<Rightarrow> bool \<Rightarrow> buttons \<Rightarrow> buttons" where
  "poll_down P low s =
     (if low
      then
        let n = bt_down_count s + 1
        in if n > OFF_PRESS div P
           then s\<lparr>bt_down_count := n, bt_board := handle_button_event BUTTON_OFF (bt_board s),
                  bt_pc := OffHeld\<rparr>
           else s\<lparr>bt_down_count := n, bt_pc := Receive\<rparr>
      else
        let b = bt_board s;
            b' = (if bt_down_count s > LONG_PRESS div P
                  then delay_ms IGNORE_PRESS (handle_button_event BUTTON_DOWN_LONG b)
                  else if bt_down_count s > SHORT_PRESS div P
                  then delay_ms IGNORE_PRESS (handle_button_event BUTTON_DOWN_SHORT b)
                  else b)
        in s\<lparr>bt_board := b', bt_down_count := 0, bt_pc := Receive\<rparr>)"

definition button_step :: "nat \<Rightarrow> button_input \<Rightarrow> buttons \<Rightarrow> buttons" where
  "button_step P i s =
     (case bt_pc s of
        Poll \<Rightarrow>
          if \<not> bt_on s
          then
            if up_low i
            then s\<lparr>bt_board := delay_ms 100 (handle_button_event BUTTON_ON (bt_board s)),
                   bt_on := True, bt_pc := Releasing\<rparr>
            else if down_low i then s\<lparr>bt_pc := Holding 0\<rparr>
            else s\<lparr>bt_pc := Receive\<rparr>
          else poll_down P (down_low i) (poll_up P (up_low i) s)
      | Holding held \<Rightarrow>
          if down_low i \<and> held < RECOVERY_PRESS
          then s\<lparr>bt_board := delay_ms 100 (bt_board s), bt_pc := Holding (held + 100)\<rparr>
          else s\<lparr>bt_board := delay_ms 100 (handle_button_event
                   (if held \<ge> RECOVERY_PRESS then BUTTON_RECOVERY else BUTTON_ON2) (bt_board s)),
                 bt_on := True, bt_pc := Releasing\<rparr>
      | Releasing \<Rightarrow>
          if up_low i \<or> down_low i then s\<lparr>bt_board := delay_ms 100 (bt_board s)\<rparr>
          else s\<lparr>bt_board := delay_ms IGNORE_PRESS (bt_board s), bt_pc := Receive\<rparr>
      | OffHeld \<Rightarrow>
          if down_low i then s\<lparr>bt_board := delay_ms 100 (bt_board s)\<rparr>
          else s\<lparr>bt_on := False, bt_down_count := 0, bt_pc := Receive\<rparr>
      | Receive \<Rightarrow>
          (case queued i of
             None \<Rightarrow> s\<lparr>bt_pc := Poll\<rparr>
           | Some event \<Rightarrow>
               s\<lparr>bt_board := handle_button_event event (bt_board s),
                 bt_on := (if event = BUTTON_OFF then False
                           else if event = BUTTON_ON then True else bt_on s),
                 bt_pc := Poll\<rparr>))"

text \<open>The start of the task; \<open>b\<close> is the board as the reset left it, its rails off or, after a restart
  of the module alone, as the machine runs.\<close>

definition button_start :: "bool \<Rightarrow> board \<Rightarrow> buttons" where
  "button_start initial_state b =
     \<lparr>bt_on = initial_state, bt_up_count = 0, bt_down_count = 0, bt_pc = Poll,
      bt_board = (regulator_enable initial_state 0
          (delay_ms 100 (set_mod initial_state (set_v50 initial_state b))))
        \<lparr>b_watch := initial_state\<rparr>\<rparr>"

text \<open>The runs of the task: any readings of the buttons, and events from \<open>posted\<close> in the queue.\<close>

inductive button_run :: "nat \<Rightarrow> button_event set \<Rightarrow> bool \<Rightarrow> board \<Rightarrow> buttons \<Rightarrow> bool"
  for P posted initial_state b where
  start: "button_run P posted initial_state b (button_start initial_state b)"
| step: "button_run P posted initial_state b s \<Longrightarrow> set_option (queued i) \<subseteq> posted \<Longrightarrow>
    button_run P posted initial_state b (button_step P i s)"

section \<open>Rails and states agree\<close>

definition rails_safe :: "board \<Rightarrow> bool" where
  "rails_safe b \<longleftrightarrow> list_all (\<lambda>(v, m). m \<longrightarrow> v) (b_rails b) \<and> (b_mod b \<longrightarrow> b_v50 b)"

text \<open>A board that is switched on or off, in everything that depends on it.\<close>

definition board_is :: "bool \<Rightarrow> board \<Rightarrow> bool" where
  "board_is x b \<longleftrightarrow> b_v50 b = x \<and> b_mod b = x \<and> b_uart b = x \<and> b_last b = x \<and> b_watch b = x \<and>
     (\<not> x \<longrightarrow> \<not> b_recovering b)"

lemma regulator_enable_fields:
  "b_v50 (regulator_enable x n b) = x" "b_mod (regulator_enable x n b) = x"
  "b_uart (regulator_enable x n b) = x"
  "b_recovering (regulator_enable x n b) = b_recovering b"
  "b_last (regulator_enable x n b) = b_last b" "b_watch (regulator_enable x n b) = b_watch b"
  "b_sent (regulator_enable x n b) = b_sent b"
  by (simp_all add: regulator_enable_def Let_def set_v50_def set_mod_def delay_ms_def)

lemma regulator_enable_safe: "rails_safe b \<Longrightarrow> rails_safe (regulator_enable x n b)"
  by (simp add: regulator_enable_def Let_def set_v50_def set_mod_def delay_ms_def rails_safe_def)

lemma delay_board [simp]:
  "board_is x (delay_ms n b) = board_is x b" "rails_safe (delay_ms n b) = rails_safe b"
  "b_sent (delay_ms n b) = b_sent b"
  by (simp_all add: delay_ms_def board_is_def rails_safe_def)

lemma handle_event_on:
  "e \<in> {BUTTON_ON, BUTTON_ON2, BUTTON_RECOVERY} \<Longrightarrow> board_is True (handle_button_event e b)"
  by (auto simp: handle_button_event_def board_is_def Let_def regulator_enable_fields)

lemma handle_event_off: "board_is False (handle_button_event BUTTON_OFF b)"
  by (simp add: handle_button_event_def board_is_def Let_def regulator_enable_fields)

lemma handle_event_other:
  "e \<in> {BUTTON_UP_SHORT, BUTTON_UP_LONG, BUTTON_DOWN_SHORT, BUTTON_DOWN_LONG} \<Longrightarrow>
    board_is x (handle_button_event e b) = board_is x b"
  by (auto simp: handle_button_event_def board_is_def Let_def)

lemma handle_event_safe: "rails_safe b \<Longrightarrow> rails_safe (handle_button_event e b)"
proof -
  assume "rails_safe b"
  then have "rails_safe (b\<lparr>b_sent := x, b_recovering := y\<rparr>)" "rails_safe (b\<lparr>b_sent := x\<rparr>)"
    "rails_safe (b\<lparr>b_recovering := y\<rparr>)" for x y
    by (simp_all add: rails_safe_def)
  note safe = \<open>rails_safe b\<close> this
  have keep: "rails_safe (c\<lparr>b_last := l, b_watch := w\<rparr>) = rails_safe c"
    "rails_safe (c\<lparr>b_last := l, b_watch := w, b_recovering := r\<rparr>) = rails_safe c"
    "rails_safe (c\<lparr>b_unhooked := n\<rparr>) = rails_safe c" for c l w r n
    by (simp_all add: rails_safe_def)
  show ?thesis
    using safe by (cases e) (auto simp: handle_button_event_def Let_def keep intro: regulator_enable_safe)
qed

definition buttons_ok :: "buttons \<Rightarrow> bool" where
  "buttons_ok s \<longleftrightarrow> rails_safe (bt_board s) \<and>
     (case bt_pc s of
        Poll \<Rightarrow> board_is (bt_on s) (bt_board s)
      | Holding h \<Rightarrow> \<not> bt_on s \<and> board_is False (bt_board s)
      | Releasing \<Rightarrow> bt_on s \<and> board_is True (bt_board s)
      | OffHeld \<Rightarrow> board_is False (bt_board s)
      | Receive \<Rightarrow> board_is (bt_on s) (bt_board s))"

lemma poll_up_ok:
  assumes "buttons_ok s" "bt_pc s = Poll"
  shows "buttons_ok (poll_up P low s)" "bt_pc (poll_up P low s) = Poll" "bt_on (poll_up P low s) = bt_on s"
  using assms
  by (auto simp: poll_up_def buttons_ok_def Let_def handle_event_other handle_event_safe)

lemma poll_down_ok:
  assumes "buttons_ok s" "bt_pc s = Poll"
  shows "buttons_ok (poll_down P low s)"
  using assms
  by (auto simp: poll_down_def buttons_ok_def Let_def handle_event_other handle_event_safe
      handle_event_off)

lemma button_step_ok:
  assumes "buttons_ok s" "set_option (queued i) \<subseteq> {BUTTON_ON, BUTTON_OFF}"
  shows "buttons_ok (button_step P i s)"
proof (cases "bt_pc s")
  case Poll
  show ?thesis
  proof (cases "bt_on s")
    case True
    then show ?thesis
      using poll_down_ok [OF poll_up_ok(1,2)] assms(1) Poll by (simp add: button_step_def)
  next
    case False
    then show ?thesis
      using assms(1) Poll handle_event_on [of BUTTON_ON]
      by (auto simp: button_step_def buttons_ok_def handle_event_safe)
  qed
next
  case (Holding h)
  then show ?thesis
    using assms(1) handle_event_on by (auto simp: button_step_def buttons_ok_def handle_event_safe)
next
  case Receive
  show ?thesis
  proof (cases "queued i")
    case (Some e)
    then have "e = BUTTON_ON \<or> e = BUTTON_OFF" using assms(2) by auto
    then show ?thesis
      using Receive Some assms(1) handle_event_on [of BUTTON_ON] handle_event_off
      by (auto simp: button_step_def buttons_ok_def handle_event_safe)
  qed (use Receive assms(1) in \<open>simp add: button_step_def buttons_ok_def\<close>)
qed (use assms(1) in \<open>auto simp: button_step_def buttons_ok_def\<close>)

lemma button_start_ok:
  assumes "rails_safe b" "b_last b = initial_state" "\<not> b_recovering b" "initial_state \<or> \<not> b_mod b"
  shows "buttons_ok (button_start initial_state b)"
proof -
  have pins: "rails_safe (set_mod initial_state (set_v50 initial_state b))"
    using assms(1,4) by (auto simp: rails_safe_def set_mod_def set_v50_def)
  have keep: "rails_safe (c\<lparr>b_watch := w\<rparr>) = rails_safe c" for c w by (simp add: rails_safe_def)
  have fields: "b_last (set_mod x (set_v50 y b)) = b_last b"
    "b_recovering (set_mod x (set_v50 y b)) = b_recovering b" for x y
    by (simp_all add: set_mod_def set_v50_def)
  have delayed: "b_last (delay_ms n c) = b_last c" "b_recovering (delay_ms n c) = b_recovering c" for n c
    by (simp_all add: delay_ms_def)
  show ?thesis
    using pins assms(2,3)
    by (simp add: buttons_ok_def button_start_def keep regulator_enable_safe board_is_def
        regulator_enable_fields fields delayed)
qed

lemma button_run_ok:
  assumes "button_run P posted initial_state b s" "posted \<subseteq> {BUTTON_ON, BUTTON_OFF}"
    "rails_safe b" "b_last b = initial_state" "\<not> b_recovering b" "initial_state \<or> \<not> b_mod b"
  shows "buttons_ok s"
  using assms(1)
proof induction
  case start
  show ?case by (rule button_start_ok [OF assms(3-6)])
next
  case (step s i)
  then show ?case using assms(2) button_step_ok by blast
qed

section \<open>Presses\<close>

text \<open>A polling round of a machine that is on and gets no event: the buttons are read, then the
  queue.\<close>

definition polled :: "nat \<Rightarrow> bool \<Rightarrow> bool \<Rightarrow> buttons \<Rightarrow> buttons" where
  "polled P up down s =
     button_step P \<lparr>up_low = up, down_low = down, queued = None\<rparr>
       (button_step P \<lparr>up_low = up, down_low = down, queued = None\<rparr> s)"

text \<open>A button held for \<open>n\<close> rounds.\<close>

definition held_down :: "nat \<Rightarrow> nat \<Rightarrow> buttons \<Rightarrow> buttons" where
  "held_down P n = (polled P False True ^^ n)"

definition held_up :: "nat \<Rightarrow> nat \<Rightarrow> buttons \<Rightarrow> buttons" where
  "held_up P n = (polled P True False ^^ n)"

text \<open>The machine on, both buttons released and about to be read.\<close>

definition at_rest :: "buttons \<Rightarrow> bool" where
  "at_rest s \<longleftrightarrow> bt_on s \<and> bt_pc s = Poll \<and> bt_up_count s = 0 \<and> bt_down_count s = 0"

lemma held_down_counts:
  assumes "at_rest s" "n \<le> OFF_PRESS div P"
  shows "held_down P n s = s\<lparr>bt_down_count := n\<rparr>"
  using assms(2)
proof (induction n)
  case 0
  then show ?case using assms(1) by (simp add: held_down_def at_rest_def)
next
  case (Suc n)
  then have "held_down P (Suc n) s = polled P False True (s\<lparr>bt_down_count := n\<rparr>)"
    by (simp add: held_down_def)
  also have "\<dots> = s\<lparr>bt_down_count := Suc n\<rparr>"
    using assms(1) Suc.prems
    by (simp add: polled_def button_step_def poll_up_def poll_down_def at_rest_def)
  finally show ?case .
qed

lemma held_up_counts:
  assumes "at_rest s"
  shows "held_up P n s = s\<lparr>bt_up_count := n\<rparr>"
proof (induction n)
  case 0
  then show ?case using assms(1) by (simp add: held_up_def at_rest_def)
next
  case (Suc n)
  then have "held_up P (Suc n) s = polled P True False (s\<lparr>bt_up_count := n\<rparr>)"
    by (simp add: held_up_def)
  also have "\<dots> = s\<lparr>bt_up_count := Suc n\<rparr>"
    using assms(1)
    by (simp add: polled_def button_step_def poll_up_def poll_down_def at_rest_def)
  finally show ?case .
qed

text \<open>What a press of \<open>n\<close> rounds is, by the thresholds of the code.\<close>

definition press_of :: "nat \<Rightarrow> nat \<Rightarrow> button_event \<Rightarrow> button_event \<Rightarrow> button_event list" where
  "press_of P n short long =
     (if n > LONG_PRESS div P then [long] else if n > SHORT_PRESS div P then [short] else [])"

lemma sent_plain:
  "e \<in> {BUTTON_UP_SHORT, BUTTON_UP_LONG, BUTTON_DOWN_SHORT, BUTTON_DOWN_LONG} \<Longrightarrow>
    handle_button_event e b = b\<lparr>b_sent := b_sent b @ [e]\<rparr>"
  by (auto simp: handle_button_event_def Let_def)

lemma released_down:
  assumes "at_rest s"
  shows "at_rest (polled P False False (s\<lparr>bt_down_count := n\<rparr>))"
    "b_sent (bt_board (polled P False False (s\<lparr>bt_down_count := n\<rparr>))) =
       b_sent (bt_board s) @ press_of P n BUTTON_DOWN_SHORT BUTTON_DOWN_LONG"
  using assms
  by (simp_all add: polled_def button_step_def poll_up_def poll_down_def at_rest_def press_of_def
      sent_plain Let_def)

lemma released_up:
  assumes "at_rest s"
  shows "at_rest (polled P False False (s\<lparr>bt_up_count := n\<rparr>))"
    "b_sent (bt_board (polled P False False (s\<lparr>bt_up_count := n\<rparr>))) =
       b_sent (bt_board s) @ press_of P n BUTTON_UP_SHORT BUTTON_UP_LONG"
  using assms
  by (simp_all add: polled_def button_step_def poll_up_def poll_down_def at_rest_def press_of_def
      sent_plain Let_def)

lemma held_down_off:
  assumes "at_rest s"
  shows "bt_board (button_step P \<lparr>up_low = False, down_low = True, queued = None\<rparr>
      (held_down P (OFF_PRESS div P) s)) = handle_button_event BUTTON_OFF (bt_board s)"
    "bt_pc (button_step P \<lparr>up_low = False, down_low = True, queued = None\<rparr>
      (held_down P (OFF_PRESS div P) s)) = OffHeld"
  unfolding held_down_counts [OF assms order_refl] using assms
  by (simp_all add: button_step_def poll_up_def poll_down_def at_rest_def)

section \<open>Properties\<close>

text \<open>C19: Whenever the task reads its buttons, the rails, the UART pins, the stored power state and
  the network watch are those of its own belief whether the machine is on, no recovery is pending on
  a machine that is off, and at no moment since the start has the module rail been on without the
  5V rail; for any readings of the buttons and any power-on and power-off events the network
  posts.\<close>

theorem buttons_rails_follow_state:
  assumes "button_run P {BUTTON_ON, BUTTON_OFF} initial_state b s"
    and "rails_safe b" "b_last b = initial_state" "\<not> b_recovering b" "initial_state \<or> \<not> b_mod b"
  shows "list_all (\<lambda>(v50, module_on). module_on \<longrightarrow> v50) (b_rails (bt_board s)) \<and>
    (bt_pc s = Poll \<longrightarrow>
       b_v50 (bt_board s) = bt_on s \<and> b_mod (bt_board s) = bt_on s \<and> b_uart (bt_board s) = bt_on s \<and>
       b_last (bt_board s) = bt_on s \<and> b_watch (bt_board s) = bt_on s \<and>
       (b_recovering (bt_board s) \<longrightarrow> bt_on s))"
proof -
  have "buttons_ok s" by (rule button_run_ok [OF assms(1) order_refl assms(2-5)])
  then show ?thesis by (auto simp: buttons_ok_def rails_safe_def board_is_def)
qed

text \<open>C38: On a machine that is on, a button pressed for \<open>n\<close> polling rounds and let go sends one event:
  the long one above \<open>LONG_PRESS\<close>, the short one above \<open>SHORT_PRESS\<close>, none below; the machine stays as
  it was, ready for the next press.  Only the down button held beyond \<open>OFF_PRESS\<close> switches off, which
  opens both rails at once, without waiting for the release.\<close>

theorem button_presses_classified:
  assumes "at_rest s"
  shows "(n \<le> OFF_PRESS div P \<longrightarrow>
      at_rest (polled P False False (held_down P n s)) \<and>
      b_sent (bt_board (polled P False False (held_down P n s))) =
        b_sent (bt_board s) @
          (if n > LONG_PRESS div P then [BUTTON_DOWN_LONG]
           else if n > SHORT_PRESS div P then [BUTTON_DOWN_SHORT] else [])) \<and>
    at_rest (polled P False False (held_up P n s)) \<and>
    b_sent (bt_board (polled P False False (held_up P n s))) =
      b_sent (bt_board s) @
        (if n > LONG_PRESS div P then [BUTTON_UP_LONG]
         else if n > SHORT_PRESS div P then [BUTTON_UP_SHORT] else []) \<and>
    \<not> b_v50 (bt_board (button_step P \<lparr>up_low = False, down_low = True, queued = None\<rparr>
        (held_down P (OFF_PRESS div P) s))) \<and>
    \<not> b_mod (bt_board (button_step P \<lparr>up_low = False, down_low = True, queued = None\<rparr>
        (held_down P (OFF_PRESS div P) s)))"
proof (intro conjI impI)
  assume le: "n \<le> OFF_PRESS div P"
  show "at_rest (polled P False False (held_down P n s))"
    unfolding held_down_counts [OF assms le] by (rule released_down(1) [OF assms])
  show "b_sent (bt_board (polled P False False (held_down P n s))) =
      b_sent (bt_board s) @ (if n > LONG_PRESS div P then [BUTTON_DOWN_LONG]
        else if n > SHORT_PRESS div P then [BUTTON_DOWN_SHORT] else [])"
    unfolding held_down_counts [OF assms le] released_down(2) [OF assms] press_of_def ..
next
  show "at_rest (polled P False False (held_up P n s))"
    unfolding held_up_counts [OF assms] by (rule released_up(1) [OF assms])
  show "b_sent (bt_board (polled P False False (held_up P n s))) =
      b_sent (bt_board s) @ (if n > LONG_PRESS div P then [BUTTON_UP_LONG]
        else if n > SHORT_PRESS div P then [BUTTON_UP_SHORT] else [])"
    unfolding held_up_counts [OF assms] released_up(2) [OF assms] press_of_def ..
qed (use handle_event_off [of "bt_board s"] in \<open>simp_all add: held_down_off [OF assms] board_is_def\<close>)

definition example_board :: board where
  "example_board =
     \<lparr>b_v50 = False, b_mod = False, b_rails = [], b_uart = False, b_last = False, b_watch = False,
      b_recovering = False, b_unhooked = 0, b_sent = [], b_delay = 0\<rparr>"

theorem buttons_rails_follow_state_witness:
  "list_all (\<lambda>(v50, module_on). module_on \<longrightarrow> v50)
     (b_rails (bt_board (button_step 10 \<lparr>up_low = True, down_low = False, queued = None\<rparr>
        (button_start False example_board))))"
  using buttons_rails_follow_state
    [OF button_run.step [OF button_run.start, of "\<lparr>up_low = True, down_low = False, queued = None\<rparr>"],
      where P = 10 and initial_state = False and b = example_board]
  by (simp add: example_board_def rails_safe_def)

definition example_buttons :: buttons where
  "example_buttons =
     \<lparr>bt_on = True, bt_up_count = 0, bt_down_count = 0, bt_pc = Poll, bt_board = example_board\<rparr>"

theorem button_presses_classified_witness:
  "b_sent (bt_board (polled 10 False False (held_down 10 60 example_buttons))) = [BUTTON_DOWN_SHORT]"
  using button_presses_classified [of example_buttons 60 10]
  by (simp add: example_buttons_def example_board_def at_rest_def OFF_PRESS_def LONG_PRESS_def
      SHORT_PRESS_def)

end
