(* ===== verification/Recovery_Net.thy ===== *)
theory Recovery_Net
  imports Recovery_Manifest Recovery_Url Nvs
begin

text \<open>
  The network half of \<^verbatim>\<open>software/u64ctrl/main/recovery.c\<close>: requests with their redirects, asking a
  server for a manifest and checking it, going through the servers; and the trust it starts from,
  \<^verbatim>\<open>recovery_trust.c\<close>.  The HTTP client, the clock, the Wi-Fi connection, the NVS and the other task
  that may set \<open>cancelled\<close> are outside: a record of functions over a state \<open>'n\<close> of the world, which
  every use may change.  The body of a response is a finite list of events; a read takes at most as
  many bytes as it asks for, ends with no bytes, or fails.
\<close>

section \<open>The world outside\<close>

datatype net_event = Data "byte list" | ReadFails

record response =
  rs_code :: int
  rs_headers :: "(string \<times> string) list"
  rs_body :: "net_event list"

record 'n net =
  nt_init :: "string \<Rightarrow> 'n \<Rightarrow> bool \<times> 'n"
  nt_request :: "string \<Rightarrow> 'n \<Rightarrow> response option \<times> 'n"
  nt_set_url :: "string \<Rightarrow> 'n \<Rightarrow> bool \<times> 'n"
  nt_cancelled :: "'n \<Rightarrow> bool \<times> 'n"
  nt_delay :: "nat \<Rightarrow> 'n \<Rightarrow> 'n"
  nt_time :: "'n \<Rightarrow> int \<times> 'n"
  nt_connected :: "'n \<Rightarrow> bool \<times> 'n"
  nt_has_ip :: "'n \<Rightarrow> bool \<times> 'n"
  nt_autoconnect :: "'n \<Rightarrow> 'n"
  nt_idcode :: "'n \<Rightarrow> u32 \<times> 'n"
  nt_user_code :: "'n \<Rightarrow> u32 \<times> 'n"
  nt_nvs_open :: "string \<Rightarrow> bool \<Rightarrow> 'n \<Rightarrow> (esp_err + nat) \<times> 'n"
  nt_get_str :: "nat \<Rightarrow> string \<Rightarrow> nat \<Rightarrow> 'n \<Rightarrow> (esp_err + string) \<times> 'n"
  nt_set_str :: "nat \<Rightarrow> string \<Rightarrow> string \<Rightarrow> 'n \<Rightarrow> esp_err \<times> 'n"
  nt_erase_key :: "nat \<Rightarrow> string \<Rightarrow> 'n \<Rightarrow> esp_err \<times> 'n"
  nt_commit :: "nat \<Rightarrow> 'n \<Rightarrow> esp_err \<times> 'n"
  nt_close :: "nat \<Rightarrow> 'n \<Rightarrow> 'n"

datatype outcome =
    RECOVERY_DONE | FAIL_NETWORK | FAIL_NO_PACKAGE | FAIL_MANIFEST | FAIL_NO_FPGA | FAIL_BITSTREAM
  | FAIL_FPGA_START | FAIL_IMAGE | CANCELLED

definition outcome_number :: "outcome \<Rightarrow> nat" where
  "outcome_number outc =
     (case outc of RECOVERY_DONE \<Rightarrow> 0 | FAIL_NETWORK \<Rightarrow> 1 | FAIL_NO_PACKAGE \<Rightarrow> 2 | FAIL_MANIFEST \<Rightarrow> 3
      | FAIL_NO_FPGA \<Rightarrow> 4 | FAIL_BITSTREAM \<Rightarrow> 5 | FAIL_FPGA_START \<Rightarrow> 6 | FAIL_IMAGE \<Rightarrow> 7 | CANCELLED \<Rightarrow> 99)"

definition NO_SERIAL :: string where "NO_SERIAL = ''NOSERIAL''"
definition READ_SIZE :: nat where "READ_SIZE = 4096"
definition TIME_WAIT_MS :: nat where "TIME_WAIT_MS = 10000"
definition NETWORK_WAIT_MS :: nat where "NETWORK_WAIT_MS = 30000"
definition IDENT_MAJOR :: int where "IDENT_MAJOR = 1"
definition IDENT_MINOR :: int where "IDENT_MINOR = 21"

section \<open>What is trusted\<close>

definition recovery_builtin_servers :: "string list" where
  "recovery_builtin_servers = [''https://recovery.ultimate64.com'', ''https://ultimate64.ddns.net'']"

definition recovery_trusted_keys :: "string list" where
  "recovery_trusted_keys =
     [''-----BEGIN PUBLIC KEY-----'' @ [LF] @
      ''MFkwEwYHKoZIzj0CAQYIKoZIzj0DAQcDQgAElCd1fKZwiUF1JfyVLz8y5Fx1Dif3'' @ [LF] @
      ''PzRc4zbUGZflm0CliyoxVcVatZlo/cl6AaECEcEXgXoyUgrQjzq66Oc9+A=='' @ [LF] @
      ''-----END PUBLIC KEY-----'' @ [LF],
      ''-----BEGIN PUBLIC KEY-----'' @ [LF] @
      ''MFkwEwYHKoZIzj0CAQYIKoZIzj0DAQcDQgAELKP74PhX3cVJc8X1y+PlOBasXxF3'' @ [LF] @
      ''Qj3cOZxztAv+AdGXm3yEuZ7l8CELNMxwTc1OExvnuu1rbkN2XpNTjRrK/A=='' @ [LF] @
      ''-----END PUBLIC KEY-----'' @ [LF]]"

section \<open>The stored server and serial\<close>

definition recovery_get_url :: "'n net \<Rightarrow> nat \<Rightarrow> 'n \<Rightarrow> (esp_err \<times> string) \<times> 'n" where
  "recovery_get_url nt sz n =
     (let (err, out, n2) =
        (case nt_nvs_open nt ''recovery'' False n of
           (Inl e, n1) \<Rightarrow> (e, [], n1)
         | (Inr handle, n1) \<Rightarrow>
             (case nt_get_str nt handle ''url'' sz n1 of
                (Inl e, n2) \<Rightarrow> (e, [], nt_close nt handle n2)
              | (Inr str, n2) \<Rightarrow> (ESP_OK, str, nt_close nt handle n2)))
      in if err = ESP_ERR_NVS_NOT_FOUND then ((ESP_OK, []), n2)
         else if err \<noteq> ESP_OK then ((err, []), n2) else ((err, out), n2))"

definition recovery_set_url :: "'n net \<Rightarrow> string \<Rightarrow> 'n \<Rightarrow> esp_err \<times> 'n" where
  "recovery_set_url nt new_url n =
     (if \<not> recovery_url_valid new_url then (ESP_ERR_INVALID_ARG, n)
      else case recovery_get_url nt (RECOVERY_URL_MAX + 1) n of
        ((got, current), n1) \<Rightarrow>
          if got = ESP_OK \<and> current = new_url then (ESP_OK, n1)
          else case nt_nvs_open nt ''recovery'' True n1 of
            (Inl err, n2) \<Rightarrow> (err, n2)
          | (Inr handle, n2) \<Rightarrow>
              (case (if new_url \<noteq> [] then nt_set_str nt handle ''url'' new_url n2
                     else case nt_erase_key nt handle ''url'' n2 of
                            (err, n3) \<Rightarrow> (if err = ESP_ERR_NVS_NOT_FOUND then ESP_OK else err, n3)) of
                 (err, n3) \<Rightarrow>
                   (case (if err = ESP_OK then nt_commit nt handle n3 else (err, n3)) of
                      (err', n4) \<Rightarrow> (err', nt_close nt handle n4))))"

definition read_serial :: "'n net \<Rightarrow> nat \<Rightarrow> 'n \<Rightarrow> string \<times> 'n" where
  "read_serial nt sz n =
     (case nt_nvs_open nt ''board'' False n of
        (Inl e, n1) \<Rightarrow> (take (sz - 1) NO_SERIAL, n1)
      | (Inr handle, n1) \<Rightarrow>
          (case nt_get_str nt handle ''serial'' sz n1 of
             (Inl e, n2) \<Rightarrow> (take (sz - 1) NO_SERIAL, nt_close nt handle n2)
           | (Inr serial, n2) \<Rightarrow>
               (if serial = [] then take (sz - 1) NO_SERIAL else serial, nt_close nt handle n2)))"

section \<open>Requests\<close>

text \<open>One read of a body: at most \<open>k\<close> bytes, no bytes at its end, or a failure (\<open>None\<close>), with what is
  left of the body.\<close>

fun client_read :: "nat \<Rightarrow> net_event list \<Rightarrow> byte list option \<times> net_event list" where
  "client_read k [] = (Some [], [])"
| "client_read k (ReadFails # es) = (None, es)"
| "client_read k (Data bs # es) =
     (if bs = [] then client_read k es
      else (Some (take k bs), if length bs \<le> k then es else Data (drop k bs) # es))"

definition to_lower_char :: "char \<Rightarrow> char" where
  "to_lower_char c = (if CHR ''A'' \<le> c \<and> c \<le> CHR ''Z'' then char_of (of_char c + 32 :: nat) else c)"

definition strcasecmp_equal :: "string \<Rightarrow> string \<Rightarrow> bool" where
  "strcasecmp_equal a b \<longleftrightarrow> List.map to_lower_char a = List.map to_lower_char b"

definition on_http_event :: "string \<times> string \<Rightarrow> string \<Rightarrow> string" where
  "on_http_event kv location =
     (if strcasecmp_equal (fst kv) ''Location'' then take 255 (snd kv) else location)"

definition is_redirect :: "int \<Rightarrow> bool" where
  "is_redirect code \<longleftrightarrow> code = 301 \<or> code = 302 \<or> code = 303 \<or> code = 307 \<or> code = 308"

text \<open>The rounds of \<open>http_open\<close> that are left.  Draining the body of a redirect reads it to its end and
  drops it; the headers of a response are delivered to \<open>on_http_event\<close> in order, with the location
  empty before.  The answer is the status, the URL the body came from, and the body.\<close>

fun http_rounds :: "'n net \<Rightarrow> nat \<Rightarrow> string \<Rightarrow> string \<Rightarrow> 'n \<Rightarrow> (int \<times> string \<times> net_event list) option \<times> 'n" where
  "http_rounds nt 0 client_url current n = (None, n)"
| "http_rounds nt (Suc k) client_url current n =
     (case nt_request nt client_url n of
        (None, n1) \<Rightarrow> (None, n1)
      | (Some resp, n1) \<Rightarrow>
          let location = fold on_http_event (rs_headers resp) []
          in if is_redirect (rs_code resp)
             then
               if location = [] then (None, n1)
               else case recovery_url_resolve 256 current location of
                      None \<Rightarrow> (None, n1)
                    | Some next \<Rightarrow>
                        (case nt_set_url nt next n1 of (accepted, n2) \<Rightarrow>
                           if \<not> accepted then (None, n2) else http_rounds nt k next next n2)
             else (Some (rs_code resp, current, rs_body resp), n1))"

definition http_open :: "'n net \<Rightarrow> string \<Rightarrow> 'n \<Rightarrow> (int \<times> string \<times> net_event list) option \<times> 'n" where
  "http_open nt get_url n =
     (case nt_init nt get_url n of (made, n1) \<Rightarrow>
        if \<not> made then (None, n1) else http_rounds nt 5 get_url (take 255 get_url) n1)"

section \<open>The manifest\<close>

definition chars_of :: "byte list \<Rightarrow> string" where
  "chars_of bs = List.map (\<lambda>b. char_of (unat b)) bs"

text \<open>The wait for the clock; \<open>k\<close> rounds are left of the \<open>TIME_WAIT_MS\<close>.\<close>

primrec time_rounds :: "'n net \<Rightarrow> nat \<Rightarrow> 'n \<Rightarrow> 'n" where
  "time_rounds nt 0 n = n"
| "time_rounds nt (Suc k) n =
     (case nt_time nt n of (t, n1) \<Rightarrow>
        if \<not> t < 1704067200 then n1
        else case nt_cancelled nt n1 of (c, n2) \<Rightarrow>
               if c then n2 else time_rounds nt k (nt_delay nt 250 n2))"

definition wait_for_time :: "'n net \<Rightarrow> string \<Rightarrow> 'n \<Rightarrow> 'n" where
  "wait_for_time nt server n =
     (if \<not> starts_with ''https://'' server then n else time_rounds nt (TIME_WAIT_MS div 250) n)"

lemma client_read_size:
  "client_read k es = (Some bs, es') \<Longrightarrow> length bs \<le> k"
  by (induction es rule: client_read.induct) (auto split: if_splits)

text \<open>The loop that fills \<open>manifest_text\<close>.\<close>

function read_manifest :: "byte list \<Rightarrow> net_event list \<Rightarrow> byte list" where
  "read_manifest got body =
     (if length got < RECOVERY_MANIFEST_MAX_SIZE + 1
      then
        case client_read (RECOVERY_MANIFEST_MAX_SIZE + 1 - length got) body of
          (None, body') \<Rightarrow> got
        | (Some bs, body') \<Rightarrow> if bs = [] then got else read_manifest (got @ bs) body'
      else got)"
  by pat_completeness auto
termination
  by (relation "measure (\<lambda>(got, body). RECOVERY_MANIFEST_MAX_SIZE + 1 - length got)")
    (auto simp flip: length_greater_0_conv)

text \<open>What \<open>ask_server\<close> makes of the text it read.\<close>

definition check_manifest ::
  "'key crypto \<Rightarrow> string list \<Rightarrow> string \<Rightarrow> u32 \<Rightarrow> string \<Rightarrow> manifest option" where
  "check_manifest cr keys serial idcode manifest_text =
     (case recovery_manifest_split manifest_text of
        Inl r \<Rightarrow> None
      | Inr sig \<Rightarrow>
          if recovery_manifest_verify cr manifest_text sig keys \<noteq> RECOVERY_OK then None
          else case recovery_manifest_parse (take (signed_len sig) manifest_text) of
                 Inl r \<Rightarrow> None
               | Inr m \<Rightarrow> if recovery_manifest_for_board m idcode serial then Some m else None)"

text \<open>The answer has the manifest and the URL it came from (\<open>manifest_url\<close>) when it is
  \<open>RECOVERY_DONE\<close>.\<close>

definition ask_server ::
  "'n net \<Rightarrow> 'key crypto \<Rightarrow> string list \<Rightarrow> string \<Rightarrow> string \<Rightarrow> u32 \<Rightarrow> 'n \<Rightarrow>
   (outcome \<times> (manifest \<times> string) option) \<times> 'n" where
  "ask_server nt cr keys server serial idcode n0 =
     (let n = wait_for_time nt server n0
      in case recovery_request_url 256 server serial idcode IDENT_MAJOR IDENT_MINOR of
           None \<Rightarrow> ((FAIL_NO_PACKAGE, None), n)
         | Some url \<Rightarrow>
             (case http_open nt url n of
                (None, n1) \<Rightarrow> ((FAIL_NO_PACKAGE, None), n1)
              | (Some (status, final_url, body), n1) \<Rightarrow>
                  if status \<noteq> 200 then ((FAIL_NO_PACKAGE, None), n1)
                  else
                    case check_manifest cr keys serial idcode (chars_of (read_manifest [] body)) of
                      None \<Rightarrow> ((FAIL_MANIFEST, None), n1)
                    | Some m \<Rightarrow> ((RECOVERY_DONE, Some (m, take 255 final_url)), n1)))"

text \<open>The loop of \<open>find_package\<close> over the servers that are left; both ways out of it ask for
  \<open>cancelled\<close> again.\<close>

primrec server_rounds ::
  "'n net \<Rightarrow> 'key crypto \<Rightarrow> string list \<Rightarrow> string \<Rightarrow> u32 \<Rightarrow> string list \<Rightarrow> outcome \<Rightarrow> 'n \<Rightarrow>
   (outcome \<times> (manifest \<times> string) option) \<times> 'n" where
  "server_rounds nt cr keys serial idcode [] worst n =
     (case nt_cancelled nt n of (stop, n1) \<Rightarrow>
        case nt_cancelled nt n1 of (c, n2) \<Rightarrow> ((if c then CANCELLED else worst, None), n2))"
| "server_rounds nt cr keys serial idcode (server # servers) worst n =
     (case nt_cancelled nt n of (stop, n1) \<Rightarrow>
        if stop
        then case nt_cancelled nt n1 of (c, n2) \<Rightarrow> ((if c then CANCELLED else worst, None), n2)
        else if server = [] then server_rounds nt cr keys serial idcode servers worst n1
        else case ask_server nt cr keys server serial idcode n1 of
               ((outc, found), n2) \<Rightarrow>
                 if outc = RECOVERY_DONE then ((outc, found), n2)
                 else server_rounds nt cr keys serial idcode servers
                        (if outc = FAIL_MANIFEST then outc else worst) n2)"

definition find_package ::
  "'n net \<Rightarrow> 'key crypto \<Rightarrow> string list \<Rightarrow> string list \<Rightarrow> string \<Rightarrow> u32 \<Rightarrow> 'n \<Rightarrow>
   (outcome \<times> (manifest \<times> string) option) \<times> 'n" where
  "find_package nt cr keys servers serial idcode n =
     (case recovery_get_url nt (RECOVERY_URL_MAX + 1) n of ((err, configured), n1) \<Rightarrow>
        server_rounds nt cr keys serial idcode (configured # servers) FAIL_NO_PACKAGE n1)"

section \<open>The network\<close>

primrec network_rounds :: "'n net \<Rightarrow> nat \<Rightarrow> 'n \<Rightarrow> bool \<times> 'n" where
  "network_rounds nt 0 n = (False, n)"
| "network_rounds nt (Suc k) n =
     (case nt_cancelled nt n of (c, n1) \<Rightarrow>
        if c then (False, n1)
        else case nt_connected nt n1 of (up, n2) \<Rightarrow>
               case (if up then nt_has_ip nt n2 else (False, n2)) of (ready, n3) \<Rightarrow>
                 if ready then (True, n3) else network_rounds nt k (nt_delay nt 250 n3))"

definition wait_for_network :: "'n net \<Rightarrow> 'n \<Rightarrow> bool \<times> 'n" where
  "wait_for_network nt n =
     (case nt_connected nt n of (up, n1) \<Rightarrow>
        network_rounds nt (NETWORK_WAIT_MS div 250) (if up then n1 else nt_autoconnect nt n1))"

section \<open>Redirects\<close>

text \<open>A site answers every URL in one way; the URL reached after \<open>k\<close> redirects.\<close>

fun hops :: "(string \<Rightarrow> response option) \<Rightarrow> nat \<Rightarrow> string \<Rightarrow> string option" where
  "hops site 0 u = Some u"
| "hops site (Suc k) u =
     (case site u of
        None \<Rightarrow> None
      | Some r \<Rightarrow>
          let location = fold on_http_event (rs_headers r) []
          in if is_redirect (rs_code r) \<and> location \<noteq> []
             then (case recovery_url_resolve 256 u location of None \<Rightarrow> None | Some v \<Rightarrow> hops site k v)
             else None)"

definition answers :: "(string \<Rightarrow> response option) \<Rightarrow> string \<Rightarrow> int \<times> net_event list \<Rightarrow> bool" where
  "answers site v a \<longleftrightarrow> (\<exists>r. site v = Some r \<and> \<not> is_redirect (rs_code r) \<and> a = (rs_code r, rs_body r))"

lemma ex_less_Suc: "(\<exists>k < Suc n. P k) \<longleftrightarrow> P 0 \<or> (\<exists>k < n. P (Suc k))"
  by (metis not0_implies_Suc Suc_less_eq zero_less_Suc)

lemma http_rounds_site:
  assumes site: "\<And>u n. nt_request nt u n = (site u, n)" and set: "\<And>u n. nt_set_url nt u n = (True, n)"
  shows "fst (http_rounds nt K u u n) = Some (c, v, b) \<longleftrightarrow>
    (\<exists>k < K. hops site k u = Some v \<and> answers site v (c, b))"
proof (induction K arbitrary: u)
  case (Suc K)
  show ?case
  proof (cases "site u")
    case None
    then show ?thesis unfolding ex_less_Suc by (auto simp: site answers_def)
  next
    case (Some r)
    let ?loc = "fold on_http_event (rs_headers r) []"
    show ?thesis
    proof (cases "is_redirect (rs_code r)")
      case False
      then show ?thesis
        unfolding ex_less_Suc using Some by (auto simp: site answers_def)
    next
      case True
      show ?thesis
        using Some True Suc.IH unfolding ex_less_Suc
        by (cases "recovery_url_resolve 256 u ?loc") (auto simp: site set answers_def Let_def)
    qed
  qed
qed simp

text \<open>C35: A request follows redirects exactly: it ends at a URL, with the answer given there, if and only
  if that URL is reached by at most four redirects, each resolved against the URL that sent it, and
  is not redirected itself.\<close>

theorem http_open_follows_redirects:
  assumes "\<And>u n. nt_init nt u n = (True, n)" "\<And>u n. nt_request nt u n = (site u, n)"
    "\<And>u n. nt_set_url nt u n = (True, n)" "length u \<le> 255"
  shows "fst (http_open nt u n) = Some (c, v, b) \<longleftrightarrow>
    (\<exists>k \<le> 4. hops site k u = Some v \<and> answers site v (c, b))"
proof -
  have "(\<exists>k \<le> 4. hops site k u = Some v \<and> answers site v (c, b)) \<longleftrightarrow>
      (\<exists>k < 5. hops site k u = Some v \<and> answers site v (c, b))"
    by (rule ex_cong1) auto
  then show ?thesis
    using http_rounds_site [of nt site 5 u n c v b] assms by (simp add: http_open_def)
qed

definition moved_site :: "string \<Rightarrow> response option" where
  "moved_site u =
     (if u = ''http://a/x'' then Some \<lparr>rs_code = 302, rs_headers = [(''location'', ''/y'')], rs_body = []\<rparr>
      else if u = ''http://a/y'' then Some \<lparr>rs_code = 200, rs_headers = [], rs_body = [Data [7]]\<rparr>
      else None)"

definition moved_net :: "unit net" where
  "moved_net =
     \<lparr>nt_init = \<lambda>u n. (True, n), nt_request = \<lambda>u n. (moved_site u, n), nt_set_url = \<lambda>u n. (True, n),
      nt_cancelled = \<lambda>n. (False, n), nt_delay = \<lambda>ms n. n,
      nt_time = \<lambda>n. (0, n), nt_connected = \<lambda>n. (True, n), nt_has_ip = \<lambda>n. (True, n),
      nt_autoconnect = \<lambda>n. n, nt_idcode = \<lambda>n. (0, n), nt_user_code = \<lambda>n. (1, n),
      nt_nvs_open = \<lambda>ns w n. (Inl ESP_ERR_NVS_NOT_FOUND, n),
      nt_get_str = \<lambda>h k sz n. (Inl ESP_ERR_NVS_NOT_FOUND, n), nt_set_str = \<lambda>h k v n. (ESP_OK, n),
      nt_erase_key = \<lambda>h k n. (ESP_OK, n), nt_commit = \<lambda>h n. (ESP_OK, n), nt_close = \<lambda>h n. n\<rparr>"

lemma moved_hop: "hops moved_site 1 ''http://a/x'' = Some ''http://a/y''"
  by code_simp

theorem http_open_follows_redirects_witness:
  "fst (http_open moved_net ''http://a/x'' ()) = Some (200, ''http://a/y'', [Data [7]])"
  by (subst http_open_follows_redirects [where site = moved_site], simp_all add: moved_net_def)
    (rule exI [of _ 1], use moved_hop in \<open>simp add: answers_def moved_site_def is_redirect_def\<close>)

end
