(* ===== verification/Recovery_Load.thy ===== *)
theory Recovery_Load
  imports Recovery_Net Image_Correct
begin

text \<open>
  The loading half of \<^verbatim>\<open>software/u64ctrl/main/recovery.c\<close>: streaming a file while checking its size and
  hash, shifting the bitstream with its last bytes held back, writing the image into the memory of
  the machine in blocks, and the whole recovery.  What the hardware is told is recorded in order; the
  files come through the network of \<open>Recovery_Net\<close>.  The digest of the streamed bytes is a parameter:
  the context of mbedtls is the list of bytes it was given.
\<close>

section \<open>Constants and the hardware\<close>

definition LOAD_MIN :: u32 where "LOAD_MIN = 0x00010000"
definition LOAD_MAX :: u32 where "LOAD_MAX = 0x04000000"
definition IMAGE_FAMILY :: "byte list" where
  "IMAGE_FAMILY = List.map (\<lambda>c. of_nat (of_char c)) ''U64MK2''"
definition BOOT_MAGIC_ADDR :: u32 where "BOOT_MAGIC_ADDR = 0x0000FFF8"
definition BOOT_MAGIC :: u32 where "BOOT_MAGIC = 0x1571BABE"
definition CPU_RESET :: byte where "CPU_RESET = 0x80"
definition FPGA_HOLDBACK :: nat where "FPGA_HOLDBACK = 4096"
definition BLOCK_SIZE :: nat where "BLOCK_SIZE = 16384"
definition BLOCK_PAD :: nat where "BLOCK_PAD = 8"
definition YIELD_EVERY :: nat where "YIELD_EVERY = 256 * 1024"

datatype hw =
    JtagStart | JtagStop | FpgaBegin | FpgaShift "byte list" | FpgaFinish "byte list" | FpgaClear
  | SetOutputs byte | WriteMemory u32 "byte list"

section \<open>Streaming a file\<close>

text \<open>A sink takes the offset and the bytes; it answers whether to go on.  It may not return (\<open>None\<close>).\<close>

type_synonym 'c sink = "'c \<Rightarrow> nat \<Rightarrow> byte list \<Rightarrow> (bool \<times> 'c) option"

text \<open>The loop of \<open>stream_file\<close>; \<open>got\<close> is what the digest was given, so its length is \<open>total\<close>.\<close>

function stream_loop ::
  "'n net \<Rightarrow> nat \<Rightarrow> 'c sink \<Rightarrow> 'c \<Rightarrow> byte list \<Rightarrow> nat \<Rightarrow> net_event list \<Rightarrow> 'n \<Rightarrow>
   ((bool \<times> byte list \<times> 'c) \<times> 'n) option" where
  "stream_loop nt sz sink c got since_yield body n =
     (case nt_cancelled nt n of (stop, n1) \<Rightarrow>
        if stop then Some ((True, got, c), n1)
        else case client_read READ_SIZE body of
          (None, body') \<Rightarrow> Some ((False, got, c), n1)
        | (Some bs, body') \<Rightarrow>
            if bs = [] then Some ((True, got, c), n1)
            else if length bs > sz - length got then Some ((False, got, c), n1)
            else
              case sink c (length got) bs of
                None \<Rightarrow> None
              | Some (ok, c') \<Rightarrow>
                  (let yield = (since_yield + length bs \<ge> YIELD_EVERY);
                       since' = (if yield then 0 else since_yield + length bs);
                       n2 = (if yield then nt_delay nt 1 n1 else n1)
                   in if ok then stream_loop nt sz sink c' (got @ bs) since' body' n2
                      else Some ((False, got @ bs, c'), n2)))"
  by pat_completeness auto
termination
  by (relation "measure (\<lambda>(nt, sz, sink, c, got, y, body, n). sz - length got)")
    (auto simp flip: length_greater_0_conv)

text \<open>\<open>sha\<close> is the digest of the bytes streamed.\<close>

definition stream_file ::
  "'n net \<Rightarrow> (byte list \<Rightarrow> byte list) \<Rightarrow> string \<Rightarrow> recovery_file \<Rightarrow> 'c sink \<Rightarrow> 'c \<Rightarrow> 'n \<Rightarrow>
   ((bool \<times> 'c) \<times> 'n) option" where
  "stream_file nt sha get_url file sink c n =
     (case http_open nt get_url n of
        (None, n1) \<Rightarrow> Some ((False, c), n1)
      | (Some (status, final_url, body), n1) \<Rightarrow>
          if status \<noteq> 200 then Some ((False, c), n1)
          else
            case stream_loop nt (unat (rf_size file)) sink c [] 0 body n1 of
              None \<Rightarrow> None
            | Some ((ok, got, c'), n2) \<Rightarrow>
                (case nt_cancelled nt n2 of (stop, n3) \<Rightarrow>
                   if stop then Some ((False, c'), n3)
                   else Some ((ok \<and> length got = unat (rf_size file) \<and> sha got = rf_sha256 file, c'), n3)))"

section \<open>The bitstream\<close>

record fpga_load =
  fl_size :: nat
  fl_shift_limit :: nat
  fl_tail :: "byte list"
  fl_hw :: "hw list"

definition fpga_sink :: "fpga_load sink" where
  "fpga_sink f offset bytes =
     (let now = (if offset < fl_shift_limit f then min (fl_shift_limit f - offset) (length bytes) else 0);
          f1 = (if offset < fl_shift_limit f
                then f\<lparr>fl_hw := fl_hw f @ [FpgaShift (take now bytes)]\<rparr> else f);
          rest = drop now bytes
      in Some (True, if rest \<noteq> []
                     then f1\<lparr>fl_tail := blit (offset + now - fl_shift_limit f) rest (fl_tail f1)\<rparr>
                     else f1))"

text \<open>The state of the recovery: the world, what the hardware was told, and the static buffer
  \<open>fpga_tail\<close>.\<close>

record 'n rec_state =
  rc_net :: 'n
  rc_hw :: "hw list"
  rc_tail :: "byte list"

definition tell :: "hw \<Rightarrow> 'n rec_state \<Rightarrow> 'n rec_state" where
  "tell a s = s\<lparr>rc_hw := rc_hw s @ [a]\<rparr>"

definition load_bitstream ::
  "'n net \<Rightarrow> (byte list \<Rightarrow> byte list) \<Rightarrow> manifest \<Rightarrow> string \<Rightarrow> 'n rec_state \<Rightarrow>
   (outcome \<times> 'n rec_state) option" where
  "load_bitstream nt sha m manifest_url s =
     (case recovery_file_url 256 manifest_url (rf_name (mf_fpga m)) of
        None \<Rightarrow> Some (FAIL_BITSTREAM, s)
      | Some url \<Rightarrow>
          let sz = unat (rf_size (mf_fpga m));
              limit = (if sz > FPGA_HOLDBACK then sz - FPGA_HOLDBACK else 0);
              s1 = tell FpgaBegin s
          in case stream_file nt sha url (mf_fpga m) fpga_sink
                 \<lparr>fl_size = sz, fl_shift_limit = limit, fl_tail = rc_tail s1, fl_hw = rc_hw s1\<rparr> (rc_net s1) of
               None \<Rightarrow> None
             | Some ((ok, f), n1) \<Rightarrow>
                 (let s2 = \<lparr>rc_net = n1, rc_hw = fl_hw f, rc_tail = fl_tail f\<rparr>
                  in if \<not> ok
                     then let s3 = tell FpgaClear s2
                          in case nt_cancelled nt (rc_net s3) of (stop, n2) \<Rightarrow>
                               Some (if stop then CANCELLED else FAIL_BITSTREAM, s3\<lparr>rc_net := n2\<rparr>)
                     else
                       let s3 = tell (FpgaFinish (take (sz - limit) (rc_tail s2))) s2
                       in case nt_user_code nt (nt_delay nt 1000 (rc_net s3)) of (user, n2) \<Rightarrow>
                            let s4 = s3\<lparr>rc_net := n2\<rparr>
                            in if user = 0 \<or> user = 0xFFFFFFFF
                               then Some (FAIL_FPGA_START, tell FpgaClear s4)
                               else Some (RECOVERY_DONE, s4)))"

section \<open>The image\<close>

text \<open>The part of \<open>image_load_t\<close> behind the reader: where the block goes, and the bytes in the static
  \<open>block\<close>; the writes made so far come with it.\<close>

record block_ctx =
  bc_addr :: u32
  bc_block :: "byte list"
  bc_hw :: "hw list"

definition flush_block :: "block_ctx \<Rightarrow> block_ctx" where
  "flush_block im =
     (if bc_block im \<noteq> []
      then im\<lparr>bc_hw := bc_hw im @ [WriteMemory (bc_addr im) (bc_block im @ replicate BLOCK_PAD 0)],
              bc_block := []\<rparr>
      else im)"

text \<open>The loop of \<open>write_memory\<close>.  A round takes at least one byte while the block is not full, which
  it never is between rounds, so as many rounds as there are bytes are enough.\<close>

primrec write_rounds :: "nat \<Rightarrow> block_ctx \<Rightarrow> u32 \<Rightarrow> byte list \<Rightarrow> block_ctx" where
  "write_rounds 0 im addr bytes = im"
| "write_rounds (Suc k) im addr bytes =
     (if bytes = [] then im
      else
        let im1 = (if bc_block im = [] then im\<lparr>bc_addr := addr\<rparr> else im);
            now = min (BLOCK_SIZE - length (bc_block im1)) (length bytes);
            im2 = im1\<lparr>bc_block := bc_block im1 @ take now bytes\<rparr>;
            im3 = (if length (bc_block im2) = BLOCK_SIZE then flush_block im2 else im2)
        in write_rounds k im3 (addr + of_nat now) (drop now bytes))"

definition write_memory :: "block_ctx image_writer" where
  "write_memory im addr bytes =
     (let im1 = (if bc_block im \<noteq> [] \<and> addr \<noteq> bc_addr im + of_nat (length (bc_block im))
                 then flush_block im else im)
      in (True, write_rounds (length bytes) im1 addr bytes))"

definition image_sink :: "block_ctx image sink" where
  "image_sink im offset bytes =
     (case recovery_image_feed im bytes of
        None \<Rightarrow> None
      | Some (r, im') \<Rightarrow> Some (r = RECOVERY_IMAGE_OK, im'))"

definition load_image ::
  "'n net \<Rightarrow> (byte list \<Rightarrow> byte list) \<Rightarrow> manifest \<Rightarrow> string \<Rightarrow> 'n rec_state \<Rightarrow>
   (outcome \<times> 'n rec_state) option" where
  "load_image nt sha m manifest_url s =
     (case recovery_file_url 256 manifest_url (rf_name (mf_image m)) of
        None \<Rightarrow> Some (FAIL_IMAGE, s)
      | Some url \<Rightarrow>
          let s1 = tell (SetOutputs CPU_RESET) s;
              im = recovery_image_init LOAD_MIN LOAD_MAX (Some IMAGE_FAMILY) write_memory
                     \<lparr>bc_addr = 0, bc_block = [], bc_hw = rc_hw s1\<rparr>
          in case stream_file nt sha url (mf_image m) image_sink im (rc_net s1) of
               None \<Rightarrow> None
             | Some ((ok, im1), n1) \<Rightarrow>
                 (let im2 = (if ok then im1\<lparr>im_ctx := flush_block (im_ctx im1)\<rparr> else im1);
                      s2 = s1\<lparr>rc_net := n1, rc_hw := bc_hw (im_ctx im2)\<rparr>
                  in case (if ok then recovery_image_finish im2 else Inl RECOVERY_IMAGE_ERR_FAILED) of
                       Inl r \<Rightarrow>
                         (let s3 = tell FpgaClear s2
                          in case nt_cancelled nt (rc_net s3) of (stop, n2) \<Rightarrow>
                               Some (if stop then CANCELLED else FAIL_IMAGE, s3\<lparr>rc_net := n2\<rparr>))
                     | Inr start \<Rightarrow>
                         (let s3 = tell (SetOutputs 0)
                                (tell (WriteMemory BOOT_MAGIC_ADDR (le32_bytes start @ le32_bytes BOOT_MAGIC)) s2)
                          in case nt_user_code nt (rc_net s3) of (user, n2) \<Rightarrow>
                               Some (RECOVERY_DONE, s3\<lparr>rc_net := n2\<rparr>))))"

section \<open>The recovery\<close>

definition recover ::
  "'n net \<Rightarrow> 'key crypto \<Rightarrow> (byte list \<Rightarrow> byte list) \<Rightarrow> 'n rec_state \<Rightarrow>
   (outcome \<times> 'n rec_state) option" where
  "recover nt cr sha s0 =
     (let s1 = tell JtagStart (s0\<lparr>rc_net := nt_delay nt 500 (rc_net s0)\<rparr>)
      in case nt_idcode nt (rc_net s1) of (idcode, n1) \<Rightarrow>
         let s2 = tell JtagStop (s1\<lparr>rc_net := n1\<rparr>)
         in case read_serial nt 16 (rc_net s2) of (serial, n2) \<Rightarrow>
            if idcode AND 0xFFF \<noteq> 0x093 then Some (FAIL_NO_FPGA, s2\<lparr>rc_net := n2\<rparr>)
            else case wait_for_network nt n2 of (online, n3) \<Rightarrow>
              if \<not> online
              then case nt_cancelled nt n3 of (stop, n4) \<Rightarrow>
                     Some (if stop then CANCELLED else FAIL_NETWORK, s2\<lparr>rc_net := n4\<rparr>)
              else
                case find_package nt cr recovery_trusted_keys recovery_builtin_servers serial idcode n3 of
                  ((outc, None), n4) \<Rightarrow> Some (outc, s2\<lparr>rc_net := n4\<rparr>)
                | ((outc, Some (m, manifest_url)), n4) \<Rightarrow>
                    (case load_bitstream nt sha m manifest_url (tell JtagStart (s2\<lparr>rc_net := n4\<rparr>)) of
                       None \<Rightarrow> None
                     | Some (o1, s3) \<Rightarrow>
                         (case (if o1 = RECOVERY_DONE then load_image nt sha m manifest_url s3
                                else Some (o1, s3)) of
                            None \<Rightarrow> None
                          | Some (o2, s4) \<Rightarrow> Some (o2, tell JtagStop s4))))"

end
