(* ===== verification/Recovery_Memory.thy ===== *)
theory Recovery_Memory
  imports Recovery_Load
begin

text \<open>
  What the block writer of \<open>Recovery_Load\<close> leaves in the memory of the machine.  It gathers bytes at
  consecutive addresses into blocks and writes every block with eight zero bytes behind it; the
  abstract view of its state is the memory the writes so far left, with the pending block laid over
  it.  It keeps the contract of the reader's callback (\<open>piecewise_writer\<close>), and for an image whose
  records ascend the memory holds exactly the records.
\<close>

section \<open>Memory\<close>

type_synonym memory = "nat \<Rightarrow> byte"

definition overlay :: "nat \<Rightarrow> byte list \<Rightarrow> memory \<Rightarrow> memory" where
  "overlay a bs m = (\<lambda>x. if a \<le> x \<and> x < a + length bs then bs ! (x - a) else m x)"

fun hw_effect :: "memory \<Rightarrow> hw \<Rightarrow> memory" where
  "hw_effect m (WriteMemory a bs) = overlay (unat a) bs m"
| "hw_effect m _ = m"

definition memory_after :: "hw list \<Rightarrow> memory \<Rightarrow> memory" where
  "memory_after hws m = foldl hw_effect m hws"

lemma memory_after_simps [simp]:
  "memory_after [] m = m"
  "memory_after (hws @ [h]) m = hw_effect (memory_after hws m) h"
  by (simp_all add: memory_after_def)

lemma overlay_Nil [simp]: "overlay a [] m = m"
  by (rule ext) (auto simp: overlay_def)

lemma overlay_outside: "\<not> (a \<le> x \<and> x < a + length bs) \<Longrightarrow> overlay a bs m x = m x"
  by (auto simp: overlay_def)

lemma overlay_append: "overlay a (xs @ ys) m = overlay (a + length xs) ys (overlay a xs m)"
  by (auto simp: overlay_def fun_eq_iff nth_append)

text \<open>The state of the block writer: what the memory holds once the pending block is in it.\<close>

definition block_view :: "block_ctx \<Rightarrow> memory \<Rightarrow> memory" where
  "block_view c m = overlay (unat (bc_addr c)) (bc_block c) (memory_after (bc_hw c) m)"

definition block_end :: "block_ctx \<Rightarrow> nat" where
  "block_end c = unat (bc_addr c) + length (bc_block c)"

definition block_small :: "block_ctx \<Rightarrow> bool" where
  "block_small c \<longleftrightarrow> length (bc_block c) < BLOCK_SIZE"

lemma flush_block_fields [simp]:
  "bc_block (flush_block c) = []" "bc_addr (flush_block c) = bc_addr c"
  by (simp_all add: flush_block_def)

lemma flush_small [simp]: "block_small (flush_block c)"
  by (simp add: block_small_def BLOCK_SIZE_def)

lemma flush_view:
  "block_view (flush_block c) m x =
    (if bc_block c \<noteq> [] \<and> block_end c \<le> x \<and> x < block_end c + BLOCK_PAD then 0 else block_view c m x)"
  by (auto simp: block_view_def flush_block_def overlay_append block_end_def)
    (auto simp: overlay_def)

section \<open>The contract of the callback\<close>

text \<open>A round of \<open>write_memory\<close>, and the rounds to the end of the bytes.\<close>

definition write_round :: "block_ctx \<Rightarrow> u32 \<Rightarrow> nat \<Rightarrow> byte list \<Rightarrow> block_ctx" where
  "write_round im addr now bytes =
     (let im1 = (if bc_block im = [] then im\<lparr>bc_addr := addr\<rparr> else im);
          im2 = im1\<lparr>bc_block := bc_block im1 @ take now bytes\<rparr>
      in if length (bc_block im2) = BLOCK_SIZE then flush_block im2 else im2)"

definition round_size :: "block_ctx \<Rightarrow> byte list \<Rightarrow> nat" where
  "round_size c bytes = min (BLOCK_SIZE - length (bc_block c)) (length bytes)"

lemma write_rounds_Suc:
  "bytes \<noteq> [] \<Longrightarrow> write_rounds (Suc k) c addr bytes =
    write_rounds k (write_round c addr (round_size c bytes) bytes)
      (addr + of_nat (round_size c bytes)) (drop (round_size c bytes) bytes)"
  by (simp add: write_round_def round_size_def Let_def)

declare write_rounds.simps(2) [simp del]

lemma write_rounds_Nil [simp]: "write_rounds k c addr [] = c"
  by (cases k) (simp_all add: write_rounds.simps)

lemma write_round_small:
  "block_small c \<Longrightarrow> now \<le> BLOCK_SIZE - length (bc_block c) \<Longrightarrow> now \<le> length bytes \<Longrightarrow>
    block_small (write_round c addr now bytes)"
  by (auto simp: write_round_def Let_def block_small_def)

lemma round_size_pos: "block_small c \<Longrightarrow> bytes \<noteq> [] \<Longrightarrow> 0 < round_size c bytes"
  by (simp add: round_size_def block_small_def)

lemma round_size_bounds:
  "round_size c bytes \<le> length bytes" "round_size c bytes \<le> BLOCK_SIZE - length (bc_block c)"
  by (simp_all add: round_size_def)

lemma write_rounds_small:
  "block_small c \<Longrightarrow> block_small (write_rounds k c addr bytes)"
proof (induction k arbitrary: c addr bytes)
  case (Suc k)
  show ?case
  proof (cases "bytes = []")
    case False
    show ?thesis
      unfolding write_rounds_Suc [OF False]
      by (intro Suc.IH write_round_small Suc.prems round_size_bounds)
  qed (use Suc.prems in simp)
qed simp

text \<open>Enough rounds are enough.\<close>

lemma write_rounds_enough:
  "block_small c \<Longrightarrow> length bytes \<le> k \<Longrightarrow> length bytes \<le> k' \<Longrightarrow>
    write_rounds k c addr bytes = write_rounds k' c addr bytes"
proof (induction k arbitrary: k' c addr bytes)
  case (Suc k)
  show ?case
  proof (cases "bytes = []")
    case False
    then obtain j where j: "k' = Suc j" using Suc.prems(3) by (cases k') auto
    note pos = round_size_pos [OF Suc.prems(1) False]
    show ?thesis
      unfolding j write_rounds_Suc [OF False]
      using Suc.prems(2,3) pos j False
      by (intro Suc.IH write_round_small Suc.prems(1) round_size_bounds) auto
  qed simp
qed simp

text \<open>Two pieces at consecutive addresses are written like one.  The first piece may stop inside a
  block, and then the round of both is the last round of the first and the first of the second.\<close>

lemma write_round_merge:
  assumes "block_small c" "bc_block c \<noteq> [] \<or> xs \<noteq> []" "length xs < BLOCK_SIZE - length (bc_block c)"
    "k = round_size (write_round c addr (length xs) xs) ys"
  shows "write_round c addr (length xs + k) (xs @ ys) =
    write_round (write_round c addr (length xs) xs) (addr + of_nat (length xs)) k ys"
  using assms by (auto simp: write_round_def Let_def)

lemma write_rounds_append:
  "block_small c \<Longrightarrow> xs \<noteq> [] \<Longrightarrow>
    write_rounds (length (xs @ ys)) c addr (xs @ ys) =
    write_rounds (length ys) (write_rounds (length xs) c addr xs) (addr + of_nat (length xs)) ys"
proof (induction "length xs" arbitrary: c addr xs rule: less_induct)
  case less
  let ?room = "BLOCK_SIZE - length (bc_block c)"
  have room: "0 < ?room" using less.prems(1) by (simp add: block_small_def)
  obtain n where n: "length xs = Suc n" using less.prems(2) by (cases xs) auto
  have both: "xs @ ys \<noteq> []" "length (xs @ ys) = Suc (n + length ys)" using less.prems(2) n by simp_all
  show ?case
  proof (cases "?room \<le> length xs")
    case True
    then have r: "round_size c xs = ?room" "round_size c (xs @ ys) = ?room" by (simp_all add: round_size_def)
    define c1 where "c1 = write_round c addr ?room xs"
    have c1: "write_round c addr ?room (xs @ ys) = c1" "block_small c1"
      using True less.prems(1) by (simp_all add: c1_def write_round_def Let_def block_small_def
          flush_small [unfolded block_small_def])
    define zs a1 where "zs = drop ?room xs" and "a1 = addr + of_nat ?room"
    have zs: "length zs = length xs - ?room" "length zs \<le> n" "length (zs @ ys) \<le> n + length ys"
      using room n True by (simp_all add: zs_def)
    have a1: "a1 + of_nat (length zs) = addr + of_nat (length xs)"
      using True by (simp add: a1_def zs(1) of_nat_diff)
    have "write_rounds (length (xs @ ys)) c addr (xs @ ys) = write_rounds (n + length ys) c1 a1 (zs @ ys)"
      unfolding both(2) write_rounds_Suc [OF both(1)] r c1(1) a1_def zs_def using True by simp
    also have "\<dots> = write_rounds (length (zs @ ys)) c1 a1 (zs @ ys)"
      by (rule write_rounds_enough [OF c1(2) zs(3) order_refl])
    also have "\<dots> = write_rounds (length ys) (write_rounds (length zs) c1 a1 zs) (a1 + of_nat (length zs)) ys"
    proof (cases "zs = []")
      case False
      then show ?thesis using less.hyps [OF _ c1(2) False] zs n by simp
    qed simp
    also have "write_rounds (length zs) c1 a1 zs = write_rounds n c1 a1 zs"
      by (rule write_rounds_enough [OF c1(2) order_refl zs(2)])
    also have "\<dots> = write_rounds (length xs) c addr xs"
      unfolding n write_rounds_Suc [OF less.prems(2)] r c1_def a1_def zs_def ..
    finally show ?thesis unfolding a1 .
  next
    case False
    then have lt: "length xs < ?room" by simp
    then have r: "round_size c xs = length xs" by (simp add: round_size_def)
    define c1 where "c1 = write_round c addr (length xs) xs"
    have c1: "write_rounds (length xs) c addr xs = c1"
      using write_rounds_Suc [OF less.prems(2), of n c addr] n by (simp add: r c1_def)
    have blk: "bc_block c1 = bc_block c @ xs"
      using lt by (auto simp: c1_def write_round_def Let_def)
    then have small: "block_small c1" using lt by (simp add: block_small_def)
    show ?thesis
    proof (cases "ys = []")
      case False
      let ?k = "round_size c1 ys"
      have k: "round_size c (xs @ ys) = length xs + ?k"
        using lt by (auto simp: round_size_def blk)
      have merge: "write_round c addr (length xs + ?k) (xs @ ys) =
          write_round c1 (addr + of_nat (length xs)) ?k ys"
        unfolding c1_def by (rule write_round_merge [OF less.prems(1) _ lt refl]) (simp add: less.prems(2))
      obtain j where j: "length ys = Suc j" using False by (cases ys) auto
      have "write_rounds (length (xs @ ys)) c addr (xs @ ys) =
          write_rounds (n + length ys) (write_round c1 (addr + of_nat (length xs)) ?k ys)
            (addr + of_nat (length xs) + of_nat ?k) (drop ?k ys)"
        unfolding both(2) write_rounds_Suc [OF both(1)] k merge by (simp add: add.assoc)
      also have "\<dots> = write_rounds j (write_round c1 (addr + of_nat (length xs)) ?k ys)
            (addr + of_nat (length xs) + of_nat ?k) (drop ?k ys)"
        using j round_size_pos [OF small False]
        by (intro write_rounds_enough write_round_small small round_size_bounds) auto
      also have "\<dots> = write_rounds (length ys) c1 (addr + of_nat (length xs)) ys"
        unfolding j write_rounds_Suc [OF False] ..
      finally show ?thesis unfolding c1 .
    qed (simp add: c1)
  qed
qed

text \<open>Whether the next piece continues the pending block.\<close>

definition continues :: "block_ctx \<Rightarrow> u32 \<Rightarrow> bool" where
  "continues c addr \<longleftrightarrow> bc_block c = [] \<or> addr = bc_addr c + of_nat (length (bc_block c))"

lemma write_memory_eq:
  "write_memory c addr bytes =
    (True, write_rounds (length bytes) (if continues c addr then c else flush_block c) addr bytes)"
  by (auto simp: write_memory_def continues_def Let_def)

lemma write_rounds_continues:
  "block_small c \<Longrightarrow> continues c addr \<Longrightarrow> length bytes \<le> k \<Longrightarrow>
    continues (write_rounds k c addr bytes) (addr + of_nat (length bytes))"
proof (induction k arbitrary: c addr bytes)
  case (Suc k)
  show ?case
  proof (cases "bytes = []")
    case False
    let ?n = "round_size c bytes"
    note pos = round_size_pos [OF Suc.prems(1) False]
    have cont: "continues (write_round c addr ?n bytes) (addr + of_nat ?n)"
      using Suc.prems(2) round_size_bounds(1) [of c bytes]
      by (auto simp: write_round_def Let_def continues_def min_def)
    have "length (drop ?n bytes) \<le> k" using Suc.prems(3) pos by simp
    from Suc.IH [OF write_round_small [OF Suc.prems(1) round_size_bounds(2,1)] cont this]
    show ?thesis
      unfolding write_rounds_Suc [OF False] using round_size_bounds(1) [of c bytes]
      by (simp add: of_nat_diff)
  qed (use Suc.prems in simp)
qed simp

interpretation blocks: piecewise_writer write_memory block_small
proof unfold_locales
  fix c :: block_ctx and xs ys :: "byte list" and a
  assume c: "block_small c" and ne: "xs \<noteq> []" "ys \<noteq> []"
  let ?c = "if continues c a then c else flush_block c"
  have small: "block_small ?c" using c by simp
  have "continues ?c a" by (auto simp: continues_def)
  from write_rounds_continues [OF small this order_refl, of xs] write_rounds_append [OF small ne(1), of ys a]
  show "write_memory c a (xs @ ys) = (case write_memory c a xs of (ok, c') \<Rightarrow>
      if ok then write_memory c' (a + of_nat (length xs)) ys else (False, c'))"
    by (simp add: write_memory_eq)
next
  fix c :: block_ctx and a xs
  assume "block_small c"
  then show "block_small (snd (write_memory c a xs))"
    by (simp add: write_memory_eq write_rounds_small)
qed

section \<open>What a piece leaves in memory\<close>

definition follows :: "block_ctx \<Rightarrow> nat \<Rightarrow> bool" where
  "follows c a \<longleftrightarrow> (bc_block c \<noteq> [] \<longrightarrow> block_end c = a)"

lemma write_round_view:
  assumes "follows c (unat addr)" "0 < now" "now \<le> length bytes"
  shows "x < unat addr + now \<or> unat addr + now + BLOCK_PAD \<le> x \<Longrightarrow>
      block_view (write_round c addr now bytes) m x =
        overlay (unat addr) (take now bytes) (block_view c m) x"
    "follows (write_round c addr now bytes) (unat addr + now)"
proof -
  define c1 where "c1 = (if bc_block c = [] then c\<lparr>bc_addr := addr\<rparr> else c)"
  define c2 where "c2 = c1\<lparr>bc_block := bc_block c1 @ take now bytes\<rparr>"
  have round: "write_round c addr now bytes = (if length (bc_block c2) = BLOCK_SIZE then flush_block c2 else c2)"
    by (simp add: write_round_def Let_def c1_def c2_def)
  have e1: "block_end c1 = unat addr"
    using assms(1) by (auto simp: follows_def c1_def block_end_def)
  have v1: "block_view c1 m = block_view c m" for m by (simp add: c1_def block_view_def)
  have e2: "block_end c2 = unat addr + now" using e1 assms(3) by (simp add: c2_def block_end_def)
  have v2: "block_view c2 m = overlay (unat addr) (take now bytes) (block_view c m)" for m
    unfolding v1 [symmetric] e1 [symmetric] by (simp add: c2_def block_view_def overlay_append block_end_def)
  show "follows (write_round c addr now bytes) (unat addr + now)"
    using e2 by (simp add: round follows_def)
  assume "x < unat addr + now \<or> unat addr + now + BLOCK_PAD \<le> x"
  then show "block_view (write_round c addr now bytes) m x =
      overlay (unat addr) (take now bytes) (block_view c m) x"
    by (auto simp: round flush_view e2 v2)
qed

lemma write_rounds_view:
  assumes "block_small c" "follows c (unat addr)" "unat addr + length bytes \<le> unat (hi :: u32)"
    "length bytes \<le> k"
  shows "(x < unat addr + length bytes \<or> unat addr + length bytes + BLOCK_PAD \<le> x \<longrightarrow>
      block_view (write_rounds k c addr bytes) m x = overlay (unat addr) bytes (block_view c m) x) \<and>
    follows (write_rounds k c addr bytes) (unat addr + length bytes)"
  using assms
proof (induction k arbitrary: c addr bytes)
  case (Suc k)
  show ?case
  proof (cases "bytes = []")
    case False
    let ?n = "round_size c bytes"
    let ?c = "write_round c addr ?n bytes" and ?a = "addr + of_nat ?n" and ?bs = "drop ?n bytes"
    note pos = round_size_pos [OF Suc.prems(1) False]
    have n: "?n \<le> length bytes" by (rule round_size_bounds)
    have a: "unat ?a = unat addr + ?n" using Suc.prems(3) n by (intro unat_add_in_range [of _ _ hi]) simp
    have len: "unat ?a + length ?bs = unat addr + length bytes" using a n by simp
    note view = write_round_view [OF Suc.prems(2) pos n]
    have small: "block_small ?c"
      by (rule write_round_small [OF Suc.prems(1) round_size_bounds(2,1)])
    have fits: "unat ?a + length ?bs \<le> unat hi" unfolding len by (rule Suc.prems(3))
    have short: "length ?bs \<le> k" using Suc.prems(4) pos by simp
    note IH = Suc.IH [OF small view(2) [folded a] fits short, unfolded len]
    have lay: "overlay (unat addr) bytes f = overlay (unat ?a) ?bs (overlay (unat addr) (take ?n bytes) f)" for f
    proof -
      have "length (take ?n bytes) = ?n" using n by simp
      then show ?thesis
        using overlay_append [of "unat addr" "take ?n bytes" ?bs f] unfolding append_take_drop_id a by metis
    qed
    have same: "overlay (unat ?a) ?bs (block_view ?c m) x =
        overlay (unat ?a) ?bs (overlay (unat addr) (take ?n bytes) (block_view c m)) x"
      if x: "x < unat addr + length bytes \<or> unat addr + length bytes + BLOCK_PAD \<le> x"
    proof (cases "unat ?a \<le> x \<and> x < unat ?a + length ?bs")
      case False
      then have "x < unat addr + ?n \<or> unat addr + ?n + BLOCK_PAD \<le> x" using x n len a by linarith
      from view(1) [OF this] show ?thesis unfolding overlay_outside [OF False] .
    qed (simp add: overlay_def)
    show ?thesis
      unfolding write_rounds_Suc [OF False] lay using IH same by metis
  qed (use Suc.prems in simp)
qed simp

lemma write_memory_view:
  assumes "block_small c" "bc_block c \<noteq> [] \<longrightarrow> block_end c \<le> unat addr"
    "unat addr + length bytes \<le> unat (hi :: u32)" "bytes \<noteq> []"
  defines "c' \<equiv> snd (write_memory c addr bytes)"
  shows "unat addr \<le> x \<Longrightarrow> x < unat addr + length bytes \<Longrightarrow>
      block_view c' m x = bytes ! (x - unat addr)"
    "x < unat addr \<Longrightarrow> bc_block c = [] \<or> x < block_end c \<or> block_end c + BLOCK_PAD \<le> x \<Longrightarrow>
      block_view c' m x = block_view c m x"
    "unat addr + length bytes + BLOCK_PAD \<le> x \<Longrightarrow> block_view c' m x = block_view c m x"
    "follows c' (unat addr + length bytes)" "block_small c'"
proof -
  let ?c = "if continues c addr then c else flush_block c"
  have "unat (bc_addr c + of_nat (length (bc_block c))) = block_end c" if "bc_block c \<noteq> []"
    using unat_add_in_range [of "bc_addr c" "length (bc_block c)" hi] assms(2,3) that
    by (simp add: block_end_def)
  then have f: "follows ?c (unat addr)" by (auto simp: follows_def continues_def)
  have c': "c' = write_rounds (length bytes) ?c addr bytes" by (simp add: c'_def write_memory_eq)
  have s: "block_small ?c" using assms(1) by simp
  note v = write_rounds_view [OF s f assms(3) order_refl, folded c']
  show "block_small c'" unfolding c' by (rule write_rounds_small [OF s])
  show "follows c' (unat addr + length bytes)" using v by blast
  show "block_view c' m x = bytes ! (x - unat addr)" if "unat addr \<le> x" "x < unat addr + length bytes"
    using v [of x m] that by (simp add: overlay_def)
  have keep: "block_view ?c m x = block_view c m x"
    if "bc_block c = [] \<or> x < block_end c \<or> block_end c + BLOCK_PAD \<le> x"
    using that by (cases "continues c addr") (auto simp: flush_view)
  have out: "overlay (unat addr) bytes f x = f x" if "x < unat addr \<or> unat addr + length bytes \<le> x" for f
    using that by (auto simp: overlay_def)
  show "block_view c' m x = block_view c m x"
    if "x < unat addr" "bc_block c = [] \<or> x < block_end c \<or> block_end c + BLOCK_PAD \<le> x"
    using v [of x m] out keep that by simp
  show "block_view c' m x = block_view c m x" if x: "unat addr + length bytes + BLOCK_PAD \<le> x"
  proof -
    have "bc_block c = [] \<or> x < block_end c \<or> block_end c + BLOCK_PAD \<le> x"
      using x assms(2) by (cases "bc_block c = []") simp_all
    from keep [OF this] show ?thesis using v [of x m] out [of "block_view ?c m"] x by simp
  qed
qed

section \<open>Ascending images\<close>

text \<open>The records with data start at or behind the end of the one before.\<close>

primrec ascending :: "nat \<Rightarrow> image_record list \<Rightarrow> bool" where
  "ascending a [] = True"
| "ascending a (r # rs) =
     (if ir_data r = [] then ascending a rs
      else a \<le> unat (ir_load r) \<and> ascending (unat (ir_load r) + length (ir_data r)) rs)"

text \<open>The memory with the records in it, and the addresses that belong to a record, without and with
  the eight bytes behind it.\<close>

definition records_in :: "image_record list \<Rightarrow> memory \<Rightarrow> memory" where
  "records_in rs m = foldl (\<lambda>m r. overlay (unat (ir_load r)) (ir_data r) m) m rs"

definition in_record :: "nat \<Rightarrow> nat \<Rightarrow> image_record \<Rightarrow> bool" where
  "in_record pad x r \<longleftrightarrow> ir_data r \<noteq> [] \<and> unat (ir_load r) \<le> x \<and>
     x < unat (ir_load r) + length (ir_data r) + pad"

text \<open>The state after records that end at \<open>a\<close>: \<open>m0\<close> is the memory before everything that was told
  the hardware, \<open>m\<close> the memory before the first record.\<close>

definition memory_ok :: "image_record list \<Rightarrow> nat \<Rightarrow> memory \<Rightarrow> memory \<Rightarrow> block_ctx \<Rightarrow> bool" where
  "memory_ok rs a m0 m c \<longleftrightarrow> block_small c \<and> follows c a \<and>
     list_all (\<lambda>r. ir_data r \<noteq> [] \<longrightarrow> unat (ir_load r) + length (ir_data r) \<le> a) rs \<and>
     (bc_block c \<noteq> [] \<longrightarrow> list_ex (\<lambda>r. ir_data r \<noteq> [] \<and> unat (ir_load r) + length (ir_data r) = a) rs) \<and>
     (\<forall>x. (list_ex (in_record 0 x) rs \<longrightarrow> block_view c m0 x = records_in rs m x) \<and>
          (\<not> list_ex (in_record BLOCK_PAD x) rs \<longrightarrow> block_view c m0 x = m x))"

lemma records_in_append [simp]:
  "records_in (rs @ [r]) m = overlay (unat (ir_load r)) (ir_data r) (records_in rs m)"
  by (simp add: records_in_def)

lemma records_in_outside: "\<not> list_ex (in_record 0 x) rs \<Longrightarrow> records_in rs m x = m x"
  by (induction rs rule: rev_induct) (auto simp: in_record_def overlay_def records_in_def)


lemma memory_ok_record:
  assumes ok: "memory_ok rs a m0 m c" and asc: "ascending a [r]"
    and fits: "record_ok lo hi r" and hi: "a \<le> unat hi"
  obtains c' a' where "run_record write_memory c r = (True, c')" "memory_ok (rs @ [r]) a' m0 m c'"
    "a' = (if ir_data r = [] then a else unat (ir_load r) + length (ir_data r))" "a' \<le> unat hi"
proof (cases "ir_data r = []")
  case True
  have "records_in (rs @ [r]) m = records_in rs m" by (simp add: True)
  moreover have "list_ex (in_record p x) (rs @ [r]) = list_ex (in_record p x) rs" for p x
    by (simp add: in_record_def True)
  ultimately have "memory_ok (rs @ [r]) a m0 m c" using ok by (simp add: memory_ok_def True)
  then show ?thesis using that True hi by (simp add: run_record_def)
next
  case False
  let ?l = "unat (ir_load r)" let ?e = "?l + length (ir_data r)"
  have le: "a \<le> ?l" "?e \<le> unat hi" using asc fits False by (simp_all add: record_ok_def)
  have c: "block_small c" "follows c a" using ok by (simp_all add: memory_ok_def)
  have e1: "bc_block c \<noteq> [] \<longrightarrow> block_end c \<le> ?l" using c(2) le(1) by (simp add: follows_def)
  define c' where "c' = snd (write_memory c (ir_load r) (ir_data r))"
  have run: "run_record write_memory c r = (True, c')"
    by (simp add: run_record_def False c'_def write_memory_eq)
  note view = write_memory_view [OF c(1) e1 le(2) False, folded c'_def]
  have old: "x < a" if "list_ex (in_record 0 x) rs" for x
    using ok that by (auto simp: memory_ok_def list_ex_iff list_all_iff in_record_def)
  have tail: "list_ex (in_record BLOCK_PAD x) rs" if "bc_block c \<noteq> []" "a \<le> x" "x < a + BLOCK_PAD" for x
    using ok that by (auto simp: memory_ok_def list_ex_iff in_record_def)
  have view_old: "block_view c m0 x = records_in rs m x" if "list_ex (in_record 0 x) rs" for x
    using ok that by (simp add: memory_ok_def)
  have view_out: "block_view c m0 x = m x" if "\<not> list_ex (in_record BLOCK_PAD x) rs" for x
    using ok that by (simp add: memory_ok_def)
  have end_a: "block_end c = a" if "bc_block c \<noteq> []" using c(2) that by (simp add: follows_def)
  have cov: "block_view c' m0 x = records_in (rs @ [r]) m x" if x: "list_ex (in_record 0 x) (rs @ [r])" for x
  proof (cases "?l \<le> x \<and> x < ?e")
    case True
    then show ?thesis using view(1) by (simp add: overlay_def)
  next
    case no: False
    then have ex: "list_ex (in_record 0 x) rs" using x by (auto simp: in_record_def)
    have "bc_block c = [] \<or> x < block_end c" using old [OF ex] end_a by auto
    then have "block_view c' m0 x = block_view c m0 x" using view(2) [of x m0] old [OF ex] le(1) by auto
    then show ?thesis using view_old [OF ex] overlay_outside [OF no] by simp
  qed
  have unc: "block_view c' m0 x = m x" if x: "\<not> list_ex (in_record BLOCK_PAD x) (rs @ [r])" for x
  proof (cases "x < ?l")
    case True
    have "bc_block c = [] \<or> x < block_end c \<or> block_end c + BLOCK_PAD \<le> x"
      using tail [of x] end_a x by (metis list_ex_append not_le_imp_less)
    then show ?thesis using view(2) [OF True] view_out [of x] x by simp
  next
    case no: False
    then have "?e + BLOCK_PAD \<le> x" using x False by (auto simp: in_record_def)
    then show ?thesis using view(3) [of x m0] view_out [of x] x by simp
  qed
  have "memory_ok (rs @ [r]) ?e m0 m c'"
    unfolding memory_ok_def
  proof (intro conjI allI impI)
    show "list_all (\<lambda>r. ir_data r \<noteq> [] \<longrightarrow> unat (ir_load r) + length (ir_data r) \<le> ?e) (rs @ [r])"
      using ok le(1) by (auto simp: memory_ok_def list_all_iff)
    show "list_ex (\<lambda>r'. ir_data r' \<noteq> [] \<and> unat (ir_load r') + length (ir_data r') = ?e) (rs @ [r])"
      using False by simp
  qed (use view(4,5) cov unc in auto)
  then show ?thesis using that run False le(2) by simp
qed

lemma memory_ok_records:
  "memory_ok rs a m0 m c \<Longrightarrow> ascending a rs' \<Longrightarrow> list_all (record_ok lo hi) rs' \<Longrightarrow> a \<le> unat hi \<Longrightarrow>
    \<exists>c' a'. run_records write_memory c rs' = (True, c') \<and> memory_ok (rs @ rs') a' m0 m c'"
proof (induction rs' arbitrary: rs a c)
  case (Cons r rs')
  have "ascending a [r]" "record_ok lo hi r" using Cons.prems(2,3) by (simp_all split: if_splits)
  from memory_ok_record [OF Cons.prems(1) this Cons.prems(4)] obtain c' a' where
    r: "run_record write_memory c r = (True, c')" "memory_ok (rs @ [r]) a' m0 m c'"
      "a' = (if ir_data r = [] then a else unat (ir_load r) + length (ir_data r))" "a' \<le> unat hi" .
  have "ascending a' rs'" using Cons.prems(2) by (simp add: r(3) split: if_splits)
  with Cons.IH [OF r(2) this _ r(4)] Cons.prems(3) show ?case by (simp add: r(1))
qed auto

text \<open>After the last flush.\<close>

lemma memory_ok_flush:
  assumes "memory_ok rs a m0 m c"
  shows "list_ex (in_record 0 x) rs \<Longrightarrow> memory_after (bc_hw (flush_block c)) m0 x = records_in rs m x"
    "\<not> list_ex (in_record BLOCK_PAD x) rs \<Longrightarrow> memory_after (bc_hw (flush_block c)) m0 x = m x"
proof -
  have v: "memory_after (bc_hw (flush_block c)) m0 x = block_view (flush_block c) m0 x"
    by (simp add: block_view_def)
  have end_a: "block_end c = a" if "bc_block c \<noteq> []" using assms that by (simp add: memory_ok_def follows_def)
  show "memory_after (bc_hw (flush_block c)) m0 x = records_in rs m x" if x: "list_ex (in_record 0 x) rs"
  proof -
    have "x < a" using assms x by (auto simp: memory_ok_def list_ex_iff list_all_iff in_record_def)
    then show ?thesis using assms x end_a unfolding v flush_view by (auto simp: memory_ok_def)
  qed
  show "memory_after (bc_hw (flush_block c)) m0 x = m x" if x: "\<not> list_ex (in_record BLOCK_PAD x) rs"
  proof -
    have "\<not> (bc_block c \<noteq> [] \<and> a \<le> x \<and> x < a + BLOCK_PAD)"
      using assms x by (auto simp: memory_ok_def list_ex_iff in_record_def)
    then show ?thesis using assms x end_a unfolding v flush_view by (auto simp: memory_ok_def)
  qed
qed

end
