(* ===== verification/Recovery_Correct.thy ===== *)
theory Recovery_Correct
  imports Recovery_Memory
begin

text \<open>
  The correctness of the network recovery: that it always returns, that nothing it did not verify is
  started, that the last bytes of a bitstream reach the FPGA only after the hash of the file is
  checked, and that the memory of the machine holds the image of the manifest when its CPU is let
  go.  The loops over a file are reasoned about by one invariant rule.
\<close>

section \<open>An invariant rule for streams\<close>

declare stream_loop.simps [simp del] read_manifest.simps [simp del]

lemma stream_loop_rule:
  assumes step: "\<And>got c bs. I got c \<Longrightarrow> bs \<noteq> [] \<Longrightarrow> length got + length bs \<le> sz \<Longrightarrow>
      \<exists>ok c'. sink c (length got) bs = Some (ok, c') \<and> J c' \<and> (ok \<longrightarrow> I (got @ bs) c')"
    and weaken: "\<And>got c. I got c \<Longrightarrow> J c"
  shows "I got c \<Longrightarrow> \<exists>ok got' c' n'. stream_loop nt sz sink c got y body n = Some ((ok, got', c'), n') \<and>
    J c' \<and> (ok \<longrightarrow> I got' c')"
proof (induction "sz - length got" arbitrary: got c y body n rule: less_induct)
  case less
  obtain stop n1 where n1: "nt_cancelled nt n = (stop, n1)" by fastforce
  show ?case
  proof (cases "stop \<or> fst (client_read READ_SIZE body) = None \<or>
      fst (client_read READ_SIZE body) = Some [] \<or>
      (\<exists>bs. fst (client_read READ_SIZE body) = Some bs \<and> length bs > sz - length got)")
    case True
    then show ?thesis
      using less.prems weaken by (subst stream_loop.simps) (auto simp: n1 split: prod.splits option.splits)
  next
    case False
    obtain r body' where r: "client_read READ_SIZE body = (r, body')" by fastforce
    with False obtain b where "r = Some b" by auto
    with False r obtain bs where bs: "client_read READ_SIZE body = (Some bs, body')" "bs \<noteq> []"
      "length bs \<le> sz - length got" "\<not> stop" by auto
    have "0 < length bs" using bs(2) by simp
    then have fits: "length got + length bs \<le> sz" using bs(3) by linarith
    from step [OF less.prems bs(2) fits] obtain ok c' where
      s: "sink c (length got) bs = Some (ok, c')" "J c'" "ok \<longrightarrow> I (got @ bs) c'" by blast
    have "sz - length (got @ bs) < sz - length got" using bs(2) fits by (auto simp flip: length_greater_0_conv)
    note IH = less.hyps [OF this]
    have "\<not> length bs > sz - length got" using bs(3) by simp
    then show ?thesis
      using bs s IH [of c'] by (subst stream_loop.simps) (auto simp: n1 Let_def)
  qed
qed

lemma stream_file_rule:
  assumes step: "\<And>got c bs. I got c \<Longrightarrow> bs \<noteq> [] \<Longrightarrow> length got + length bs \<le> unat (rf_size fl) \<Longrightarrow>
      \<exists>ok c'. sink c (length got) bs = Some (ok, c') \<and> J c' \<and> (ok \<longrightarrow> I (got @ bs) c')"
    and weaken: "\<And>got c. I got c \<Longrightarrow> J c" and init: "I [] c"
  obtains ok c' n' where "stream_file nt sha get_url fl sink c n = Some ((ok, c'), n')" "J c'"
    "ok \<Longrightarrow> \<exists>got. I got c' \<and> length got = unat (rf_size fl) \<and> sha got = rf_sha256 fl"
proof -
  obtain r n1 where o1: "http_open nt get_url n = (r, n1)" by fastforce
  show thesis
  proof (cases "\<exists>u body. r = Some (200, u, body)")
    case False
    then have "stream_file nt sha get_url fl sink c n = Some ((False, c), n1)"
      by (cases r) (auto simp: stream_file_def o1 split: prod.splits)
    then show thesis using that weaken [OF init] by blast
  next
    case True
    then obtain u body where r: "r = Some (200, u, body)" by blast
    have "\<exists>ok got' c' n'. stream_loop nt (unat (rf_size fl)) sink c [] 0 body n1 = Some ((ok, got', c'), n') \<and>
        J c' \<and> (ok \<longrightarrow> I got' c')"
      by (rule stream_loop_rule [where I = I and J = J, OF _ _ init])
        (rule step; assumption | rule weaken; assumption)+
    then obtain ok got c' n2 where
      l: "stream_loop nt (unat (rf_size fl)) sink c [] 0 body n1 = Some ((ok, got, c'), n2)"
      "J c'" "ok \<longrightarrow> I got c'" by blast
    obtain stop n3 where n3: "nt_cancelled nt n2 = (stop, n3)" by fastforce
    have "stream_file nt sha get_url fl sink c n =
        Some ((\<not> stop \<and> ok \<and> length got = unat (rf_size fl) \<and> sha got = rf_sha256 fl, c'), n3)"
      by (simp add: stream_file_def o1 r l(1) n3)
    then show thesis using that l(2,3) by blast
  qed
qed

section \<open>The bitstream\<close>

definition fpga_ok :: "nat \<Rightarrow> hw list \<Rightarrow> byte list \<Rightarrow> fpga_load \<Rightarrow> bool" where
  "fpga_ok limit hw0 got f \<longleftrightarrow> fl_shift_limit f = limit \<and> length (fl_tail f) = FPGA_HOLDBACK \<and>
     (\<exists>chunks. fl_hw f = hw0 @ List.map FpgaShift chunks \<and> concat chunks = take limit got) \<and>
     take (length got - limit) (fl_tail f) = drop limit got"

lemma take_blit_full: "i + length bs \<le> length xs \<Longrightarrow> take (i + length bs) (blit i bs xs) = take i xs @ bs"
  by (simp add: blit_def)

lemma fpga_sink_eq:
  assumes "fl_shift_limit f = limit" "now = min (limit - offset) (length bs)"
  shows "fpga_sink f offset bs = Some (True, f\<lparr>
    fl_hw := fl_hw f @ (if offset < limit then [FpgaShift (take now bs)] else []),
    fl_tail := (if drop now bs = [] then fl_tail f
                else blit (offset + now - limit) (drop now bs) (fl_tail f))\<rparr>)"
  using assms by (cases "offset < limit") (simp_all add: fpga_sink_def Let_def)

lemma fpga_sink_ok:
  assumes ok: "fpga_ok limit hw0 got f" and len: "length got + length bs \<le> limit + FPGA_HOLDBACK"
    and ne: "bs \<noteq> []"
  shows "\<exists>f'. fpga_sink f (length got) bs = Some (True, f') \<and> fpga_ok limit hw0 (got @ bs) f'"
proof -
  define now where "now = min (limit - length got) (length bs)"
  define hw' where "hw' = fl_hw f @ (if length got < limit then [FpgaShift (take now bs)] else [])"
  define tail' where "tail' = (if drop now bs = [] then fl_tail f
    else blit (length got + now - limit) (drop now bs) (fl_tail f))"
  have lim: "fl_shift_limit f = limit" "length (fl_tail f) = FPGA_HOLDBACK"
    "take (length got - limit) (fl_tail f) = drop limit got" using ok by (simp_all add: fpga_ok_def)
  obtain chunks where ch: "fl_hw f = hw0 @ List.map FpgaShift chunks" "concat chunks = take limit got"
    using ok by (auto simp: fpga_ok_def)
  have hw: "\<exists>chunks. hw' = hw0 @ List.map FpgaShift chunks \<and> concat chunks = take limit (got @ bs)"
  proof (cases "length got < limit")
    case True
    have "take (limit - length got) bs = take now bs" by (simp add: now_def min_def)
    then show ?thesis
      using ch True by (intro exI [of _ "chunks @ [take now bs]"]) (simp add: hw'_def)
  next
    case False
    then show ?thesis using ch by (intro exI [of _ chunks]) (simp add: hw'_def)
  qed
  have t: "length tail' = FPGA_HOLDBACK \<and> take (length (got @ bs) - limit) tail' = drop limit (got @ bs)"
  proof (cases "drop now bs = []")
    case True
    then have "length bs \<le> limit - length got" by (simp add: now_def)
    then have "length (got @ bs) \<le> limit" using ne by (cases "length got < limit") simp_all
    then show ?thesis using lim(2) True by (simp add: tail'_def)
  next
    case False
    then have now: "now = limit - length got" by (simp add: now_def min_def split: if_splits)
    have i: "length got + now - limit = length got - limit" using now by simp
    let ?i = "length got - limit" and ?d = "drop now bs"
    have "length ?d \<noteq> 0" using False by simp
    then have len_end: "length (got @ bs) - limit = ?i + length ?d"
      and room: "?i + length ?d \<le> length (fl_tail f)"
      using now len lim(2) by simp_all
    have tl: "tail' = blit ?i ?d (fl_tail f)" using False i by (simp add: tail'_def)
    have "length (blit ?i ?d (fl_tail f)) = FPGA_HOLDBACK" using room lim(2) by (simp add: blit_def)
    moreover have "drop limit (got @ bs) = drop limit got @ ?d" by (simp add: now)
    ultimately show ?thesis unfolding tl len_end take_blit_full [OF room] lim(3) by simp
  qed
  from fpga_sink_eq [OF lim(1) now_def] hw t show ?thesis
    by (auto simp: fpga_ok_def hw'_def tail'_def lim(1))
qed

text \<open>What \<open>load_bitstream\<close> tells the hardware, in every case.\<close>

lemma load_bitstream_cases:
  assumes "length (rc_tail s) = FPGA_HOLDBACK"
  obtains (no_url) "load_bitstream nt sha m u s = Some (FAIL_BITSTREAM, s)"
  | (failed) outc s' chunks where "load_bitstream nt sha m u s = Some (outc, s')"
      "outc = FAIL_BITSTREAM \<or> outc = CANCELLED"
      "rc_hw s' = rc_hw s @ [FpgaBegin] @ List.map FpgaShift chunks @ [FpgaClear]"
      "length (concat chunks) \<le> unat (rf_size (mf_fpga m)) - FPGA_HOLDBACK"
      "length (rc_tail s') = FPGA_HOLDBACK"
  | (finished) outc s' chunks tail where "load_bitstream nt sha m u s = Some (outc, s')"
      "outc = RECOVERY_DONE \<or> outc = FAIL_FPGA_START"
      "rc_hw s' = rc_hw s @ [FpgaBegin] @ List.map FpgaShift chunks @ [FpgaFinish tail] @
         (if outc = RECOVERY_DONE then [] else [FpgaClear])"
      "length (concat chunks) = unat (rf_size (mf_fpga m)) - FPGA_HOLDBACK"
      "length (concat chunks @ tail) = unat (rf_size (mf_fpga m))"
      "sha (concat chunks @ tail) = rf_sha256 (mf_fpga m)"
      "length (rc_tail s') = FPGA_HOLDBACK"
proof -
  let ?sz = "unat (rf_size (mf_fpga m))"
  let ?lim = "?sz - FPGA_HOLDBACK"
  have lim: "(if ?sz > FPGA_HOLDBACK then ?sz - FPGA_HOLDBACK else 0) = ?lim" by simp
  show thesis
  proof (cases "recovery_file_url 256 u (rf_name (mf_fpga m))")
    case None
    then show thesis using no_url by (simp add: load_bitstream_def)
  next
    case (Some url)
    let ?hw0 = "rc_hw s @ [FpgaBegin]"
    let ?f = "\<lparr>fl_size = ?sz, fl_shift_limit = ?lim, fl_tail = rc_tail s, fl_hw = ?hw0\<rparr>"
    define I where "I = fpga_ok ?lim ?hw0"
    define J where "J f = (\<exists>got. length got \<le> ?sz \<and> fpga_ok ?lim ?hw0 got f)" for f
    have init: "fpga_ok ?lim ?hw0 [] ?f"
      using assms by (auto simp: fpga_ok_def intro: exI [of _ "[]"])
    have step: "\<exists>ok c'. fpga_sink c (length got) bs = Some (ok, c') \<and> J c' \<and>
        (ok \<longrightarrow> fpga_ok ?lim ?hw0 (got @ bs) c' \<and> length (got @ bs) \<le> ?sz)"
      if "fpga_ok ?lim ?hw0 got c \<and> length got \<le> ?sz" "bs \<noteq> []" "length got + length bs \<le> ?sz" for got c bs
    proof -
      have "length got + length bs \<le> ?lim + FPGA_HOLDBACK" using that(3) by simp
      from fpga_sink_ok [OF conjunct1 [OF that(1)] this that(2)] obtain f' where
        f': "fpga_sink c (length got) bs = Some (True, f')" "fpga_ok ?lim ?hw0 (got @ bs) f'" by blast
      have "length (got @ bs) \<le> ?sz" using that(3) by simp
      with f'(2) have "J f'" unfolding J_def by blast
      with f' \<open>length (got @ bs) \<le> ?sz\<close> show ?thesis by auto
    qed
    have weaken: "fpga_ok ?lim ?hw0 got c \<and> length got \<le> ?sz \<Longrightarrow> J c" for got c
      unfolding J_def by blast
    obtain ok f n1 where st: "stream_file nt sha url (mf_fpga m) fpga_sink ?f (rc_net s) = Some ((ok, f), n1)"
      "J f" "ok \<Longrightarrow> \<exists>got. (fpga_ok ?lim ?hw0 got f \<and> length got \<le> ?sz) \<and> length got = ?sz \<and>
        sha got = rf_sha256 (mf_fpga m)"
      by (rule stream_file_rule [where I = "\<lambda>got f. fpga_ok ?lim ?hw0 got f \<and> length got \<le> ?sz" and J = J
            and sink = fpga_sink and fl = "mf_fpga m" and c = ?f and nt = nt and sha = sha
            and get_url = url and n = "rc_net s"])
        (rule step; assumption | rule weaken; assumption | use init in auto)+
    obtain got where got: "fpga_ok ?lim ?hw0 got f" "length got \<le> ?sz" using st(2) by (auto simp: J_def)
    then obtain chunks where ch: "fl_hw f = ?hw0 @ List.map FpgaShift chunks" "concat chunks = take ?lim got"
      "length (fl_tail f) = FPGA_HOLDBACK" by (auto simp: fpga_ok_def)
    show thesis
    proof (cases ok)
      case False
      obtain stop n2 where n2: "nt_cancelled nt n1 = (stop, n2)" by fastforce
      let ?s = "\<lparr>rc_net = n2, rc_hw = fl_hw f @ [FpgaClear], rc_tail = fl_tail f\<rparr>"
      have "load_bitstream nt sha m u s = Some (if stop then CANCELLED else FAIL_BITSTREAM, ?s)"
        unfolding load_bitstream_def Some option.case Let_def lim using st(1) False n2 by (simp add: tell_def)
      then show thesis
        by (rule failed [where chunks = chunks]) (use ch in \<open>auto simp: min_def\<close>)
    next
      case True
      from st(3) [OF this] obtain got2 where g2: "fpga_ok ?lim ?hw0 got2 f" "length got2 = ?sz"
        "sha got2 = rf_sha256 (mf_fpga m)" by blast
      then obtain chunks2 where ch2: "fl_hw f = ?hw0 @ List.map FpgaShift chunks2"
        "concat chunks2 = take ?lim got2" "take (?sz - ?lim) (fl_tail f) = drop ?lim got2"
        by (auto simp: fpga_ok_def)
      obtain user n2 where n2: "nt_user_code nt (nt_delay nt 1000 n1) = (user, n2)" by fastforce
      let ?bad = "user = 0 \<or> user = 0xFFFFFFFF"
      let ?tail = "drop ?lim got2"
      let ?s = "\<lparr>rc_net = n2, rc_hw = fl_hw f @ [FpgaFinish ?tail] @ (if ?bad then [FpgaClear] else []),
        rc_tail = fl_tail f\<rparr>"
      have "load_bitstream nt sha m u s = Some (if ?bad then FAIL_FPGA_START else RECOVERY_DONE, ?s)"
        unfolding load_bitstream_def Some option.case Let_def lim using st(1) True n2 ch2(3) by (simp add: tell_def)
      then show thesis
        by (rule finished [where chunks = chunks2 and tail = ?tail]) (use ch2 g2 ch in auto)
    qed
  qed
qed

section \<open>The image\<close>

text \<open>Whatever a write inside the window keeps, the reader keeps.\<close>

lemma step_ctx_window:
  assumes "image_ok im" "image_step im bytes = Inr (im', d) \<or> image_step im bytes = Inl (r, im')"
    and keep: "\<And>c a xs. P c \<Longrightarrow> im_load_min im \<le> a \<Longrightarrow> unat a + length xs \<le> unat (im_load_max im) \<Longrightarrow>
      P (snd (im_write im c a xs))" and P: "P (im_ctx im)"
  shows "P (im_ctx im')"
proof (cases "im_state im = IMAGE_DATA")
  case True
  let ?xs = "take (min (length bytes) (unat (im_remaining im))) bytes"
  obtain good c where put: "im_write im (im_ctx im) (im_addr im) ?xs = (good, c)" by fastforce
  have "im_ctx im' = c" using step_data_ctx [OF True put] assms(2) by blast
  moreover have "im_load_min im \<le> im_addr im" "unat (im_addr im) + length ?xs \<le> unat (im_load_max im)"
    using assms(1) True by (auto simp: image_ok_def)
  ultimately show ?thesis using keep [OF P, of "im_addr im" ?xs] put by simp
next
  case False
  then have "header_need (im_state im) \<noteq> 0 \<or> im_state im = IMAGE_PAD \<or> im_state im = IMAGE_FAILED"
    by (cases "im_state im") auto
  then have "im_ctx im' = im_ctx im" using assms(2) step_collect_ctx step_other_ctx by metis
  then show ?thesis using P by simp
qed

lemma feed_ctx_window:
  assumes keep: "\<And>c a xs. P c \<Longrightarrow> lo \<le> a \<Longrightarrow> unat a + length xs \<le> unat (hi :: u32) \<Longrightarrow> P (snd (w c a xs))"
  shows "image_ok im \<Longrightarrow> im_write im = w \<Longrightarrow> im_load_min im = lo \<Longrightarrow> im_load_max im = hi \<Longrightarrow>
    P (im_ctx im) \<Longrightarrow> recovery_image_feed im bytes = Some (r, im') \<Longrightarrow> P (im_ctx im')"
proof (induction "length bytes" arbitrary: im bytes rule: less_induct)
  case less
  note flds = less.prems(2-4)
  show ?case
  proof (cases "bytes = []")
    case True
    then show ?thesis using less.prems by (simp add: recovery_image_feed.simps)
  next
    case False
    show ?thesis
    proof (cases "image_step im bytes")
      case (Inl a)
      then have "image_step im bytes = Inl (r, im')" using less.prems(6) False by (simp add: feed_step)
      then show ?thesis
        using step_ctx_window [OF less.prems(1), of bytes im' "[]" r P] less.prems(5) keep
        unfolding flds by blast
    next
      case (Inr b)
      obtain im1 d where b: "image_step im bytes = Inr (im1, d)" using Inr by (cases b) simp
      note s = image_step_ok [OF b less.prems(1) False]
      have "P (im_ctx im1)"
        using step_ctx_window [OF less.prems(1), of bytes im1 d r P] less.prems(5) keep b
        unfolding flds by blast
      moreover have "recovery_image_feed im1 d = Some (r, im')"
        using less.prems(6) b False by (simp add: feed_step)
      ultimately show ?thesis using less.hyps [of d im1] s flds by (simp add: same_setup_def)
    qed
  qed
qed

text \<open>The writes stay inside the window, except for the padding behind a block.\<close>

fun in_load_window :: "u32 \<Rightarrow> u32 \<Rightarrow> hw \<Rightarrow> bool" where
  "in_load_window lo hi (WriteMemory a bs) \<longleftrightarrow> lo \<le> a \<and> unat a + length bs \<le> unat hi + BLOCK_PAD"
| "in_load_window lo hi _ \<longleftrightarrow> False"

definition blocks_inside :: "u32 \<Rightarrow> u32 \<Rightarrow> hw list \<Rightarrow> block_ctx \<Rightarrow> bool" where
  "blocks_inside lo hi hw0 c \<longleftrightarrow> block_small c \<and>
     (bc_block c \<noteq> [] \<longrightarrow> lo \<le> bc_addr c \<and> block_end c \<le> unat hi) \<and>
     (\<exists>ws. bc_hw c = hw0 @ ws \<and> list_all (in_load_window lo hi) ws)"

lemma flush_inside:
  assumes "lo \<le> bc_addr c" "block_end c \<le> unat hi" "bc_hw c = hw0 @ ws" "list_all (in_load_window lo hi) ws"
  shows "blocks_inside lo hi hw0 (flush_block c)"
proof (cases "bc_block c = []")
  case False
  then show ?thesis
    using assms unfolding blocks_inside_def
    by (auto simp: flush_block_def block_end_def block_small_def BLOCK_SIZE_def)
qed (use assms in \<open>auto simp: blocks_inside_def flush_block_def block_small_def BLOCK_SIZE_def\<close>)

lemma blocks_inside_flush: "blocks_inside lo hi hw0 c \<Longrightarrow> blocks_inside lo hi hw0 (flush_block c)"
proof (cases "bc_block c = []")
  case True
  then have "flush_block c = c" by (simp add: flush_block_def)
  then show "blocks_inside lo hi hw0 c \<Longrightarrow> blocks_inside lo hi hw0 (flush_block c)" by simp
qed (auto simp: blocks_inside_def [of _ _ _ c] intro: flush_inside)

lemma write_rounds_inside:
  "blocks_inside lo hi hw0 c \<Longrightarrow> follows c (unat addr) \<Longrightarrow> lo \<le> addr \<Longrightarrow>
    unat addr + length bytes \<le> unat hi \<Longrightarrow> blocks_inside lo hi hw0 (write_rounds k c addr bytes)"
proof (induction k arbitrary: c addr bytes)
  case (Suc k)
  show ?case
  proof (cases "bytes = []")
    case False
    let ?n = "round_size c bytes"
    have small: "block_small c" using Suc.prems(1) by (simp add: blocks_inside_def)
    note pos = round_size_pos [OF small False]
    have n: "?n \<le> length bytes" "length (bc_block c) + ?n \<le> BLOCK_SIZE"
      using small by (simp_all add: round_size_def block_small_def)
    have a: "unat (addr + of_nat ?n) = unat addr + ?n"
      using Suc.prems(4) n by (intro unat_add_in_range [of _ _ hi]) simp
    obtain ws where ws: "bc_hw c = hw0 @ ws" "list_all (in_load_window lo hi) ws"
      using Suc.prems(1) by (auto simp: blocks_inside_def)
    define c1 where "c1 = (if bc_block c = [] then c\<lparr>bc_addr := addr\<rparr> else c)"
    define c2 where "c2 = c1\<lparr>bc_block := bc_block c1 @ take ?n bytes\<rparr>"
    have round: "write_round c addr ?n bytes = (if length (bc_block c2) = BLOCK_SIZE then flush_block c2 else c2)"
      by (simp add: write_round_def Let_def c1_def c2_def)
    have "lo \<le> bc_addr c2" using Suc.prems(1,3) by (auto simp: c2_def c1_def blocks_inside_def)
    moreover have "block_end c2 \<le> unat hi"
      using Suc.prems(2,4) n(1) by (auto simp: c2_def c1_def block_end_def follows_def)
    moreover have "bc_hw c2 = hw0 @ ws" by (simp add: c2_def c1_def ws)
    moreover have "length (bc_block c2) \<le> BLOCK_SIZE" using n by (simp add: c2_def c1_def)
    ultimately have "blocks_inside lo hi hw0 (write_round c addr ?n bytes)"
      unfolding round using flush_inside [OF _ _ _ ws(2)]
      by (auto simp: blocks_inside_def [of _ _ _ c2] block_small_def ws(2))
    moreover have "lo \<le> addr + of_nat ?n" using Suc.prems(3) a by (simp add: word_le_nat_alt)
    ultimately show ?thesis
      unfolding write_rounds_Suc [OF False]
      using Suc.prems(4) n(1) write_round_view(2) [OF Suc.prems(2) pos n(1)]
      by (intro Suc.IH) (simp_all add: a)
  qed (use Suc.prems in simp)
qed simp

lemma write_memory_inside:
  assumes "blocks_inside lo hi hw0 c" "lo \<le> addr" "unat addr + length bytes \<le> unat hi"
  shows "blocks_inside lo hi hw0 (snd (write_memory c addr bytes))"
proof -
  let ?c = "if continues c addr then c else flush_block c"
  have "unat (bc_addr c + of_nat (length (bc_block c))) = block_end c" if "bc_block c \<noteq> []"
    using unat_add_in_range [of "bc_addr c" "length (bc_block c)" hi] assms(1) that
    by (simp add: block_end_def blocks_inside_def)
  then have "follows ?c (unat addr)" by (auto simp: follows_def continues_def)
  then show ?thesis
    using assms blocks_inside_flush by (auto simp: write_memory_eq intro: write_rounds_inside)
qed

text \<open>The reader fed with the whole file so far.\<close>

definition reader_at :: "block_ctx image \<Rightarrow> hw list \<Rightarrow> byte list \<Rightarrow> block_ctx image \<Rightarrow> bool" where
  "reader_at im0 hw0 got im \<longleftrightarrow> recovery_image_feed im0 got = Some (RECOVERY_IMAGE_OK, im) \<and>
     image_ok im \<and> same_setup im0 im \<and> im_state im \<noteq> IMAGE_FAILED \<and>
     blocks_inside (im_load_min im0) (im_load_max im0) hw0 (im_ctx im)"

lemma image_sink_ok:
  assumes at: "reader_at im0 hw0 got im" and im0: "image_ok im0" "im_write im0 = write_memory"
    "block_small (im_ctx im0)"
  shows "\<exists>ok im'. image_sink im (length got) bs = Some (ok, im') \<and>
    blocks_inside (im_load_min im0) (im_load_max im0) hw0 (im_ctx im') \<and>
    (ok \<longrightarrow> reader_at im0 hw0 (got @ bs) im')"
proof -
  have im: "image_ok im" "im_write im = write_memory" "im_load_min im = im_load_min im0"
    "im_load_max im = im_load_max im0" "recovery_image_feed im0 got = Some (RECOVERY_IMAGE_OK, im)"
    "blocks_inside (im_load_min im0) (im_load_max im0) hw0 (im_ctx im)" "same_setup im0 im"
    using at im0 by (auto simp: reader_at_def same_setup_def)
  obtain r im' where f: "recovery_image_feed im bs = Some (r, im')" "image_ok im'" "same_setup im im'"
    "r = RECOVERY_IMAGE_OK \<longleftrightarrow> im_state im' \<noteq> IMAGE_FAILED"
    using image_feed_total [OF im(1), of bs] by blast
  have inside: "blocks_inside (im_load_min im0) (im_load_max im0) hw0 (im_ctx im')"
    by (rule feed_ctx_window [OF write_memory_inside im(1-4,6) f(1)])
  have "reader_at im0 hw0 (got @ bs) im'" if ok: "r = RECOVERY_IMAGE_OK"
  proof -
    have "map_option answer_view (recovery_image_feed im0 (got @ bs)) = Some (answer_view (r, im'))"
      using blocks.feed_append [OF im0(1,2) im0(3) im(5), of bs] f(1) by simp
    then have "recovery_image_feed im0 (got @ bs) = Some (r, im')"
      using ok by (auto simp: answer_view_def split: if_splits)
    then show ?thesis
      using ok f(2-4) inside same_setup_trans [OF im(7) f(3)] by (simp add: reader_at_def)
  qed
  then show ?thesis using f(1) inside by (auto simp: image_sink_def)
qed

lemma load_image_cases:
  obtains (no_url) "load_image nt sha m u s = Some (FAIL_IMAGE, s)"
  | (failed) outc s' ws where "load_image nt sha m u s = Some (outc, s')"
      "outc = FAIL_IMAGE \<or> outc = CANCELLED"
      "rc_hw s' = rc_hw s @ [SetOutputs CPU_RESET] @ ws @ [FpgaClear]"
      "list_all (in_load_window LOAD_MIN LOAD_MAX) ws" "rc_tail s' = rc_tail s"
  | (started) s' ws got pre rs c where "load_image nt sha m u s = Some (RECOVERY_DONE, s')"
      "length got = unat (rf_size (mf_image m))" "sha got = rf_sha256 (mf_image m)"
      "got = pre @ concat (map record_bytes rs)" "preheader_ok (Some IMAGE_FAMILY) pre rs"
      "list_all (record_ok LOAD_MIN LOAD_MAX) rs"
      "run_records write_memory \<lparr>bc_addr = 0, bc_block = [], bc_hw = rc_hw s @ [SetOutputs CPU_RESET]\<rparr> rs =
         (True, c)"
      "bc_hw (flush_block c) = rc_hw s @ [SetOutputs CPU_RESET] @ ws"
      "list_all (in_load_window LOAD_MIN LOAD_MAX) ws"
      "rc_hw s' = rc_hw s @ [SetOutputs CPU_RESET] @ ws @
         [WriteMemory BOOT_MAGIC_ADDR (le32_bytes (last_start 0 rs) @ le32_bytes BOOT_MAGIC), SetOutputs 0]"
      "LOAD_MIN \<le> last_start 0 rs" "last_start 0 rs < LOAD_MAX" "rc_tail s' = rc_tail s"
proof (cases "recovery_file_url 256 u (rf_name (mf_image m))")
  case None
  then show thesis using no_url by (simp add: load_image_def)
next
  case (Some url)
  let ?hw0 = "rc_hw s @ [SetOutputs CPU_RESET]"
  let ?c0 = "\<lparr>bc_addr = 0, bc_block = [], bc_hw = ?hw0\<rparr>"
  define im0 where "im0 = recovery_image_init LOAD_MIN LOAD_MAX (Some IMAGE_FAMILY) write_memory ?c0"
  have im0: "image_ok im0" "im_write im0 = write_memory" "block_small (im_ctx im0)"
    "im_load_min im0 = LOAD_MIN" "im_load_max im0 = LOAD_MAX" "im_state im0 = IMAGE_DETECT" "im_ctx im0 = ?c0"
    unfolding im0_def by (rule init_ok) (simp_all add: recovery_image_init_def block_small_def BLOCK_SIZE_def)
  define J where "J im = blocks_inside LOAD_MIN LOAD_MAX ?hw0 (im_ctx im)" for im :: "block_ctx image"
  have init: "reader_at im0 ?hw0 [] im0"
    using im0 by (simp add: reader_at_def feed_Nil blocks_inside_def)
  have weaken: "reader_at im0 ?hw0 got im \<Longrightarrow> J im" for got im by (simp add: reader_at_def J_def im0)
  note sink = image_sink_ok [OF _ im0(1-3), of ?hw0, unfolded im0(4,5)]
  obtain ok im n1 where st: "stream_file nt sha url (mf_image m) image_sink im0 (rc_net s) = Some ((ok, im), n1)"
    "J im" "ok \<Longrightarrow> \<exists>got. reader_at im0 ?hw0 got im \<and> length got = unat (rf_size (mf_image m)) \<and>
      sha got = rf_sha256 (mf_image m)"
    by (rule stream_file_rule [where I = "reader_at im0 ?hw0" and J = J and sink = image_sink
          and fl = "mf_image m" and c = im0 and nt = nt and sha = sha and get_url = url and n = "rc_net s"])
      (use sink init weaken in \<open>auto simp: J_def\<close>)
  define im2 where "im2 = (if ok then im\<lparr>im_ctx := flush_block (im_ctx im)\<rparr> else im)"
  have "blocks_inside LOAD_MIN LOAD_MAX ?hw0 (im_ctx im2)"
    using st(2) blocks_inside_flush by (auto simp: im2_def J_def)
  then obtain ws where ws: "bc_hw (im_ctx im2) = ?hw0 @ ws" "list_all (in_load_window LOAD_MIN LOAD_MAX) ws"
    by (auto simp: blocks_inside_def)
  have unfold: "load_image nt sha m u s =
     (case (if ok then recovery_image_finish im2 else Inl RECOVERY_IMAGE_ERR_FAILED) of
        Inl r \<Rightarrow> (case nt_cancelled nt n1 of (stop, n2) \<Rightarrow>
          Some (if stop then CANCELLED else FAIL_IMAGE,
                \<lparr>rc_net = n2, rc_hw = ?hw0 @ ws @ [FpgaClear], rc_tail = rc_tail s\<rparr>))
      | Inr start \<Rightarrow> (case nt_user_code nt n1 of (user, n2) \<Rightarrow>
          Some (RECOVERY_DONE, \<lparr>rc_net = n2, rc_hw = ?hw0 @ ws @
            [WriteMemory BOOT_MAGIC_ADDR (le32_bytes start @ le32_bytes BOOT_MAGIC), SetOutputs 0],
            rc_tail = rc_tail s\<rparr>)))"
    unfolding load_image_def Some option.case Let_def
    using st(1) ws(1) by (cases s; cases ok) (simp_all add: tell_def im0_def im2_def split: sum.split prod.split)
  show thesis
  proof (cases "if ok then recovery_image_finish im2 else Inl RECOVERY_IMAGE_ERR_FAILED")
    case (Inl r)
    obtain stop n2 where n2: "nt_cancelled nt n1 = (stop, n2)" by fastforce
    have "load_image nt sha m u s = Some (if stop then CANCELLED else FAIL_IMAGE,
        \<lparr>rc_net = n2, rc_hw = ?hw0 @ ws @ [FpgaClear], rc_tail = rc_tail s\<rparr>)"
      unfolding unfold Inl sum.case n2 prod.case ..
    then show thesis by (rule failed [where ws = ws]) (simp_all add: ws(2))
  next
    case (Inr start)
    then have ok: ok by (cases ok) simp_all
    obtain user n2 where n2: "nt_user_code nt n1 = (user, n2)" by fastforce
    from st(3) [OF ok] obtain got where got: "reader_at im0 ?hw0 got im"
      "length got = unat (rf_size (mf_image m))" "sha got = rf_sha256 (mf_image m)" by blast
    have "recovery_image_finish im = recovery_image_finish im2"
      by (simp add: im2_def ok recovery_image_finish_def in_window_def)
    then have "load_stream write_memory ?c0 LOAD_MIN LOAD_MAX (Some IMAGE_FAMILY) got = Some (start, im_ctx im)"
      using got(1) Inr ok by (simp add: load_stream_def reader_at_def im0_def)
    from load_stream_sound [OF this] obtain pre rs where r: "got = pre @ concat (map record_bytes rs)"
      "preheader_ok (Some IMAGE_FAMILY) pre rs" "list_all (record_ok LOAD_MIN LOAD_MAX) rs"
      "run_records write_memory ?c0 rs = (True, im_ctx im)" "start = last_start 0 rs"
      "LOAD_MIN \<le> start" "start < LOAD_MAX" by metis
    have "load_image nt sha m u s = Some (RECOVERY_DONE, \<lparr>rc_net = n2, rc_hw = ?hw0 @ ws @
        [WriteMemory BOOT_MAGIC_ADDR (le32_bytes start @ le32_bytes BOOT_MAGIC), SetOutputs 0],
        rc_tail = rc_tail s\<rparr>)"
      unfolding unfold Inr sum.case n2 prod.case ..
    then show thesis
      by (rule started [where ws = ws and got = got and pre = pre and rs = rs and c = "im_ctx im"])
        (use ws r got ok in \<open>simp_all add: im2_def\<close>)
  qed
qed

section \<open>The package\<close>

definition trusted :: "'key crypto \<Rightarrow> string list \<Rightarrow> u32 \<Rightarrow> string \<Rightarrow> manifest \<Rightarrow> bool" where
  "trusted cr keys idcode serial m \<longleftrightarrow>
     (\<exists>t sig. recovery_manifest_split t = Inr sig \<and> recovery_manifest_verify cr t sig keys = RECOVERY_OK \<and>
        recovery_manifest_parse (take (signed_len sig) t) = Inr m \<and>
        recovery_manifest_for_board m idcode serial)"

lemma check_manifest_trusted: "check_manifest cr keys serial idcode t = Some m \<Longrightarrow> trusted cr keys idcode serial m"
  by (auto simp: check_manifest_def trusted_def split: sum.splits if_splits)

lemma ask_server_trusted:
  assumes "ask_server nt cr keys server serial idcode n = ((outc, found), n')"
  shows "(outc = RECOVERY_DONE \<and> (\<exists>m u. found = Some (m, u) \<and> trusted cr keys idcode serial m)) \<or>
    ((outc = FAIL_NO_PACKAGE \<or> outc = FAIL_MANIFEST) \<and> found = None)"
  using assms check_manifest_trusted [of cr keys serial idcode]
  by (auto simp: ask_server_def Let_def split: option.splits prod.splits if_splits)

lemma server_rounds_trusted:
  "server_rounds nt cr keys serial idcode servers worst n = ((outc, found), n') \<Longrightarrow>
    worst = FAIL_NO_PACKAGE \<or> worst = FAIL_MANIFEST \<Longrightarrow>
    (outc = RECOVERY_DONE \<and> (\<exists>m u. found = Some (m, u) \<and> trusted cr keys idcode serial m)) \<or>
    ((outc = FAIL_NO_PACKAGE \<or> outc = FAIL_MANIFEST \<or> outc = CANCELLED) \<and> found = None)"
proof (induction servers arbitrary: worst n)
  case (Cons server servers)
  obtain stop n1 where n1: "nt_cancelled nt n = (stop, n1)" by fastforce
  obtain o1 f1 n2 where a: "ask_server nt cr keys server serial idcode n1 = ((o1, f1), n2)"
    by (metis prod.exhaust_sel)
  show ?case
  proof (cases "stop \<or> server = [] \<or> o1 = RECOVERY_DONE")
    case True
    then show ?thesis
      using Cons a n1 ask_server_trusted [OF a] by (auto split: prod.splits if_splits)
  next
    case False
    then show ?thesis
      using Cons.IH [of "if o1 = FAIL_MANIFEST then o1 else worst" n2] Cons.prems a n1
      by (auto split: if_splits)
  qed
qed (auto split: prod.splits if_splits)

lemma find_package_trusted:
  assumes "find_package nt cr keys servers serial idcode n = ((outc, found), n')"
  shows "(outc = RECOVERY_DONE \<and> (\<exists>m u. found = Some (m, u) \<and> trusted cr keys idcode serial m)) \<or>
    ((outc = FAIL_NO_PACKAGE \<or> outc = FAIL_MANIFEST \<or> outc = CANCELLED) \<and> found = None)"
proof -
  obtain err configured n1 where g: "recovery_get_url nt (RECOVERY_URL_MAX + 1) n = ((err, configured), n1)"
    by (metis prod.exhaust_sel)
  have "server_rounds nt cr keys serial idcode (configured # servers) FAIL_NO_PACKAGE n1 = ((outc, found), n')"
    using assms unfolding find_package_def g prod.case .
  from server_rounds_trusted [OF this] show ?thesis by simp
qed

section \<open>Properties\<close>

fun fpga_bytes :: "hw \<Rightarrow> byte list" where
  "fpga_bytes (FpgaShift bs) = bs"
| "fpga_bytes (FpgaFinish bs) = bs"
| "fpga_bytes _ = []"

fun is_finish :: "hw \<Rightarrow> bool" where
  "is_finish (FpgaFinish bs) = True"
| "is_finish _ = False"

definition shifted :: "hw list \<Rightarrow> byte list" where
  "shifted log = concat (List.map fpga_bytes log)"

lemma shifted_simps [simp]:
  "shifted [] = []" "shifted (a @ b) = shifted a @ shifted b" "shifted (h # a) = fpga_bytes h @ shifted a"
  "shifted (List.map FpgaShift chunks) = concat chunks"
  by (simp_all add: shifted_def comp_def)

lemma window_log:
  "list_all (in_load_window lo hi) ws \<Longrightarrow> shifted ws = [] \<and> \<not> list_ex is_finish ws \<and>
    FpgaBegin \<notin> set ws \<and> SetOutputs x \<notin> set ws"
proof (induction ws)
  case (Cons h ws)
  then show ?case by (cases h) auto
qed simp

lemma no_finish_shifts [simp]: "\<not> list_ex is_finish (List.map FpgaShift chunks)"
  by (simp add: list_ex_iff)

text \<open>C5: Loading a bitstream always returns, and its last 4096 bytes, which carry the start command,
  reach the FPGA only when the whole file has the size and the hash of the manifest: before that at
  most the other bytes are shifted.  When the FPGA did not start, the last thing it was told is to
  clear itself, unless it was not touched at all.\<close>

theorem bitstream_tail_after_hash:
  assumes "length (rc_tail s) = FPGA_HOLDBACK"
  shows "\<exists>outc s' log. load_bitstream nt sha m u s = Some (outc, s') \<and> rc_hw s' = rc_hw s @ log \<and>
    (list_ex is_finish log \<longrightarrow> sha (shifted log) = rf_sha256 (mf_fpga m) \<and>
       length (shifted log) = unat (rf_size (mf_fpga m))) \<and>
    (\<not> list_ex is_finish log \<longrightarrow> length (shifted log) \<le> unat (rf_size (mf_fpga m)) - FPGA_HOLDBACK) \<and>
    (outc = RECOVERY_DONE \<longrightarrow> list_ex is_finish log) \<and>
    (outc \<noteq> RECOVERY_DONE \<longrightarrow> log = [] \<or> last log = FpgaClear)"
proof (rule load_bitstream_cases [OF assms, of nt sha m u])
  show ?thesis if "load_bitstream nt sha m u s = Some (FAIL_BITSTREAM, s)" using that by simp
next
  fix outc s' chunks
  assume "load_bitstream nt sha m u s = Some (outc, s')" "outc = FAIL_BITSTREAM \<or> outc = CANCELLED"
    "rc_hw s' = rc_hw s @ [FpgaBegin] @ List.map FpgaShift chunks @ [FpgaClear]"
    "length (concat chunks) \<le> unat (rf_size (mf_fpga m)) - FPGA_HOLDBACK"
  then show ?thesis
    by (intro exI [of _ outc] exI [of _ s'] exI [of _ "[FpgaBegin] @ List.map FpgaShift chunks @ [FpgaClear]"])
      auto
next
  fix outc s' chunks tail
  let ?log = "[FpgaBegin] @ List.map FpgaShift chunks @ [FpgaFinish tail] @
    (if outc = RECOVERY_DONE then [] else [FpgaClear])"
  assume a: "load_bitstream nt sha m u s = Some (outc, s')" "outc = RECOVERY_DONE \<or> outc = FAIL_FPGA_START"
    "rc_hw s' = rc_hw s @ ?log"
    "length (concat chunks @ tail) = unat (rf_size (mf_fpga m))"
    "sha (concat chunks @ tail) = rf_sha256 (mf_fpga m)"
  have "shifted ?log = concat chunks @ tail" by simp
  with a show ?thesis by (intro exI [of _ outc] exI [of _ s'] exI [of _ ?log]) auto
qed

text \<open>C4: When the updater is started, the memory of the machine holds the image the manifest names: the
  file loaded has its size and hash and is an update image, and, when its records ascend, every
  address of a record holds that record's byte, every other address what it held before, except
  for up to eight zero bytes behind a record; the boot magic holds the start address of the image.\<close>

theorem started_image_in_memory:
  assumes "load_image nt sha m u s = Some (RECOVERY_DONE, s')"
  shows "\<exists>got pre rs. length got = unat (rf_size (mf_image m)) \<and> sha got = rf_sha256 (mf_image m) \<and>
    got = pre @ concat (map record_bytes rs) \<and> preheader_ok (Some IMAGE_FAMILY) pre rs \<and>
    list_all (record_ok LOAD_MIN LOAD_MAX) rs \<and>
    (\<forall>i < 8. memory_after (rc_hw s') mem (0xFFF8 + i) =
       (le32_bytes (last_start 0 rs) @ le32_bytes BOOT_MAGIC) ! i) \<and>
    (ascending 0 rs \<longrightarrow>
      (\<forall>x. list_ex (in_record 0 x) rs \<longrightarrow>
         memory_after (rc_hw s') mem x = records_in rs (memory_after (rc_hw s) mem) x) \<and>
      (\<forall>x. \<not> list_ex (in_record BLOCK_PAD x) rs \<longrightarrow> \<not> (0xFFF8 \<le> x \<and> x < 0x10000) \<longrightarrow>
         memory_after (rc_hw s') mem x = memory_after (rc_hw s) mem x))"
proof (rule load_image_cases [of nt sha m u s])
  show ?thesis if "load_image nt sha m u s = Some (FAIL_IMAGE, s)" using that assms by simp
next
  fix outc s'
  assume "load_image nt sha m u s = Some (outc, s')" "outc = FAIL_IMAGE \<or> outc = CANCELLED"
  then show ?thesis using assms by auto
next
  fix s2 ws got pre rs c
  let ?hw0 = "rc_hw s @ [SetOutputs CPU_RESET]"
  let ?c0 = "\<lparr>bc_addr = 0, bc_block = [], bc_hw = ?hw0\<rparr>"
  let ?boot = "le32_bytes (last_start 0 rs) @ le32_bytes BOOT_MAGIC"
  let ?m = "memory_after (rc_hw s) mem"
  assume img: "load_image nt sha m u s = Some (RECOVERY_DONE, s2)"
    "length got = unat (rf_size (mf_image m))" "sha got = rf_sha256 (mf_image m)"
    "got = pre @ concat (map record_bytes rs)" "preheader_ok (Some IMAGE_FAMILY) pre rs"
    "list_all (record_ok LOAD_MIN LOAD_MAX) rs" "run_records write_memory ?c0 rs = (True, c)"
    "bc_hw (flush_block c) = rc_hw s @ [SetOutputs CPU_RESET] @ ws"
    "rc_hw s2 = rc_hw s @ [SetOutputs CPU_RESET] @ ws @ [WriteMemory BOOT_MAGIC_ADDR ?boot, SetOutputs 0]"
  have magic_at: "unat BOOT_MAGIC_ADDR = 0xFFF8" "unat LOAD_MIN = 0x10000"
    by (simp_all add: BOOT_MAGIC_ADDR_def LOAD_MIN_def)
  have hw: "rc_hw s' = bc_hw (flush_block c) @ [WriteMemory BOOT_MAGIC_ADDR ?boot] @ [SetOutputs 0]"
    using img(1,8,9) assms by simp
  have mem: "memory_after (rc_hw s') mem =
      overlay 0xFFF8 ?boot (memory_after (bc_hw (flush_block c)) mem)"
    unfolding hw append_assoc [symmetric] memory_after_simps hw_effect.simps magic_at ..
  have low: "0x10000 \<le> x" if "list_ex (in_record p x) rs" for p x
  proof -
    obtain r where r: "r \<in> set rs" "ir_data r \<noteq> []" "unat (ir_load r) \<le> x"
      using \<open>list_ex (in_record p x) rs\<close> by (auto simp: list_ex_iff in_record_def)
    then have "LOAD_MIN \<le> ir_load r" using img(6) by (auto simp: list_all_iff record_ok_def)
    then show ?thesis using r(3) magic_at(2) by (simp add: word_le_nat_alt)
  qed
  have asc: "(\<forall>x. list_ex (in_record 0 x) rs \<longrightarrow> memory_after (rc_hw s') mem x = records_in rs ?m x) \<and>
      (\<forall>x. \<not> list_ex (in_record BLOCK_PAD x) rs \<longrightarrow> \<not> (0xFFF8 \<le> x \<and> x < 0x10000) \<longrightarrow>
         memory_after (rc_hw s') mem x = ?m x)" if up: "ascending 0 rs"
  proof -
    have "memory_ok [] 0 mem ?m ?c0"
      by (simp add: memory_ok_def block_small_def BLOCK_SIZE_def follows_def block_view_def
          memory_after_def)
    from memory_ok_records [OF this up img(6)] obtain a' where ok: "memory_ok rs a' mem ?m c"
      using img(7) by auto
    have out: "overlay 0xFFF8 ?boot f x = f x" if "\<not> (0xFFF8 \<le> x \<and> x < 0x10000)" for f x
      by (rule overlay_outside) (use that in simp)
    have "overlay 0xFFF8 ?boot f x = f x" if "list_ex (in_record 0 x) rs" for f x
      by (rule out) (use low [OF that] in simp)
    then show ?thesis
      unfolding mem using memory_ok_flush [OF ok] out by simp
  qed
  have "\<forall>i < 8. memory_after (rc_hw s') mem (0xFFF8 + i) = ?boot ! i"
    by (simp add: mem overlay_def)
  with asc img(2-6) show ?thesis by blast
qed

text \<open>What a recovery does once it has a package, with the outcome of the two loads.\<close>

definition verified_load ::
  "(byte list \<Rightarrow> byte list) \<Rightarrow> manifest \<Rightarrow> outcome \<Rightarrow> hw list \<Rightarrow> bool" where
  "verified_load sha m outc log \<longleftrightarrow>
     (SetOutputs 0 \<in> set log \<longleftrightarrow> outc = RECOVERY_DONE) \<and>
     (outc = RECOVERY_DONE \<longrightarrow>
        (\<exists>image pre rs. sha (shifted log) = rf_sha256 (mf_fpga m) \<and> sha image = rf_sha256 (mf_image m) \<and>
         image = pre @ concat (map record_bytes rs) \<and> preheader_ok (Some IMAGE_FAMILY) pre rs \<and>
         list_all (record_ok LOAD_MIN LOAD_MAX) rs)) \<and>
     (\<forall>a bs. WriteMemory a bs \<in> set log \<longrightarrow> in_load_window LOAD_MIN LOAD_MAX (WriteMemory a bs) \<or>
        a = BOOT_MAGIC_ADDR \<and> outc = RECOVERY_DONE)"

definition load_package ::
  "'n net \<Rightarrow> (byte list \<Rightarrow> byte list) \<Rightarrow> manifest \<Rightarrow> string \<Rightarrow> 'n rec_state \<Rightarrow> (outcome \<times> 'n rec_state) option" where
  "load_package nt sha m u s =
     (case load_bitstream nt sha m u s of
        None \<Rightarrow> None
      | Some (o1, s3) \<Rightarrow> if o1 = RECOVERY_DONE then load_image nt sha m u s3 else Some (o1, s3))"

lemma cpu_reset_held: "CPU_RESET \<noteq> 0"
  by (simp add: CPU_RESET_def)

lemma load_package_verified:
  assumes "length (rc_tail s) = FPGA_HOLDBACK"
  shows "\<exists>outc s' log. load_package nt sha m u s = Some (outc, s') \<and> rc_hw s' = rc_hw s @ log \<and>
    verified_load sha m outc log"
proof (rule load_bitstream_cases [OF assms, of nt sha m u])
  assume "load_bitstream nt sha m u s = Some (FAIL_BITSTREAM, s)"
  then show ?thesis by (simp add: load_package_def verified_load_def)
next
  fix outc s' chunks
  assume a: "load_bitstream nt sha m u s = Some (outc, s')" "outc = FAIL_BITSTREAM \<or> outc = CANCELLED"
    "rc_hw s' = rc_hw s @ [FpgaBegin] @ List.map FpgaShift chunks @ [FpgaClear]"
  then show ?thesis
    by (intro exI [of _ outc] exI [of _ s'] exI [of _ "[FpgaBegin] @ List.map FpgaShift chunks @ [FpgaClear]"])
      (auto simp: load_package_def verified_load_def)
next
  fix outc s1 chunks tail
  let ?log = "[FpgaBegin] @ List.map FpgaShift chunks @ [FpgaFinish tail] @
    (if outc = RECOVERY_DONE then [] else [FpgaClear])"
  assume a: "load_bitstream nt sha m u s = Some (outc, s1)" "outc = RECOVERY_DONE \<or> outc = FAIL_FPGA_START"
    "rc_hw s1 = rc_hw s @ ?log" "sha (concat chunks @ tail) = rf_sha256 (mf_fpga m)"
  show ?thesis
  proof (cases "outc = RECOVERY_DONE")
    case False
    with a show ?thesis
      by (intro exI [of _ outc] exI [of _ s1] exI [of _ ?log]) (auto simp: load_package_def verified_load_def)
  next
    case True
    have sh: "shifted ?log = concat chunks @ tail" "SetOutputs 0 \<notin> set ?log" "WriteMemory x y \<notin> set ?log" for x y
      using True by auto
    have eq: "load_package nt sha m u s = load_image nt sha m u s1" using a(1) True by (simp add: load_package_def)
    show ?thesis
      unfolding eq
    proof (rule load_image_cases [of nt sha m u s1])
      assume "load_image nt sha m u s1 = Some (FAIL_IMAGE, s1)"
      then show "\<exists>outc s' log. load_image nt sha m u s1 = Some (outc, s') \<and> rc_hw s' = rc_hw s @ log \<and>
          verified_load sha m outc log"
        using a(3) sh by (intro exI [of _ FAIL_IMAGE] exI [of _ s1] exI [of _ ?log])
          (simp add: verified_load_def)
    next
      fix o2 s2 ws
      let ?l = "?log @ [SetOutputs CPU_RESET] @ ws @ [FpgaClear]"
      assume i: "load_image nt sha m u s1 = Some (o2, s2)" "o2 = FAIL_IMAGE \<or> o2 = CANCELLED"
        "rc_hw s2 = rc_hw s1 @ [SetOutputs CPU_RESET] @ ws @ [FpgaClear]"
        "list_all (in_load_window LOAD_MIN LOAD_MAX) ws"
      have "verified_load sha m o2 ?l"
        using i(2,4) sh window_log [OF i(4), of 0] cpu_reset_held
        by (auto simp: verified_load_def list_all_iff)
      with i a(3) show "\<exists>outc s' log. load_image nt sha m u s1 = Some (outc, s') \<and> rc_hw s' = rc_hw s @ log \<and>
          verified_load sha m outc log"
        by (intro exI [of _ o2] exI [of _ s2] exI [of _ ?l]) simp
    next
      fix s2 ws got pre rs and c :: block_ctx
      let ?l = "?log @ [SetOutputs CPU_RESET] @ ws @
        [WriteMemory BOOT_MAGIC_ADDR (le32_bytes (last_start 0 rs) @ le32_bytes BOOT_MAGIC), SetOutputs 0]"
      assume i: "load_image nt sha m u s1 = Some (RECOVERY_DONE, s2)"
        "sha got = rf_sha256 (mf_image m)" "got = pre @ concat (map record_bytes rs)"
        "preheader_ok (Some IMAGE_FAMILY) pre rs" "list_all (record_ok LOAD_MIN LOAD_MAX) rs"
        "list_all (in_load_window LOAD_MIN LOAD_MAX) ws"
        "rc_hw s2 = rc_hw s1 @ [SetOutputs CPU_RESET] @ ws @
          [WriteMemory BOOT_MAGIC_ADDR (le32_bytes (last_start 0 rs) @ le32_bytes BOOT_MAGIC), SetOutputs 0]"
      have "shifted ?l = concat chunks @ tail" using sh(1) window_log [OF i(6)] by simp
      then have "sha (shifted ?l) = rf_sha256 (mf_fpga m)" using a(4) by simp
      moreover have "in_load_window LOAD_MIN LOAD_MAX (WriteMemory x y) \<or> x = BOOT_MAGIC_ADDR"
        if "WriteMemory x y \<in> set ?l" for x y
        using that sh(3) i(6) by (auto simp: list_all_iff)
      moreover have "SetOutputs 0 \<in> set ?l" by simp
      ultimately have "verified_load sha m RECOVERY_DONE ?l"
        unfolding verified_load_def using i(2-5) by blast
      with i(1,7) a(3) show "\<exists>outc s' log. load_image nt sha m u s1 = Some (outc, s') \<and>
          rc_hw s' = rc_hw s @ log \<and> verified_load sha m outc log"
        by (intro exI [of _ RECOVERY_DONE] exI [of _ s2] exI [of _ ?l]) simp
    qed
  qed
qed

text \<open>The condition that records ascend is needed: of two adjacent records given in descending order
  the first loses its first bytes, because the zero padding written behind the second lands on
  them.\<close>

lemma padding_overwrites_record:
  "\<exists>rs c. list_all (record_ok LOAD_MIN LOAD_MAX) rs \<and>
    run_records write_memory \<lparr>bc_addr = 0, bc_block = [], bc_hw = []\<rparr> rs = (True, c) \<and>
    memory_after (bc_hw (flush_block c)) mem 0x20004 = 0 \<and> records_in rs mem 0x20004 = 1"
proof -
  let ?rs = "[\<lparr>ir_load = 0x20004, ir_data = [1, 2, 3, 4], ir_start = 0x20004, ir_pad = []\<rparr>,
    \<lparr>ir_load = 0x20000, ir_data = [5, 6, 7, 8], ir_start = 0, ir_pad = []\<rparr>]"
  let ?c = "\<lparr>bc_addr = 0x20000, bc_block = [5, 6, 7, 8],
    bc_hw = [WriteMemory 0x20004 ([1, 2, 3, 4] @ replicate 8 0)]\<rparr>"
  show ?thesis
    by (rule exI [of _ ?rs], rule exI [of _ ?c])
      (simp add: record_ok_def LOAD_MIN_def LOAD_MAX_def run_record_def write_memory_def
        write_rounds.simps BLOCK_SIZE_def BLOCK_PAD_def Let_def flush_block_def memory_after_def
        overlay_def records_in_def)
qed


section \<open>Examples\<close>

text \<open>A world with one server: every request is answered with the bytes of \<open>example_image\<close>, nothing is ever cancelled, and the FPGA answers.\<close>

definition example_image :: "byte list" where
  "example_image = [0, 0, 1, 0, 3, 0, 0, 0, 0, 0, 1, 0, 1, 2, 3, 0]"

definition example_net :: "unit net" where
  "example_net =
     \<lparr>nt_init = \<lambda>u n. (True, n),
      nt_request = \<lambda>u n. (Some \<lparr>rs_code = 200, rs_headers = [],
        rs_body = [Data example_image]\<rparr>, n),
      nt_set_url = \<lambda>u n. (True, n), nt_cancelled = \<lambda>n. (False, n), nt_delay = \<lambda>ms n. n,
      nt_time = \<lambda>n. (1704067200, n), nt_connected = \<lambda>n. (True, n), nt_has_ip = \<lambda>n. (True, n),
      nt_autoconnect = \<lambda>n. n, nt_idcode = \<lambda>n. (0, n), nt_user_code = \<lambda>n. (1, n),
      nt_nvs_open = \<lambda>ns w n. (Inl ESP_ERR_NVS_NOT_FOUND, n),
      nt_get_str = \<lambda>h k sz n. (Inl ESP_ERR_NVS_NOT_FOUND, n), nt_set_str = \<lambda>h k v n. (ESP_OK, n),
      nt_erase_key = \<lambda>h k n. (ESP_OK, n), nt_commit = \<lambda>h n. (ESP_OK, n), nt_close = \<lambda>h n. n\<rparr>"

definition example_sha :: "byte list \<Rightarrow> byte list" where
  "example_sha bs = take 32 (bs @ replicate 32 0)"

definition example_manifest :: manifest where
  "example_manifest =
     \<lparr>mf_package = ''p'', mf_idcode = 0, mf_serial = ''*'',
      mf_fpga = \<lparr>rf_name = ''f'', rf_size = 16, rf_sha256 = example_sha example_image\<rparr>,
      mf_image = \<lparr>rf_name = ''i'', rf_size = 16, rf_sha256 = example_sha example_image\<rparr>\<rparr>"

definition example_crypto :: "unit crypto" where
  "example_crypto =
     \<lparr>base64_decode = \<lambda>sz t. None, sha256 = \<lambda>t. None, parse_public_key = \<lambda>t. None,
      is_ec_key = \<lambda>k. False, pk_verify = \<lambda>k h sg. False, psa_crypto_init = None\<rparr>"

definition example_state :: "unit rec_state" where
  "example_state = \<lparr>rc_net = (), rc_hw = [], rc_tail = replicate FPGA_HOLDBACK 0\<rparr>"

lemma example_tail: "length (rc_tail example_state) = FPGA_HOLDBACK"
  by (simp add: example_state_def)

definition example_record :: image_record where
  "example_record = \<lparr>ir_load = 0x10000, ir_data = [1, 2, 3], ir_start = 0x10000, ir_pad = [0]\<rparr>"

lemma example_image_record: "example_image = [] @ concat (map record_bytes [example_record])"
  by (simp add: example_image_def example_record_def record_bytes_def le32_bytes_def)

definition example_loaded :: "hw list" where
  "example_loaded = [SetOutputs CPU_RESET, WriteMemory 0x10000 ([1, 2, 3] @ replicate 8 0),
     WriteMemory BOOT_MAGIC_ADDR (le32_bytes 0x10000 @ le32_bytes BOOT_MAGIC), SetOutputs 0]"

definition example_block :: block_ctx where
  "example_block = \<lparr>bc_addr = 0x10000, bc_block = [1, 2, 3], bc_hw = [SetOutputs CPU_RESET]\<rparr>"

lemma example_stream:
  "load_stream write_memory \<lparr>bc_addr = 0, bc_block = [], bc_hw = [SetOutputs CPU_RESET]\<rparr>
     LOAD_MIN LOAD_MAX (Some IMAGE_FAMILY) example_image = Some (0x10000, example_block)"
proof -
  have start: "last_start 0 [example_record] = 0x10000" by (simp add: example_record_def)
  show ?thesis
    unfolding example_image_record start [symmetric]
    by (rule load_stream_complete)
      (simp_all add: example_record_def preheader_ok_def record_ok_def LOAD_MIN_def LOAD_MAX_def
        RECOVERY_IMAGE_FINGERPRINT_def run_record_def write_memory_def write_rounds.simps
        example_block_def BLOCK_SIZE_def Let_def)
qed

lemma example_load:
  "load_image example_net example_sha example_manifest ''http://h/m'' example_state =
    Some (RECOVERY_DONE, example_state\<lparr>rc_hw := example_loaded\<rparr>)"
proof -
  define im0 where "im0 = recovery_image_init LOAD_MIN LOAD_MAX (Some IMAGE_FAMILY) write_memory
    \<lparr>bc_addr = 0, bc_block = [], bc_hw = [SetOutputs CPU_RESET]\<rparr>"
  obtain im where im: "recovery_image_feed im0 example_image = Some (RECOVERY_IMAGE_OK, im)"
    "recovery_image_finish im = Inr 0x10000" "im_ctx im = example_block"
    using example_stream unfolding load_stream_def im0_def
    by (auto split: option.splits prod.splits sum.splits recovery_image_result.splits)
  have url: "recovery_file_url 256 ''http://h/m'' ''i'' = Some ''http://h/i''" by code_simp
  have len: "length example_image = 16" "example_image \<noteq> []" by (simp_all add: example_image_def)
  have opened: "http_open example_net ''http://h/i'' () = (Some (200, ''http://h/i'', [Data example_image]), ())"
    by (simp add: http_open_def example_net_def http_rounds.simps(2) [where k = 4, simplified] is_redirect_def)
  have flds: "unat (rf_size (mf_image example_manifest)) = 16" "rf_name (mf_image example_manifest) = ''i''"
    "rf_sha256 (mf_image example_manifest) = example_sha example_image"
    by (simp_all add: example_manifest_def)
  have cancelled: "nt_cancelled example_net n = (False, n)" for n by (simp add: example_net_def)
  have "stream_loop example_net 16 image_sink im0 [] 0 [Data example_image] () =
      Some ((True, example_image, im), ())"
    by (simp add: stream_loop.simps example_net_def len READ_SIZE_def image_sink_def im(1)
        YIELD_EVERY_def)
  then have loaded: "stream_file example_net example_sha ''http://h/i'' (mf_image example_manifest)
      image_sink im0 () = Some ((True, im), ())"
    by (simp add: stream_file_def opened flds len(1) cancelled)
  have fin: "recovery_image_finish (im\<lparr>im_ctx := x\<rparr>) = recovery_image_finish im" for x
    by (simp add: recovery_image_finish_def in_window_def)
  show ?thesis
    using loaded url im(2,3)
    by (simp add: load_image_def example_state_def tell_def im0_def [symmetric] fin example_block_def
        flush_block_def example_loaded_def BLOCK_PAD_def flds(2))
qed

theorem started_image_in_memory_witness:
  "\<exists>got pre rs. length got = 16 \<and> got = pre @ concat (map record_bytes rs) \<and>
    list_all (record_ok LOAD_MIN LOAD_MAX) rs"
  using started_image_in_memory [OF example_load, of "\<lambda>_. 0"]
  by (auto simp: example_manifest_def)

theorem bitstream_tail_after_hash_witness:
  "\<exists>outc s' log. load_bitstream example_net example_sha example_manifest ''http://h/m'' example_state =
      Some (outc, s') \<and> rc_hw s' = log \<and> (outc \<noteq> RECOVERY_DONE \<longrightarrow> log = [] \<or> last log = FpgaClear)"
  using bitstream_tail_after_hash [OF example_tail, of example_net example_sha example_manifest "''http://h/m''"]
  by (auto simp: example_state_def)


end
