(* ===== verification/Recovery_Leds.thy ===== *)
theory Recovery_Leds
  imports Recovery_Load
begin

text \<open>
  The task and the LEDs of \<^verbatim>\<open>software/u64ctrl/main/recovery.c\<close>: starting and cancelling a recovery,
  what its outcome shows, and the timer that blinks the LEDs every 100 ms.
\<close>

datatype led_mode = LEDS_FREE | LEDS_BUSY | LEDS_DONE | LEDS_ERROR

definition LED_TICK_MS :: nat where "LED_TICK_MS = 100"
definition LED_DONE_TICKS :: nat where "LED_DONE_TICKS = 10000 div LED_TICK_MS"
definition LED_ERROR_TICKS :: nat where "LED_ERROR_TICKS = 60000 div LED_TICK_MS"

text \<open>The state of the task and the LEDs, with the LEDs as they are lit, whether the timer was created
  and whether it runs, and the events posted to the button handler.\<close>

record rec_task =
  rt_running :: bool
  rt_cancelled :: bool
  ld_mode :: led_mode
  ld_code :: nat
  ld_ticks :: nat
  ld_green :: bool
  ld_red :: bool
  ld_timer :: bool
  ld_active :: bool
  rt_off_posted :: nat

definition leds :: "bool \<Rightarrow> bool \<Rightarrow> rec_task \<Rightarrow> rec_task" where
  "leds green red t = t\<lparr>ld_green := green, ld_red := red\<rparr>"

definition led_tick :: "rec_task \<Rightarrow> rec_task" where
  "led_tick t0 =
     (let t = t0\<lparr>ld_ticks := ld_ticks t0 + 1\<rparr>;
          t1 = (case ld_mode t of
                  LEDS_BUSY \<Rightarrow> leds (odd (ld_ticks t div 2)) False t
                | LEDS_DONE \<Rightarrow>
                    let t' = leds True False t
                    in if ld_ticks t' \<ge> LED_DONE_TICKS then t'\<lparr>ld_mode := LEDS_FREE\<rparr> else t'
                | LEDS_ERROR \<Rightarrow>
                    let period = 5 * ld_code t + 15; phase = ld_ticks t mod period;
                        t' = leds False (phase < 5 * ld_code t \<and> phase mod 5 < 2) t
                    in if ld_ticks t' \<ge> LED_ERROR_TICKS then t'\<lparr>ld_mode := LEDS_FREE\<rparr> else t'
                | LEDS_FREE \<Rightarrow> t)
      in if ld_mode t1 = LEDS_FREE then (leds False False t1)\<lparr>ld_active := False\<rparr> else t1)"

text \<open>\<open>made\<close>: whether the timer can be created when it is needed.\<close>

definition show_leds :: "bool \<Rightarrow> led_mode \<Rightarrow> nat \<Rightarrow> rec_task \<Rightarrow> rec_task" where
  "show_leds made mode code t =
     (let t1 = t\<lparr>ld_code := code, ld_ticks := 0, ld_mode := mode\<rparr>;
          t2 = (if \<not> ld_timer t1 then t1\<lparr>ld_timer := made\<rparr> else t1)
      in if ld_timer t2 then t2\<lparr>ld_active := True\<rparr> else t2)"

definition recovery_owns_leds :: "rec_task \<Rightarrow> bool" where
  "recovery_owns_leds t \<longleftrightarrow> rt_running t \<or> ld_mode t \<noteq> LEDS_FREE"

text \<open>The task after \<open>recover\<close> has answered.\<close>

definition recovery_task :: "bool \<Rightarrow> outcome \<Rightarrow> rec_task \<Rightarrow> rec_task" where
  "recovery_task made outc t =
     (if outc = RECOVERY_DONE then show_leds made LEDS_DONE 0 t
      else if outc = CANCELLED then show_leds made LEDS_FREE 0 t
      else (show_leds made LEDS_ERROR (outcome_number outc) t)\<lparr>rt_off_posted := rt_off_posted t + 1\<rparr>)
     \<lparr>rt_running := False\<rparr>"

text \<open>\<open>created\<close>: whether the task can be created.\<close>

definition recovery_start :: "bool \<Rightarrow> bool \<Rightarrow> rec_task \<Rightarrow> rec_task" where
  "recovery_start made created t =
     (if rt_running t then t
      else
        let t1 = show_leds made LEDS_BUSY 0 (t\<lparr>rt_cancelled := False, rt_running := True\<rparr>)
        in if \<not> created
           then show_leds made LEDS_ERROR (outcome_number FAIL_NETWORK) (t1\<lparr>rt_running := False\<rparr>)
           else t1)"

definition recovery_cancel :: "rec_task \<Rightarrow> rec_task" where
  "recovery_cancel t = (if rt_running t then t\<lparr>rt_cancelled := True\<rparr> else t)"

definition recovery_running :: "rec_task \<Rightarrow> bool" where
  "recovery_running t = rt_running t"

section \<open>The blinking code\<close>

lemma led_tick_error:
  assumes "ld_mode t = LEDS_ERROR" "ld_ticks t + 1 < LED_ERROR_TICKS"
  shows "led_tick t = t\<lparr>ld_ticks := ld_ticks t + 1, ld_green := False,
    ld_red := (let phase = (ld_ticks t + 1) mod (5 * ld_code t + 15)
               in phase < 5 * ld_code t \<and> phase mod 5 < 2)\<rparr>"
  using assms by (simp add: led_tick_def leds_def Let_def)

lemma error_ticks:
  assumes "ld_mode t = LEDS_ERROR" "ld_ticks t = 0" "n < LED_ERROR_TICKS" "0 < n"
  shows "(led_tick ^^ n) t = t\<lparr>ld_ticks := n, ld_green := False,
    ld_red := (let phase = n mod (5 * ld_code t + 15) in phase < 5 * ld_code t \<and> phase mod 5 < 2)\<rparr>"
  using assms(3,4)
proof (induction n)
  case (Suc n)
  show ?case
  proof (cases n)
    case 0
    then show ?thesis using led_tick_error [of t] assms(1,2) Suc.prems by simp
  next
    case (Suc k)
    let ?t = "(led_tick ^^ n) t"
    have t: "?t = t\<lparr>ld_ticks := n, ld_green := False,
        ld_red := (let phase = n mod (5 * ld_code t + 15) in phase < 5 * ld_code t \<and> phase mod 5 < 2)\<rparr>"
      using Suc.IH Suc.prems Suc by simp
    have "led_tick ?t = ?t\<lparr>ld_ticks := n + 1, ld_green := False,
        ld_red := (let phase = (n + 1) mod (5 * ld_code t + 15)
          in phase < 5 * ld_code t \<and> phase mod 5 < 2)\<rparr>"
      using led_tick_error [of ?t] Suc.prems assms(1) unfolding t by simp
    then show ?thesis using t by simp
  qed
qed simp

text \<open>The lit ticks of one period, and in how many runs they come.\<close>

definition red_lit :: "nat \<Rightarrow> nat \<Rightarrow> bool" where
  "red_lit code n \<longleftrightarrow> (let phase = n mod (5 * code + 15) in phase < 5 * code \<and> phase mod 5 < 2)"

definition blinks :: "nat \<Rightarrow> nat \<Rightarrow> nat" where
  "blinks code period = length (filter (\<lambda>n. red_lit code n \<and> \<not> red_lit code (n - 1))
     [5 * code + 15 ..< 5 * code + 15 + period])"

lemma blinks_code: "code \<in> set [1..<8] \<Longrightarrow> blinks code (5 * code + 15) = code"
proof -
  have "list_all (\<lambda>code. blinks code (5 * code + 15) = code) [1..<8]" by code_simp
  then show "code \<in> set [1..<8] \<Longrightarrow> blinks code (5 * code + 15) = code" by (simp add: list_all_iff)
qed

lemma error_ends:
  assumes "ld_mode t = LEDS_ERROR" "ld_ticks t = 0"
  shows "ld_mode ((led_tick ^^ LED_ERROR_TICKS) t) = LEDS_FREE"
    "\<not> ld_red ((led_tick ^^ LED_ERROR_TICKS) t)" "\<not> ld_green ((led_tick ^^ LED_ERROR_TICKS) t)"
    "\<not> ld_active ((led_tick ^^ LED_ERROR_TICKS) t)"
proof -
  obtain n where n: "LED_ERROR_TICKS = Suc n" "0 < n" by (simp add: LED_ERROR_TICKS_def LED_TICK_MS_def)
  then have t: "(led_tick ^^ n) t = t\<lparr>ld_ticks := n, ld_green := False,
      ld_red := (let phase = n mod (5 * ld_code t + 15) in phase < 5 * ld_code t \<and> phase mod 5 < 2)\<rparr>"
    by (intro error_ticks assms) simp_all
  then have "(led_tick ^^ LED_ERROR_TICKS) t = led_tick (t\<lparr>ld_ticks := n, ld_green := False,
      ld_red := (let phase = n mod (5 * ld_code t + 15) in phase < 5 * ld_code t \<and> phase mod 5 < 2)\<rparr>)"
    by (simp add: n(1))
  moreover have "ld_mode (led_tick (t\<lparr>ld_ticks := n, ld_green := a, ld_red := b\<rparr>)) = LEDS_FREE \<and>
      \<not> ld_red (led_tick (t\<lparr>ld_ticks := n, ld_green := a, ld_red := b\<rparr>)) \<and>
      \<not> ld_green (led_tick (t\<lparr>ld_ticks := n, ld_green := a, ld_red := b\<rparr>)) \<and>
      \<not> ld_active (led_tick (t\<lparr>ld_ticks := n, ld_green := a, ld_red := b\<rparr>))" for a b
    using assms(1) n(1) by (simp add: led_tick_def leds_def Let_def)
  ultimately show "ld_mode ((led_tick ^^ LED_ERROR_TICKS) t) = LEDS_FREE"
    "\<not> ld_red ((led_tick ^^ LED_ERROR_TICKS) t)" "\<not> ld_green ((led_tick ^^ LED_ERROR_TICKS) t)"
    "\<not> ld_active ((led_tick ^^ LED_ERROR_TICKS) t)" by simp_all
qed

lemma task_shows_error:
  assumes "outc \<noteq> RECOVERY_DONE" "outc \<noteq> CANCELLED"
  shows "ld_mode (recovery_task made outc t) = LEDS_ERROR" "ld_ticks (recovery_task made outc t) = 0"
    "ld_code (recovery_task made outc t) = outcome_number outc"
    "rt_off_posted (recovery_task made outc t) = rt_off_posted t + 1"
    "\<not> rt_running (recovery_task made outc t)"
  using assms by (simp_all add: recovery_task_def show_leds_def Let_def)



end
