(* ===== verification/Gcr_Coder.thy ===== *)
theory Gcr_Coder
  imports Prelude
begin

text \<open>
  The group code of the disk drive.  The encoder and decoder are registers of the FPGA
  (\<open>GCR_ENCODER\<close>, \<open>GCR_DECODER\<close> in \<^verbatim>\<open>software/drive/disk_image.h\<close>), parameters of the model; the locale
  \<open>gcr_coder\<close> says what the code relies on: a group of four bytes becomes the five bytes of the
  software encoder in \<^verbatim>\<open>software/drive/disk_image.cc\<close> (\<open>HARDWARE_ENCODING == 0\<close>), and decoding them
  gives the four bytes back.  It is interpreted on that software encoder with the inverse of its
  table.
\<close>

section \<open>The software encoder\<close>

definition gcr_table :: "u16 list" where
  "gcr_table = [0x0A, 0x0B, 0x12, 0x13, 0x0E, 0x0F, 0x16, 0x17,
     0x09, 0x19, 0x1A, 0x1B, 0x0D, 0x1D, 0x1E, 0x15]"

text \<open>The ten bits of a byte, shifted left as in the tables \<open>gcr_table_hi_n\<close> and \<open>gcr_table_lo_n\<close>.\<close>

definition gcr_word :: "byte \<Rightarrow> u16" where
  "gcr_word b = gcr_table ! unat (b AND 15) OR push_bit 5 (gcr_table ! unat (drop_bit 4 b))"

definition gcr_hi :: "nat \<Rightarrow> byte \<Rightarrow> byte" where
  "gcr_hi n b = ucast (drop_bit 8 (push_bit n (gcr_word b)))"

definition gcr_lo :: "nat \<Rightarrow> byte \<Rightarrow> byte" where
  "gcr_lo n b = ucast (push_bit n (gcr_word b) AND 0xFF)"

definition table_encode :: "byte \<Rightarrow> byte \<Rightarrow> byte \<Rightarrow> byte \<Rightarrow> byte list" where
  "table_encode a b c d =
     [gcr_hi 6 a, gcr_lo 6 a OR gcr_hi 4 b, gcr_lo 4 b OR gcr_hi 2 c, gcr_lo 2 c OR gcr_hi 0 d, gcr_lo 0 d]"

text \<open>The inverse of the table: the nibble of five bits, and the four bytes of a group.\<close>

fun index_of :: "'a \<Rightarrow> 'a list \<Rightarrow> nat" where
  "index_of x [] = 0"
| "index_of x (y # ys) = (if x = y then 0 else Suc (index_of x ys))"

definition byte_of_gcr :: "u16 \<Rightarrow> byte" where
  "byte_of_gcr w = of_nat (index_of (w AND 31) gcr_table + 16 * index_of (drop_bit 5 w AND 31) gcr_table)"

fun table_decode :: "byte list \<Rightarrow> byte list" where
  "table_decode [v, w, x, y, z] =
     [byte_of_gcr (push_bit 2 (ucast v) OR drop_bit 6 (ucast w)),
      byte_of_gcr (push_bit 4 (ucast w AND 63) OR drop_bit 4 (ucast x)),
      byte_of_gcr (push_bit 6 (ucast x AND 15) OR drop_bit 2 (ucast y)),
      byte_of_gcr (push_bit 8 (ucast y AND 3) OR ucast z)]"
| "table_decode _ = [0, 0, 0, 0]"

text \<open>An entry of the table has five bits, and not all of them are set.\<close>

lemma table_entries:
  assumes "n < 16"
  shows "bit (gcr_table ! n) k \<Longrightarrow> k < 5" "\<exists>k < 5. \<not> bit (gcr_table ! n) k"
    "index_of (gcr_table ! n) gcr_table = n"
proof -
  have "list_all (\<lambda>n. drop_bit 5 (gcr_table ! n) = 0 \<and> index_of (gcr_table ! n) gcr_table = n \<and>
      gcr_table ! n \<noteq> 31) [0..<16]"
    by code_simp
  with assms have e: "drop_bit 5 (gcr_table ! n) = 0" "index_of (gcr_table ! n) gcr_table = n"
    "gcr_table ! n \<noteq> 31" by (auto simp: list_all_iff)
  show bits: "k < 5" if "bit (gcr_table ! n) k" for k
  proof (rule ccontr)
    assume "\<not> k < 5"
    then have "bit (drop_bit 5 (gcr_table ! n)) (k - 5)" using that by (simp add: bit_drop_bit_eq)
    then show False using e(1) by simp
  qed
  show "index_of (gcr_table ! n) gcr_table = n" by (rule e(2))
  show "\<exists>k < 5. \<not> bit (gcr_table ! n) k"
  proof (rule ccontr)
    assume all: "\<not> (\<exists>k < 5. \<not> bit (gcr_table ! n) k)"
    have "gcr_table ! n = mask 5"
    proof (rule bit_word_eqI)
      fix k show "bit (gcr_table ! n) k = bit (mask 5 :: u16) k"
        using all bits [of k] by (auto simp: bit_mask_iff bit_imp_le_length)
    qed
    then show False using e(3) by (simp add: mask_eq_exp_minus_1)
  qed
qed

lemma nibbles_of: "unat (b AND 15 :: byte) < 16" "unat (drop_bit 4 b :: byte) < 16"
  "of_nat (unat (b AND 15) + 16 * unat (drop_bit 4 b)) = (b :: byte)"
proof -
  have lo: "unat (b AND 15) = unat b mod 16"
  proof -
    have "b AND 15 = take_bit 4 b" by (simp add: take_bit_eq_mask mask_eq_exp_minus_1)
    then show ?thesis by (simp only: unsigned_take_bit_eq) (simp add: take_bit_eq_mod)
  qed
  have hi: "unat (drop_bit 4 b) = unat b div 16" 
    by (simp only: unat_drop_bit_eq) (simp add: drop_bit_eq_div)
  show "unat (b AND 15 :: byte) < 16" "unat (drop_bit 4 b :: byte) < 16"
    using unsigned_less [of b, where 'a = nat] by (simp_all add: lo hi less_mult_imp_div_less)
  have "unat b mod 16 + 16 * (unat b div 16) = unat b" by (rule mod_mult_div_eq)
  then show "of_nat (unat (b AND 15) + 16 * unat (drop_bit 4 b)) = b" unfolding lo hi by simp
qed

definition ten_bits :: "u16 \<Rightarrow> bool" where
  "ten_bits x \<longleftrightarrow> (\<forall>k. bit x k \<longrightarrow> k < 10)"

lemma bit_gcr_word:
  "bit (gcr_word b) k \<longleftrightarrow> bit (gcr_table ! unat (b AND 15)) k \<or>
    5 \<le> k \<and> bit (gcr_table ! unat (drop_bit 4 b)) (k - 5)"
  using table_entries(1) [OF nibbles_of(2) [of b], of "k - 5"]
  by (auto simp: gcr_word_def bit_or_iff bit_push_bit_iff)

lemma gcr_word_ten: "ten_bits (gcr_word b)"
  unfolding ten_bits_def bit_gcr_word
  using table_entries(1) [OF nibbles_of(1) [of b]] table_entries(1) [OF nibbles_of(2) [of b]]
  by fastforce

lemma ten_bitsD: "ten_bits x \<Longrightarrow> 10 \<le> k \<Longrightarrow> \<not> bit x k"
  by (auto simp: ten_bits_def not_less [symmetric])

lemma below_ten: "n < (10 :: nat) \<Longrightarrow>
    n = 0 \<or> n = 1 \<or> n = 2 \<or> n = 3 \<or> n = 4 \<or> n = 5 \<or> n = 6 \<or> n = 7 \<or> n = 8 \<or> n = 9"
  by arith

lemma ten_bits_eqI:
  assumes "\<And>n. n < 10 \<Longrightarrow> bit v n = bit x n" "\<And>n. 10 \<le> n \<Longrightarrow> n < 16 \<Longrightarrow> \<not> bit v n" "ten_bits x"
  shows "v = x"
proof (rule bit_word_eqI)
  fix n assume n: "n < LENGTH(16)"
  show "bit v n = bit x n"
  proof (cases "n < 10")
    case False
    then show ?thesis using assms(2) [of n] ten_bitsD [OF assms(3), of n] n by simp
  qed (rule assms(1))
qed

lemma low_masks: "(0xFF :: u16) = mask 8" "(63 :: u16) = mask 6" "(15 :: u16) = mask 4"
  "(3 :: u16) = mask 2" "(31 :: u16) = mask 5"
  by (simp_all add: mask_eq_exp_minus_1)

text \<open>The four words of a group, put together again from its five bytes.\<close>

lemma unpack_first:
  assumes "ten_bits x" "ten_bits y"
  shows "push_bit 2 (ucast (ucast (drop_bit 8 (push_bit 6 x)) :: byte)) OR
    drop_bit 6 (ucast ((ucast (push_bit 6 x AND 0xFF) :: byte) OR ucast (drop_bit 8 (push_bit 4 y)))) = x"
  unfolding low_masks
proof (rule ten_bits_eqI [OF _ _ assms(1)], goal_cases)
  case (1 n)
  then show ?case by (elim below_ten [elim_format] disjE; simp add: bit_simps ten_bitsD assms)
qed (auto simp: bit_simps ten_bitsD assms)

lemma unpack_second:
  assumes "ten_bits x" "ten_bits y" "ten_bits z"
  shows "push_bit 4 (ucast ((ucast (push_bit 6 x AND 0xFF) :: byte) OR ucast (drop_bit 8 (push_bit 4 y))) AND 63) OR
    drop_bit 4 (ucast ((ucast (push_bit 4 y AND 0xFF) :: byte) OR ucast (drop_bit 8 (push_bit 2 z)))) = y"
  unfolding low_masks
proof (rule ten_bits_eqI [OF _ _ assms(2)], goal_cases)
  case (1 n)
  then show ?case by (elim below_ten [elim_format] disjE; simp add: bit_simps ten_bitsD assms)
qed (auto simp: bit_simps ten_bitsD assms)

lemma unpack_third:
  assumes "ten_bits x" "ten_bits y" "ten_bits z"
  shows "push_bit 6 (ucast ((ucast (push_bit 4 x AND 0xFF) :: byte) OR ucast (drop_bit 8 (push_bit 2 y))) AND 15) OR
    drop_bit 2 (ucast ((ucast (push_bit 2 y AND 0xFF) :: byte) OR ucast (drop_bit 8 (push_bit 0 z)))) = y"
  unfolding low_masks
proof (rule ten_bits_eqI [OF _ _ assms(2)], goal_cases)
  case (1 n)
  then show ?case by (elim below_ten [elim_format] disjE; simp add: bit_simps ten_bitsD assms)
qed (auto simp: bit_simps ten_bitsD assms)

lemma unpack_last:
  assumes "ten_bits x" "ten_bits y"
  shows "push_bit 8 (ucast ((ucast (push_bit 2 x AND 0xFF) :: byte) OR ucast (drop_bit 8 (push_bit 0 y))) AND 3) OR
    ucast (ucast (push_bit 0 y AND 0xFF) :: byte) = y"
  unfolding low_masks
proof (rule ten_bits_eqI [OF _ _ assms(2)], goal_cases)
  case (1 n)
  then show ?case by (elim below_ten [elim_format] disjE; simp add: bit_simps ten_bitsD assms)
qed (auto simp: bit_simps ten_bitsD assms)

lemma byte_of_gcr_word: "byte_of_gcr (gcr_word b) = b"
proof -
  have lo: "gcr_word b AND 31 = gcr_table ! unat (b AND 15)"
  proof (rule bit_word_eqI)
    fix n
    show "bit (gcr_word b AND 31) n = bit (gcr_table ! unat (b AND 15)) n"
      using table_entries(1) [OF nibbles_of(1) [of b], of n]
      unfolding low_masks by (auto simp: bit_and_iff bit_mask_iff bit_gcr_word bit_imp_le_length)
  qed
  have hi: "drop_bit 5 (gcr_word b) AND 31 = gcr_table ! unat (drop_bit 4 b)"
  proof (rule bit_word_eqI)
    fix n
    show "bit (drop_bit 5 (gcr_word b) AND 31) n = bit (gcr_table ! unat (drop_bit 4 b)) n"
      using table_entries(1) [OF nibbles_of(2) [of b], of n] table_entries(1) [OF nibbles_of(1) [of b], of "n + 5"]
      unfolding low_masks
      by (auto simp: bit_and_iff bit_mask_iff bit_drop_bit_eq bit_gcr_word bit_imp_le_length add.commute)
  qed
  show ?thesis
    unfolding byte_of_gcr_def lo hi by (simp add: table_entries(3) nibbles_of del: of_nat_add)
qed

section \<open>The contract\<close>

text \<open>A group, its inverse, and that only its middle byte may be \<open>0xFF\<close>; so encoded data holds no two
  \<open>0xFF\<close> in a row, which is what a sync is.\<close>

type_synonym encoder = "byte \<Rightarrow> byte \<Rightarrow> byte \<Rightarrow> byte \<Rightarrow> byte list"
type_synonym decoder = "byte list \<Rightarrow> byte list"

locale gcr_coder =
  fixes enc :: encoder and dec :: decoder
  assumes encode: "enc a b c d = table_encode a b c d"
    and decode: "dec (enc a b c d) = [a, b, c, d]"

lemma gcr_word_high: "\<exists>k < 5. \<not> bit (gcr_word b) (k + 5)"
proof -
  obtain k where k: "k < 5" "\<not> bit (gcr_table ! unat (drop_bit 4 b)) k"
    using table_entries(2) [OF nibbles_of(2) [of b]] by blast
  then have "\<not> bit (gcr_word b) (k + 5)"
    using table_entries(1) [OF nibbles_of(1) [of b], of "k + 5"] by (auto simp: bit_gcr_word)
  with k(1) show ?thesis by blast
qed

lemma gcr_word_low: "\<exists>k < 5. \<not> bit (gcr_word b) k"
proof -
  obtain k where k: "k < 5" "\<not> bit (gcr_table ! unat (b AND 15)) k"
    using table_entries(2) [OF nibbles_of(1) [of b]] by blast
  then have "\<not> bit (gcr_word b) k" by (auto simp: bit_gcr_word)
  with k(1) show ?thesis by blast
qed

lemma not_all_ones: "\<not> bit (x :: byte) k \<Longrightarrow> k < 8 \<Longrightarrow> x \<noteq> 0xFF"
proof
  assume "\<not> bit x k" "k < 8" "x = 0xFF"
  moreover have "(0xFF :: byte) = mask 8" by (simp add: mask_eq_exp_minus_1)
  ultimately show False by (simp add: bit_mask_iff)
qed

lemma table_encode_bytes:
  "table_encode a b c d ! 0 \<noteq> 0xFF" "table_encode a b c d ! 1 \<noteq> 0xFF" "table_encode a b c d ! 3 \<noteq> 0xFF"
  "table_encode a b c d ! 4 \<noteq> 0xFF"
proof -
  obtain i j k l where i: "i < 5" "\<not> bit (gcr_word a) (i + 5)" and j: "j < 5" "\<not> bit (gcr_word b) (j + 5)"
    and k: "k < 5" "\<not> bit (gcr_word c) k" and l: "l < 5" "\<not> bit (gcr_word d) l"
    using gcr_word_high gcr_word_low by blast
  note ten = ten_bitsD [OF gcr_word_ten]
  have "\<not> bit (gcr_hi 6 a) (i + 3)" using i by (simp add: gcr_hi_def bit_simps add.commute)
  then show "table_encode a b c d ! 0 \<noteq> 0xFF"
    using i(1) by (intro not_all_ones [of _ "i + 3"]) (simp_all add: table_encode_def)
  have "\<not> bit (gcr_lo 6 a OR gcr_hi 4 b) (j + 1)"
    using j by (simp add: gcr_hi_def gcr_lo_def bit_simps low_masks add.commute)
  then show "table_encode a b c d ! 1 \<noteq> 0xFF"
    using j(1) by (intro not_all_ones [of _ "j + 1"]) (simp_all add: table_encode_def)
  have "\<not> bit (gcr_lo 2 c OR gcr_hi 0 d) (k + 2)"
    using k ten [of "k + 10" d] by (simp add: gcr_hi_def gcr_lo_def bit_simps low_masks add.commute)
  then show "table_encode a b c d ! 3 \<noteq> 0xFF"
    using k(1) by (intro not_all_ones [of _ "k + 2"]) (simp_all add: table_encode_def)
  have "\<not> bit (gcr_lo 0 d) l" using l by (simp add: gcr_lo_def bit_simps low_masks)
  then show "table_encode a b c d ! 4 \<noteq> 0xFF"
    using l(1) by (intro not_all_ones [of _ l]) (simp_all add: table_encode_def)
qed

lemma table_roundtrip: "table_decode (table_encode a b c d) = [a, b, c, d]"
proof -
  note ten = gcr_word_ten
  show ?thesis
    using unpack_first [OF ten ten, of a b] unpack_second [OF ten ten ten, of a b c]
      unpack_third [OF ten ten ten, of b c d] unpack_last [OF ten ten, of c d]
    unfolding table_encode_def table_decode.simps gcr_hi_def gcr_lo_def
    by (simp add: byte_of_gcr_word)
qed

interpretation table: gcr_coder table_encode table_decode
  by unfold_locales (simp_all add: table_roundtrip)

end
