(* ===== verification/Gcr_Track.thy ===== *)
theory Gcr_Track
  imports Gcr_Coder
begin

text \<open>
  Tracks in group code, \<^verbatim>\<open>software/drive/disk_image.cc\<close>: where tracks and sectors are on a disk,
  building the bits of a track from its sectors, and finding the sectors in the bits again.  A
  track is a list of bytes, a pointer into it an index; a read behind the track or a write behind
  the output is the result \<open>OutOfBounds\<close> (or \<open>None\<close>).
\<close>

section \<open>Geometry\<close>

definition GCRIMAGE_MAXHDRTRACKS :: int where "GCRIMAGE_MAXHDRTRACKS = 168"
definition GCRIMAGE_FIRSTTRACKSIDE1 :: int where "GCRIMAGE_FIRSTTRACKSIDE1 = 84"

definition track_lengths :: "nat list" where
  "track_lengths = [0x1E0C, 0x1BE6, 0x1A0A, 0x186A, 0x1E0C, 0x1BE6, 0x1A0A, 0x186A]"
definition sectors_per_track :: "nat list" where "sectors_per_track = [21, 19, 18, 17, 21, 19, 18, 17]"
definition region_end :: "int list" where "region_end = [17, 24, 30, 35, 52, 59, 65, 70]"
definition sector_gap_lengths :: "nat list" where "sector_gap_lengths = [9, 19, 13, 10, 9, 19, 13, 10]"

definition track_to_region :: "int \<Rightarrow> bool \<Rightarrow> nat" where
  "track_to_region track ds =
     (let regions = (if ds then 8 else 4)
      in case find (\<lambda>i. track < region_end ! i) [0..<regions] of Some i \<Rightarrow> i | None \<Rightarrow> regions - 1)"

definition total_sectors_before_track :: "nat \<Rightarrow> bool \<Rightarrow> nat" where
  "total_sectors_before_track track ds =
     fold (\<lambda>i total. total + sectors_per_track ! track_to_region (int i) ds) [0..<track] 0"

definition bin_track_to_gcr_track :: "int \<Rightarrow> bool \<Rightarrow> int" where
  "bin_track_to_gcr_track lt ds =
     (if lt < 0 then 0
      else
        let ret = (if ds \<and> lt \<ge> 35 then GCRIMAGE_FIRSTTRACKSIDE1 + 2 * (lt - 35) else 2 * lt)
        in if ret \<ge> GCRIMAGE_MAXHDRTRACKS then GCRIMAGE_MAXHDRTRACKS - 1 else ret)"

text \<open>The argument is never negative, so \<open>div\<close> is the division of C.\<close>

definition gcr_track_to_bin_track :: "int \<Rightarrow> int" where
  "gcr_track_to_bin_track pt =
     (if pt \<ge> GCRIMAGE_FIRSTTRACKSIDE1 then 35 + (pt - GCRIMAGE_FIRSTTRACKSIDE1) div 2 else pt div 2)"

section \<open>Building a track\<close>

fun convert_block_bin2gcr :: "encoder \<Rightarrow> byte list \<Rightarrow> byte list" where
  "convert_block_bin2gcr enc (a # b # c # d # rest) = enc a b c d @ convert_block_bin2gcr enc rest"
| "convert_block_bin2gcr enc _ = []"

text \<open>A gap; with the GEOS protection its last and its fourth last byte are \<open>0x67\<close>.\<close>

definition gap_bytes :: "nat \<Rightarrow> bool \<Rightarrow> byte list" where
  "gap_bytes n geos =
     (let gap = replicate n 0x55 in if geos then gap[n - 1 := 0x67, n - 4 := 0x67] else gap)"

definition sector_header :: "byte \<Rightarrow> byte \<Rightarrow> byte \<Rightarrow> nat \<Rightarrow> byte \<Rightarrow> byte list" where
  "sector_header id1 id2 track s errorcode =
     (let chk = of_nat s XOR track XOR id2 XOR id1
      in [if errorcode = 2 then 0 else 8,
          if errorcode = 9 then NOT chk else chk,
          of_nat s, track,
          if errorcode = 11 then id2 XOR NOT (of_nat s + 0x55) else id2,
          if errorcode = 11 then id1 XOR NOT (of_nat s + 0xAA) else id1, 0x0F, 0x0F])"

definition sector_block :: "byte list \<Rightarrow> byte \<Rightarrow> byte list" where
  "sector_block bin errorcode =
     (let chk = foldl (XOR) 0 bin
      in (if errorcode = 4 then 0 else 7) # bin @ [if errorcode = 5 then NOT chk else chk, 0, 0])"

definition sector_gcr ::
  "encoder \<Rightarrow> byte \<Rightarrow> byte \<Rightarrow> byte \<Rightarrow> nat \<Rightarrow> nat \<Rightarrow> byte \<Rightarrow> bool \<Rightarrow> byte list \<Rightarrow> byte list" where
  "sector_gcr enc id1 id2 track region s errorcode geos bin =
     (let sync = replicate 5 (if errorcode \<noteq> 3 then 0xFF else 0)
      in sync @ convert_block_bin2gcr enc (sector_header id1 id2 track s errorcode) @ gap_bytes 9 geos @
         sync @ convert_block_bin2gcr enc (sector_block bin errorcode) @
         gap_bytes (sector_gap_lengths ! region) geos)"

text \<open>The track in \<open>track_buffer\<close>, before it is turned by an offset that depends on the track.  Errors are
  \<open>None\<close> when there are no error bytes.\<close>

definition track_buffer ::
  "encoder \<Rightarrow> byte \<Rightarrow> byte \<Rightarrow> byte \<Rightarrow> nat \<Rightarrow> byte list \<Rightarrow> byte list option \<Rightarrow> bool \<Rightarrow> byte list" where
  "track_buffer enc id1 id2 track region bin errors geos =
     (let errorcode = (\<lambda>s. case errors of None \<Rightarrow> 0
              | Some es \<Rightarrow> if s < length es then es ! s else 0);
          body = concat (map (\<lambda>s. sector_gcr enc id1 id2 track region s (errorcode s) geos
              (take 256 (drop (256 * s) bin))) [0..<sectors_per_track ! region]);
          full = body @ replicate (track_lengths ! region - length body) 0x55
      in if geos then full[length full - 1 := 0x67] else full)"

definition convert_track_bin2gcr ::
  "encoder \<Rightarrow> byte \<Rightarrow> byte \<Rightarrow> byte \<Rightarrow> nat \<Rightarrow> byte list \<Rightarrow> byte list option \<Rightarrow> bool \<Rightarrow> nat \<Rightarrow> byte list" where
  "convert_track_bin2gcr enc id1 id2 track region bin errors geos twist =
     (let buffer = track_buffer enc id1 id2 track region bin errors geos;
          len = track_lengths ! region;
          tw = twist * (16 - region) div 16;
          offset = unat track * tw mod len
      in drop (len - offset) buffer @ take (len - offset) buffer)"

section \<open>Finding the sectors\<close>

text \<open>From index \<open>p\<close>: the byte behind the next sync.  \<open>w\<close> says whether the search went round already.
  (An empty track is searched once around, byte by byte behind it, and holds no sync.)\<close>

function find_sync_from :: "byte list \<Rightarrow> bool \<Rightarrow> nat \<Rightarrow> nat \<Rightarrow> nat option" where
  "find_sync_from g w sync_count p =
     (if p \<ge> length g
      then (if w \<or> g = [] then None else find_sync_from g True sync_count 0)
      else if g ! p = 0xFF then find_sync_from g w (sync_count + 1) (p + 1)
      else if sync_count \<ge> 2 then Some p
      else find_sync_from g w 0 (p + 1))"
  by pat_completeness auto
termination
  by (relation "measure (\<lambda>(g, w, c, p). (if w then 0 else Suc (length g)) + (length g - p))") auto

definition find_sync :: "byte list \<Rightarrow> nat \<Rightarrow> nat option" where
  "find_sync g p = find_sync_from g False 0 p"

text \<open>\<open>wrap\<close>: \<open>n\<close> bytes from index \<open>p\<close>, going round at the end, moved left by \<open>shift\<close> bits; with the new
  index.\<close>

primrec ring_read :: "byte list \<Rightarrow> nat \<Rightarrow> nat \<Rightarrow> byte list option" where
  "ring_read g 0 s = Some []"
| "ring_read g (Suc k) s =
     (let s' = (if s = length g then 0 else s)
      in case peek g s' of None \<Rightarrow> None | Some b \<Rightarrow> map_option (Cons b) (ring_read g k (s' + 1)))"

primrec shifted_read :: "byte list \<Rightarrow> nat \<Rightarrow> nat \<Rightarrow> byte \<Rightarrow> nat \<Rightarrow> byte list option" where
  "shifted_read g shift 0 cur s = Some []"
| "shifted_read g shift (Suc k) cur s =
     (let s' = (if s = length g then 0 else s)
      in case peek g s' of
           None \<Rightarrow> None
         | Some b \<Rightarrow> map_option (Cons (cur OR drop_bit (8 - shift) b))
             (shifted_read g shift k (push_bit shift b) (s' + 1)))"

definition wrap_read :: "byte list \<Rightarrow> nat \<Rightarrow> nat \<Rightarrow> nat \<Rightarrow> (byte list \<times> nat) option" where
  "wrap_read g p n shift =
     (let beyond = (p + n > length g);
          next_p = (if beyond then p + n - length g else p + n)
      in if shift = 0
         then if beyond then map_option (\<lambda>bs. (bs, next_p)) (ring_read g n p)
              else Some (take n (drop p g), next_p)
         else case peek g p of
                None \<Rightarrow> None
              | Some b \<Rightarrow> map_option (\<lambda>bs. (bs, next_p)) (shifted_read g shift n (push_bit shift b) (p + 1)))"

text \<open>The number of leading ones of the byte behind a sync.\<close>

primrec leading_ones :: "nat \<Rightarrow> byte \<Rightarrow> nat" where
  "leading_ones 0 b = 0"
| "leading_ones (Suc n) b = (if b AND 0x80 \<noteq> 0 then Suc (leading_ones n (push_bit 1 b)) else 0)"

text \<open>\<open>k\<close> groups decoded.\<close>

primrec decode_groups :: "decoder \<Rightarrow> nat \<Rightarrow> byte list \<Rightarrow> byte list" where
  "decode_groups dec 0 gcr = []"
| "decode_groups dec (Suc k) gcr = dec (take 5 gcr) @ decode_groups dec k (drop 5 gcr)"

text \<open>The state of \<open>convert_gcr_track_to_bin\<close>: the position, the sectors found, the flags, the status
  bytes written and the room left for them, where the data of the header last seen goes, and the
  output.\<close>

record gcr_scan =
  gs_current :: nat
  gs_secs :: nat
  gs_expect :: bool
  gs_wrapped :: bool
  gs_status :: "byte list"
  gs_statlen :: nat
  gs_dest :: nat
  gs_bin :: "byte list"

datatype 'a scan_result = Finished 'a | Onward 'a | OutOfBounds

text \<open>\<open>has_status\<close>: whether there is a status buffer at all.\<close>

definition push_status :: "bool \<Rightarrow> byte \<Rightarrow> gcr_scan \<Rightarrow> gcr_scan" where
  "push_status has_status x st =
     (if has_status \<and> gs_statlen st > 0
      then st\<lparr>gs_status := gs_status st @ [x], gs_statlen := gs_statlen st - 1\<rparr> else st)"

text \<open>A header was read; \<open>q\<close> is the index behind it.\<close>

definition scan_header :: "nat \<Rightarrow> nat \<Rightarrow> bool \<Rightarrow> byte list \<Rightarrow> nat \<Rightarrow> gcr_scan \<Rightarrow> gcr_scan" where
  "scan_header track max_sector has_status header q st =
     (let t = unat (header ! 3); s = unat (header ! 2);
          room = (\<lambda>st. has_status \<and> gs_statlen st > 0);
          st1 = st\<lparr>gs_dest := 256 * s\<rparr>;
          st2 = (if gs_expect st1 then push_status has_status 0xE4 st1 else st1);
          st3 = (push_status has_status (of_nat s) st2)\<lparr>gs_expect := True\<rparr>;
          st4 = (if t \<noteq> track
                 then if room st3 then (push_status has_status 0xE1 st3)\<lparr>gs_expect := False\<rparr> else st3
                 else if s \<ge> max_sector
                 then if room st3 then (push_status has_status 0xE2 st3)\<lparr>gs_expect := False\<rparr> else st3
                 else st3)
      in if gs_expect st4 then st4\<lparr>gs_current := q\<rparr> else st4)"

text \<open>The data of a sector was read: its 256 bytes and its checksum; \<open>q\<close> is the index behind it.\<close>

definition scan_data :: "bool \<Rightarrow> byte list \<Rightarrow> byte \<Rightarrow> nat \<Rightarrow> gcr_scan \<Rightarrow> gcr_scan scan_result" where
  "scan_data has_status sector stored q st =
     (let st1 = st\<lparr>gs_expect := False, gs_secs := gs_secs st + 1\<rparr>
      in if gs_dest st + 256 > length (gs_bin st) then OutOfBounds
         else
           let st2 = st1\<lparr>gs_bin := blit (gs_dest st) sector (gs_bin st)\<rparr>
           in if has_status \<and> gs_statlen st2 > 0
              then let chk = foldl (XOR) 0 sector
                   in if chk \<noteq> stored then Onward (push_status has_status 0xE3 st2)
                      else Onward ((push_status has_status 0 st2)\<lparr>gs_current := q\<rparr>)
              else Onward st2)"

definition scan_step :: "decoder \<Rightarrow> byte list \<Rightarrow> nat \<Rightarrow> nat \<Rightarrow> bool \<Rightarrow> gcr_scan \<Rightarrow> gcr_scan scan_result" where
  "scan_step dec g track max_sector has_status st =
     (case find_sync g (gs_current st) of
        None \<Rightarrow> Finished st
      | Some p \<Rightarrow>
          if p < gs_current st \<and> gs_wrapped st then Finished st
          else
            let st1 = st\<lparr>gs_wrapped := gs_wrapped st \<or> p < gs_current st, gs_current := p\<rparr>;
                shift = leading_ones 8 (g ! p)
            in case wrap_read g p 5 shift of
                 None \<Rightarrow> OutOfBounds
               | Some (bs, q) \<Rightarrow>
                   let header = dec bs
                   in if header ! 0 = 8
                      then case wrap_read g q 5 shift of
                             None \<Rightarrow> OutOfBounds
                           | Some (bs', q') \<Rightarrow> Onward (scan_header track max_sector has_status header q' st1)
                      else if header ! 0 = 7 \<and> gs_expect st1
                      then case wrap_read g q 320 shift of
                             None \<Rightarrow> OutOfBounds
                           | Some (bs', q') \<Rightarrow>
                               let block = decode_groups dec 64 bs'
                               in scan_data has_status (take 3 (drop 1 header) @ take 253 block)
                                    (block ! 253) q' st1
                      else Onward st1)"

text \<open>The loop: \<open>None\<close> when it never ends, \<open>Some None\<close> when it reads or writes out of bounds.\<close>

partial_function (option) scan_loop ::
  "decoder \<Rightarrow> byte list \<Rightarrow> nat \<Rightarrow> nat \<Rightarrow> bool \<Rightarrow> gcr_scan \<Rightarrow> gcr_scan option option" where
  "scan_loop dec g track max_sector has_status st =
     (if gs_secs st \<ge> max_sector then Some (Some st)
      else case scan_step dec g track max_sector has_status st of
             Finished st' \<Rightarrow> Some (Some st')
           | OutOfBounds \<Rightarrow> Some None
           | Onward st' \<Rightarrow> scan_loop dec g track max_sector has_status st')"

definition convert_gcr_track_to_bin ::
  "decoder \<Rightarrow> byte list \<Rightarrow> nat \<Rightarrow> nat \<Rightarrow> byte list \<Rightarrow> bool \<Rightarrow> nat \<Rightarrow> gcr_scan option option" where
  "convert_gcr_track_to_bin dec g track max_sector bin has_status statlen =
     scan_loop dec g track max_sector has_status
       \<lparr>gs_current = 0, gs_secs = 0, gs_expect = False, gs_wrapped = False, gs_status = [],
        gs_statlen = statlen, gs_dest = 0, gs_bin = bin\<rparr>"

declare scan_loop.simps [code] find_sync_from.simps [simp del]

end
