(* ===== verification/Gcr_Image.thy ===== *)
theory Gcr_Image
  imports Gcr_Track
begin

text \<open>
  The group code image of a disk, \<open>GcrImage\<close> in \<^verbatim>\<open>software/drive/disk_image.cc\<close>, and the bounds of its
  tracks in \<^verbatim>\<open>software/drive/gcr_track_bounds.h\<close>: the table of tracks over the image memory, blank
  tracks, and reading and writing the G64 file.  A pointer into \<open>gcr_data\<close> is its offset.  The file
  is a parameter: a state and functions that write, seek and flush, with their result codes.
\<close>

section \<open>Bounds of tracks\<close>

definition GCR_EMPTY_TRACK_PARAM :: u32 where "GCR_EMPTY_TRACK_PARAM = 0x100"

definition gcr_track_header_is_readable :: "u32 \<Rightarrow> u32 \<Rightarrow> bool" where
  "gcr_track_header_is_readable offset bytes_read \<longleftrightarrow>
     (if offset = 0 \<or> offset > bytes_read then False else bytes_read - offset \<ge> 2)"

definition gcr_validated_track_length :: "u16 \<Rightarrow> u32 \<Rightarrow> u32 \<Rightarrow> int \<Rightarrow> int" where
  "gcr_validated_track_length declared offset bytes_read max_length =
     (let n = uint (declared AND 0x7FFF)
      in if n \<le> 0 \<or> n > max_length then 0
         else if offset > bytes_read \<or> bytes_read - offset < 2 then 0
         else if word_of_int n > bytes_read - offset - 2 then 0
         else n)"

definition gcr_track_can_hold_mfm_header :: "int \<Rightarrow> int \<Rightarrow> bool" where
  "gcr_track_can_hold_mfm_header track_length header_size \<longleftrightarrow>
     (if header_size \<le> 0 \<or> track_length \<le> 0 then False else track_length \<ge> header_size)"

definition gcr_mfm_reserved_space :: "int \<Rightarrow> int \<Rightarrow> u32" where
  "gcr_mfm_reserved_space track_length header_size =
     (if \<not> gcr_track_can_hold_mfm_header track_length header_size then 0
      else word_of_int (track_length - header_size))"

text \<open>The address and the parameter word.\<close>

definition gcr_track_parameters :: "u32 \<Rightarrow> int \<Rightarrow> u32 \<Rightarrow> int \<Rightarrow> u32 \<Rightarrow> u32 \<times> u32" where
  "gcr_track_parameters track_address track_length dummy_address dummy_length rotation_speed =
     (if track_address \<noteq> 0 \<and> track_length > 0
      then let bit_time = rotation_speed div word_of_int track_length
           in (track_address, word_of_int (track_length - 1) OR push_bit 16 bit_time)
      else let bit_time = (if dummy_length > 0 then rotation_speed div word_of_int dummy_length else 0)
           in (dummy_address, GCR_EMPTY_TRACK_PARAM OR push_bit 16 bit_time))"

section \<open>The image\<close>

definition GCRIMAGE_MAXUSEDTRACKS :: nat where "GCRIMAGE_MAXUSEDTRACKS = 80"
definition GCRIMAGE_MAXTRACKLEN :: nat where "GCRIMAGE_MAXTRACKLEN = 0x1EF8"
definition GCRIMAGE_MAXMETADATA :: nat where "GCRIMAGE_MAXMETADATA = 12 + 168 * 10"
definition GCRIMAGE_MAXSIZE :: nat where
  "GCRIMAGE_MAXSIZE = GCRIMAGE_MAXTRACKLEN * GCRIMAGE_MAXUSEDTRACKS + GCRIMAGE_MAXMETADATA"
definition region_speed_codes :: "u32 list" where "region_speed_codes = [3, 2, 1, 0, 3, 2, 1, 0]"

text \<open>Sides and tables as numbers of entries.\<close>

abbreviation side_tracks :: nat where "side_tracks \<equiv> 84"
abbreviation max_tracks :: nat where "max_tracks \<equiv> 168"

record gcr_track =
  gt_address :: "nat option"
  gt_length :: nat
  gt_speed :: u32
  gt_used :: bool
  gt_in_file :: bool
  gt_mfm :: bool

record gcr_image =
  gi_data :: "byte list"
  gi_tracks :: "gcr_track list"
  gi_double_sided :: bool

definition no_track :: gcr_track where
  "no_track = \<lparr>gt_address = None, gt_length = 0, gt_speed = 0, gt_used = False, gt_in_file = False, gt_mfm = False\<rparr>"

definition invalidate :: "gcr_image \<Rightarrow> gcr_image" where
  "invalidate img = img\<lparr>gi_tracks := replicate max_tracks no_track, gi_double_sided := False\<rparr>"

definition new_gcr_image :: gcr_image where
  "new_gcr_image = invalidate \<lparr>gi_data = replicate GCRIMAGE_MAXSIZE 0, gi_tracks = [], gi_double_sided = False\<rparr>"

text \<open>One blank track, if the entry is free and there is room; with the position behind it.\<close>

definition blank_track :: "nat \<Rightarrow> nat \<Rightarrow> u32 \<Rightarrow> gcr_track list \<times> nat \<Rightarrow> gcr_track list \<times> nat" where
  "blank_track j len speed s =
     (case s of (ts, gcr) \<Rightarrow>
        if gt_address (ts ! j) = None \<and> gcr + len \<le> GCRIMAGE_MAXSIZE
        then (ts[j := (ts ! j)\<lparr>gt_address := Some gcr, gt_length := len, gt_speed := speed\<rparr>], gcr + len)
        else (ts, gcr))"

definition blank_step :: "bool \<Rightarrow> nat \<Rightarrow> gcr_track list \<times> nat \<Rightarrow> gcr_track list \<times> nat" where
  "blank_step ds k s =
     (let region = track_to_region (int k) False;
          len = track_lengths ! region;
          speed = region_speed_codes ! region;
          s' = blank_track (2 * k) len speed s
      in if \<not> ds then s' else blank_track (2 * k + side_tracks) len speed s')"

definition add_blank_tracks :: "nat \<Rightarrow> gcr_image \<Rightarrow> gcr_image" where
  "add_blank_tracks start img =
     (case fold (blank_step (gi_double_sided img)) [0..<GCRIMAGE_MAXUSEDTRACKS div 2] (gi_tracks img, start) of
        (ts, gcr) \<Rightarrow>
          img\<lparr>gi_tracks := ts, gi_data := blit start (replicate (gcr - start) 0) (gi_data img)\<rparr>)"

definition blank :: "gcr_image \<Rightarrow> gcr_image" where
  "blank img = add_blank_tracks 0 (invalidate img)"

text \<open>The bytes of a track.\<close>

definition track_bytes :: "gcr_image \<Rightarrow> gcr_track \<Rightarrow> byte list" where
  "track_bytes img t =
     (case gt_address t of None \<Rightarrow> [] | Some a \<Rightarrow> take (gt_length t) (drop a (gi_data img)))"

definition track_got_written_with_gcr :: "nat \<Rightarrow> gcr_image \<Rightarrow> gcr_image" where
  "track_got_written_with_gcr track img =
     (if gt_address (gi_tracks img ! track) = None then img
      else
        let lt = (if track < side_tracks then track div 2 else (track - side_tracks) div 2);
            speed = region_speed_codes ! track_to_region (int lt) False
        in img\<lparr>gi_double_sided := gi_double_sided img \<or> track \<ge> side_tracks,
               gi_tracks := (gi_tracks img)[track := (gi_tracks img ! track)
                 \<lparr>gt_speed := speed, gt_used := True, gt_mfm := False\<rparr>]\<rparr>)"

section \<open>Reading a G64 file\<close>

definition read32 :: "byte list \<Rightarrow> nat \<Rightarrow> u32" where
  "read32 d k = le32 (d ! (4 * k)) (d ! (4 * k + 1)) (d ! (4 * k + 2)) (d ! (4 * k + 3))"

definition gcr_magic :: "bool \<Rightarrow> byte list" where
  "gcr_magic ds = map of_char (if ds then ''GCR-1571'' else ''GCR-1541'')"

text \<open>An entry of the track table; \<open>None\<close> when it points outside the image memory.\<close>

definition load_track :: "u32 \<Rightarrow> nat \<Rightarrow> gcr_image \<Rightarrow> gcr_image option" where
  "load_track bytes_read i img =
     (let offset = read32 (gi_data img) (i + 3); o' = unat offset
      in if o' \<ge> GCRIMAGE_MAXSIZE then None
         else if \<not> gcr_track_header_is_readable offset bytes_read then Some img
         else
           let w = ucast (gi_data img ! o') OR push_bit 8 (ucast (gi_data img ! (o' + 1)));
               len = gcr_validated_track_length w offset bytes_read (int GCRIMAGE_MAXTRACKLEN)
           in if len = 0 then Some img
              else Some (img\<lparr>gi_tracks := (gi_tracks img)[i := (gi_tracks img ! i)
                  \<lparr>gt_address := Some (o' + 2), gt_length := nat len, gt_used := True,
                    gt_in_file := True, gt_mfm := w AND 0x8000 \<noteq> 0\<rparr>],
                  gi_double_sided := gi_double_sided img \<or> i \<ge> side_tracks\<rparr>))"

fun load_tracks :: "u32 \<Rightarrow> nat list \<Rightarrow> gcr_image \<Rightarrow> bool \<times> gcr_image" where
  "load_tracks bytes_read [] img = (True, img)"
| "load_tracks bytes_read (i # is) img =
     (case load_track bytes_read i img of
        None \<Rightarrow> (False, img)
      | Some img' \<Rightarrow> load_tracks bytes_read is img')"

definition load_speeds :: "nat \<Rightarrow> gcr_image \<Rightarrow> gcr_image" where
  "load_speeds n img =
     (let reported = unat (gi_data img ! 9)
      in img\<lparr>gi_tracks := map (\<lambda>i. if i < n
            then (gi_tracks img ! i)\<lparr>gt_speed := read32 (gi_data img) (3 + reported + i)\<rparr>
            else gi_tracks img ! i) [0..<length (gi_tracks img)]\<rparr>)"

text \<open>\<open>res\<close> and \<open>bytes\<close> are what reading at most \<open>GCRIMAGE_MAXSIZE\<close> bytes of the file gives.\<close>

definition load :: "fresult \<Rightarrow> byte list \<Rightarrow> gcr_image \<Rightarrow> bool \<times> gcr_image" where
  "load res bytes img =
     (let img0 = (invalidate img)\<lparr>gi_data := blit 0 bytes (gi_data img)\<rparr>;
          magic = take 8 (gi_data img0);
          bytes_read = of_nat (length bytes)
      in if res \<noteq> FR_OK then (False, img0)
         else if magic \<noteq> gcr_magic False \<and> magic \<noteq> gcr_magic True then (False, img0)
         else
           let n = (if magic = gcr_magic False then side_tracks else max_tracks)
           in case load_tracks bytes_read [0..<n] (img0\<lparr>gi_double_sided := False\<rparr>) of
                (False, img1) \<Rightarrow> (False, img1)
              | (True, img1) \<Rightarrow> (True, add_blank_tracks (length bytes) (load_speeds n img1)))"

section \<open>Writing a G64 file\<close>

text \<open>The offset of sector 0 in a track (0 when it is not found), at most 42 syncs on.\<close>

fun find_start_from :: "decoder \<Rightarrow> byte list \<Rightarrow> nat \<Rightarrow> nat \<Rightarrow> int option" where
  "find_start_from dec g 0 p = Some 0"
| "find_start_from dec g (Suc j) p =
     (case find_sync g p of
        None \<Rightarrow> Some 0
      | Some p' \<Rightarrow>
          (case wrap_read g p' 5 0 of
             None \<Rightarrow> None
           | Some (bs, q) \<Rightarrow>
               let header = dec bs
               in if header ! 0 = 8 \<and> header ! 2 = 0
                  then let offset = int q - 10 in Some (if offset < 0 then offset + int (length g) else offset)
                  else find_start_from dec g j q))"

definition find_track_start :: "decoder \<Rightarrow> byte list \<Rightarrow> int option" where
  "find_track_start dec g = find_start_from dec g 42 0"

definition in_g64 :: "gcr_track \<Rightarrow> bool" where
  "in_g64 t \<longleftrightarrow> gt_address t \<noteq> None \<and> gt_used t"

fun track_table :: "nat \<Rightarrow> gcr_track list \<Rightarrow> u32 list" where
  "track_table track_start [] = []"
| "track_table track_start (t # ts) =
     (if \<not> in_g64 t then 0 # track_table track_start ts
      else of_nat track_start # track_table (track_start + gt_length t + 2) ts)"

definition speed_table :: "gcr_track list \<Rightarrow> u32 list" where
  "speed_table ts = map (\<lambda>t. if \<not> in_g64 t then 0 else gt_speed t) ts"

definition save_header :: "gcr_image \<Rightarrow> byte list" where
  "save_header img =
     (let n = (if gi_double_sided img then max_tracks else side_tracks);
          ts = take n (gi_tracks img)
      in gcr_magic (gi_double_sided img) @
         [0, of_nat n, of_nat GCRIMAGE_MAXTRACKLEN, of_nat (GCRIMAGE_MAXTRACKLEN div 256)] @
         concat (map le32_bytes (track_table (12 + n * 8) ts)) @ concat (map le32_bytes (speed_table ts)))"

definition size_bytes :: "gcr_track \<Rightarrow> byte list" where
  "size_bytes t =
     [of_nat (gt_length t),
      of_nat (gt_length t div 256) OR (if gt_mfm t then 0x80 else 0)]"

text \<open>A file: writing (with the number of bytes written), seeking and flushing.\<close>

record 'f file_ops =
  fo_write :: "'f \<Rightarrow> byte list \<Rightarrow> fresult \<times> nat \<times> 'f"
  fo_seek :: "'f \<Rightarrow> nat \<Rightarrow> fresult \<times> 'f"
  fo_sync :: "'f \<Rightarrow> fresult \<times> 'f"

text \<open>The data of a track, from \<open>start\<close> on and then the rest; the last result and the number of bytes of
  each write.\<close>

definition write_turned :: "'f file_ops \<Rightarrow> byte list \<Rightarrow> int \<Rightarrow> 'f \<Rightarrow> fresult \<times> 'f" where
  "write_turned ops g start f =
     (if start > 0
      then case fo_write ops f (drop (nat start) g) of
             (res, _, f1) \<Rightarrow>
               if res = FR_OK then (case fo_write ops f1 (take (nat start) g) of (res', _, f2) \<Rightarrow> (res', f2))
               else (res, f1)
      else case fo_write ops f g of (res, _, f1) \<Rightarrow> (res, f1))"

datatype 'a outcome = Outside | Undetermined | Known 'a

text \<open>The tracks; the result is undetermined as long as \<open>res\<close> has not been assigned.\<close>

fun save_tracks ::
  "'f file_ops \<Rightarrow> decoder \<Rightarrow> bool \<Rightarrow> gcr_image \<Rightarrow> gcr_track list \<Rightarrow> fresult outcome \<Rightarrow> 'f \<Rightarrow> fresult outcome \<times> 'f" where
  "save_tracks ops dec align img [] res f = (res, f)"
| "save_tracks ops dec align img (t # ts) res f =
     (if \<not> in_g64 t then save_tracks ops dec align img ts res f
      else case fo_write ops f (size_bytes t) of
             (_, n, f1) \<Rightarrow>
               if n \<noteq> 2 then (res, f1)
               else case (if align then find_track_start dec (track_bytes img t) else Some 0) of
                      None \<Rightarrow> (Outside, f1)
                    | Some start \<Rightarrow>
                        (case write_turned ops (track_bytes img t) start f1 of
                           (res', f2) \<Rightarrow>
                             if res' \<noteq> FR_OK then (Known res', f2)
                             else save_tracks ops dec align img ts (Known res') f2))"

definition save :: "'f file_ops \<Rightarrow> decoder \<Rightarrow> bool \<Rightarrow> gcr_image \<Rightarrow> 'f \<Rightarrow> bool outcome \<times> 'f" where
  "save ops dec align img f =
     (case fo_write ops f (save_header img) of
        (_, n, f1) \<Rightarrow>
          if n \<noteq> length (save_header img) then (Known False, f1)
          else
            let ts = take (if gi_double_sided img then max_tracks else side_tracks) (gi_tracks img)
            in case save_tracks ops dec align img ts Undetermined f1 of
                 (res, f2) \<Rightarrow>
                   (case res of Outside \<Rightarrow> Outside | Undetermined \<Rightarrow> Undetermined | Known r \<Rightarrow> Known (r = FR_OK), f2))"

text \<open>One track, over its place in the file.\<close>

definition write_track :: "'f file_ops \<Rightarrow> decoder \<Rightarrow> nat \<Rightarrow> 'f option \<Rightarrow> bool \<Rightarrow> gcr_image \<Rightarrow> (bool \<times> 'f option) option" where
  "write_track ops dec track file' align img =
     (let t = gi_tracks img ! track
      in case (gt_address t, gt_in_file t, file') of
           (Some offset, True, Some f) \<Rightarrow>
             if offset < 2 then Some (False, Some f)
             else (case fo_seek ops f (offset - 2) of
               (res, f1) \<Rightarrow>
                 if res \<noteq> FR_OK then Some (False, Some f1)
                 else (case fo_write ops f1 (size_bytes t) of
                   (res, _, f2) \<Rightarrow>
                     if res \<noteq> FR_OK then Some (False, Some f2)
                     else (case (if align then find_track_start dec (track_bytes img t) else Some 0) of
                        None \<Rightarrow> None
                      | Some start \<Rightarrow>
                          (case write_turned ops (track_bytes img t) start f2 of
                             (res, f3) \<Rightarrow>
                               if res \<noteq> FR_OK then Some (False, Some f3)
                               else Some (True, Some (snd (fo_sync ops f3)))))))
         | _ \<Rightarrow> Some (False, file'))"

end
