(* ===== verification/Bin_Image.thy ===== *)
theory Bin_Image
  imports Gcr_Image
begin

text \<open>
  The binary image of a disk, \<open>BinImage\<close> in \<^verbatim>\<open>software/drive/disk_image.cc\<close>: where its tracks and error bytes
  lie for a given file size, loading and saving, and the conversions between it and the group code
  image.  A pointer into \<open>bin_data\<close> is its offset; \<open>allocated_size\<close> is the length of the data.
\<close>

section \<open>The image\<close>

definition C1541_MAX_D64_35_NO_ERRORS :: nat where "C1541_MAX_D64_35_NO_ERRORS = 174848"
definition C1541_MAX_D64_40_WITH_ERRORS :: nat where "C1541_MAX_D64_40_WITH_ERRORS = 197376"
definition C1541_MIN_D71_SIZE :: nat where "C1541_MIN_D71_SIZE = 2 * C1541_MAX_D64_35_NO_ERRORS"
definition C1541_D71_SIZE_WITH_ERRORS :: nat where "C1541_D71_SIZE_WITH_ERRORS = C1541_MIN_D71_SIZE + 1366"
definition BINIMAGE_MAXTRACKS :: nat where "BINIMAGE_MAXTRACKS = 80"

record bin_image =
  bi_track_start :: "nat option list"
  bi_track_sectors :: "nat list"
  bi_errors :: "nat option"
  bi_error_size :: nat
  bi_data_size :: nat
  bi_double_sided :: bool
  bi_num_tracks :: nat
  bi_data :: "byte list"

abbreviation sectors_of :: "bool \<Rightarrow> nat \<Rightarrow> nat" where
  "sectors_of ds i \<equiv> sectors_per_track ! track_to_region (int i) ds"

text \<open>The loop over the tracks: from position \<open>track\<close> on, one after the other.\<close>

fun lay_tracks :: "bool \<Rightarrow> nat list \<Rightarrow> nat \<Rightarrow> bin_image \<Rightarrow> bin_image" where
  "lay_tracks ds [] track img = img"
| "lay_tracks ds (i # is) track img =
     (let sects = sectors_of ds i
      in lay_tracks ds is (track + 256 * sects)
           (img\<lparr>bi_track_start := (bi_track_start img)[i := Some track],
                bi_track_sectors := (bi_track_sectors img)[i := sects]\<rparr>))"

text \<open>The constructor; \<open>mem\<close> is the memory it gets, not yet set.  \<open>error_size\<close> takes what the loops left in
  \<open>sects\<close>.\<close>

definition new_bin_image :: "(nat \<Rightarrow> byte list) \<Rightarrow> nat \<Rightarrow> bin_image" where
  "new_bin_image mem tracks =
     (let ds = (\<not> tracks \<le> 42);
          total = total_sectors_before_track tracks ds;
          sects = (if tracks = 0 then 0 else sectors_of ds (tracks - 1));
          img = lay_tracks ds [0..<tracks] 0
            \<lparr>bi_track_start = replicate BINIMAGE_MAXTRACKS None, bi_track_sectors = replicate BINIMAGE_MAXTRACKS 0,
             bi_errors = Some (256 * total), bi_error_size = sects, bi_data_size = 256 * total,
             bi_double_sided = ds, bi_num_tracks = tracks, bi_data = mem (256 * total + total)\<rparr>
      in img\<lparr>bi_data := blit (256 * total) (replicate sects 0) (bi_data img)\<rparr>)"

definition get_sector_pointer :: "bin_image \<Rightarrow> int \<Rightarrow> int \<Rightarrow> nat option" where
  "get_sector_pointer img track sector =
     (if track < 1 then None
      else if sector < 0 then None
      else if track \<ge> int BINIMAGE_MAXTRACKS then None
      else if sector \<ge> int (bi_track_sectors img ! nat (track - 1)) then None
      else map_option (\<lambda>start. start + nat sector * 256) (bi_track_start img ! nat (track - 1)))"

text \<open>Single sided: the tracks above 35 that \<open>size\<close> more bytes hold; with the bytes left.\<close>

fun more_tracks :: "nat \<Rightarrow> nat \<Rightarrow> nat \<times> nat" where
  "more_tracks sz num_tracks =
     (if sz \<ge> 17 * 256 \<and> num_tracks < BINIMAGE_MAXTRACKS
      then more_tracks (sz - 17 * 256) (num_tracks + 1) else (sz, num_tracks))"

declare more_tracks.simps [simp del]

definition init :: "nat \<Rightarrow> bin_image \<Rightarrow> int \<times> bin_image" where
  "init sz img =
     (if sz < C1541_MAX_D64_35_NO_ERRORS then (- 3, img)
      else
        let ds = (sz \<ge> C1541_MIN_D71_SIZE);
            (rest, n) = (if ds then (sz - C1541_MIN_D71_SIZE, 70)
                         else more_tracks (sz - C1541_MAX_D64_35_NO_ERRORS) 35);
            data = (if ds then C1541_MIN_D71_SIZE else C1541_MAX_D64_35_NO_ERRORS + (n - 35) * (17 * 256))
        in (0, lay_tracks ds [0..<n] 0
              (img\<lparr>bi_double_sided := ds, bi_num_tracks := n, bi_data_size := data, bi_error_size := rest,
                   bi_errors := (if rest \<le> 0 then None else Some data)\<rparr>)))"

definition bin_copy :: "byte list \<Rightarrow> nat \<Rightarrow> bin_image \<Rightarrow> int \<times> bin_image" where
  "bin_copy data sz img =
     (let used = (if sz > length (bi_data img) then length (bi_data img) else sz)
      in init used (img\<lparr>bi_data := blit 0 (take used data) (bi_data img)\<rparr>))"

text \<open>\<open>seek_res\<close>, \<open>read_res\<close> and \<open>bytes\<close> are the results of seeking to the start of the file and reading at most
  \<open>allocated_size\<close> bytes.\<close>

definition bin_load :: "fresult \<Rightarrow> fresult \<Rightarrow> byte list \<Rightarrow> bin_image \<Rightarrow> int \<times> bin_image" where
  "bin_load seek_res read_res bytes img =
     (let img0 = img\<lparr>bi_num_tracks := 0\<rparr>
      in if seek_res \<noteq> FR_OK then (- 1, img0)
         else
           let img1 = img0\<lparr>bi_data := blit 0 bytes (bi_data img0)\<rparr>
           in if read_res \<noteq> FR_OK then (- 2, img1) else init (length bytes) img1)"

definition track_data :: "bin_image \<Rightarrow> nat \<Rightarrow> byte list" where
  "track_data img i =
     (case bi_track_start img ! i of
        None \<Rightarrow> [] | Some start \<Rightarrow> take (256 * bi_track_sectors img ! i) (drop start (bi_data img)))"

fun bin_save_tracks :: "'f file_ops \<Rightarrow> bin_image \<Rightarrow> nat list \<Rightarrow> 'f \<Rightarrow> bool \<times> 'f" where
  "bin_save_tracks ops img [] f = (True, f)"
| "bin_save_tracks ops img (i # is) f =
     (case fo_write ops f (track_data img i) of
        (res, _, f1) \<Rightarrow> if res \<noteq> FR_OK then (False, f1) else bin_save_tracks ops img is f1)"

definition bin_save :: "'f file_ops \<Rightarrow> bin_image \<Rightarrow> 'f \<Rightarrow> int \<times> 'f" where
  "bin_save ops img f =
     (case fo_seek ops f 0 of
        (res, f1) \<Rightarrow>
          if res \<noteq> FR_OK then (- 1, f1)
          else (case bin_save_tracks ops img [0..<bi_num_tracks img] f1 of
            (False, f2) \<Rightarrow> (- 2, f2)
          | (True, f2) \<Rightarrow>
              let secs = sum_list (map (\<lambda>i. bi_track_sectors img ! i) [0..<bi_num_tracks img])
              in case bi_errors img of
                   None \<Rightarrow> (0, f2)
                 | Some e \<Rightarrow>
                     let errs = take secs (drop e (bi_data img))
                     in if bi_error_size img \<ge> secs \<and> foldl (OR) 0 errs \<noteq> 0
                        then (case fo_write ops f2 errs of (res, _, f3) \<Rightarrow> (if res \<noteq> FR_OK then - 4 else 0, f3))
                        else (0, f2)))"

section \<open>From group code to binary\<close>

text \<open>The pairs of status bytes: each error goes to its sector's error byte; \<open>None\<close> when one has not been
  written.\<close>

fun store_errors :: "nat \<Rightarrow> nat \<Rightarrow> byte list \<Rightarrow> bin_image \<Rightarrow> int \<Rightarrow> (bin_image \<times> int) option" where
  "store_errors 0 error_offset st img errorcount = Some (img, errorcount)"
| "store_errors (Suc k) error_offset (s # code # st) img errorcount =
     (let img' = (case bi_errors img of
            None \<Rightarrow> img
          | Some e \<Rightarrow>
              if error_offset + unat s < bi_error_size img
              then img\<lparr>bi_data := (bi_data img)[e + error_offset + unat s := code]\<rparr> else img)
      in store_errors k error_offset st img' (if code \<noteq> 0 then errorcount + 1 else errorcount))"
| "store_errors (Suc k) error_offset _ img errorcount = None"

text \<open>The result: a code of its own or of the file system.  \<open>None\<close> when the scan never ends, \<open>Some None\<close> when it
  goes outside the image.\<close>

record 'f track_write =
  tw_result :: "int + fresult"
  tw_image :: bin_image
  tw_errors :: int
  tw_secs :: nat
  tw_file :: "'f option"

definition bin_write_track ::
  "'f file_ops \<Rightarrow> decoder \<Rightarrow> nat \<Rightarrow> gcr_image \<Rightarrow> 'f option \<Rightarrow> int \<Rightarrow> bin_image \<Rightarrow> 'f track_write option option" where
  "bin_write_track ops dec phys_track gcr_img file' errorcount img =
     (let lt = nat (gcr_track_to_bin_track (int phys_track));
          t = gi_tracks gcr_img ! phys_track;
          failed = (\<lambda>code. Some (Some \<lparr>tw_result = Inl code, tw_image = img, tw_errors = errorcount, tw_secs = 0,
                                        tw_file = file'\<rparr>))
      in case bi_track_start img ! lt of
           None \<Rightarrow> failed (- 10)
         | Some bin \<Rightarrow>
             if gt_address t = None then failed (- 11)
             else
               let expected = bi_track_sectors img ! lt
               in case convert_gcr_track_to_bin dec (track_bytes gcr_img t) (lt + 1) expected
                      (drop bin (bi_data img)) True 64 of
                    None \<Rightarrow> None
                  | Some None \<Rightarrow> Some None
                  | Some (Some sc) \<Rightarrow>
                      let img1 = img\<lparr>bi_data := take bin (bi_data img) @ gs_bin sc\<rparr>;
                          error_offset = (if bi_errors img = None then 0
                            else total_sectors_before_track lt (bi_double_sided img))
                      in case store_errors (gs_secs sc) error_offset (gs_status sc) img1 errorcount of
                           None \<Rightarrow> Some None
                         | Some (img2, errs) \<Rightarrow>
                             let done = (\<lambda>r f. Some (Some \<lparr>tw_result = r, tw_image = img2, tw_errors = errs,
                                   tw_secs = gs_secs sc, tw_file = f\<rparr>))
                             in if gs_secs sc \<noteq> expected then done (Inl (- 12)) file'
                                else (case file' of
                                  None \<Rightarrow> done (Inl 0) None
                                | Some f \<Rightarrow>
                                    (case fo_seek ops f bin of
                                       (res, f1) \<Rightarrow>
                                         if res \<noteq> FR_OK then done (Inr res) (Some f1)
                                         else (case fo_write ops f1 (track_data img2 lt) of
                                           (fres, _, f2) \<Rightarrow>
                                             if fres \<noteq> FR_OK then done (Inr res) (Some f2)
                                             else (case fo_sync ops f2 of
                                               (r, f3) \<Rightarrow> done (Inr r) (Some f3))))))"

text \<open>No file at all.\<close>

definition no_file :: "unit file_ops" where
  "no_file = \<lparr>fo_write = \<lambda>f bs. (FR_OK, 0, f), fo_seek = \<lambda>f n. (FR_OK, f), fo_sync = \<lambda>f. (FR_OK, f)\<rparr>"

text \<open>All tracks: the image, the errors and the number of tracks with a sector.\<close>

fun gcr2bin_tracks ::
  "decoder \<Rightarrow> gcr_image \<Rightarrow> nat list \<Rightarrow> bin_image \<times> int \<times> nat \<Rightarrow> (bin_image \<times> int \<times> nat) option option" where
  "gcr2bin_tracks dec g [] s = Some (Some s)"
| "gcr2bin_tracks dec g (pt # pts) (img, errors, valid) =
     (if gt_address (gi_tracks g ! pt) = None then gcr2bin_tracks dec g pts (img, errors, valid)
      else case bin_write_track no_file dec pt g None errors img of
             None \<Rightarrow> None
           | Some None \<Rightarrow> Some None
           | Some (Some r) \<Rightarrow>
               gcr2bin_tracks dec g pts
                 (tw_image r, tw_errors r, if tw_secs r > 0 then valid + 1 else valid))"

definition convert_disk_gcr2bin :: "decoder \<Rightarrow> gcr_image \<Rightarrow> bin_image \<Rightarrow> (bin_image \<times> int) option option" where
  "convert_disk_gcr2bin dec g img =
     (let img0 = snd (init (if gi_double_sided g then C1541_D71_SIZE_WITH_ERRORS
                            else C1541_MAX_D64_40_WITH_ERRORS) img)
      in map_option (map_option (\<lambda>(img', errors, valid). (img'\<lparr>bi_num_tracks := valid\<rparr>, errors)))
           (gcr2bin_tracks dec g [0..<max_tracks] (img0, 0, 0)))"

section \<open>From binary to group code\<close>

definition error_bytes :: "bin_image \<Rightarrow> nat \<Rightarrow> byte list option" where
  "error_bytes img sec = map_option (\<lambda>e. drop sec (take (bi_error_size img) (drop e (bi_data img)))) (bi_errors img)"

text \<open>One track, at position \<open>gcr\<close>.\<close>

definition bin2gcr_track ::
  "encoder \<Rightarrow> byte \<Rightarrow> byte \<Rightarrow> bin_image \<Rightarrow> bool \<Rightarrow> nat \<Rightarrow> nat \<Rightarrow> gcr_image \<times> nat \<Rightarrow> gcr_image \<times> nat" where
  "bin2gcr_track enc id1 id2 img geos twist lt s =
     (case s of (g, gcr) \<Rightarrow>
        let ds = bi_double_sided img;
            pt = nat (bin_track_to_gcr_track (int lt) ds);
            sec = total_sectors_before_track lt ds;
            region = track_to_region (int lt) ds;
            bytes = convert_track_bin2gcr enc id1 id2 (of_nat (lt + 1)) region
              (drop (the (bi_track_start img ! lt)) (bi_data img)) (error_bytes img sec) geos twist
        in (g\<lparr>gi_data := blit gcr bytes (gi_data g),
              gi_tracks := (gi_tracks g)[pt := (gi_tracks g ! pt)\<lparr>gt_address := Some gcr, gt_length := length bytes,
                gt_speed := region_speed_codes ! region, gt_used := True\<rparr>]\<rparr>, gcr + length bytes))"

text \<open>The copy protection track of GEOS: patterns of three bytes, each row turned by a bit.\<close>

fun rotate_rows :: "byte list \<Rightarrow> byte list" where
  "rotate_rows (a # b # c # rest) =
     (let o0 = (if a > 127 then 1 else 0); o1 = (if b > 127 then 1 else 0); o2 = (if c > 127 then 1 else 0)
      in (push_bit 1 a + o1) # (push_bit 1 b + o2) # (push_bit 1 c + o0) # rotate_rows rest)"
| "rotate_rows _ = []"

primrec geos_rows :: "nat \<Rightarrow> byte list \<Rightarrow> byte list" where
  "geos_rows 0 data = []"
| "geos_rows (Suc s) data =
     concat (map (\<lambda>l. concat (replicate 0x15 (take 3 (drop (3 * l) data)))) [0..<4]) @
     geos_rows s (rotate_rows data)"

definition geos_track :: "byte list" where
  "geos_track =
     blit 0 (geos_rows 0x18 [0x2f, 0x53, 0x77, 0x7d, 0x67, 0x45, 0xb5, 0xdd, 0x77, 0x62, 0x73, 0x77])
       (replicate 7692 0x55)"

definition convert_disk_bin2gcr ::
  "encoder \<Rightarrow> bin_image \<Rightarrow> bool \<Rightarrow> bool \<Rightarrow> nat \<Rightarrow> gcr_image \<Rightarrow> bin_image \<times> gcr_image" where
  "convert_disk_bin2gcr enc img geos geos_track36 twist g =
     (let id1 = bi_data img ! 91554; id2 = bi_data img ! 91555;
          g0 = (invalidate g)\<lparr>gi_double_sided := bi_double_sided img\<rparr>;
          img' = (case bi_errors img of None \<Rightarrow> img
                  | Some e \<Rightarrow> img\<lparr>bi_data := blit e (replicate (bi_error_size img) 0) (bi_data img)\<rparr>);
          (g1, gcr) = fold (bin2gcr_track enc id1 id2 img' geos twist) [0..<bi_num_tracks img'] (g0, 0);
          (g2, gcr') =
            (if geos_track36 \<and> bi_num_tracks img' = 35
             then (g1\<lparr>gi_data := blit gcr geos_track (gi_data g1),
                      gi_tracks := (gi_tracks g1)[70 := (gi_tracks g1 ! 70)\<lparr>gt_length := 7692,
                        gt_address := Some gcr, gt_speed := 3, gt_used := True\<rparr>]\<rparr>, gcr + 7692)
             else (g1, gcr))
      in (img', add_blank_tracks gcr' g2))"

end
