(* ===== verification/Gcr_Saved.thy ===== *)
theory Gcr_Saved
  imports Gcr_Image
begin

text \<open>
  The image of \<open>Gcr_Image\<close> stays within its memory, whatever file is read into it, and what is saved
  as a G64 file is read back.
\<close>

section \<open>Bounds\<close>

lemma validated_length:
  "gcr_validated_track_length d offset bytes_read m = n \<and> n \<noteq> 0 \<longleftrightarrow>
    n = uint (d AND 0x7FFF) \<and> 0 < n \<and> n \<le> m \<and> uint offset + 2 + n \<le> uint bytes_read"
proof -
  define k where "k = uint (d AND 0x7FFF)"
  have d: "0 \<le> k" "k < 2 ^ 16"
    using unsigned_less [of "d AND 0x7FFF", where 'a = int] by (simp_all add: k_def)
  have n: "uint (word_of_int k :: u32) = k"
    using d by (simp add: uint_word_of_int_eq take_bit_eq_mod)
  have def': "gcr_validated_track_length d offset bytes_read m =
      (if k \<le> 0 \<or> k > m then 0 else if offset > bytes_read \<or> bytes_read - offset < 2 then 0
       else if word_of_int k > bytes_read - offset - 2 then 0 else k)"
    by (simp only: gcr_validated_track_length_def Let_def k_def)
  show ?thesis
  proof (cases "offset \<le> bytes_read")
    case True
    then have diff: "uint (bytes_read - offset) = uint bytes_read - uint offset"
      by (simp add: uint_sub_if' word_le_def)
    show ?thesis
    proof (cases "uint (bytes_read - offset) < 2")
      case False
      then have "(2 :: u32) \<le> bytes_read - offset" by (simp add: word_le_def)
      then have "uint (bytes_read - offset - 2) = uint bytes_read - uint offset - 2"
        using True by (simp add: uint_sub_if' word_le_def)
      then show ?thesis
        unfolding def' k_def [symmetric] using d True False by (auto simp: word_less_def word_le_def n diff)
    qed (unfold def' k_def [symmetric], use d True diff in \<open>auto simp: word_less_def word_le_def\<close>)
  qed (unfold def' k_def [symmetric], use d in \<open>auto simp: word_less_def word_le_def\<close>)
qed

lemma validated_length_nat:
  assumes "n = nat (gcr_validated_track_length d offset bytes_read (int m))" "n \<noteq> 0"
  shows "n \<le> m" "unat offset + 2 + n \<le> unat bytes_read" "n = unat (d AND 0x7FFF)"
proof -
  let ?n = "gcr_validated_track_length d offset bytes_read (int m)"
  have "?n \<noteq> 0" using assms by auto
  then have v: "?n = uint (d AND 0x7FFF)" "?n \<le> int m" "uint offset + 2 + ?n \<le> uint bytes_read" "0 < ?n"
    using validated_length [of d offset bytes_read "int m" ?n] by simp_all
  have "int n = ?n" using v(4) assms(1) by simp
  with v show "n \<le> m" "unat offset + 2 + n \<le> unat bytes_read" "n = unat (d AND 0x7FFF)"
    unfolding uint_nat by linarith+
qed

definition track_ok :: "nat \<Rightarrow> gcr_track \<Rightarrow> bool" where
  "track_ok limit t \<longleftrightarrow>
     (case gt_address t of None \<Rightarrow> \<not> gt_used t | Some a \<Rightarrow> 0 < gt_length t \<and> a + gt_length t \<le> limit)"

definition image_ok :: "gcr_image \<Rightarrow> bool" where
  "image_ok img \<longleftrightarrow> length (gi_data img) = GCRIMAGE_MAXSIZE \<and> length (gi_tracks img) = max_tracks \<and>
     list_all (track_ok GCRIMAGE_MAXSIZE) (gi_tracks img)"

lemma no_track_ok [simp]: "track_ok n no_track"
  by (simp add: track_ok_def no_track_def)

lemma track_ok_fields [simp]:
  "track_ok n (t\<lparr>gt_speed := s\<rparr>) = track_ok n t"
  "track_ok n (t\<lparr>gt_mfm := m\<rparr>) = track_ok n t" "track_ok n (t\<lparr>gt_in_file := f\<rparr>) = track_ok n t"
  by (simp_all add: track_ok_def split: option.split)

lemma invalidate_ok: "length (gi_data img) = GCRIMAGE_MAXSIZE \<Longrightarrow> image_ok (invalidate img)"
  by (simp add: image_ok_def invalidate_def list_all_iff)

lemma list_all_update: "list_all P xs \<Longrightarrow> P y \<Longrightarrow> list_all P (xs[i := y])"
  by (auto simp: list_all_iff dest!: subsetD [OF set_update_subset_insert])

lemma region_below: "track_to_region track False < 4"
  by (auto simp: track_to_region_def Let_def find_Some_iff split: option.split)

lemma blank_lengths: "0 < track_lengths ! track_to_region track False"
  using region_below [of track] by (auto simp: numeral_eq_Suc less_Suc_eq track_lengths_def)

text \<open>Adding a blank track: within the memory, free entries only, and never a used one.\<close>

definition blank_inv :: "nat \<Rightarrow> gcr_track list \<Rightarrow> gcr_track list \<times> nat \<Rightarrow> bool" where
  "blank_inv start ts s \<longleftrightarrow>
     (case s of (ts', gcr) \<Rightarrow> length ts' = length ts \<and> start \<le> gcr \<and> gcr \<le> GCRIMAGE_MAXSIZE \<and>
        (list_all (track_ok GCRIMAGE_MAXSIZE) ts \<longrightarrow> list_all (track_ok GCRIMAGE_MAXSIZE) ts') \<and>
        (\<forall>i < length ts. (gt_address (ts ! i) \<noteq> None \<longrightarrow> ts' ! i = ts ! i) \<and> gt_used (ts' ! i) = gt_used (ts ! i) \<and>
           (\<forall>a. gt_address (ts ! i) = None \<longrightarrow> gt_address (ts' ! i) = Some a \<longrightarrow> start \<le> a \<and> a + gt_length (ts' ! i) \<le> gcr)))"

lemma blank_track_inv:
  assumes "blank_inv start ts s" "0 < len"
  shows "blank_inv start ts (blank_track j len speed s)"
proof -
  obtain ts' gcr where s: "s = (ts', gcr)" by force
  show ?thesis
  proof (cases "gt_address (ts' ! j) = None \<and> gcr + len \<le> GCRIMAGE_MAXSIZE")
    case True
    let ?t = "(ts' ! j)\<lparr>gt_address := Some gcr, gt_length := len, gt_speed := speed\<rparr>"
    have upd: "ts'[j := ?t] ! i = (if i = j then ?t else ts' ! i)" if "i < length ts" for i
      using that assms(1) by (simp add: s blank_inv_def nth_list_update)
    have "track_ok GCRIMAGE_MAXSIZE ?t" using True assms(2) by (simp add: track_ok_def)
    then show ?thesis
      using assms(1) True by (auto simp: s blank_inv_def blank_track_def upd list_all_update intro: trans_le_add1)
  next
    case False
    then have "blank_track j len speed s = s" unfolding s blank_track_def by (simp only: prod.case if_False)
    then show ?thesis using assms(1) by simp
  qed
qed

lemma blank_step_inv: "blank_inv start ts s \<Longrightarrow> blank_inv start ts (blank_step ds k s)"
  by (simp add: blank_step_def Let_def blank_track_inv blank_lengths)

lemma blank_fold_inv: "blank_inv start ts s \<Longrightarrow> blank_inv start ts (fold (blank_step ds) ks s)"
  by (induction ks arbitrary: s) (simp_all add: blank_step_inv)

lemma add_blank:
  assumes "start \<le> GCRIMAGE_MAXSIZE"
  obtains ts' gcr where "add_blank_tracks start img = img\<lparr>gi_tracks := ts',
      gi_data := blit start (replicate (gcr - start) 0) (gi_data img)\<rparr>" "blank_inv start (gi_tracks img) (ts', gcr)"
proof -
  obtain ts' gcr where "fold (blank_step (gi_double_sided img)) [0..<GCRIMAGE_MAXUSEDTRACKS div 2]
      (gi_tracks img, start) = (ts', gcr)" by force
  moreover have "blank_inv start (gi_tracks img) (gi_tracks img, start)"
    using assms by (simp add: blank_inv_def)
  ultimately show ?thesis
    using that [of gcr ts'] blank_fold_inv [of start "gi_tracks img" "(gi_tracks img, start)"]
    by (metis (no_types, lifting) add_blank_tracks_def case_prod_conv)
qed

lemma add_blank_ok:
  assumes "start \<le> GCRIMAGE_MAXSIZE" "image_ok img"
  shows "image_ok (add_blank_tracks start img)"
proof -
  obtain ts' gcr where r: "add_blank_tracks start img = img\<lparr>gi_tracks := ts',
      gi_data := blit start (replicate (gcr - start) 0) (gi_data img)\<rparr>" "blank_inv start (gi_tracks img) (ts', gcr)"
    by (rule add_blank [OF assms(1)])
  then show ?thesis using assms(2) by (auto simp: image_ok_def blank_inv_def)
qed

lemma blank_ok: "length (gi_data img) = GCRIMAGE_MAXSIZE \<Longrightarrow> image_ok (blank img)"
  by (simp add: blank_def add_blank_ok invalidate_ok)

lemma written_ok:
  assumes "image_ok img" "j < max_tracks"
  shows "image_ok (track_got_written_with_gcr j img)"
proof -
  have "track_ok GCRIMAGE_MAXSIZE (gi_tracks img ! j)" using assms by (simp add: image_ok_def list_all_length)
  then have "gt_address (gi_tracks img ! j) \<noteq> None \<Longrightarrow>
      track_ok GCRIMAGE_MAXSIZE ((gi_tracks img ! j)\<lparr>gt_speed := sp, gt_used := True, gt_mfm := False\<rparr>)" for sp
    by (auto simp: track_ok_def)
  then show ?thesis using assms by (simp add: track_got_written_with_gcr_def Let_def image_ok_def list_all_update)
qed

section \<open>Reading any file\<close>

text \<open>While the tracks are read: an entry in use lies within what was delivered.\<close>

definition delivered :: "nat \<Rightarrow> gcr_image \<Rightarrow> bool" where
  "delivered n img \<longleftrightarrow> image_ok img \<and> list_all (\<lambda>t. in_g64 t \<longrightarrow> track_ok n t \<and> gt_length t \<le> GCRIMAGE_MAXTRACKLEN) (gi_tracks img)"

lemma load_track_delivered:
  assumes "load_track (of_nat n) i img = Some img'" "delivered n img" "n \<le> GCRIMAGE_MAXSIZE"
  shows "delivered n img'"
proof -
  define offset where "offset = read32 (gi_data img) (i + 3)"
  define w :: u16 where
    "w = ucast (gi_data img ! unat offset) OR push_bit 8 (ucast (gi_data img ! (unat offset + 1)))"
  define len where "len = gcr_validated_track_length w offset (of_nat n) (int GCRIMAGE_MAXTRACKLEN)"
  have n: "unat (of_nat n :: u32) = n"
    using assms(3) by (simp add: unat_of_nat GCRIMAGE_MAXSIZE_def GCRIMAGE_MAXTRACKLEN_def
        GCRIMAGE_MAXUSEDTRACKS_def GCRIMAGE_MAXMETADATA_def)
  show ?thesis
  proof (cases "img' = img")
    case False
    then have img': "len \<noteq> 0" "img' = img\<lparr>gi_tracks := (gi_tracks img)[i := (gi_tracks img ! i)
                  \<lparr>gt_address := Some (unat offset + 2), gt_length := nat len, gt_used := True,
                    gt_in_file := True, gt_mfm := w AND 0x8000 \<noteq> 0\<rparr>],
                  gi_double_sided := gi_double_sided img \<or> i \<ge> side_tracks\<rparr>"
      using assms(1) unfolding load_track_def by (auto simp: Let_def offset_def w_def len_def split: if_splits)
    have pos: "0 < len" using img'(1) validated_length [of w offset "of_nat n" "int GCRIMAGE_MAXTRACKLEN" len]
      by (simp add: len_def)
    note v = validated_length_nat [of "nat len" w offset "of_nat n" GCRIMAGE_MAXTRACKLEN, folded len_def]
    let ?t = "(gi_tracks img ! i)\<lparr>gt_address := Some (unat offset + 2), gt_length := nat len, gt_used := True,
                    gt_in_file := True, gt_mfm := w AND 0x8000 \<noteq> 0\<rparr>"
    have "track_ok n ?t" "track_ok GCRIMAGE_MAXSIZE ?t" "gt_length ?t \<le> GCRIMAGE_MAXTRACKLEN"
      using v pos n assms(3) by (simp_all add: track_ok_def)
    then show ?thesis
      using assms(2) by (simp add: img'(2) delivered_def image_ok_def list_all_update)
  qed (use assms in simp)
qed

lemma load_tracks_delivered:
  "delivered n img \<Longrightarrow> n \<le> GCRIMAGE_MAXSIZE \<Longrightarrow> delivered n (snd (load_tracks (of_nat n) is img))"
  by (induction "is" arbitrary: img) (auto split: option.split dest: load_track_delivered)

lemma load_speeds_delivered: "delivered n img \<Longrightarrow> delivered n (load_speeds k img)"
  by (auto simp: delivered_def image_ok_def load_speeds_def Let_def list_all_length in_g64_def)

lemma add_blank_delivered:
  assumes "delivered n img" "n \<le> GCRIMAGE_MAXSIZE"
  shows "delivered n (add_blank_tracks n img)"
proof -
  obtain ts' gcr where r: "add_blank_tracks n img = img\<lparr>gi_tracks := ts',
      gi_data := blit n (replicate (gcr - n) 0) (gi_data img)\<rparr>" "blank_inv n (gi_tracks img) (ts', gcr)"
    by (rule add_blank [OF assms(2)])
  have "list_all (\<lambda>t. in_g64 t \<longrightarrow> track_ok n t \<and> gt_length t \<le> GCRIMAGE_MAXTRACKLEN) ts'"
    unfolding list_all_length
  proof (intro allI impI)
    fix i assume i: "i < length ts'" and used: "in_g64 (ts' ! i)"
    have old: "track_ok GCRIMAGE_MAXSIZE (gi_tracks img ! i)" "in_g64 (gi_tracks img ! i) \<longrightarrow>
        track_ok n (gi_tracks img ! i) \<and> gt_length (gi_tracks img ! i) \<le> GCRIMAGE_MAXTRACKLEN"
      using assms(1) r(2) i by (simp_all add: delivered_def image_ok_def list_all_length blank_inv_def)
    then have "ts' ! i = gi_tracks img ! i"
      using r(2) i used by (auto simp: blank_inv_def in_g64_def track_ok_def split: option.splits)
    then show "track_ok n (ts' ! i) \<and> gt_length (ts' ! i) \<le> GCRIMAGE_MAXTRACKLEN" using old(2) used by simp
  qed
  then show ?thesis using add_blank_ok [OF assms(2), of img] assms(1) by (simp add: delivered_def r(1))
qed

lemma load_delivered:
  assumes "length (gi_data img) = GCRIMAGE_MAXSIZE" "length bytes \<le> GCRIMAGE_MAXSIZE"
  shows "delivered (length bytes) (snd (load res bytes img))"
proof -
  define img0 where "img0 = (invalidate img)\<lparr>gi_data := blit 0 bytes (gi_data img)\<rparr>"
  have "image_ok img0" using invalidate_ok [OF assms(1)] assms by (simp add: img0_def image_ok_def)
  then have img0: "delivered (length bytes) img0"
    by (simp add: delivered_def img0_def invalidate_def list_all_iff in_g64_def no_track_def)
  then have set: "delivered (length bytes) (img0\<lparr>gi_double_sided := d\<rparr>)" for d
    by (simp add: delivered_def image_ok_def)
  show ?thesis
    using img0 load_tracks_delivered [OF set [of False] assms(2)]
      add_blank_delivered [OF load_speeds_delivered assms(2)]
    unfolding load_def img0_def [symmetric] Let_def
    by (auto split: prod.split bool.split) (metis snd_conv)+
qed

text \<open>C16: Whatever the file holds, the image memory stays in bounds: after \<open>load\<close> (also when it fails) every
  track lies inside it, and a track in use lies inside what the file delivered and is no longer than
  the format allows.\<close>

theorem load_in_bounds:
  assumes "length (gi_data img) = GCRIMAGE_MAXSIZE" "length bytes \<le> GCRIMAGE_MAXSIZE"
  shows "image_ok (snd (load res bytes img)) \<and>
    (\<forall>t \<in> set (gi_tracks (snd (load res bytes img))). in_g64 t \<longrightarrow>
       the (gt_address t) + gt_length t \<le> length bytes \<and> 0 < gt_length t \<and> gt_length t \<le> GCRIMAGE_MAXTRACKLEN)"
  using load_delivered [OF assms, of res]
  by (auto simp: delivered_def list_all_iff in_g64_def track_ok_def split: option.splits)

lemma load_in_bounds_witness: "image_ok (snd (load FR_OK [1, 2, 3] new_gcr_image))"
  using load_in_bounds [of new_gcr_image "[1, 2, 3]" FR_OK]
  by (simp add: new_gcr_image_def invalidate_def GCRIMAGE_MAXSIZE_def GCRIMAGE_MAXTRACKLEN_def
      GCRIMAGE_MAXUSEDTRACKS_def GCRIMAGE_MAXMETADATA_def)

section \<open>Reading what was written\<close>

text \<open>A file that takes every byte and appends it.\<close>

definition append_ops :: "byte list file_ops" where
  "append_ops = \<lparr>fo_write = \<lambda>f bs. (FR_OK, length bs, f @ bs), fo_seek = \<lambda>f n. (FR_OK, f), fo_sync = \<lambda>f. (FR_OK, f)\<rparr>"

definition saved_track :: "gcr_image \<Rightarrow> gcr_track \<Rightarrow> byte list" where
  "saved_track img t = (if in_g64 t then size_bytes t @ track_bytes img t else [])"

definition saved_tracks :: "gcr_image \<Rightarrow> gcr_track list" where
  "saved_tracks img = take (if gi_double_sided img then max_tracks else side_tracks) (gi_tracks img)"

definition g64_file :: "gcr_image \<Rightarrow> byte list" where
  "g64_file img = save_header img @ concat (map (saved_track img) (saved_tracks img))"

lemma append_write [simp]: "fo_write append_ops f bs = (FR_OK, length bs, f @ bs)"
  by (simp add: append_ops_def)

lemma length_size [simp]: "length (size_bytes t) = 2"
  by (simp add: size_bytes_def)

lemma save_tracks_append:
  "save_tracks append_ops dec False img ts res f =
    (if list_ex in_g64 ts then Known FR_OK else res, f @ concat (map (saved_track img) ts))"
  by (induction ts arbitrary: res f) (simp_all add: saved_track_def write_turned_def)

lemma save_append:
  "save append_ops dec False img f =
    (if list_ex in_g64 (saved_tracks img) then Known True else Undetermined, f @ g64_file img)"
  by (simp add: save_def Let_def save_tracks_append saved_tracks_def g64_file_def)

subsection \<open>The tables\<close>

lemma length_words [simp]: "length (concat (map le32_bytes ws)) = 4 * length ws"
  by (induction ws) simp_all

lemma read32_words:
  "i < length ws \<Longrightarrow> length pre = 4 * k \<Longrightarrow>
    read32 (pre @ concat (map le32_bytes ws) @ post) (k + i) = ws ! i"
proof (induction ws arbitrary: pre k i)
  case (Cons w ws)
  show ?case
  proof (cases i)
    case 0
    then show ?thesis
      using Cons.prems(2) le32_of_bytes [of w]
      by (simp add: read32_def nth_append le32_bytes_def)
  next
    case (Suc j)
    then show ?thesis
      using Cons.IH [of j "pre @ le32_bytes w" "Suc k"] Cons.prems by simp
  qed
qed simp

lemma length_track_table [simp]: "length (track_table n ts) = length ts"
  by (induction ts arbitrary: n) simp_all

lemma length_speed_table [simp]: "length (speed_table ts) = length ts"
  by (simp add: speed_table_def)

definition stored :: "gcr_image \<Rightarrow> gcr_track \<Rightarrow> bool" where
  "stored img t \<longleftrightarrow> (in_g64 t \<longrightarrow> length (track_bytes img t) = gt_length t)"

lemma length_saved: "stored img t \<Longrightarrow> length (saved_track img t) = (if in_g64 t then gt_length t + 2 else 0)"
  by (simp add: saved_track_def stored_def)

lemma track_table_nth:
  "i < length ts \<Longrightarrow> list_all (stored img) ts \<Longrightarrow>
    track_table n ts ! i =
      (if in_g64 (ts ! i) then of_nat (n + length (concat (map (saved_track img) (take i ts)))) else 0)"
proof (induction ts arbitrary: n i)
  case (Cons t ts)
  then show ?case
    by (cases i) (auto simp: length_saved add.assoc)
qed simp

lemma length_magic [simp]: "length (gcr_magic ds) = 8"
  by (simp add: gcr_magic_def)

definition g64_start :: "gcr_image \<Rightarrow> nat" where
  "g64_start img = 12 + 8 * (if gi_double_sided img then max_tracks else side_tracks)"

definition g64_pos :: "gcr_image \<Rightarrow> nat \<Rightarrow> nat" where
  "g64_pos img i = g64_start img + length (concat (map (saved_track img) (take i (saved_tracks img))))"

lemma length_saved_tracks:
  "length (gi_tracks img) = max_tracks \<Longrightarrow>
    length (saved_tracks img) = (if gi_double_sided img then max_tracks else side_tracks)"
  by (simp add: saved_tracks_def)

lemma g64_parts:
  "g64_file img = (gcr_magic (gi_double_sided img) @
     [0, of_nat (if gi_double_sided img then max_tracks else side_tracks), of_nat GCRIMAGE_MAXTRACKLEN,
      of_nat (GCRIMAGE_MAXTRACKLEN div 256)]) @
     concat (map le32_bytes (track_table (g64_start img) (saved_tracks img))) @
     concat (map le32_bytes (speed_table (saved_tracks img))) @
     concat (map (saved_track img) (saved_tracks img))"
  by (simp add: g64_file_def save_header_def Let_def saved_tracks_def g64_start_def mult.commute)

lemma g64_magic: "take 8 (g64_file img @ post) = gcr_magic (gi_double_sided img)"
  by (simp add: g64_parts)

lemma g64_count:
  "(g64_file img @ post) ! 9 = of_nat (if gi_double_sided img then max_tracks else side_tracks)"
  by (simp add: g64_parts nth_append)

lemma g64_offset:
  assumes "i < length (saved_tracks img)"
  shows "read32 (g64_file img @ post) (i + 3) = track_table (g64_start img) (saved_tracks img) ! i"
proof -
  let ?pre = "gcr_magic (gi_double_sided img) @
     [0, of_nat (if gi_double_sided img then max_tracks else side_tracks), of_nat GCRIMAGE_MAXTRACKLEN,
      of_nat (GCRIMAGE_MAXTRACKLEN div 256)]"
  have "g64_file img @ post = ?pre @ concat (map le32_bytes (track_table (g64_start img) (saved_tracks img))) @
      (concat (map le32_bytes (speed_table (saved_tracks img))) @
       concat (map (saved_track img) (saved_tracks img)) @ post)"
    by (simp add: g64_parts)
  then show ?thesis
    using read32_words [of i "track_table (g64_start img) (saved_tracks img)" ?pre 3] assms
    by (simp add: add.commute [of i])
qed

lemma g64_speed:
  assumes "i < length (saved_tracks img)" "length (saved_tracks img) = n"
  shows "read32 (g64_file img @ post) (3 + n + i) = speed_table (saved_tracks img) ! i"
proof -
  let ?pre = "(gcr_magic (gi_double_sided img) @
     [0, of_nat (if gi_double_sided img then max_tracks else side_tracks), of_nat GCRIMAGE_MAXTRACKLEN,
      of_nat (GCRIMAGE_MAXTRACKLEN div 256)]) @
     concat (map le32_bytes (track_table (g64_start img) (saved_tracks img)))"
  have "g64_file img @ post = ?pre @ concat (map le32_bytes (speed_table (saved_tracks img))) @
      (concat (map (saved_track img) (saved_tracks img)) @ post)"
    by (simp add: g64_parts)
  then show ?thesis
    using read32_words [of i "speed_table (saved_tracks img)" ?pre "3 + n"] assms by simp
qed

lemma g64_track:
  assumes "i < length (saved_tracks img)" "length (gi_tracks img) = max_tracks" "in_g64 (saved_tracks img ! i)"
  obtains rest where "drop (g64_pos img i) (g64_file img @ post) =
    size_bytes (saved_tracks img ! i) @ track_bytes img (saved_tracks img ! i) @ rest"
proof -
  let ?ts = "saved_tracks img"
  have "concat (map (saved_track img) ?ts) = concat (map (saved_track img) (take i ?ts)) @
      saved_track img (?ts ! i) @ concat (map (saved_track img) (drop (Suc i) ?ts))"
    using id_take_nth_drop [OF assms(1)] by (metis concat.simps(2) concat_append list.simps(9) map_append)
  moreover have "length (save_header img) = g64_start img"
    using assms(2) by (simp add: save_header_def Let_def g64_start_def)
  ultimately have "drop (g64_pos img i) (g64_file img @ post) =
      saved_track img (?ts ! i) @ concat (map (saved_track img) (drop (Suc i) ?ts)) @ post"
    by (simp add: g64_file_def g64_pos_def)
  then show ?thesis
    using that assms(3) by (simp add: saved_track_def)
qed

subsection \<open>The length word\<close>

definition size_word :: "u16 \<Rightarrow> bool \<Rightarrow> u16" where
  "size_word L m = ucast (ucast L :: byte) OR
     push_bit 8 (ucast ((ucast (drop_bit 8 L) :: byte) OR (if m then 0x80 else 0)))"

lemma bit_flag: "bit (if m then 0x80 else 0 :: byte) k \<longleftrightarrow> m \<and> k = 7"
proof -
  have "(0x80 :: byte) = push_bit 7 1" by simp
  then have "bit (0x80 :: byte) k \<longleftrightarrow> k = 7"
    by (simp only: bit_push_bit_iff bit_1_iff) auto
  then show ?thesis by simp
qed

lemma bit_size_word:
  assumes "\<not> bit L 15" "k < 16"
  shows "bit (size_word L m) k \<longleftrightarrow> bit L k \<or> m \<and> k = 15"
proof -
  have "k < 8 \<or> 8 \<le> k" by auto
  then show ?thesis using assms by (auto simp: size_word_def bit_simps bit_flag)
qed

lemma size_word:
  assumes "\<not> bit L 15"
  shows "size_word L m AND 0x7FFF = L" "size_word L m AND 0x8000 \<noteq> 0 \<longleftrightarrow> m"
proof -
  have c: "(0x7FFF :: u16) = mask 15" "(0x8000 :: u16) = 2 ^ 15"
    by (simp_all add: mask_eq_exp_minus_1)
  note w = bit_size_word [OF assms]
  show "size_word L m AND 0x7FFF = L"
  proof (rule bit_word_eqI)
    fix k assume "k < LENGTH(16)"
    then have "k < 15 \<or> k = 15" by auto
    then show "bit (size_word L m AND 0x7FFF) k = bit L k"
      using w [of k] assms unfolding c by (auto simp: bit_and_iff bit_mask_iff)
  qed
  have "(size_word L m AND 0x8000 \<noteq> 0) = bit (size_word L m) 15"
    by (simp only: c(2) and_exp_eq_0_iff_not_bit not_not)
  then show "size_word L m AND 0x8000 \<noteq> 0 \<longleftrightarrow> m" using w [of 15] assms by simp
qed

lemma size_nat:
  assumes "n < 0x8000"
  shows "of_nat n = (ucast (of_nat n :: u16) :: byte)" "of_nat (n div 256) = (ucast (drop_bit 8 (of_nat n :: u16)) :: byte)"
    "\<not> bit (of_nat n :: u16) 15" "unat (of_nat n :: u16) = n"
proof -
  show u: "unat (of_nat n :: u16) = n" using assms by (simp add: unat_of_nat)
  show "of_nat n = (ucast (of_nat n :: u16) :: byte)" using of_nat_unat [of "of_nat n :: u16"] u by simp
  have "unat (drop_bit 8 (of_nat n :: u16)) = n div 256" by (simp only: unat_drop_bit_eq u) (simp add: drop_bit_eq_div)
  then show "of_nat (n div 256) = (ucast (drop_bit 8 (of_nat n :: u16)) :: byte)"
    using of_nat_unat [of "drop_bit 8 (of_nat n :: u16)"] by simp
  have "\<not> bit n 15" using assms by (simp add: bit_iff_odd)
  then show "\<not> bit (of_nat n :: u16) 15" by (metis bit_of_nat_iff)
qed
subsection \<open>The tracks\<close>

definition savable :: "gcr_image \<Rightarrow> bool" where
  "savable img \<longleftrightarrow> image_ok img \<and> list_all (\<lambda>t. in_g64 t \<longrightarrow> gt_length t \<le> GCRIMAGE_MAXTRACKLEN) (gi_tracks img) \<and>
     length (g64_file img) \<le> GCRIMAGE_MAXSIZE"

lemma savable_track:
  assumes "savable img" "i < length (saved_tracks img)"
  shows "saved_tracks img ! i = gi_tracks img ! i" "i < max_tracks" "stored img (saved_tracks img ! i)"
    "in_g64 (saved_tracks img ! i) \<Longrightarrow> 0 < gt_length (saved_tracks img ! i) \<and>
      gt_length (saved_tracks img ! i) \<le> GCRIMAGE_MAXTRACKLEN"
proof -
  have i: "i < max_tracks" using assms by (auto simp: saved_tracks_def savable_def image_ok_def split: if_splits)
  moreover show s: "saved_tracks img ! i = gi_tracks img ! i" using assms(2) by (simp add: saved_tracks_def)
  ultimately have ok: "track_ok GCRIMAGE_MAXSIZE (saved_tracks img ! i)"
    "in_g64 (saved_tracks img ! i) \<longrightarrow> gt_length (saved_tracks img ! i) \<le> GCRIMAGE_MAXTRACKLEN"
    "length (gi_data img) = GCRIMAGE_MAXSIZE"
    using assms(1) by (simp_all add: savable_def image_ok_def list_all_length)
  show "i < max_tracks" by (rule i)
  show "stored img (saved_tracks img ! i)"
    using ok by (auto simp: stored_def track_bytes_def track_ok_def in_g64_def split: option.splits)
  show "in_g64 (saved_tracks img ! i) \<Longrightarrow> 0 < gt_length (saved_tracks img ! i) \<and>
      gt_length (saved_tracks img ! i) \<le> GCRIMAGE_MAXTRACKLEN"
    using ok by (auto simp: track_ok_def in_g64_def)
qed

lemma savable_stored: "savable img \<Longrightarrow> list_all (stored img) (saved_tracks img)"
  by (simp add: list_all_length savable_track(3))

definition loaded :: "gcr_image \<Rightarrow> nat \<Rightarrow> gcr_image \<Rightarrow> gcr_image" where
  "loaded img i img0 =
     (let t = saved_tracks img ! i
      in if in_g64 t then img0\<lparr>gi_tracks := (gi_tracks img0)[i := (gi_tracks img0 ! i)
           \<lparr>gt_address := Some (g64_pos img i + 2), gt_length := gt_length t, gt_used := True,
             gt_in_file := True, gt_mfm := gt_mfm t\<rparr>],
           gi_double_sided := gi_double_sided img0 \<or> i \<ge> side_tracks\<rparr>
         else img0)"

lemma load_track_saved:
  assumes "savable img" "i < length (saved_tracks img)" "gi_data img0 = g64_file img @ post"
  shows "load_track (of_nat (length (g64_file img))) i img0 = Some (loaded img i img0)"
proof -
  let ?t = "saved_tracks img ! i" and ?f = "g64_file img"
  have size: "length ?f < 2 ^ 32"
    using assms(1) by (simp add: savable_def GCRIMAGE_MAXSIZE_def GCRIMAGE_MAXTRACKLEN_def
        GCRIMAGE_MAXUSEDTRACKS_def GCRIMAGE_MAXMETADATA_def)
  then have flen: "unat (of_nat (length ?f) :: u32) = length ?f" by (simp add: unat_of_nat)
  have entry: "read32 (gi_data img0) (i + 3) = (if in_g64 ?t then of_nat (g64_pos img i) else 0)"
    unfolding assms(3) using g64_offset [OF assms(2)] track_table_nth [OF assms(2) savable_stored [OF assms(1)]]
    by (simp add: g64_pos_def)
  show ?thesis
  proof (cases "in_g64 ?t")
    case False
    then show ?thesis
      using entry by (simp add: load_track_def loaded_def Let_def gcr_track_header_is_readable_def
          GCRIMAGE_MAXSIZE_def GCRIMAGE_MAXTRACKLEN_def GCRIMAGE_MAXUSEDTRACKS_def GCRIMAGE_MAXMETADATA_def)
  next
    case True
    have len: "length (track_bytes img ?t) = gt_length ?t" "0 < gt_length ?t" "gt_length ?t \<le> GCRIMAGE_MAXTRACKLEN"
      using savable_track(3,4) [OF assms(1,2)] True by (simp_all add: stored_def)
    obtain rest where rest: "drop (g64_pos img i) (?f @ []) = size_bytes ?t @ track_bytes img ?t @ rest"
      using g64_track [OF assms(2) _ True, of "[]"] assms(1) by (auto simp: savable_def image_ok_def)
    then have "length ?f - g64_pos img i = 2 + gt_length ?t + length rest"
      using len(1) by (metis append_Nil2 length_append length_drop length_size add.assoc)
    then have pos: "g64_pos img i + 2 + gt_length ?t \<le> length ?f" by arith
    have off: "unat (of_nat (g64_pos img i) :: u32) = g64_pos img i" using pos size by (simp add: unat_of_nat)
    have small: "gt_length ?t < 0x8000" using len(3) by (simp add: GCRIMAGE_MAXTRACKLEN_def)
    have nth: "(?f @ post) ! (g64_pos img i) = size_bytes ?t ! 0" "(?f @ post) ! (g64_pos img i + 1) = size_bytes ?t ! 1"
      using rest pos nth_drop [of "g64_pos img i" ?f 0] nth_drop [of "g64_pos img i" ?f 1]
      by (simp_all add: nth_append)
    let ?w = "size_word (of_nat (gt_length ?t)) (gt_mfm ?t)"
    have w: "ucast (gi_data img0 ! g64_pos img i) OR push_bit 8 (ucast (gi_data img0 ! (g64_pos img i + 1))) = ?w"
      unfolding assms(3) nth size_word_def size_bytes_def
      using size_nat(1,2) [OF small] by simp
    note bits = size_word [OF size_nat(3) [OF small], of "gt_mfm ?t"]
    have valid: "gcr_validated_track_length ?w (of_nat (g64_pos img i)) (of_nat (length ?f)) (int GCRIMAGE_MAXTRACKLEN) =
        int (gt_length ?t)"
      using validated_length [of ?w "of_nat (g64_pos img i)" "of_nat (length ?f)" "int GCRIMAGE_MAXTRACKLEN" "int (gt_length ?t)"]
        pos len(2,3) by (simp add: bits(1) uint_nat size_nat(4) [OF small] off flen)
    have read: "gcr_track_header_is_readable (of_nat (g64_pos img i)) (of_nat (length ?f))"
    proof -
      have "0 < g64_pos img i" by (simp add: g64_pos_def g64_start_def)
      then have "of_nat (g64_pos img i) \<noteq> (0 :: u32)" using off by (metis unsigned_0 less_numeral_extra(3))
      moreover have le: "(of_nat (g64_pos img i) :: u32) \<le> of_nat (length ?f)"
        using pos by (simp add: word_le_nat_alt off flen)
      moreover have "unat (of_nat (length ?f) - of_nat (g64_pos img i) :: u32) = length ?f - g64_pos img i"
        using unat_sub [OF le] off flen by simp
      ultimately show ?thesis using pos by (simp add: gcr_track_header_is_readable_def word_le_nat_alt not_less)
    qed
    have bound: "\<not> g64_pos img i \<ge> GCRIMAGE_MAXSIZE" using pos assms(1) by (simp add: savable_def)
    show ?thesis
      unfolding load_track_def entry Let_def if_P [OF True] off w valid
      using read bound True len(2) bits(2) by (simp add: loaded_def Let_def)
  qed
qed

lemma loaded_data [simp]: "gi_data (loaded img i img0) = gi_data img0"
  by (simp add: loaded_def Let_def)

lemma load_tracks_saved:
  assumes "savable img" "gi_data img0 = g64_file img @ post" "\<forall>i \<in> set is. i < length (saved_tracks img)"
  shows "load_tracks (of_nat (length (g64_file img))) is img0 = (True, fold (loaded img) is img0)"
  using assms(2,3)
proof (induction "is" arbitrary: img0)
  case (Cons i "is")
  then show ?case using load_track_saved [OF assms(1), of i img0 post] by simp
qed simp

lemma fold_loaded_data [simp]: "gi_data (fold (loaded img) is img0) = gi_data img0"
  by (induction "is" arbitrary: img0) simp_all

lemma loaded_tracks:
  "length (gi_tracks (loaded img i img0)) = length (gi_tracks img0)"
  "j < length (gi_tracks img0) \<Longrightarrow> gi_tracks (loaded img i img0) ! j =
    (let t = saved_tracks img ! j
     in if j = i \<and> in_g64 t
        then (gi_tracks img0 ! j)\<lparr>gt_address := Some (g64_pos img j + 2), gt_length := gt_length t,
          gt_used := True, gt_in_file := True, gt_mfm := gt_mfm t\<rparr>
        else gi_tracks img0 ! j)"
  by (cases "j = i"; simp add: loaded_def Let_def)+

lemma fold_loaded_length: "length (gi_tracks (fold (loaded img) is img0)) = length (gi_tracks img0)"
  by (induction "is" arbitrary: img0) (simp_all add: loaded_tracks(1))

lemma fold_loaded_tracks:
  "j < length (gi_tracks img0) \<Longrightarrow> gi_tracks (fold (loaded img) is img0) ! j =
    (let t = saved_tracks img ! j
     in if j \<in> set is \<and> in_g64 t
        then (gi_tracks img0 ! j)\<lparr>gt_address := Some (g64_pos img j + 2), gt_length := gt_length t,
          gt_used := True, gt_in_file := True, gt_mfm := gt_mfm t\<rparr>
        else gi_tracks img0 ! j)"
  by (induction "is" arbitrary: img0) (auto simp: loaded_tracks Let_def)

lemma load_saved:
  assumes "savable img" "length (gi_data img0) = GCRIMAGE_MAXSIZE"
  shows "\<exists>img'. load FR_OK (g64_file img) img0 = (True, img') \<and>
    (\<forall>i < length (saved_tracks img). let t = saved_tracks img ! i; t' = gi_tracks img' ! i
      in in_g64 t' = in_g64 t \<and> (in_g64 t \<longrightarrow> track_bytes img' t' = track_bytes img t \<and>
        gt_length t' = gt_length t \<and> gt_mfm t' = gt_mfm t \<and> gt_speed t' = gt_speed t))"
proof -
  let ?f = "g64_file img" and ?n = "length (saved_tracks img)"
  define post where "post = drop (length ?f) (gi_data img0)"
  have fits: "length ?f \<le> GCRIMAGE_MAXSIZE" using assms(1) by (simp add: savable_def)
  have n: "?n = (if gi_double_sided img then max_tracks else side_tracks)"
    using assms(1) by (intro length_saved_tracks) (simp add: savable_def image_ok_def)
  define start where "start = (invalidate img0)\<lparr>gi_data := ?f @ post, gi_double_sided := False\<rparr>"
  define mid where "mid = fold (loaded img) [0..<?n] start"
  define img1 where "img1 = load_speeds ?n mid"
  have mid: "load_tracks (of_nat (length ?f)) [0..<?n] start = (True, mid)"
    unfolding mid_def by (rule load_tracks_saved [OF assms(1), of _ post]) (simp_all add: start_def)
  have data: "gi_data img1 = ?f @ post"
    by (simp add: img1_def mid_def start_def load_speeds_def Let_def)
  have count: "unat ((?f @ post) ! 9) = ?n" unfolding g64_count n by simp
  have entry: "gi_tracks img1 ! j = (if in_g64 (saved_tracks img ! j)
      then \<lparr>gt_address = Some (g64_pos img j + 2), gt_length = gt_length (saved_tracks img ! j),
        gt_speed = gt_speed (saved_tracks img ! j), gt_used = True, gt_in_file = True, gt_mfm = gt_mfm (saved_tracks img ! j)\<rparr>
      else no_track)" if j: "j < ?n" for j
  proof -
    have jm: "j < max_tracks" using j n by (simp split: if_splits)
    have "read32 (?f @ post) (3 + ?n + j) = speed_table (saved_tracks img) ! j" by (rule g64_speed [OF j refl])
    then show ?thesis
      using j jm fold_loaded_tracks [of j start img "[0..<?n]"]
      by (simp add: img1_def load_speeds_def Let_def count mid_def fold_loaded_length start_def
          invalidate_def speed_table_def no_track_def)
  qed
  obtain ts' gcr where blank: "add_blank_tracks (length ?f) img1 = img1\<lparr>gi_tracks := ts',
      gi_data := blit (length ?f) (replicate (gcr - length ?f) 0) (gi_data img1)\<rparr>"
    "blank_inv (length ?f) (gi_tracks img1) (ts', gcr)"
    by (rule add_blank [OF fits])
  define img' where "img' = add_blank_tracks (length ?f) img1"
  have load: "load FR_OK ?f img0 = (True, img')"
  proof -
    have "(invalidate img0)\<lparr>gi_data := blit 0 ?f (gi_data img0)\<rparr> = start"
      by (simp add: start_def blit_def post_def invalidate_def)
    moreover have "take 8 (gi_data start) = gcr_magic (gi_double_sided img)"
      using g64_magic [of img post] by (simp add: start_def)
    moreover have "start\<lparr>gi_double_sided := False\<rparr> = start" by (simp add: start_def)
    moreover have "gcr_magic False \<noteq> gcr_magic True" by (simp add: gcr_magic_def)
    ultimately show ?thesis
      using mid n by (cases "gi_double_sided img") (simp_all add: load_def Let_def img'_def img1_def)
  qed
  have lens: "length (gi_tracks img1) = max_tracks"
    by (simp add: img1_def load_speeds_def Let_def mid_def fold_loaded_length start_def invalidate_def)
  have data': "take (length ?f) (gi_data img') = ?f"
    by (simp add: img'_def blank(1) blit_def data)
  have result: "\<forall>i < ?n. let t = saved_tracks img ! i; t' = gi_tracks img' ! i
      in in_g64 t' = in_g64 t \<and> (in_g64 t \<longrightarrow> track_bytes img' t' = track_bytes img t \<and>
        gt_length t' = gt_length t \<and> gt_mfm t' = gt_mfm t \<and> gt_speed t' = gt_speed t)"
  proof (intro allI impI)
    fix i assume i: "i < ?n"
    let ?t = "saved_tracks img ! i"
    have im: "i < length (gi_tracks img1)" using savable_track(2) [OF assms(1) i] lens by simp
    show "let t = ?t; t' = gi_tracks img' ! i
      in in_g64 t' = in_g64 t \<and> (in_g64 t \<longrightarrow> track_bytes img' t' = track_bytes img t \<and>
        gt_length t' = gt_length t \<and> gt_mfm t' = gt_mfm t \<and> gt_speed t' = gt_speed t)"
    proof (cases "in_g64 ?t")
      case False
      then have "gt_used (gi_tracks img' ! i) = False"
        using blank(2) im entry [OF i] by (simp add: blank_inv_def img'_def blank(1) no_track_def)
      then show ?thesis using False by (auto simp: in_g64_def Let_def)
    next
      case True
      have t': "gi_tracks img' ! i = \<lparr>gt_address = Some (g64_pos img i + 2), gt_length = gt_length ?t,
        gt_speed = gt_speed ?t, gt_used = True, gt_in_file = True, gt_mfm = gt_mfm ?t\<rparr>"
        using blank(2) im entry [OF i] True by (simp add: blank_inv_def img'_def blank(1))
      obtain rest where "drop (g64_pos img i) (?f @ []) = size_bytes ?t @ track_bytes img ?t @ rest"
        using g64_track [OF i _ True, of "[]"] assms(1) by (auto simp: savable_def image_ok_def)
      then have d: "drop (g64_pos img i + 2) ?f = track_bytes img ?t @ rest"
        by (metis append_Nil2 append_eq_conv_conj drop_drop length_size add.commute)
      have l: "length (track_bytes img ?t) = gt_length ?t"
        using savable_track(3) [OF assms(1) i] True by (simp add: stored_def)
      have inside: "g64_pos img i + 2 + gt_length ?t \<le> length ?f \<or> gt_length ?t = 0"
        using arg_cong [OF d, of length] l by auto
      have "take (gt_length ?t) (drop (g64_pos img i + 2) (gi_data img')) = track_bytes img ?t"
      proof -
        have "gi_data img' = ?f @ drop (length ?f) (gi_data img')"
          using data' by (metis append_take_drop_id)
        then have "drop (g64_pos img i + 2) (gi_data img') =
            track_bytes img ?t @ rest @ drop (g64_pos img i + 2 - length ?f) (drop (length ?f) (gi_data img'))"
          by (metis append_assoc d drop_append)
        then show ?thesis using l by simp
      qed
      then show ?thesis using True by (simp add: t' in_g64_def Let_def track_bytes_def [of img'])
    qed
  qed
  show ?thesis using load result by blast
qed

text \<open>C8: A G64 file that was saved is read back: the same tracks are in use, each with its bytes, its length,
  its speed zone and its MFM flag.\<close>

theorem g64_roundtrip:
  assumes "savable img" "length (gi_data img0) = GCRIMAGE_MAXSIZE"
  shows "\<exists>img'. load FR_OK (snd (save append_ops dec False img [])) img0 = (True, img') \<and>
    (\<forall>i < length (saved_tracks img). let t = saved_tracks img ! i; t' = gi_tracks img' ! i
      in in_g64 t' = in_g64 t \<and> (in_g64 t \<longrightarrow> track_bytes img' t' = track_bytes img t \<and>
        gt_length t' = gt_length t \<and> gt_mfm t' = gt_mfm t \<and> gt_speed t' = gt_speed t))"
  unfolding save_append snd_conv append_Nil by (rule load_saved [OF assms])

definition one_track_image :: gcr_image where
  "one_track_image = \<lparr>gi_data = replicate GCRIMAGE_MAXSIZE 0x55,
     gi_tracks = no_track\<lparr>gt_address := Some 2, gt_length := 7692, gt_used := True\<rparr> # replicate 167 no_track,
     gi_double_sided = False\<rparr>"

lemma one_track_savable: "savable one_track_image"
proof -
  have size: "GCRIMAGE_MAXSIZE = 635932" "GCRIMAGE_MAXTRACKLEN = 7928"
    by (simp_all add: GCRIMAGE_MAXSIZE_def GCRIMAGE_MAXTRACKLEN_def GCRIMAGE_MAXUSEDTRACKS_def GCRIMAGE_MAXMETADATA_def)
  have no: "saved_track img no_track = []" "\<not> in_g64 no_track" for img
    by (simp_all add: saved_track_def in_g64_def no_track_def)
  have tracks: "saved_tracks one_track_image =
      no_track\<lparr>gt_address := Some 2, gt_length := 7692, gt_used := True\<rparr> # replicate 83 no_track"
    by (simp add: saved_tracks_def one_track_image_def)
  have "track_ok GCRIMAGE_MAXSIZE (no_track\<lparr>gt_address := Some 2, gt_length := 7692, gt_used := True\<rparr>)"
    by (simp add: track_ok_def size)
  then have ok: "image_ok one_track_image"
    by (simp add: image_ok_def one_track_image_def list_all_iff)
  have "length (g64_file one_track_image) \<le> GCRIMAGE_MAXSIZE"
    unfolding g64_file_def tracks
    by (simp add: no save_header_def Let_def saved_track_def track_bytes_def one_track_image_def size)
  then show ?thesis
    using ok no(2) by (auto simp: savable_def one_track_image_def list_all_iff size)
qed

lemma g64_roundtrip_witness:
  "\<exists>img'. load FR_OK (snd (save append_ops table_decode False one_track_image [])) one_track_image = (True, img') \<and>
    in_g64 (gi_tracks img' ! 0) \<and> track_bytes img' (gi_tracks img' ! 0) = replicate 7692 0x55"
proof -
  have size: "GCRIMAGE_MAXSIZE = 635932"
    by (simp add: GCRIMAGE_MAXSIZE_def GCRIMAGE_MAXTRACKLEN_def GCRIMAGE_MAXUSEDTRACKS_def GCRIMAGE_MAXMETADATA_def)
  have first: "saved_tracks one_track_image ! 0 = no_track\<lparr>gt_address := Some 2, gt_length := 7692, gt_used := True\<rparr>"
    "0 < length (saved_tracks one_track_image)"
    by (simp_all add: saved_tracks_def one_track_image_def)
  have bytes: "track_bytes one_track_image (saved_tracks one_track_image ! 0) = replicate 7692 0x55"
    unfolding first(1) by (simp add: track_bytes_def one_track_image_def size)
  obtain img' where img': "load FR_OK (snd (save append_ops table_decode False one_track_image [])) one_track_image = (True, img')"
    "\<forall>i < length (saved_tracks one_track_image). let t = saved_tracks one_track_image ! i; t' = gi_tracks img' ! i
      in in_g64 t' = in_g64 t \<and> (in_g64 t \<longrightarrow> track_bytes img' t' = track_bytes one_track_image t \<and>
        gt_length t' = gt_length t \<and> gt_mfm t' = gt_mfm t \<and> gt_speed t' = gt_speed t)"
    using g64_roundtrip [OF one_track_savable, of one_track_image table_decode] by (auto simp: one_track_image_def)
  have "in_g64 (saved_tracks one_track_image ! 0)" unfolding first(1) by (simp add: in_g64_def)
  then show ?thesis using img' first(2) bytes by (auto simp: Let_def)
qed

text \<open>Saving an image none of whose tracks is in use, such as a blank one, writes its header and then
  answers what \<open>res\<close> happens to hold: no track has assigned it.\<close>

lemma save_blank_undetermined:
  assumes "\<not> list_ex in_g64 (saved_tracks img)"
    "fo_write ops f (save_header img) = (res, length (save_header img), f1)"
  shows "save ops dec align img f = (Undetermined, f1)"
proof -
  have "save_tracks ops dec align img ts r f1 = (r, f1)" if "\<not> list_ex in_g64 ts" for ts r
    using that by (induction ts) simp_all
  then show ?thesis using assms by (simp add: save_def saved_tracks_def Let_def)
qed

lemma blank_unused: "\<not> list_ex in_g64 (gi_tracks (blank img))"
proof -
  have start: "(0 :: nat) \<le> GCRIMAGE_MAXSIZE" by simp
  obtain ts' gcr where "add_blank_tracks 0 (invalidate img) = (invalidate img)\<lparr>gi_tracks := ts',
      gi_data := blit 0 (replicate (gcr - 0) 0) (gi_data (invalidate img))\<rparr>"
    "blank_inv 0 (gi_tracks (invalidate img)) (ts', gcr)"
    by (rule add_blank [OF start])
  then show ?thesis
    by (auto simp: blank_def blank_inv_def invalidate_def list_ex_length in_g64_def no_track_def)
qed

lemma save_blank_undetermined_witness:
  "save append_ops table_decode False (blank new_gcr_image) [] = (Undetermined, save_header (blank new_gcr_image))"
  using save_blank_undetermined [of "blank new_gcr_image" append_ops "[]"] blank_unused [of new_gcr_image]
  by (auto simp: saved_tracks_def list_ex_iff dest!: in_set_takeD)

end
