(* ===== verification/Bin_Correct.thy ===== *)
theory Bin_Correct
  imports Bin_Image Gcr_Saved
begin

text \<open>
  The tracks of a binary image lie one behind the other in its data, with the error bytes behind
  them, for every file size that \<open>init\<close> accepts; and error bytes never reach a group code track.
\<close>

section \<open>Positions of tracks\<close>

lemma total_sum: "total_sectors_before_track n ds = sum_list (map (sectors_of ds) [0..<n])"
proof -
  have "fold (\<lambda>i t. t + f i) xs (t :: nat) = t + sum_list (map f xs)" 
    for f :: "nat \<Rightarrow> nat" and xs t
    by (induction xs arbitrary: t) simp_all
  from this [of "sectors_of ds" "[0..<n]" 0] show ?thesis by (simp add: total_sectors_before_track_def)
qed

lemma total_Suc: "total_sectors_before_track (Suc n) ds = total_sectors_before_track n ds + sectors_of ds n"
  by (simp add: total_sum)

lemma total_0 [simp]: "total_sectors_before_track 0 ds = 0"
  by (simp add: total_sum)

lemma total_mono: "i \<le> j \<Longrightarrow> total_sectors_before_track i ds \<le> total_sectors_before_track j ds"
  by (induction j rule: dec_induct) (simp_all add: total_Suc)

lemma total_next: "i < j \<Longrightarrow> total_sectors_before_track i ds + sectors_of ds i \<le> total_sectors_before_track j ds"
  using total_mono [of "Suc i" j ds] by (simp add: total_Suc)

lemma region_beyond: "35 \<le> i \<Longrightarrow> track_to_region (int i) False = 3"
proof -
  assume i: "35 \<le> i"
  have "\<not> int i < region_end ! k" if "k < 4" for k
    using that i by (auto simp: region_end_def numeral_eq_Suc less_Suc_eq)
  then have "find (\<lambda>k. int i < region_end ! k) [0..<4] = None" by (simp add: find_None_iff)
  then show ?thesis by (simp add: track_to_region_def)
qed

lemma total_35: "total_sectors_before_track 35 False = 683"
  by code_simp

lemma total_70: "total_sectors_before_track 70 True = 1366"
  by code_simp

lemma total_beyond: "total_sectors_before_track (35 + k) False = 683 + 17 * k"
proof (induction k)
  case (Suc k)
  then show ?case
    using total_Suc [of "35 + k" False] region_beyond [of "35 + k"] by (simp add: sectors_per_track_def)
qed (simp add: total_35)

definition tables_ok :: "bin_image \<Rightarrow> bool" where
  "tables_ok img \<longleftrightarrow> length (bi_track_start img) = BINIMAGE_MAXTRACKS \<and>
     length (bi_track_sectors img) = BINIMAGE_MAXTRACKS"

lemma lay_tracks_append:
  "lay_tracks ds (xs @ ys) pos img =
    lay_tracks ds ys (pos + 256 * sum_list (map (sectors_of ds) xs)) (lay_tracks ds xs pos img)"
  by (induction xs arbitrary: pos img) (simp_all add: Let_def algebra_simps)

lemma lay_tracks_fields [simp]:
  "length (bi_track_start (lay_tracks ds xs pos img)) = length (bi_track_start img)"
  "length (bi_track_sectors (lay_tracks ds xs pos img)) = length (bi_track_sectors img)"
  "bi_errors (lay_tracks ds xs pos img) = bi_errors img"
  "bi_error_size (lay_tracks ds xs pos img) = bi_error_size img"
  "bi_data_size (lay_tracks ds xs pos img) = bi_data_size img"
  "bi_double_sided (lay_tracks ds xs pos img) = bi_double_sided img"
  "bi_num_tracks (lay_tracks ds xs pos img) = bi_num_tracks img"
  "bi_data (lay_tracks ds xs pos img) = bi_data img"
  by (induction xs arbitrary: pos img) (simp_all add: Let_def)

lemma lay_tracks_nth:
  assumes "tables_ok img" "n \<le> BINIMAGE_MAXTRACKS" "i < n"
  shows "bi_track_start (lay_tracks ds [0..<n] 0 img) ! i = Some (256 * total_sectors_before_track i ds) \<and>
    bi_track_sectors (lay_tracks ds [0..<n] 0 img) ! i = sectors_of ds i"
  using assms(2,3)
proof (induction n)
  case (Suc n)
  have "lay_tracks ds [0..<Suc n] 0 img = lay_tracks ds [n] (256 * total_sectors_before_track n ds)
      (lay_tracks ds [0..<n] 0 img)"
    using lay_tracks_append [of ds "[0..<n]" "[n]" 0 img] by (simp add: total_sum)
  then show ?case
    using Suc assms(1) by (cases "i = n") (simp_all add: Let_def tables_ok_def)
qed simp

section \<open>A well formed image\<close>

definition bin_ok :: "bin_image \<Rightarrow> bool" where
  "bin_ok img \<longleftrightarrow> tables_ok img \<and> bi_num_tracks img \<le> BINIMAGE_MAXTRACKS \<and>
     (\<forall>i < bi_num_tracks img.
        bi_track_start img ! i = Some (256 * total_sectors_before_track i (bi_double_sided img)) \<and>
        bi_track_sectors img ! i = sectors_of (bi_double_sided img) i) \<and>
     bi_data_size img = 256 * total_sectors_before_track (bi_num_tracks img) (bi_double_sided img) \<and>
     bi_data_size img \<le> length (bi_data img) \<and>
     (\<forall>e. bi_errors img = Some e \<longrightarrow> bi_data_size img \<le> e \<and> e + bi_error_size img \<le> length (bi_data img))"

lemma more_tracks:
  "35 \<le> n \<Longrightarrow> more_tracks sz n = (rest, m) \<Longrightarrow>
    n \<le> m \<and> rest + (m - n) * (17 * 256) = sz \<and> (n \<le> BINIMAGE_MAXTRACKS \<longrightarrow> m \<le> BINIMAGE_MAXTRACKS)"
proof (induction sz n rule: more_tracks.induct)
  case (1 sz n)
  show ?case
  proof (cases "sz \<ge> 17 * 256 \<and> n < BINIMAGE_MAXTRACKS")
    case True
    then have "more_tracks (sz - 17 * 256) (n + 1) = (rest, m)" using 1(3) by (subst (asm) more_tracks.simps) simp
    with 1(1) [OF True] 1(2) have "n + 1 \<le> m" "rest + (m - (n + 1)) * (17 * 256) = sz - 17 * 256"
      "m \<le> BINIMAGE_MAXTRACKS" using True by auto
    moreover from this(1) have "(m - n) * (17 * 256) = (m - (n + 1)) * (17 * 256) + 17 * 256"
      by (simp add: diff_mult_distrib)
    ultimately show ?thesis using True by simp
  next
    case False
    then show ?thesis using 1(3) by (subst (asm) more_tracks.simps) auto
  qed
qed

lemma bin_init_ok:
  assumes "tables_ok img" "sz \<le> length (bi_data img)" "init sz img = (0, img')"
  shows "bin_ok img'" "bi_data_size img' + bi_error_size img' = sz" "35 \<le> bi_num_tracks img'"
    "bi_num_tracks img' \<le> 75" "bi_double_sided img' \<longleftrightarrow> sz \<ge> C1541_MIN_D71_SIZE" "bi_data img' = bi_data img"
proof -
  define ds where "ds = (sz \<ge> C1541_MIN_D71_SIZE)"
  obtain rest n where rn: "(if ds then (sz - C1541_MIN_D71_SIZE, 70)
      else more_tracks (sz - C1541_MAX_D64_35_NO_ERRORS) 35) = (rest, n)" by force
  define data where "data = (if ds then C1541_MIN_D71_SIZE else C1541_MAX_D64_35_NO_ERRORS + (n - 35) * (17 * 256))"
  have sz: "C1541_MAX_D64_35_NO_ERRORS \<le> sz" using assms(3) by (simp add: init_def split: if_splits)
  have img': "img' = lay_tracks ds [0..<n] 0
      (img\<lparr>bi_double_sided := ds, bi_num_tracks := n, bi_data_size := data, bi_error_size := rest,
           bi_errors := (if rest \<le> 0 then None else Some data)\<rparr>)"
    using assms(3) sz rn unfolding init_def Let_def ds_def [symmetric] data_def by (cases ds) auto
  have n: "35 \<le> n \<and> n \<le> 75 \<and> data = 256 * total_sectors_before_track n ds \<and> data + rest = sz"
  proof (cases ds)
    case True
    then have "n = 70" "rest = sz - C1541_MIN_D71_SIZE" using rn by simp_all
    then show ?thesis using True total_70 by (simp add: data_def ds_def C1541_MIN_D71_SIZE_def C1541_MAX_D64_35_NO_ERRORS_def)
  next
    case False
    then have m: "35 \<le> n \<and> rest + (n - 35) * (17 * 256) = sz - C1541_MAX_D64_35_NO_ERRORS"
      using more_tracks [of 35 _ rest n] rn by simp
    then obtain k where k: "n = 35 + k" using le_Suc_ex by blast
    have "sz < 349696" "174848 \<le> sz" using False sz
      by (simp_all add: ds_def C1541_MIN_D71_SIZE_def C1541_MAX_D64_35_NO_ERRORS_def)
    moreover have r: "rest + k * 4352 = sz - 174848" using m by (simp add: k C1541_MAX_D64_35_NO_ERRORS_def)
    ultimately have "k * 4352 < 41 * 4352" "174848 + k * 4352 + rest = sz" by linarith+
    then show ?thesis
      using False total_beyond [of k] by (simp add: data_def k C1541_MAX_D64_35_NO_ERRORS_def)
  qed
  have tables: "tables_ok (img\<lparr>bi_double_sided := ds, bi_num_tracks := n, bi_data_size := data, bi_error_size := rest,
           bi_errors := (if rest \<le> 0 then None else Some data)\<rparr>)"
    using assms(1) by (simp add: tables_ok_def)
  have "n \<le> BINIMAGE_MAXTRACKS" using n by (simp add: BINIMAGE_MAXTRACKS_def)
  note nth = lay_tracks_nth [OF tables this, of _ ds]
  show "bin_ok img'"
    unfolding bin_ok_def img' using n nth assms(1,2)
    by (auto simp: tables_ok_def BINIMAGE_MAXTRACKS_def split: if_splits)
  show "bi_data_size img' + bi_error_size img' = sz" "35 \<le> bi_num_tracks img'" "bi_num_tracks img' \<le> 75"
    "bi_double_sided img' \<longleftrightarrow> sz \<ge> C1541_MIN_D71_SIZE" "bi_data img' = bi_data img"
    using n by (simp_all add: img' ds_def)
qed

lemma init_accepts: "C1541_MAX_D64_35_NO_ERRORS \<le> sz \<Longrightarrow> \<exists>img'. init sz img = (0, img')"
proof -
  assume "C1541_MAX_D64_35_NO_ERRORS \<le> sz"
  then have "fst (init sz img) = 0" by (simp add: init_def Let_def split: prod.split)
  then show ?thesis by (metis prod.collapse)
qed

text \<open>A formatted-size single sided image of 35 tracks.\<close>

definition sample_disk :: bin_image where
  "sample_disk = snd (init C1541_MAX_D64_35_NO_ERRORS (new_bin_image (\<lambda>n. replicate n 0x11) 40))"

lemma new_image: "tables_ok (new_bin_image mem 40)" "length (mem 197376) = 197376 \<Longrightarrow> length (bi_data (new_bin_image mem 40)) = 197376"
proof -
  have t: "total_sectors_before_track 40 False = 768" using total_beyond [of 5] by simp
  show "tables_ok (new_bin_image mem 40)"
    by (simp add: tables_ok_def new_bin_image_def Let_def)
  have "sectors_of False 39 = 17" using region_beyond [of 39] by (simp add: sectors_per_track_def)
  then show "length (bi_data (new_bin_image mem 40)) = 197376" if "length (mem 197376) = 197376"
    using that by (simp add: new_bin_image_def Let_def t)
qed

text \<open>C23: For every file size that \<open>init\<close> accepts, the sectors of all tracks lie one behind the other in the
  data, which the image's memory holds; the pointer to a sector is its place there, and the rest of
  the file is the error bytes.\<close>

theorem image_layout:
  assumes "tables_ok img" "sz \<le> length (bi_data img)" "init sz img = (0, img')"
  shows "(\<forall>t < bi_num_tracks img'. \<forall>s < sectors_of (bi_double_sided img') t.
      let p = 256 * (total_sectors_before_track t (bi_double_sided img') + s)
      in get_sector_pointer img' (int t + 1) (int s) = Some p \<and> p + 256 \<le> bi_data_size img') \<and>
    bi_data_size img' + bi_error_size img' = sz \<and> (\<forall>e. bi_errors img' = Some e \<longrightarrow> e = bi_data_size img')"
proof (intro conjI allI impI)
  note ok = bin_init_ok [OF assms]
  fix t s assume t: "t < bi_num_tracks img'" and s: "s < sectors_of (bi_double_sided img') t"
  have "256 * (total_sectors_before_track t (bi_double_sided img') + s) + 256 \<le> bi_data_size img'"
    using total_next [OF t, of "bi_double_sided img'"] s ok(1) by (simp add: bin_ok_def)
  moreover have "get_sector_pointer img' (int t + 1) (int s) =
      Some (256 * (total_sectors_before_track t (bi_double_sided img') + s))"
    using ok(1,4) t s by (simp add: get_sector_pointer_def bin_ok_def BINIMAGE_MAXTRACKS_def)
  ultimately show "let p = 256 * (total_sectors_before_track t (bi_double_sided img') + s)
      in get_sector_pointer img' (int t + 1) (int s) = Some p \<and> p + 256 \<le> bi_data_size img'"
    by (simp add: Let_def)
next
  show "bi_data_size img' + bi_error_size img' = sz" by (rule bin_init_ok [OF assms])
next
  fix e assume "bi_errors img' = Some e"
  then show "e = bi_data_size img'"
    using assms(3) by (auto simp: init_def Let_def split: if_splits prod.splits)
qed

lemma image_layout_witness:
  "\<exists>img'. init 175531 (new_bin_image (\<lambda>n. replicate n 0) 40) = (0, img') \<and>
    get_sector_pointer img' 18 0 = Some 91392 \<and> bi_data_size img' = 174848"
proof -
  have len: "length (bi_data (new_bin_image (\<lambda>n. replicate n 0) 40)) = 197376" by (rule new_image(2)) simp
  obtain img' where img': "init 175531 (new_bin_image (\<lambda>n. replicate n 0) 40) = (0, img')"
    using init_accepts [of 175531] by (auto simp: C1541_MAX_D64_35_NO_ERRORS_def)
  have size: "(175531 :: nat) \<le> length (bi_data (new_bin_image (\<lambda>n. replicate n 0) 40))" unfolding len by simp
  note ok = bin_init_ok [OF new_image(1) size img']
  have single: "\<not> bi_double_sided img'" "bi_num_tracks img' = 35"
    using ok(5) img' by (auto simp: C1541_MIN_D71_SIZE_def C1541_MAX_D64_35_NO_ERRORS_def init_def Let_def more_tracks.simps)
  have "total_sectors_before_track 17 False = 357" "sectors_of False 17 = 19" by code_simp+
  then have "get_sector_pointer img' 18 0 = Some 91392"
    using image_layout [OF new_image(1) size img', THEN conjunct1, rule_format, of 17 0] single by (simp add: Let_def)
  moreover have "bi_data_size img' = 174848" using ok(1) single total_35 by (simp add: bin_ok_def)
  ultimately show ?thesis using img' by blast
qed

section \<open>Error bytes\<close>

text \<open>C40: The error bytes of an image are cleared before its tracks are made, so they never show in a track:
  two images that differ in their error bytes only give the same tracks.\<close>

theorem error_bytes_lost:
  assumes "bi_errors img = Some e" "e + bi_error_size img \<le> length (bi_data img)" "91555 < e"
    "length d = length (bi_data img)" "take e d = take e (bi_data img)"
    "drop (e + bi_error_size img) d = drop (e + bi_error_size img) (bi_data img)"
  shows "convert_disk_bin2gcr enc (img\<lparr>bi_data := d\<rparr>) geos geos_track36 twist g =
    convert_disk_bin2gcr enc img geos geos_track36 twist g"
proof -
  have "blit e (replicate (bi_error_size img) 0) d = blit e (replicate (bi_error_size img) 0) (bi_data img)"
    using assms by (simp add: blit_def)
  moreover have "d ! 91554 = bi_data img ! 91554" "d ! 91555 = bi_data img ! 91555"
    using assms(3) nth_take [of _ e d] nth_take [of _ e "bi_data img"] assms(5) by (metis less_trans zero_less_one
        numeral_less_iff less_Suc_eq eval_nat_numeral(3) Suc_lessD)+
  ultimately show ?thesis
    using assms(1) by (simp add: convert_disk_bin2gcr_def Let_def)
qed

definition error_disk :: "byte \<Rightarrow> bin_image" where
  "error_disk x = \<lparr>bi_track_start = [Some 0], bi_track_sectors = [21], bi_errors = Some 174848, bi_error_size = 683,
     bi_data_size = 174848, bi_double_sided = False, bi_num_tracks = 1,
     bi_data = replicate 174848 0 @ replicate 683 x\<rparr>"

lemma error_bytes_lost_witness:
  "convert_disk_bin2gcr table_encode (error_disk 5) False False 0 new_gcr_image =
    convert_disk_bin2gcr table_encode (error_disk 0) False False 0 new_gcr_image"
  using error_bytes_lost [of "error_disk 0" 174848 "replicate 174848 0 @ replicate 683 5" table_encode False False 0 new_gcr_image]
  by (simp add: error_disk_def)

end
