(* ===== verification/Gcr_Correct.thy ===== *)
theory Gcr_Correct
  imports Gcr_Track
begin

text \<open>
  The group code tracks of \<open>Gcr_Track\<close> are correct: a track built from sectors has the length of its
  region, and reading it finds every sector again; and where the reader is not: a track with a
  single sync can keep it busy for ever, and without room for status bytes it writes the data of a
  sector it should refuse.
\<close>

section \<open>Syncs\<close>

text \<open>No two \<open>0xFF\<close> in a row and none at the end; \<open>q\<close> says whether one came just before.\<close>

fun calm :: "bool \<Rightarrow> byte list \<Rightarrow> bool" where
  "calm q [] \<longleftrightarrow> \<not> q"
| "calm q (x # xs) \<longleftrightarrow> (if x = 0xFF then \<not> q \<and> calm True xs else calm False xs)"

lemma calm_append: "calm q xs \<Longrightarrow> calm False ys \<Longrightarrow> calm q (xs @ ys)"
  by (induction xs arbitrary: q) (auto split: if_splits)

lemma calm_no_ff: "0xFF \<notin> set xs \<Longrightarrow> calm False xs"
  by (induction xs) auto

lemma drop_Cons_nth:
  assumes "drop p g = x # xs"
  shows "p < length g" "g ! p = x" "drop (Suc p) g = xs"
proof -
  show p: "p < length g" using assms by (metis drop_all linorder_not_le list.distinct(1))
  show "g ! p = x" "drop (Suc p) g = xs" using Cons_nth_drop_Suc [OF p] assms by simp_all
qed

lemma find_sync_skip:
  "calm q A \<Longrightarrow> drop p g = A @ rest \<Longrightarrow> find_sync_from g w (of_bool q) p = find_sync_from g w 0 (p + length A)"
proof (induction A arbitrary: p q)
  case (Cons x A)
  have p: "p < length g" "g ! p = x" "drop (Suc p) g = A @ rest"
    using drop_Cons_nth [of p g x "A @ rest"] Cons.prems(2) by simp_all
  show ?case
  proof (cases "x = 0xFF")
    case True
    then have "\<not> q" "calm True A" using Cons.prems(1) by auto
    then show ?thesis
      using Cons.IH [OF _ p(3), of True] p True by (subst find_sync_from.simps) simp
  next
    case False
    then have "calm False A" using Cons.prems(1) by simp
    then show ?thesis
      using Cons.IH [OF _ p(3), of False] p False by (subst find_sync_from.simps) simp
  qed
qed simp

lemma find_sync_stop:
  "drop p g = replicate k 0xFF @ b # rest \<Longrightarrow> b \<noteq> 0xFF \<Longrightarrow> 2 \<le> c + k \<Longrightarrow>
    find_sync_from g w c p = Some (p + k)"
proof (induction k arbitrary: p c)
  case 0
  then have "p < length g" "g ! p = b" using drop_Cons_nth [of p g b rest] by simp_all
  then show ?case using 0 by (subst find_sync_from.simps) simp
next
  case (Suc k)
  then have "p < length g" "g ! p = 0xFF" "drop (Suc p) g = replicate k 0xFF @ b # rest"
    using drop_Cons_nth [of p g "0xFF" "replicate k 0xFF @ b # rest"] by simp_all
  then show ?case using Suc.IH [of "Suc p" "Suc c"] Suc.prems by (subst find_sync_from.simps) simp
qed

lemma find_sync_next:
  assumes "drop p g = A @ replicate k 0xFF @ b # rest" "calm False A" "b \<noteq> 0xFF" "2 \<le> k"
  shows "find_sync g p = Some (p + length A + k)"
proof -
  have "drop (p + length A) g = replicate k 0xFF @ b # rest"
    using assms(1) by (metis append_eq_conv_conj drop_drop add.commute)
  from find_sync_stop [OF this assms(3), of 0 False] find_sync_skip [OF assms(2,1), of False] assms(4)
  show ?thesis by (simp add: find_sync_def)
qed

section \<open>Blocks\<close>

text \<open>Induction over whole groups.\<close>

lemma groups_induct [case_names Group Rest]:
  assumes "\<And>a b c d bs. P bs \<Longrightarrow> P (a # b # c # d # bs)" "\<And>bs. length bs < 4 \<Longrightarrow> P bs"
  shows "P bs"
proof (induction "length bs" arbitrary: bs rule: less_induct)
  case less
  show ?case
  proof (cases "length bs < 4")
    case False
    then obtain a b c d bs' where "bs = a # b # c # d # bs'"
      by (metis Suc_le_length_iff linorder_not_le numeral_eq_Suc pred_numeral_simps(2) pred_numeral_simps(3)
          semiring_norm(26) semiring_norm(27) semiring_norm(28) BitM_plus_one eval_nat_numeral(3))
    with less assms(1) show ?thesis by simp
  qed (rule assms(2))
qed

context gcr_coder
begin

lemma length_enc [simp]: "length (enc a b c d) = 5"
  by (simp add: encode table_encode_def)

lemma length_block: "length (convert_block_bin2gcr enc bs) = 5 * (length bs div 4)"
proof (induction bs rule: groups_induct)
  case (Rest bs)
  then show ?case by (cases "(enc, bs)" rule: convert_block_bin2gcr.cases) simp_all
qed (simp add: div_add_self1)

lemma calm_group: "calm False (enc a b c d)"
  using table_encode_bytes [of a b c d] unfolding encode by (simp add: table_encode_def)

lemma calm_block: "calm False (convert_block_bin2gcr enc bs)"
proof (induction bs rule: groups_induct)
  case (Rest bs)
  then show ?case by (cases "(enc, bs)" rule: convert_block_bin2gcr.cases) simp_all
qed (simp add: calm_append calm_group)

lemma decode_block:
  "length bs = 4 * k \<Longrightarrow> decode_groups dec k (convert_block_bin2gcr enc bs @ rest) = bs"
proof (induction k arbitrary: bs)
  case (Suc k)
  then obtain a b c d bs' where bs: "bs = a # b # c # d # bs'" "length bs' = 4 * k"
    by (auto simp: length_Suc_conv numeral_eq_Suc)
  then show ?case using Suc.IH [OF bs(2)] decode by simp
qed simp

lemma decode_groups_cut:
  "decode_groups dec k (take (5 * k) gcr) = decode_groups dec k gcr"
proof (induction k arbitrary: gcr)
  case (Suc k)
  then show ?case using Suc.IH [of "drop 5 gcr"] by (simp add: drop_take)
qed simp

end

text \<open>The first byte of a block that starts with 7 or 8 is no sync and has no leading ones.\<close>

lemma first_byte:
  "table_encode 8 b c d ! 0 = 0x52" "table_encode 7 b c d ! 0 = 0x55"
  by (simp_all add: table_encode_def gcr_hi_def gcr_word_def gcr_table_def)

lemma no_leading_ones: "leading_ones 8 0x52 = 0" "leading_ones 8 0x55 = 0"
  by (simp_all add: numeral_eq_Suc)

lemma gap_calm: "calm False (gap_bytes n geos)"
proof (rule calm_no_ff)
  have "set (gap_bytes n geos) \<subseteq> {0x55, 0x67}"
    by (auto simp: gap_bytes_def Let_def split: if_splits dest!: subsetD [OF set_update_subset_insert])
  then show "0xFF \<notin> set (gap_bytes n geos)" by auto
qed

lemma length_gap [simp]: "length (gap_bytes n geos) = n"
  by (simp add: gap_bytes_def Let_def)

section \<open>Reading one sector\<close>

text \<open>The status bytes so far: as much of \<open>xs\<close> as there was room for.\<close>

definition logged :: "bool \<Rightarrow> nat \<Rightarrow> byte list \<Rightarrow> gcr_scan \<Rightarrow> bool" where
  "logged has_status l xs st \<longleftrightarrow>
     gs_status st = (if has_status then take l xs else []) \<and>
     (has_status \<longrightarrow> gs_statlen st = l - length xs)"

lemma logged_push: "logged h l xs st \<Longrightarrow> logged h l (xs @ [x]) (push_status h x st)"
  by (auto simp: logged_def push_status_def not_less)

lemma push_status_fields [simp]:
  "gs_current (push_status h x st) = gs_current st" "gs_secs (push_status h x st) = gs_secs st"
  "gs_expect (push_status h x st) = gs_expect st" "gs_wrapped (push_status h x st) = gs_wrapped st"
  "gs_dest (push_status h x st) = gs_dest st" "gs_bin (push_status h x st) = gs_bin st"
  by (simp_all add: push_status_def)

lemma logged_update [simp]:
  "logged h l xs (st\<lparr>gs_current := c\<rparr>) = logged h l xs st" "logged h l xs (st\<lparr>gs_expect := e\<rparr>) = logged h l xs st"
  "logged h l xs (st\<lparr>gs_dest := d\<rparr>) = logged h l xs st" "logged h l xs (st\<lparr>gs_bin := b\<rparr>) = logged h l xs st"
  "logged h l xs (st\<lparr>gs_secs := n\<rparr>) = logged h l xs st" "logged h l xs (st\<lparr>gs_wrapped := w\<rparr>) = logged h l xs st"
  by (simp_all add: logged_def)

lemma wrap_read_inside:
  "p + n \<le> length g \<Longrightarrow> wrap_read g p n 0 = Some (take n (drop p g), p + n)"
  by (simp add: wrap_read_def)

context gcr_coder
begin

lemma read_block:
  assumes "drop p g = convert_block_bin2gcr enc bs @ rest" "length bs = 4 * k" "0 < k"
  shows "p + 5 * k \<le> length g" "take (5 * k) (drop p g) = convert_block_bin2gcr enc bs"
    "drop (p + 5 * k) g = rest"
proof -
  have l: "length (convert_block_bin2gcr enc bs) = 5 * k" using assms(2) by (simp add: length_block)
  then have "5 * k \<le> length (drop p g)" using assms(1) by simp
  then show "p + 5 * k \<le> length g" using assms(3) by simp
  show "take (5 * k) (drop p g) = convert_block_bin2gcr enc bs" using assms(1) l by simp
  have "drop (p + 5 * k) g = drop (5 * k) (drop p g)" by (simp add: add.commute)
  then show "drop (p + 5 * k) g = rest" using assms(1) l by simp
qed

text \<open>From a position with a calm stretch and a sync before it, the scan finds the group of a header
  and takes its sector number down.\<close>

lemma step_header:
  assumes g: "drop (gs_current st) g = A @ replicate 5 0xFF @
      convert_block_bin2gcr enc (sector_header id1 id2 t s 0) @ rest"
    and "calm False A" "\<not> gs_expect st" "s < max_sector \<and> track = unat t \<or> \<not> h" "s < 256" "logged h l xs st"
  obtains st' where "scan_step dec g track max_sector h st = Onward st'" "drop (gs_current st') g = rest"
    "gs_expect st'" "gs_wrapped st' = gs_wrapped st" "gs_secs st' = gs_secs st" "gs_dest st' = 256 * s"
    "gs_bin st' = gs_bin st" "logged h l (xs @ [of_nat s]) st'"
proof -
  define chk where "chk = of_nat s XOR t XOR id2 XOR id1"
  have hd: "sector_header id1 id2 t s 0 = [8, chk, of_nat s, t] @ [id2, id1, 0x0F, 0x0F]"
    by (simp add: sector_header_def chk_def)
  define p where "p = gs_current st + length A + 5"
  obtain r where r: "convert_block_bin2gcr enc (sector_header id1 id2 t s 0) = 0x52 # r"
    unfolding hd using first_byte(1) [of chk "of_nat s" t] by (simp add: encode table_encode_def)
  have sync: "find_sync g (gs_current st) = Some p"
    using find_sync_next [of "gs_current st" g A 5 "0x52" "r @ rest"] g assms(2) by (simp add: r p_def)
  have p: "drop p g = convert_block_bin2gcr enc (sector_header id1 id2 t s 0) @ rest"
  proof -
    have "drop p g = drop 5 (drop (length A) (drop (gs_current st) g))" by (simp add: p_def add.commute add.left_commute)
    then show ?thesis unfolding g by simp
  qed
  have ge: "\<not> p < gs_current st" by (simp add: p_def)
  from p have gp: "g ! p = 0x52" using drop_Cons_nth(2) [of p g "0x52" "r @ rest"] by (simp add: r)
  note all = read_block [OF p, of 2, unfolded hd, simplified]
  have first: "take 5 (drop p g) = enc 8 chk (of_nat s) t" by (simp add: p hd)
  have s: "unat (of_nat s :: byte) = s" using assms(5) by (simp add: unat_of_nat)
  define st1 where "st1 = st\<lparr>gs_current := p\<rparr>"
  have step: "scan_step dec g track max_sector h st =
      Onward (scan_header track max_sector h [8, chk, of_nat s, t] (p + 10) st1)"
    using all(1) first
    by (simp add: scan_step_def sync gp ge no_leading_ones wrap_read_inside decode st1_def Let_def add.commute [of p])
  show ?thesis
    by (rule that [OF step])
      (use assms all(3) in \<open>auto simp: scan_header_def Let_def s st1_def logged_push\<close>)
qed

lemma step_block:
  assumes g: "drop (gs_current st) g = A @ replicate 5 0xFF @
      convert_block_bin2gcr enc (sector_block bin 0) @ rest"
    and "calm False A" "gs_expect st" "length bin = 256"
  obtains p where "scan_step dec g track max_sector h st =
      scan_data h bin (foldl (XOR) 0 bin) (p + 325) (st\<lparr>gs_current := p\<rparr>)"
    "drop p g = convert_block_bin2gcr enc (sector_block bin 0) @ rest" "drop (p + 325) g = rest"
proof -
  obtain a b c bin' where bin: "bin = a # b # c # bin'" "length bin' = 253"
    using assms(4) by (auto simp: length_Suc_conv numeral_eq_Suc)
  define chk where "chk = foldl (XOR) 0 bin"
  have blk: "sector_block bin 0 = [7, a, b, c] @ bin' @ [chk, 0, 0]"
    by (simp add: sector_block_def bin chk_def Let_def)
  define p where "p = gs_current st + length A + 5"
  obtain r where r: "convert_block_bin2gcr enc (sector_block bin 0) = 0x55 # r"
    unfolding blk using first_byte(2) [of a b c] by (simp add: encode table_encode_def)
  have sync: "find_sync g (gs_current st) = Some p"
    using find_sync_next [of "gs_current st" g A 5 "0x55" "r @ rest"] g assms(2) by (simp add: r p_def)
  have p: "drop p g = convert_block_bin2gcr enc (sector_block bin 0) @ rest"
  proof -
    have "drop p g = drop 5 (drop (length A) (drop (gs_current st) g))" by (simp add: p_def add.commute add.left_commute)
    then show ?thesis unfolding g by simp
  qed
  have ge: "\<not> p < gs_current st" by (simp add: p_def)
  from p have gp: "g ! p = 0x55" using drop_Cons_nth(2) [of p g "0x55" "r @ rest"] by (simp add: r)
  note all = read_block [OF p, of 65, simplified, unfolded blk, simplified bin, simplified]
  have first: "take 5 (drop p g) = enc 7 a b c" by (simp add: p blk)
  have p5: "drop (p + 5) g = convert_block_bin2gcr enc (bin' @ [chk, 0, 0]) @ rest"
  proof -
    have "drop (p + 5) g = drop 5 (drop p g)" by (simp add: add.commute)
    then show ?thesis unfolding p blk by simp
  qed
  have groups: "decode_groups dec 64 (take 320 (drop (p + 5) g)) = bin' @ [chk, 0, 0]"
    using decode_groups_cut [of 64 "drop (p + 5) g"] decode_block [of "bin' @ [chk, 0, 0]" 64 rest] bin(2)
    by (simp add: p5)
  have len: "p + 325 \<le> length g" and rest: "drop (p + 325) g = rest"
    using read_block [OF p, of 65] assms(4) blk bin by simp_all
  have "scan_step dec g track max_sector h st = scan_data h bin chk (p + 325) (st\<lparr>gs_current := p\<rparr>)"
    using len first groups assms(3) bin
    by (simp add: scan_step_def sync gp ge no_leading_ones wrap_read_inside decode Let_def nth_append
        add.commute [of p])
  from that [OF this [unfolded chk_def] p rest] show ?thesis .
qed

lemma step_data:
  assumes g: "drop (gs_current st) g = A @ replicate 5 0xFF @
      convert_block_bin2gcr enc (sector_block bin 0) @ rest"
    and "calm False A" "gs_expect st" "length bin = 256" "gs_dest st + 256 \<le> length (gs_bin st)" "logged h l xs st"
  obtains st' A' where "scan_step dec g track max_sector h st = Onward st'" "drop (gs_current st') g = A' @ rest"
    "calm False A'" "\<not> gs_expect st'" "gs_wrapped st' = gs_wrapped st" "gs_secs st' = gs_secs st + 1"
    "gs_bin st' = blit (gs_dest st) bin (gs_bin st)" "logged h l (xs @ [0]) st'"
proof -
  define chk where "chk = foldl (XOR) 0 bin"
  obtain p where step: "scan_step dec g track max_sector h st = scan_data h bin chk (p + 325) (st\<lparr>gs_current := p\<rparr>)"
    and p: "drop p g = convert_block_bin2gcr enc (sector_block bin 0) @ rest" and rest: "drop (p + 325) g = rest"
    unfolding chk_def by (rule step_block [OF g assms(2-4)])
  define st1 where "st1 = st\<lparr>gs_current := p\<rparr>"
  note step = step [folded st1_def]
  show ?thesis
  proof (cases "h \<and> gs_statlen st > 0")
    case True
    show ?thesis
      by (rule that [of "(push_status h 0 (st1\<lparr>gs_expect := False, gs_secs := gs_secs st + 1,
            gs_bin := blit (gs_dest st) bin (gs_bin st)\<rparr>))\<lparr>gs_current := p + 325\<rparr>" "[]"])
        (unfold step, use True assms rest in \<open>simp_all add: scan_data_def st1_def chk_def logged_push Let_def not_less\<close>)
  next
    case False
    have room: "(h \<and> gs_statlen st > 0) = False" using False by simp
    have "logged h l (xs @ [0]) st" using logged_push [OF assms(6), of 0] False by (simp add: push_status_def)
    then show ?thesis
      by (intro that [of "st1\<lparr>gs_expect := False, gs_secs := gs_secs st + 1,
            gs_bin := blit (gs_dest st) bin (gs_bin st)\<rparr>" "convert_block_bin2gcr enc (sector_block bin 0)"])
        (use assms p calm_block in \<open>simp_all add: step scan_data_def st1_def room\<close>)
  qed
qed

text \<open>A whole sector.\<close>

lemma read_sector:
  assumes g: "drop (gs_current st) g = A @ sector_gcr enc id1 id2 t region s 0 geos bin @ rest"
    and "calm False A" "\<not> gs_expect st" "s < max_sector" "s < 256" "track = unat t" "length bin = 256"
    "256 * s + 256 \<le> length (gs_bin st)" "gs_secs st < max_sector" "logged h l xs st"
  obtains st' A' where "scan_loop dec g track max_sector h st = scan_loop dec g track max_sector h st'"
    "drop (gs_current st') g = A' @ rest" "calm False A'" "\<not> gs_expect st'" "gs_secs st' = gs_secs st + 1"
    "gs_bin st' = blit (256 * s) bin (gs_bin st)" "logged h l (xs @ [of_nat s, 0]) st'"
proof -
  let ?gap = "gap_bytes (sector_gap_lengths ! region) geos"
  have parts: "drop (gs_current st) g = A @ replicate 5 0xFF @
      convert_block_bin2gcr enc (sector_header id1 id2 t s 0) @
      gap_bytes 9 geos @ replicate 5 0xFF @ convert_block_bin2gcr enc (sector_block bin 0) @ ?gap @ rest"
    using g by (simp add: sector_gcr_def Let_def)
  obtain st1 where st1: "scan_step dec g track max_sector h st = Onward st1"
    "drop (gs_current st1) g = gap_bytes 9 geos @ replicate 5 0xFF @
       convert_block_bin2gcr enc (sector_block bin 0) @ ?gap @ rest"
    "gs_expect st1" "gs_secs st1 = gs_secs st" "gs_dest st1 = 256 * s" "gs_bin st1 = gs_bin st"
    "logged h l (xs @ [of_nat s]) st1"
    by (rule step_header [OF parts assms(2,3) _ assms(5,10), of max_sector track]) (use assms(4,6) in simp)
  obtain st2 A2 where st2: "scan_step dec g track max_sector h st1 = Onward st2"
    "drop (gs_current st2) g = A2 @ ?gap @ rest" "calm False A2" "\<not> gs_expect st2"
    "gs_secs st2 = gs_secs st + 1" "gs_bin st2 = blit (256 * s) bin (gs_bin st)"
    "logged h l (xs @ [of_nat s, 0]) st2"
    by (rule step_data [OF st1(2) gap_calm st1(3) assms(7) _ st1(7), unfolded st1(4-6)]) (use assms(8) in simp_all)
  show ?thesis
  proof (rule that [of st2 "A2 @ ?gap"])
    show "scan_loop dec g track max_sector h st = scan_loop dec g track max_sector h st2"
      using st1 st2 assms(9) by (simp add: scan_loop.simps [of _ _ _ _ _ st] scan_loop.simps [of _ _ _ _ _ st1])
  qed (use st2 in \<open>simp_all add: calm_append gap_calm\<close>)
qed

definition sectors_from :: "byte \<Rightarrow> byte \<Rightarrow> byte \<Rightarrow> nat \<Rightarrow> bool \<Rightarrow> byte list \<Rightarrow> nat \<Rightarrow> nat \<Rightarrow> byte list" where
  "sectors_from id1 id2 t region geos bin i n =
     concat (map (\<lambda>s. sector_gcr enc id1 id2 t region s 0 geos (take 256 (drop (256 * s) bin))) [i..<n])"

lemma blit_next:
  assumes "256 * i + 256 \<le> length out" "256 * i + 256 \<le> length bin" "take (256 * i) out = take (256 * i) bin"
    "drop (256 * i) out = drop (256 * i) old"
  shows "take (256 * Suc i) (blit (256 * i) (take 256 (drop (256 * i) bin)) out) = take (256 * Suc i) bin"
    "drop (256 * Suc i) (blit (256 * i) (take 256 (drop (256 * i) bin)) out) = drop (256 * Suc i) old"
proof -
  have "take (256 * Suc i) bin = take (256 * i) bin @ take 256 (drop (256 * i) bin)"
    using take_add [of "256 * i" 256 bin] by (simp add: add.commute)
  then show "take (256 * Suc i) (blit (256 * i) (take 256 (drop (256 * i) bin)) out) = take (256 * Suc i) bin"
    using assms by (simp add: blit_def min_def) arith
  have "drop (256 * Suc i) out = drop 256 (drop (256 * i) out)" by (simp add: add.commute)
  also have "\<dots> = drop (256 * Suc i) old" by (simp add: assms(4) add.commute)
  finally show "drop (256 * Suc i) (blit (256 * i) (take 256 (drop (256 * i) bin)) out) = drop (256 * Suc i) old"
    using assms by (simp add: blit_def min_def add.commute)
qed

lemma read_sectors:
  assumes "drop (gs_current st) g = A @ sectors_from id1 id2 t region geos bin i n @ rest"
    "calm False A" "\<not> gs_expect st" "n \<le> 256" "track = unat t" "length bin = 256 * n" "i \<le> n"
    "256 * n \<le> length (gs_bin st)" "gs_secs st = i"
    "take (256 * i) (gs_bin st) = take (256 * i) bin" "drop (256 * i) (gs_bin st) = drop (256 * i) old"
    "logged h l (concat (map (\<lambda>s. [of_nat s, 0]) [0..<i])) st"
  shows "\<exists>st'. scan_loop dec g track n h st = Some (Some st') \<and> gs_secs st' = n \<and>
    gs_bin st' = bin @ drop (256 * n) old \<and> logged h l (concat (map (\<lambda>s. [of_nat s, 0]) [0..<n])) st'"
  using assms
proof (induction "n - i" arbitrary: i st A)
  case 0
  then have i: "i = n" by simp
  have "gs_bin st = take (256 * n) (gs_bin st) @ drop (256 * n) (gs_bin st)" by simp
  also have "\<dots> = bin @ drop (256 * n) old" using 0 by (simp add: i)
  finally show ?case using 0 by (simp add: i scan_loop.simps)
next
  case (Suc k)
  then have i: "i < n" by simp
  let ?sec = "take 256 (drop (256 * i) bin)"
  let ?log = "concat (map (\<lambda>s. [of_nat s, 0]) [0..<i]) :: byte list"
  have g: "drop (gs_current st) g = A @ sector_gcr enc id1 id2 t region i 0 geos ?sec @
      sectors_from id1 id2 t region geos bin (Suc i) n @ rest"
    using Suc.prems(1) i by (simp add: sectors_from_def upt_conv_Cons)
  have l: "length ?sec = 256" using Suc.prems(6) i by simp
  have b: "256 * i + 256 \<le> length (gs_bin st)" using Suc.prems(8) i by linarith
  have b': "256 * i + 256 \<le> length bin" using Suc.prems(6) i by linarith
  have small: "i < 256" "gs_secs st < n" using i Suc.prems(4,9) by simp_all
  obtain st' A' where st': "scan_loop dec g track n h st = scan_loop dec g track n h st'"
    "drop (gs_current st') g = A' @ sectors_from id1 id2 t region geos bin (Suc i) n @ rest" "calm False A'"
    "\<not> gs_expect st'" "gs_secs st' = gs_secs st + 1" "gs_bin st' = blit (256 * i) ?sec (gs_bin st)"
    "logged h l (?log @ [of_nat i, 0]) st'"
    by (rule read_sector [OF g Suc.prems(2,3) i small(1) Suc.prems(5) l b small(2) Suc.prems(12)])
  have out: "take (256 * Suc i) (gs_bin st') = take (256 * Suc i) bin"
    "drop (256 * Suc i) (gs_bin st') = drop (256 * Suc i) old"
    using blit_next [OF b b' Suc.prems(10,11)] unfolding st'(6) by simp_all
  have "\<exists>st''. scan_loop dec g track n h st' = Some (Some st'') \<and> gs_secs st'' = n \<and>
    gs_bin st'' = bin @ drop (256 * n) old \<and> logged h l (concat (map (\<lambda>s. [of_nat s, 0]) [0..<n])) st''"
    using Suc.hyps(2) Suc.prems(4-9) i st' out b l
    by (intro Suc.hyps(1) [of "Suc i" st' A']) simp_all
  then show ?case by (simp add: st'(1))
qed

end

section \<open>Whole tracks\<close>

lemma regions: "r < 8 \<Longrightarrow> r = 0 \<or> r = 1 \<or> r = 2 \<or> r = 3 \<or> r = 4 \<or> r = 5 \<or> r = 6 \<or> r = (7 :: nat)"
  by arith

lemma length_header [simp]: "length (sector_header id1 id2 t s e) = 8"
  by (simp add: sector_header_def Let_def)

lemma length_sector_block [simp]: "length (sector_block bin e) = length bin + 4"
  by (simp add: sector_block_def Let_def)

context gcr_coder
begin

lemma length_sector:
  "length bin = 256 \<Longrightarrow>
    length (sector_gcr enc id1 id2 t region s e geos bin) = 354 + sector_gap_lengths ! region"
  by (simp add: sector_gcr_def Let_def length_block)

lemma length_body:
  assumes "256 * n \<le> length bin"
  shows "length (concat (map (\<lambda>s. sector_gcr enc id1 id2 t region s (e s) geos (take 256 (drop (256 * s) bin)))
    [0..<n])) = n * (354 + sector_gap_lengths ! region)"
  using assms
proof (induction n)
  case (Suc n)
  then show ?case by (simp add: length_sector)
qed simp

lemma body_fits: "r < 8 \<Longrightarrow> sectors_per_track ! r * (354 + sector_gap_lengths ! r) < track_lengths ! r"
  by (drule regions, elim disjE)
    (simp_all add: sectors_per_track_def sector_gap_lengths_def track_lengths_def)

lemma length_track_buffer:
  assumes "r < 8" "256 * sectors_per_track ! r \<le> length bin"
  shows "length (track_buffer enc id1 id2 t r bin errors geos) = track_lengths ! r"
  using length_body [OF assms(2)] body_fits [OF assms(1)] by (simp add: track_buffer_def Let_def)

lemma length_track:
  assumes "r < 8" "256 * sectors_per_track ! r \<le> length bin"
  shows "length (convert_track_bin2gcr enc id1 id2 t r bin errors geos twist) = track_lengths ! r"
proof -
  have "0 < track_lengths ! r" using body_fits [OF assms(1)] by simp
  then have "unat t * (twist * (16 - r) div 16) mod track_lengths ! r < track_lengths ! r" by simp
  then show ?thesis
    using length_track_buffer [OF assms] by (simp add: convert_track_bin2gcr_def Let_def)
qed

lemma untwisted:
  assumes "r < 8" "length bin = 256 * sectors_per_track ! r"
  obtains tail where "convert_track_bin2gcr enc id1 id2 t r bin None geos 0 =
    sectors_from id1 id2 t r geos bin 0 (sectors_per_track ! r) @ tail"
proof -
  let ?body = "sectors_from id1 id2 t r geos bin 0 (sectors_per_track ! r)"
  have len: "length ?body < track_lengths ! r"
    using length_body [of "sectors_per_track ! r" bin id1 id2 t r "\<lambda>_. 0" geos] assms(2) body_fits [OF assms(1)]
    by (simp add: sectors_from_def)
  define full where "full = ?body @ replicate (track_lengths ! r - length ?body) 0x55"
  have "convert_track_bin2gcr enc id1 id2 t r bin None geos 0 = track_buffer enc id1 id2 t r bin None geos"
    using length_track_buffer [OF assms(1), of bin id1 id2 t None geos] assms(2)
    by (simp add: convert_track_bin2gcr_def Let_def)
  also have "\<dots> = (if geos then full[length full - 1 := 0x67] else full)"
    by (simp add: track_buffer_def Let_def sectors_from_def full_def)
  finally have g: "convert_track_bin2gcr enc id1 id2 t r bin None geos 0 =
      (if geos then full[length full - 1 := 0x67] else full)" .
  have "length full = track_lengths ! r" using len by (simp add: full_def)
  then have "take (length ?body) (full[length full - 1 := 0x67]) = take (length ?body) full"
    using len by (intro take_update_cancel) simp
  moreover have "take (length ?body) full = ?body" by (simp add: full_def)
  ultimately have front: "take (length ?body) (convert_track_bin2gcr enc id1 id2 t r bin None geos 0) = ?body"
    unfolding g by (cases geos) (simp_all only: if_True if_False)
  show ?thesis
    by (rule that [of "drop (length ?body) (convert_track_bin2gcr enc id1 id2 t r bin None geos 0)"])
      (subst front [symmetric], rule append_take_drop_id [symmetric])
qed

lemma track_roundtrip:
  assumes "r < 8" "length bin = 256 * sectors_per_track ! r" "256 * sectors_per_track ! r \<le> length out"
  shows "\<exists>st. convert_gcr_track_to_bin dec (convert_track_bin2gcr enc id1 id2 t r bin None geos 0) (unat t)
      (sectors_per_track ! r) out h l = Some (Some st) \<and> gs_secs st = sectors_per_track ! r \<and>
    gs_bin st = bin @ drop (length bin) out \<and>
    gs_status st = (if h then take l (concat (map (\<lambda>s. [of_nat s, 0]) [0..<sectors_per_track ! r])) else [])"
proof -
  obtain tail where g: "convert_track_bin2gcr enc id1 id2 t r bin None geos 0 =
    sectors_from id1 id2 t r geos bin 0 (sectors_per_track ! r) @ tail"
    by (rule untwisted [OF assms(1,2)])
  have n: "sectors_per_track ! r \<le> 256"
    using regions [OF assms(1)] by (elim disjE; simp add: sectors_per_track_def)
  let ?st = "\<lparr>gs_current = 0, gs_secs = 0, gs_expect = False, gs_wrapped = False, gs_status = [],
        gs_statlen = l, gs_dest = 0, gs_bin = out\<rparr>"
  have start: "drop (gs_current ?st) (convert_track_bin2gcr enc id1 id2 t r bin None geos 0) =
      [] @ sectors_from id1 id2 t r geos bin 0 (sectors_per_track ! r) @ tail"
    by (simp add: g)
  show ?thesis
    using read_sectors [OF start _ _ n refl assms(2), of out h l] assms
    unfolding convert_gcr_track_to_bin_def by (auto simp: logged_def)
qed

text \<open>A sector that does not belong here, with no status bytes to say so.\<close>

lemma foreign_sector:
  assumes "length bin = 256" "n \<le> s" "s < 256" "length out = 256 * n" "0 < n"
  shows "convert_gcr_track_to_bin dec (sector_gcr enc id1 id2 t r s 0 geos bin) track n out False l = Some None"
proof -
  let ?g = "sector_gcr enc id1 id2 t r s 0 geos bin"
  let ?gap = "gap_bytes (sector_gap_lengths ! r) geos"
  define st where "st = \<lparr>gs_current = 0, gs_secs = 0, gs_expect = False, gs_wrapped = False, gs_status = [],
        gs_statlen = l, gs_dest = 0, gs_bin = out\<rparr>"
  have parts: "drop (gs_current st) ?g = [] @ replicate 5 0xFF @
      convert_block_bin2gcr enc (sector_header id1 id2 t s 0) @
      gap_bytes 9 geos @ replicate 5 0xFF @ convert_block_bin2gcr enc (sector_block bin 0) @ ?gap"
    by (simp add: sector_gcr_def Let_def st_def)
  obtain st1 where st1: "scan_step dec ?g track n False st = Onward st1"
    "drop (gs_current st1) ?g = gap_bytes 9 geos @ replicate 5 0xFF @
       convert_block_bin2gcr enc (sector_block bin 0) @ ?gap"
    "gs_expect st1" "gs_secs st1 = gs_secs st" "gs_dest st1 = 256 * s" "gs_bin st1 = gs_bin st"
    by (rule step_header [OF parts _ _ _ assms(3), of n track False l "[]"]) (simp_all add: st_def logged_def)
  obtain p where p: "scan_step dec ?g track n False st1 =
      scan_data False bin (foldl (XOR) 0 bin) (p + 325) (st1\<lparr>gs_current := p\<rparr>)"
    by (rule step_block [OF st1(2) gap_calm st1(3) assms(1)])
  have "scan_step dec ?g track n False st1 = OutOfBounds"
    unfolding p using assms st1(5,6) by (simp add: scan_data_def st_def)
  moreover have "gs_secs st = 0" by (simp add: st_def)
  ultimately have "scan_loop dec ?g track n False st = Some None"
    using st1(1,4) assms(5) by (simp add: scan_loop.simps [of _ _ _ _ _ st] scan_loop.simps [of _ _ _ _ _ st1])
  then show ?thesis by (simp add: convert_gcr_track_to_bin_def st_def)
qed

end

section \<open>A track that keeps the reader busy\<close>

lemma scan_loop_stuck:
  assumes "scan_step dec g track n h st = Onward st" "gs_secs st < n"
  shows "scan_loop dec g track n h st = None"
proof (rule ccontr)
  assume "scan_loop dec g track n h st \<noteq> None"
  then obtain y where "scan_loop dec g track n h st = Some y" by blast
  then have "scan_step dec g track n h st = Onward st \<longrightarrow> \<not> gs_secs st < n"
    by (rule scan_loop.raw_induct [rotated, where
          P = "\<lambda>dec g track n h st y. scan_step dec g track n h st = Onward st \<longrightarrow> \<not> gs_secs st < n"])
      (fastforce simp: not_le split: if_splits)
  with assms show False by blast
qed

text \<open>C10: A sector written to a track is read back: the scan finds every sector of a track built by
  \<open>convert_track_bin2gcr\<close> (without twist and errors), puts the 256 bytes of each into their place and
  leaves the rest of the output alone, and the status bytes say which sector had which result, as
  far as there is room.\<close>

theorem gcr_track_roundtrip:
  assumes "gcr_coder enc dec" "r < 8" "length bin = 256 * sectors_per_track ! r" "length bin \<le> length out"
  shows "\<exists>st. convert_gcr_track_to_bin dec (convert_track_bin2gcr enc id1 id2 t r bin None geos 0) (unat t)
      (sectors_per_track ! r) out h l = Some (Some st) \<and> gs_secs st = sectors_per_track ! r \<and>
    gs_bin st = bin @ drop (length bin) out \<and>
    gs_status st = (if h then take l (concat (map (\<lambda>s. [of_nat s, 0]) [0..<sectors_per_track ! r])) else [])"
  using gcr_coder.track_roundtrip [OF assms(1-3)] assms(3,4) by simp

lemma gcr_track_roundtrip_witness:
  "\<exists>st. convert_gcr_track_to_bin table_decode
      (convert_track_bin2gcr table_encode 0x41 0x42 18 1 (replicate 4864 0xFF) None True 0) 18 19
      (replicate 4864 0) True 64 = Some (Some st) \<and> gs_secs st = 19 \<and> gs_bin st = replicate 4864 0xFF"
  using gcr_track_roundtrip [OF table.gcr_coder_axioms, of 1 "replicate 4864 0xFF" "replicate 4864 0"
      "0x41" "0x42" 18 True True 64]
  by (auto simp: sectors_per_track_def)

text \<open>Whatever the error bytes and the twist, a track has exactly the length of its region.\<close>

lemma gcr_track_length:
  assumes "gcr_coder enc dec" "r < 8" "256 * sectors_per_track ! r \<le> length bin"
  shows "length (convert_track_bin2gcr enc id1 id2 t r bin errors geos twist) = track_lengths ! r"
  by (rule gcr_coder.length_track [OF assms])

lemma gcr_track_length_witness:
  "length (convert_track_bin2gcr table_encode 0x41 0x42 18 1 (replicate 4864 0) (Some [5, 2, 3]) False 9) = 7142"
  using gcr_track_length [OF table.gcr_coder_axioms, of 1 "replicate 4864 0" "0x41" "0x42" 18 "Some [5, 2, 3]" False 9]
  by (simp add: sectors_per_track_def track_lengths_def)

text \<open>A track with one sync and something else than a header behind it keeps the scan busy for ever:
  it finds the same sync again, and \<open>new_gcr < current\<close> never says that it went round.\<close>

lemma one_sync_never_ends:
  assumes "find_sync g 0 = Some p" "find_sync g p = Some p"
    and "wrap_read g p 5 (leading_ones 8 (g ! p)) = Some (bs, q)" "dec bs ! 0 \<noteq> 8" "0 < n"
  shows "convert_gcr_track_to_bin dec g track n bin h l = None"
proof -
  define st where "st = \<lparr>gs_current = p, gs_secs = 0, gs_expect = False, gs_wrapped = False, gs_status = [],
        gs_statlen = l, gs_dest = 0, gs_bin = bin\<rparr>"
  have "scan_step dec g track n h st = Onward st"
    using assms by (simp add: scan_step_def st_def Let_def)
  then have "scan_loop dec g track n h st = None"
    by (rule scan_loop_stuck) (simp add: st_def assms(5))
  moreover have "convert_gcr_track_to_bin dec g track n bin h l = scan_loop dec g track n h st"
    using assms unfolding convert_gcr_track_to_bin_def
    by (subst scan_loop.simps) (simp add: scan_step_def st_def Let_def)
  ultimately show ?thesis by simp
qed

lemma one_sync_never_ends_witness:
  "convert_gcr_track_to_bin table_decode (0xFF # 0xFF # replicate 6 0x55) 1 21 (replicate 5376 0) True 64 = None"
proof (rule one_sync_never_ends)
  show "find_sync (0xFF # 0xFF # replicate 6 0x55) 0 = Some 2" "find_sync (0xFF # 0xFF # replicate 6 0x55) 2 = Some 2"
    by code_simp+
  show "wrap_read (0xFF # 0xFF # replicate 6 0x55) 2 5 (leading_ones 8 ((0xFF # 0xFF # replicate 6 0x55) ! 2)) =
    Some (replicate 5 0x55, 7)" by code_simp
  show "table_decode (replicate 5 0x55) ! 0 \<noteq> 8" by code_simp
qed simp

text \<open>Without room for status bytes a header of the wrong track, or of a sector the disk does not
  have, is taken like any other, and the data behind it is written to where that sector would be:
  outside the output.\<close>

lemma foreign_sector_overflows:
  assumes "gcr_coder enc dec" "length bin = 256" "n \<le> s" "s < 256" "length out = 256 * n" "0 < n"
  shows "convert_gcr_track_to_bin dec (sector_gcr enc id1 id2 t r s 0 geos bin) track n out False l = Some None"
  by (rule gcr_coder.foreign_sector [OF assms])

lemma foreign_sector_overflows_witness:
  "convert_gcr_track_to_bin table_decode (sector_gcr table_encode 0x41 0x42 1 0 200 0 False (replicate 256 7))
     18 19 (replicate 4864 0) False 0 = Some None"
  by (rule foreign_sector_overflows [OF table.gcr_coder_axioms]) simp_all

end
