(* ===== verification/Disk_Roundtrip.thy ===== *)
theory Disk_Roundtrip
  imports Bin_Correct Gcr_Correct
begin

text \<open>
  A disk converted to group code (without twist) and back is the same disk: the composition of
  \<open>convert_disk_bin2gcr\<close>, which places the tracks in the image memory, and \<open>convert_disk_gcr2bin\<close>, which
  scans every track there is, blank ones and those of the other side included.
\<close>

section \<open>Tracks on both kinds of image\<close>

abbreviation gcr_index :: "bool \<Rightarrow> nat \<Rightarrow> nat" where
  "gcr_index ds lt \<equiv> nat (bin_track_to_gcr_track (int lt) ds)"

lemma gcr_index_below: "gcr_index ds lt < max_tracks"
  by (auto simp: bin_track_to_gcr_track_def Let_def GCRIMAGE_MAXHDRTRACKS_def GCRIMAGE_FIRSTTRACKSIDE1_def)

lemma bin_gcr_inverse:
  assumes "0 \<le> lt" "if ds then lt < 77 else lt < 42"
  shows "gcr_track_to_bin_track (bin_track_to_gcr_track lt ds) = lt"
  using assms by (auto simp: gcr_track_to_bin_track_def bin_track_to_gcr_track_def Let_def
      GCRIMAGE_MAXHDRTRACKS_def GCRIMAGE_FIRSTTRACKSIDE1_def split: if_splits)

lemma gcr_index_nonneg: "0 \<le> bin_track_to_gcr_track (int lt) ds"
  by (simp add: bin_track_to_gcr_track_def Let_def GCRIMAGE_MAXHDRTRACKS_def GCRIMAGE_FIRSTTRACKSIDE1_def)

lemma gcr_index_inverse:
  "(if ds then lt < 77 else lt < 42) \<Longrightarrow> nat (gcr_track_to_bin_track (int (gcr_index ds lt))) = lt"
  using bin_gcr_inverse [of "int lt" ds] gcr_index_nonneg [of lt ds] by (auto split: if_splits)

lemma gcr_index_inj:
  "(if ds then i < 77 else i < 42) \<Longrightarrow> (if ds then j < 77 else j < 42) \<Longrightarrow> gcr_index ds i = gcr_index ds j \<Longrightarrow> i = j"
  using gcr_index_inverse [of ds i] gcr_index_inverse [of ds j] by simp

text \<open>The logical track of any entry is one of the 80 of a binary image.\<close>

lemma bin_track_below: "pt < max_tracks \<Longrightarrow> nat (gcr_track_to_bin_track (int pt)) < BINIMAGE_MAXTRACKS"
  by (auto simp: gcr_track_to_bin_track_def GCRIMAGE_FIRSTTRACKSIDE1_def BINIMAGE_MAXTRACKS_def)

lemma region_below_8: "track_to_region track ds < 8"
  by (auto simp: track_to_region_def Let_def find_Some_iff split: option.split)

section \<open>Pieces of a list\<close>

lemma piece_before:
  assumes "a + n \<le> i" "i \<le> length d"
  shows "take n (drop a (blit i src d)) = take n (drop a d)"
proof -
  have "drop a (blit i src d) = take (i - a) (drop a d) @ src @ drop (i + length src) d"
    using assms by (simp add: blit_def drop_take)
  moreover have "n \<le> i - a" "i - a \<le> length d - a" "n \<le> length d - a" using assms by arith+
  ultimately show ?thesis by simp
qed

lemma piece_behind: "i + length src \<le> a \<Longrightarrow> i \<le> length d \<Longrightarrow> drop a (blit i src d) = drop a d"
  by (simp add: blit_def)

lemma piece_at: "i \<le> length d \<Longrightarrow> take (length src) (drop i (blit i src d)) = src"
  by (simp add: blit_def)

lemma piece_update: "a + n \<le> i \<Longrightarrow> take n (drop a (d[i := x])) = take n (drop a d)"
  by (simp add: drop_update_swap)

section \<open>Tracks placed in the image memory\<close>

text \<open>Error codes that are all zero are no errors, and only the track's own sectors count.\<close>

lemma no_errors:
  assumes "\<forall>x \<in> set es. x = 0"
  shows "convert_track_bin2gcr enc id1 id2 t r bin (Some es) geos twist =
    convert_track_bin2gcr enc id1 id2 t r bin None geos twist"
proof -
  have "(if s < length es then es ! s else 0) = 0" for s using assms by simp
  then show ?thesis by (simp add: convert_track_bin2gcr_def track_buffer_def)
qed

lemma own_sectors:
  assumes "sectors_per_track ! r = n"
  shows "convert_track_bin2gcr enc id1 id2 t r (take (256 * n) bin) errors geos twist =
    convert_track_bin2gcr enc id1 id2 t r bin errors geos twist"
proof -
  have "take 256 (drop (256 * s) (take (256 * n) bin)) = take 256 (drop (256 * s) bin)" if "s < n" for s
  proof -
    have "256 * s + 256 \<le> 256 * n" using that by simp
    then show ?thesis by (simp add: drop_take min_def)
  qed
  then have "map (\<lambda>s. sector_gcr enc id1 id2 t r s (f s) geos (take 256 (drop (256 * s) (take (256 * n) bin)))) [0..<n] =
      map (\<lambda>s. sector_gcr enc id1 id2 t r s (f s) geos (take 256 (drop (256 * s) bin))) [0..<n]" for f
    by (intro map_cong refl) simp
  then have "track_buffer enc id1 id2 t r (take (256 * n) bin) errors geos = track_buffer enc id1 id2 t r bin errors geos"
    unfolding track_buffer_def Let_def assms by (simp only:)
  then show ?thesis by (simp only: convert_track_bin2gcr_def)
qed

definition disk_track :: "encoder \<Rightarrow> byte \<Rightarrow> byte \<Rightarrow> bin_image \<Rightarrow> bool \<Rightarrow> nat \<Rightarrow> byte list" where
  "disk_track enc id1 id2 img geos lt =
     convert_track_bin2gcr enc id1 id2 (of_nat (lt + 1)) (track_to_region (int lt) (bi_double_sided img))
       (track_data img lt) None geos 0"

lemma bin2gcr_disk_track:
  assumes "bi_track_start img ! lt = Some start" "bi_track_sectors img ! lt = sectors_of (bi_double_sided img) lt"
    "\<forall>e. bi_errors img = Some e \<longrightarrow> (\<forall>x \<in> set (take (bi_error_size img) (drop e (bi_data img))). x = 0)"
  shows "convert_track_bin2gcr enc id1 id2 (of_nat (lt + 1)) (track_to_region (int lt) (bi_double_sided img))
      (drop (the (bi_track_start img ! lt)) (bi_data img)) (error_bytes img sec) geos 0 =
    disk_track enc id1 id2 img geos lt"
proof -
  have "error_bytes img sec = None \<or> (\<exists>es. error_bytes img sec = Some es \<and> (\<forall>x \<in> set es. x = 0))"
    using assms(3) by (cases "bi_errors img") (auto simp: error_bytes_def dest!: in_set_dropD)
  then show ?thesis
    using assms(1,2) own_sectors [OF refl, of enc _ _ _ "track_to_region (int lt) (bi_double_sided img)"]
    by (auto simp: no_errors disk_track_def track_data_def)
qed

text \<open>The tracks \<open>0..<k\<close> are placed, below position \<open>gcr\<close>.\<close>

definition placed :: "bool \<Rightarrow> (nat \<Rightarrow> byte list) \<Rightarrow> nat \<Rightarrow> gcr_image \<Rightarrow> nat \<Rightarrow> bool" where
  "placed ds T k g gcr \<longleftrightarrow>
     length (gi_data g) = GCRIMAGE_MAXSIZE \<and> length (gi_tracks g) = max_tracks \<and> gi_double_sided g = ds \<and>
     gcr \<le> 7692 * k \<and>
     (\<forall>j < k. \<exists>a. gt_address (gi_tracks g ! gcr_index ds j) = Some a \<and>
        gt_length (gi_tracks g ! gcr_index ds j) = length (T j) \<and> a + length (T j) \<le> gcr \<and>
        take (length (T j)) (drop a (gi_data g)) = T j) \<and>
     (\<forall>p < max_tracks. (\<forall>j < k. p \<noteq> gcr_index ds j) \<longrightarrow> gi_tracks g ! p = no_track)"

lemma placed_step:
  assumes "placed ds T k g gcr" "(if ds then k < 77 else k < 42)" "length (T k) \<le> 7692"
    "g' = g\<lparr>gi_data := blit gcr (T k) (gi_data g), gi_tracks := (gi_tracks g)[gcr_index ds k :=
        (gi_tracks g ! gcr_index ds k)\<lparr>gt_address := Some gcr, gt_length := length (T k), gt_speed := sp, gt_used := True\<rparr>]\<rparr>"
  shows "placed ds T (Suc k) g' (gcr + length (T k))"
proof -
  have gcr: "gcr \<le> 7692 * k" "length (gi_data g) = GCRIMAGE_MAXSIZE" "length (gi_tracks g) = max_tracks"
    using assms(1) by (simp_all add: placed_def)
  have "k < 80" using assms(2) by (simp split: if_splits)
  then have room: "gcr + length (T k) \<le> GCRIMAGE_MAXSIZE"
    using gcr(1) assms(3) by (simp add: GCRIMAGE_MAXSIZE_def GCRIMAGE_MAXTRACKLEN_def GCRIMAGE_MAXUSEDTRACKS_def
        GCRIMAGE_MAXMETADATA_def)
  have other: "gi_tracks g' ! p = gi_tracks g ! p" if "p \<noteq> gcr_index ds k" for p
    using that by (simp add: assms(4))
  have own: "gi_tracks g' ! gcr_index ds k =
      (gi_tracks g ! gcr_index ds k)\<lparr>gt_address := Some gcr, gt_length := length (T k), gt_speed := sp, gt_used := True\<rparr>"
    using gcr_index_below [of k ds] gcr(3) by (simp add: assms(4))
  have differ: "gcr_index ds j \<noteq> gcr_index ds k" if "j < k" for j
    using gcr_index_inj [where ds = ds and i = j and j = k] that assms(2) by (auto split: if_splits)
  have "\<exists>a. gt_address (gi_tracks g' ! gcr_index ds j) = Some a \<and>
        gt_length (gi_tracks g' ! gcr_index ds j) = length (T j) \<and> a + length (T j) \<le> gcr + length (T k) \<and>
        take (length (T j)) (drop a (gi_data g')) = T j" if "j < Suc k" for j
  proof (cases "j = k")
    case True
    then show ?thesis using own room gcr(2) by (simp add: assms(4) piece_at)
  next
    case False
    with that have j: "j < k" by simp
    then obtain a where "gt_address (gi_tracks g ! gcr_index ds j) = Some a"
        "gt_length (gi_tracks g ! gcr_index ds j) = length (T j)" "a + length (T j) \<le> gcr"
        "take (length (T j)) (drop a (gi_data g)) = T j"
      using assms(1) by (auto simp: placed_def)
    then show ?thesis
      using room gcr(2) other [OF differ [OF j]] piece_before [of a "length (T j)" gcr "gi_data g" "T k"]
      by (simp add: assms(4))
  qed
  moreover have "gi_tracks g' ! p = no_track" if "p < max_tracks" "\<forall>j < Suc k. p \<noteq> gcr_index ds j" for p
    using other [of p] that assms(1) by (auto simp: placed_def)
  moreover have "length (gi_data g') = GCRIMAGE_MAXSIZE" "length (gi_tracks g') = max_tracks" "gi_double_sided g' = ds"
    using room assms(1) by (simp_all add: assms(4) placed_def)
  ultimately show ?thesis
    using gcr(1) assms(3) unfolding placed_def by simp
qed

text \<open>An image whose error bytes are clear.\<close>

definition errors_clear :: "bin_image \<Rightarrow> bool" where
  "errors_clear img \<longleftrightarrow>
     (\<forall>e. bi_errors img = Some e \<longrightarrow> (\<forall>x \<in> set (take (bi_error_size img) (drop e (bi_data img))). x = 0))"

lemma place_tracks:
  assumes "bin_ok img" "errors_clear img" "gcr_coder enc dec" "k \<le> bi_num_tracks img"
    "if bi_double_sided img then bi_num_tracks img \<le> 77 else bi_num_tracks img \<le> 42"
    "placed (bi_double_sided img) T 0 g 0" "T = disk_track enc id1 id2 img geos"
  shows "\<exists>g' gcr. fold (bin2gcr_track enc id1 id2 img geos 0) [0..<k] (g, 0) = (g', gcr) \<and>
    placed (bi_double_sided img) T k g' gcr"
  using assms(4)
proof (induction k)
  case 0
  then show ?case using assms(6) by simp
next
  case (Suc k)
  let ?ds = "bi_double_sided img"
  obtain g' gcr where IH: "fold (bin2gcr_track enc id1 id2 img geos 0) [0..<k] (g, 0) = (g', gcr)"
    "placed ?ds T k g' gcr"
    using Suc by auto
  have k: "k < bi_num_tracks img" using Suc.prems by simp
  then have tables: "bi_track_start img ! k = Some (256 * total_sectors_before_track k ?ds)"
    "bi_track_sectors img ! k = sectors_of ?ds k" "bi_data_size img \<le> length (bi_data img)"
    "256 * total_sectors_before_track k ?ds + 256 * sectors_of ?ds k \<le> bi_data_size img"
    using assms(1) total_next [OF k, of ?ds] by (simp_all add: bin_ok_def)
  have T: "convert_track_bin2gcr enc id1 id2 (of_nat (k + 1)) (track_to_region (int k) ?ds)
      (drop (the (bi_track_start img ! k)) (bi_data img)) (error_bytes img sec) geos 0 = T k" for sec
    unfolding assms(7) by (rule bin2gcr_disk_track [OF tables(1,2)]) (use assms(2) in \<open>simp add: errors_clear_def\<close>)
  have len: "length (T k) \<le> 7692"
  proof -
    have "length (T k) = track_lengths ! track_to_region (int k) ?ds"
      unfolding assms(7) disk_track_def
      by (rule gcr_coder.length_track [OF assms(3) region_below_8])
        (use tables in \<open>simp add: track_data_def\<close>)
    moreover have "track_lengths ! r \<le> 7692" if "r < 8" for r
      using regions [OF that] by (elim disjE) (simp_all add: track_lengths_def)
    ultimately show ?thesis using region_below_8 by simp
  qed
  have small: "if ?ds then k < 77 else k < 42" using k assms(5) by (simp split: if_splits)
  note step = placed_step [OF IH(2) small len refl, of "region_speed_codes ! track_to_region (int k) ?ds"]
  have "fold (bin2gcr_track enc id1 id2 img geos 0) [0..<Suc k] (g, 0) =
      bin2gcr_track enc id1 id2 img geos 0 k (g', gcr)"
    by (simp add: IH(1))
  also have "\<dots> = (g'\<lparr>gi_data := blit gcr (T k) (gi_data g'), gi_tracks := (gi_tracks g')[gcr_index ?ds k :=
        (gi_tracks g' ! gcr_index ?ds k)\<lparr>gt_address := Some gcr, gt_length := length (T k),
          gt_speed := region_speed_codes ! track_to_region (int k) ?ds, gt_used := True\<rparr>]\<rparr>, gcr + length (T k))"
    by (simp add: bin2gcr_track_def Let_def T [simplified])
  finally show ?case using step by blast
qed

section \<open>Blank tracks\<close>

definition made :: "bool \<Rightarrow> (nat \<Rightarrow> byte list) \<Rightarrow> nat \<Rightarrow> gcr_image \<Rightarrow> bool" where
  "made ds T n g \<longleftrightarrow> gi_double_sided g = ds \<and>
     (\<forall>j < n. gt_address (gi_tracks g ! gcr_index ds j) \<noteq> None \<and>
        track_bytes g (gi_tracks g ! gcr_index ds j) = T j) \<and>
     (\<forall>p < max_tracks. (\<forall>j < n. p \<noteq> gcr_index ds j) \<longrightarrow> gt_address (gi_tracks g ! p) = None \<or>
        0xFF \<notin> set (track_bytes g (gi_tracks g ! p)))"

lemma piece_inside:
  assumes "i \<le> a" "a + n \<le> i + length src" "i \<le> length d"
  shows "take n (drop a (blit i src d)) = take n (drop (a - i) src)"
  using assms by (simp add: blit_def)

lemma made_blank:
  assumes "placed ds T n g gcr" "gcr \<le> GCRIMAGE_MAXSIZE"
  shows "made ds T n (add_blank_tracks gcr g)"
proof -
  obtain ts' gcr' where r: "add_blank_tracks gcr g = g\<lparr>gi_tracks := ts',
      gi_data := blit gcr (replicate (gcr' - gcr) 0) (gi_data g)\<rparr>" "blank_inv gcr (gi_tracks g) (ts', gcr')"
    by (rule add_blank [OF assms(2)])
  have len: "length (gi_data g) = GCRIMAGE_MAXSIZE" "length (gi_tracks g) = max_tracks" "gi_double_sided g = ds"
    using assms(1) by (simp_all add: placed_def)
  let ?g = "add_blank_tracks gcr g"
  have "gt_address (gi_tracks ?g ! gcr_index ds j) \<noteq> None \<and>
      track_bytes ?g (gi_tracks ?g ! gcr_index ds j) = T j" if j: "j < n" for j
  proof -
    obtain a where a: "gt_address (gi_tracks g ! gcr_index ds j) = Some a"
        "gt_length (gi_tracks g ! gcr_index ds j) = length (T j)" "a + length (T j) \<le> gcr"
        "take (length (T j)) (drop a (gi_data g)) = T j"
      using assms(1) j by (auto simp: placed_def)
    have "ts' ! gcr_index ds j = gi_tracks g ! gcr_index ds j"
      using r(2) a(1) gcr_index_below [of j ds] len(2) by (simp add: blank_inv_def)
    then show ?thesis
      using a len(1) assms(2) by (simp add: r(1) track_bytes_def piece_before)
  qed
  moreover have "gt_address (gi_tracks ?g ! p) = None \<or> 0xFF \<notin> set (track_bytes ?g (gi_tracks ?g ! p))"
    if p: "p < max_tracks" "\<forall>j < n. p \<noteq> gcr_index ds j" for p
  proof (cases "gt_address (ts' ! p)")
    case (Some a)
    have "gt_address (gi_tracks g ! p) = None" using assms(1) p by (simp add: placed_def no_track_def)
    then have a: "gcr \<le> a" "a + gt_length (ts' ! p) \<le> gcr'"
      using r(2) p(1) len(2) Some by (simp_all add: blank_inv_def)
    have "take (gt_length (ts' ! p)) (drop a (blit gcr (replicate (gcr' - gcr) 0) (gi_data g))) =
        take (gt_length (ts' ! p)) (drop (a - gcr) (replicate (gcr' - gcr) 0))"
      by (rule piece_inside) (use a len(1) assms(2) in simp_all)
    then show ?thesis by (auto simp: r(1) track_bytes_def Some dest!: in_set_takeD in_set_dropD)
  qed (simp add: r(1))
  ultimately show ?thesis using len(3) by (simp add: made_def r(1))
qed

section \<open>Reading a track back\<close>

text \<open>Without a sync there is nothing to read.\<close>

lemma no_sync: "0xFF \<notin> set g \<Longrightarrow> find_sync_from g w 0 p = None"
proof (induction g w "0 :: nat" p rule: find_sync_from.induct)
  case (1 g w p)
  show ?case
    by (subst find_sync_from.simps) (use 1 in \<open>auto simp: in_set_conv_nth\<close>)
qed

definition seg :: "bool \<Rightarrow> nat \<Rightarrow> byte list \<Rightarrow> byte list" where
  "seg ds i d = take (256 * sectors_of ds i) (drop (256 * total_sectors_before_track i ds) d)"

lemma length_seg:
  "i < n \<Longrightarrow> 256 * total_sectors_before_track n ds \<le> length d \<Longrightarrow> length (seg ds i d) = 256 * sectors_of ds i"
  using total_next [of i n ds] by (simp add: seg_def)

lemma seg_blit:
  assumes "i < n" "j < n" "256 * total_sectors_before_track n ds \<le> length d" "length src = 256 * sectors_of ds j"
  shows "seg ds i (blit (256 * total_sectors_before_track j ds) src d) = (if i = j then src else seg ds i d)"
proof -
  have j: "256 * total_sectors_before_track j ds + length src \<le> length d"
    using total_next [OF assms(2), of ds] assms(3,4) by simp
  consider "i = j" | "i < j" | "j < i" by linarith
  then show ?thesis
  proof cases
    case 1
    then show ?thesis using j assms(4) piece_at [of "256 * total_sectors_before_track j ds" d src] by (simp add: seg_def)
  next
    case 2
    then show ?thesis
      using total_next [OF 2, of ds] j piece_before [of "256 * total_sectors_before_track i ds" "256 * sectors_of ds i"
          "256 * total_sectors_before_track j ds" d src]
      by (simp add: seg_def)
  next
    case 3
    then show ?thesis
      using total_next [OF 3, of ds] j assms(4) piece_behind [of "256 * total_sectors_before_track j ds" src
          "256 * total_sectors_before_track i ds" d]
      by (simp add: seg_def)
  qed
qed

lemma segs: "256 * total_sectors_before_track n ds \<le> length d \<Longrightarrow>
    take (256 * total_sectors_before_track n ds) d = concat (map (\<lambda>i. seg ds i d) [0..<n])"
proof (induction n)
  case (Suc n)
  then show ?case
    using take_add [of "256 * total_sectors_before_track n ds" "256 * sectors_of ds n" d]
    by (simp add: total_Suc seg_def)
qed simp

lemma seg_update:
  assumes "i < n" "256 * total_sectors_before_track n ds \<le> x"
  shows "seg ds i (d[x := v]) = seg ds i d"
proof -
  have "256 * total_sectors_before_track i ds + 256 * sectors_of ds i \<le> x"
    using total_next [OF assms(1), of ds] assms(2) by simp
  then show ?thesis unfolding seg_def by (rule piece_update)
qed

text \<open>Storing results without an error leaves the tracks alone.\<close>

lemma store_no_errors:
  assumes "\<forall>e. bi_errors img = Some e \<longrightarrow> 256 * total_sectors_before_track n ds \<le> e"
  shows "\<exists>d. store_errors (length ss) off (concat (map (\<lambda>s. [s, 0]) ss)) img c = Some (img\<lparr>bi_data := d\<rparr>, c) \<and>
    length d = length (bi_data img) \<and> (\<forall>i < n. seg ds i d = seg ds i (bi_data img))"
  using assms
proof (induction ss arbitrary: img)
  case Nil
  have "img = img\<lparr>bi_data := bi_data img\<rparr>" by simp
  then show ?case by (metis concat.simps(1) list.map(1) list.size(3) store_errors.simps(1))
next
  case (Cons s ss)
  define img' where "img' = (case bi_errors img of None \<Rightarrow> img
          | Some e \<Rightarrow> if off + unat s < bi_error_size img
              then img\<lparr>bi_data := (bi_data img)[e + off + unat s := 0]\<rparr> else img)"
  have img': "bi_errors img' = bi_errors img" "length (bi_data img') = length (bi_data img)"
    "img'\<lparr>bi_data := d\<rparr> = img\<lparr>bi_data := d\<rparr>" "\<forall>i < n. seg ds i (bi_data img') = seg ds i (bi_data img)" for d
    using Cons.prems by (auto simp: img'_def seg_update split: option.split)
  have "\<forall>e. bi_errors img' = Some e \<longrightarrow> 256 * total_sectors_before_track n ds \<le> e"
    using Cons.prems by (simp add: img'(1))
  from Cons.IH [OF this] show ?case
    by (auto simp: img' Let_def img'_def [symmetric])
qed

text \<open>The binary image that is written, with the tracks \<open>0..<N\<close> in place.\<close>

lemma bin_ok_data: "bin_ok out \<Longrightarrow> length d = length (bi_data out) \<Longrightarrow> bin_ok (out\<lparr>bi_data := d\<rparr>)"
  by (auto simp: bin_ok_def tables_ok_def)

lemma read_blank:
  assumes "0xFF \<notin> set (track_bytes g (gi_tracks g ! pt))"
  obtains r where "bin_write_track no_file dec pt g None c out = Some (Some r)" "tw_image r = out"
    "tw_errors r = c" "tw_secs r = 0"
proof -
  have scan: "convert_gcr_track_to_bin dec (track_bytes g (gi_tracks g ! pt)) t n bin h l =
      Some (Some \<lparr>gs_current = 0, gs_secs = 0, gs_expect = False, gs_wrapped = False, gs_status = [],
        gs_statlen = l, gs_dest = 0, gs_bin = bin\<rparr>)" for t n bin h l
    using no_sync [OF assms] unfolding convert_gcr_track_to_bin_def
    by (subst scan_loop.simps) (simp add: scan_step_def find_sync_def)
  have "\<exists>r. bin_write_track no_file dec pt g None c out = Some (Some r) \<and> tw_image r = out \<and> tw_errors r = c \<and> tw_secs r = 0"
    by (cases "bi_track_start out ! nat (gcr_track_to_bin_track (int pt))")
      (simp_all add: bin_write_track_def Let_def scan)
  then show ?thesis using that by blast
qed

lemma read_track:
  assumes "gcr_coder enc dec" "bin_ok out" "bi_double_sided out = ds" "j < bi_num_tracks out"
    "if ds then j < 77 else j < 42" "gt_address (gi_tracks g ! gcr_index ds j) \<noteq> None"
    "track_bytes g (gi_tracks g ! gcr_index ds j) =
      convert_track_bin2gcr enc id1 id2 (of_nat (j + 1)) (track_to_region (int j) ds) bin None geos 0"
    "length bin = 256 * sectors_of ds j"
  obtains r d where "bin_write_track no_file dec (gcr_index ds j) g None c out = Some (Some r)"
    "tw_image r = out\<lparr>bi_data := d\<rparr>" "tw_errors r = c" "tw_secs r = sectors_of ds j"
    "length d = length (bi_data out)"
    "\<forall>i < bi_num_tracks out. seg ds i d = (if i = j then bin else seg ds i (bi_data out))"
proof -
  let ?n = "bi_num_tracks out" and ?start = "256 * total_sectors_before_track j ds" and ?k = "sectors_of ds j"
  have out: "bi_track_start out ! j = Some ?start" "bi_track_sectors out ! j = ?k"
    "256 * total_sectors_before_track ?n ds \<le> length (bi_data out)"
    "\<forall>e. bi_errors out = Some e \<longrightarrow> 256 * total_sectors_before_track ?n ds \<le> e"
    using assms(2,3,4) by (auto simp: bin_ok_def)
  have fits: "?start + 256 * ?k \<le> length (bi_data out)"
    using total_next [OF assms(4), of ds] out(3) by simp
  then have fits': "256 * ?k \<le> length (drop ?start (bi_data out))" by simp
  have lt: "nat (gcr_track_to_bin_track (int (gcr_index ds j))) = j"
    by (rule gcr_index_inverse [OF assms(5)])
  have j: "unat (of_nat (j + 1) :: byte) = j + 1"
    using assms(5) by (simp only: unat_of_nat) (simp split: if_splits)
  have k: "?k \<le> 21"
    using regions [OF region_below_8 [of "int j" ds]] by (elim disjE) (simp_all add: sectors_per_track_def)
  obtain st where st: "convert_gcr_track_to_bin dec (track_bytes g (gi_tracks g ! gcr_index ds j)) (j + 1) ?k
      (drop ?start (bi_data out)) True 64 = Some (Some st)"
    "gs_secs st = ?k" "gs_bin st = bin @ drop (256 * ?k) (drop ?start (bi_data out))"
    "gs_status st = take 64 (concat (map (\<lambda>s. [of_nat s, 0]) [0..<?k]))"
    using gcr_coder.track_roundtrip [OF assms(1) region_below_8 assms(8) fits', of id1 id2 "of_nat (j + 1)" geos True 64,
        folded assms(7), unfolded j assms(8)] by auto
  have "length (concat (map (\<lambda>s. [of_nat s, 0 :: byte]) [0..<m])) = 2 * m" for m
    by (induction m) simp_all
  then have status: "gs_status st = concat (map (\<lambda>s. [s, 0]) (map of_nat [0..<?k]))"
    using st(4) k by (simp add: comp_def)
  define out1 where "out1 = out\<lparr>bi_data := blit ?start bin (bi_data out)\<rparr>"
  have data1: "take ?start (bi_data out) @ gs_bin st = bi_data out1"
    using fits assms(8) by (simp add: st(3) out1_def blit_def add.commute)
  define off where "off = (if bi_errors out = None then 0 else total_sectors_before_track j (bi_double_sided out))"
  have e1: "\<forall>e. bi_errors out1 = Some e \<longrightarrow> 256 * total_sectors_before_track ?n ds \<le> e"
    using out(4) by (simp add: out1_def)
  obtain d where d: "store_errors ?k off (gs_status st) out1 c = Some (out1\<lparr>bi_data := d\<rparr>, c)"
    "length d = length (bi_data out1)" "\<forall>i < ?n. seg ds i d = seg ds i (bi_data out1)"
    using store_no_errors [OF e1, of "map of_nat [0..<?k]" off c] unfolding status by auto
  define r where "r = \<lparr>tw_result = Inl 0, tw_image = out\<lparr>bi_data := d\<rparr>, tw_errors = c, tw_secs = ?k,
      tw_file = None :: unit option\<rparr>"
  have out1': "out\<lparr>bi_data := take ?start (bi_data out) @ gs_bin st\<rparr> = out1"
    using data1 by (simp add: out1_def)
  define pt where "pt = gcr_index ds j"
  have scan: "convert_gcr_track_to_bin dec (track_bytes g (gi_tracks g ! pt)) (j + 1) ?k
      (drop ?start (bi_data out)) True 64 = Some (Some st)" "gt_address (gi_tracks g ! pt) \<noteq> None"
    using st(1) assms(6) by (simp_all add: pt_def)
  have "bin_write_track no_file dec pt g None c out = Some (Some r)"
    unfolding bin_write_track_def Let_def lt [folded pt_def] out(1,2) option.case off_def [symmetric]
      scan(1) st(2) out1' d(1) if_not_P [OF scan(2)]
    by (simp add: r_def out1_def)
  moreover have "length d = length (bi_data out)"
    using d(2) fits assms(8) by (simp add: out1_def)
  moreover have "\<forall>i < ?n. seg ds i d = (if i = j then bin else seg ds i (bi_data out))"
    using d(3) seg_blit [OF _ assms(4) out(3) assms(8)] by (simp add: out1_def)
  ultimately show ?thesis using that [of r d] by (simp add: r_def pt_def)
qed

section \<open>The whole disk\<close>

lemma read_all:
  assumes "gcr_coder enc dec" "bin_ok out" "bi_double_sided out = ds" "n \<le> bi_num_tracks out"
    "if ds then n \<le> 77 else n \<le> 42" "distinct pts" "\<forall>pt \<in> set pts. pt < max_tracks"
    "made ds T n g"
    "\<forall>j < n. T j = convert_track_bin2gcr enc id1 id2 (of_nat (j + 1)) (track_to_region (int j) ds) (B j) None geos 0 \<and>
       length (B j) = 256 * sectors_of ds j"
  shows "\<exists>d. gcr2bin_tracks dec g pts (out, c, v) =
      Some (Some (out\<lparr>bi_data := d\<rparr>, c, v + card {j. j < n \<and> gcr_index ds j \<in> set pts})) \<and>
    length d = length (bi_data out) \<and>
    (\<forall>i < bi_num_tracks out. seg ds i d =
      (if i < n \<and> gcr_index ds i \<in> set pts then B i else seg ds i (bi_data out)))"
  using assms(2,3,4,6,7)
proof (induction pts arbitrary: out v)
  case Nil
  have "out = out\<lparr>bi_data := bi_data out\<rparr>" by simp
  then show ?case by (intro exI [of _ "bi_data out"]) simp
next
  case (Cons pt pts)
  have pt: "pt < max_tracks" "pt \<notin> set pts" "distinct pts" "\<forall>p \<in> set pts. p < max_tracks" using Cons.prems by simp_all
  consider (real) j where "j < n" "pt = gcr_index ds j" | (blank) "\<forall>j < n. pt \<noteq> gcr_index ds j" by blast
  then show ?case
  proof cases
    case real
    have j: "j < bi_num_tracks out" "if ds then j < 77 else j < 42"
      using real Cons.prems(3) assms(5) by (auto split: if_splits)
    have g: "gt_address (gi_tracks g ! gcr_index ds j) \<noteq> None" "track_bytes g (gi_tracks g ! gcr_index ds j) =
      convert_track_bin2gcr enc id1 id2 (of_nat (j + 1)) (track_to_region (int j) ds) (B j) None geos 0"
      "length (B j) = 256 * sectors_of ds j"
      using assms(8,9) real(1) by (simp_all add: made_def)
    obtain r d where r: "bin_write_track no_file dec (gcr_index ds j) g None c out = Some (Some r)"
      "tw_image r = out\<lparr>bi_data := d\<rparr>" "tw_errors r = c" "tw_secs r = sectors_of ds j"
      "length d = length (bi_data out)"
      "\<forall>i < bi_num_tracks out. seg ds i d = (if i = j then B j else seg ds i (bi_data out))"
      by (rule read_track [OF assms(1) Cons.prems(1,2) j g])
    have pos: "0 < sectors_of ds j"
      using regions [OF region_below_8 [of "int j" ds]] by (elim disjE) (simp_all add: sectors_per_track_def)
    obtain d' where d': "gcr2bin_tracks dec g pts (out\<lparr>bi_data := d\<rparr>, c, v + 1) =
      Some (Some (out\<lparr>bi_data := d'\<rparr>, c, v + 1 + card {j. j < n \<and> gcr_index ds j \<in> set pts}))"
      "length d' = length (bi_data out)"
      "\<forall>i < bi_num_tracks out. seg ds i d' = (if i < n \<and> gcr_index ds i \<in> set pts then B i else seg ds i d)"
      using Cons.IH [OF bin_ok_data [OF Cons.prems(1) r(5)], of "v + 1"] Cons.prems(2,3) pt r(5) by auto
    have inj: "i = j" if "i < n" "gcr_index ds i = gcr_index ds j" for i
      using gcr_index_inj [where ds = ds and i = i and j = j] that real(1) assms(5) by (auto split: if_splits)
    have "{i. i < n \<and> gcr_index ds i \<in> set (pt # pts)} = insert j {i. i < n \<and> gcr_index ds i \<in> set pts}"
      using inj real by auto
    moreover have "j \<notin> {i. i < n \<and> gcr_index ds i \<in> set pts}" "finite {i. i < n \<and> gcr_index ds i \<in> set pts}"
      using pt(2) real by auto
    ultimately have card: "card {i. i < n \<and> gcr_index ds i \<in> set (pt # pts)} =
      Suc (card {i. i < n \<and> gcr_index ds i \<in> set pts})" by simp
    have "gcr2bin_tracks dec g (pt # pts) (out, c, v) = gcr2bin_tracks dec g pts (out\<lparr>bi_data := d\<rparr>, c, v + 1)"
      using g(1) r(1-4) pos by (auto simp: real(2))
    then show ?thesis
      using d' card r(6) pt(2) inj real by (intro exI [of _ d']) auto
  next
    case blank
    have "gcr2bin_tracks dec g (pt # pts) (out, c, v) = gcr2bin_tracks dec g pts (out, c, v)"
    proof (cases "gt_address (gi_tracks g ! pt) = None")
      case False
      then have clean: "0xFF \<notin> set (track_bytes g (gi_tracks g ! pt))" using assms(8) blank pt(1) by (auto simp: made_def)
      obtain r where "bin_write_track no_file dec pt g None c out = Some (Some r)" "tw_image r = out"
        "tw_errors r = c" "tw_secs r = 0"
        by (rule read_blank [OF clean])
      then show ?thesis using False by simp
    qed simp
    moreover have "{j. j < n \<and> gcr_index ds j \<in> set (pt # pts)} = {j. j < n \<and> gcr_index ds j \<in> set pts}"
      using blank by auto
    ultimately show ?thesis
      using Cons.IH [OF Cons.prems(1,2,3) pt(3,4), of v] blank by auto
  qed
qed

lemma init_target:
  assumes "tables_ok out" "ds = True \<and> sz = C1541_D71_SIZE_WITH_ERRORS \<or> ds = False \<and> sz = C1541_MAX_D64_40_WITH_ERRORS"
    "sz \<le> length (bi_data out)"
  obtains out0 where "init sz out = (0, out0)" "bin_ok out0" "bi_double_sided out0 = ds"
    "bi_num_tracks out0 = (if ds then 70 else 40)" "bi_data out0 = bi_data out"
proof -
  have sz: "C1541_MAX_D64_35_NO_ERRORS \<le> sz"
    using assms(2) by (auto simp: C1541_D71_SIZE_WITH_ERRORS_def C1541_MIN_D71_SIZE_def C1541_MAX_D64_35_NO_ERRORS_def
        C1541_MAX_D64_40_WITH_ERRORS_def)
  obtain out0 where o: "init sz out = (0, out0)" using init_accepts [OF sz] by blast
  note ok = bin_init_ok [OF assms(1,3) o]
  have ds: "bi_double_sided out0 = ds"
    using ok(5) assms(2) by (auto simp: C1541_D71_SIZE_WITH_ERRORS_def C1541_MIN_D71_SIZE_def
        C1541_MAX_D64_35_NO_ERRORS_def C1541_MAX_D64_40_WITH_ERRORS_def)
  have "bi_num_tracks out0 = (if ds then 70 else 40)"
    using o sz assms(2) ds
    by (auto simp: init_def Let_def C1541_D71_SIZE_WITH_ERRORS_def C1541_MIN_D71_SIZE_def more_tracks.simps
        C1541_MAX_D64_35_NO_ERRORS_def C1541_MAX_D64_40_WITH_ERRORS_def BINIMAGE_MAXTRACKS_def)
  with that o ok(1,6) ds show ?thesis by blast
qed

lemma cleared:
  assumes "bin_ok img"
  defines "img' \<equiv> (case bi_errors img of None \<Rightarrow> img
                  | Some e \<Rightarrow> img\<lparr>bi_data := blit e (replicate (bi_error_size img) 0) (bi_data img)\<rparr>)"
  shows "bin_ok img'" "errors_clear img'" "bi_double_sided img' = bi_double_sided img"
    "bi_num_tracks img' = bi_num_tracks img" "take (bi_data_size img) (bi_data img') = take (bi_data_size img) (bi_data img)"
    "bi_data_size img' = bi_data_size img"
proof -
  have e: "bi_data_size img \<le> e \<and> e + bi_error_size img \<le> length (bi_data img) \<and> e \<le> length (bi_data img)"
    if "bi_errors img = Some e" for e
    using assms(1) that by (auto simp: bin_ok_def)
  show "bin_ok img'"
  proof (cases "bi_errors img")
    case (Some err)
    then have "length (blit err (replicate (bi_error_size img) 0) (bi_data img)) = length (bi_data img)" using e by simp
    then show ?thesis using bin_ok_data [OF assms(1)] Some by (simp add: img'_def)
  qed (use assms(1) in \<open>simp add: img'_def\<close>)
  show "errors_clear img'"
    using e piece_at [of _ "bi_data img" "replicate (bi_error_size img) 0"]
    by (auto simp: img'_def errors_clear_def split: option.split )
  show "take (bi_data_size img) (bi_data img') = take (bi_data_size img) (bi_data img)"
    using e piece_before [of 0 "bi_data_size img"] by (auto simp: img'_def split: option.split)
qed (auto simp: img'_def split: option.split)

lemma disk_back:
  assumes "gcr_coder enc dec" "bin_ok img" "bi_num_tracks img \<le> (if bi_double_sided img then 70 else 40)"
    "length (gi_data g) = GCRIMAGE_MAXSIZE" "tables_ok out"
    "(if bi_double_sided img then C1541_D71_SIZE_WITH_ERRORS else C1541_MAX_D64_40_WITH_ERRORS) \<le> length (bi_data out)"
  shows "\<exists>img'. convert_disk_gcr2bin dec (snd (convert_disk_bin2gcr enc img geos False 0 g)) out = Some (Some (img', 0)) \<and>
    bi_num_tracks img' = bi_num_tracks img \<and> bi_double_sided img' = bi_double_sided img \<and>
    take (bi_data_size img) (bi_data img') = take (bi_data_size img) (bi_data img)"
proof -
  let ?ds = "bi_double_sided img" and ?n = "bi_num_tracks img"
  define img1 where "img1 = (case bi_errors img of None \<Rightarrow> img
                  | Some e \<Rightarrow> img\<lparr>bi_data := blit e (replicate (bi_error_size img) 0) (bi_data img)\<rparr>)"
  note img1 = cleared [OF assms(2), folded img1_def]
  let ?id1 = "bi_data img ! 91554" and ?id2 = "bi_data img ! 91555"
  let ?T = "disk_track enc ?id1 ?id2 img1 geos"
  define g0 where "g0 = (invalidate g)\<lparr>gi_double_sided := ?ds\<rparr>"
  have small: "if ?ds then ?n \<le> 77 else ?n \<le> 42" using assms(3) by (simp split: if_splits)
  have "placed ?ds ?T 0 g0 0" using assms(4) by (simp add: placed_def g0_def invalidate_def)
  then obtain g1 gcr where g1: "fold (bin2gcr_track enc ?id1 ?id2 img1 geos 0) [0..<?n] (g0, 0) = (g1, gcr)"
    "placed ?ds ?T ?n g1 gcr"
    using place_tracks [OF img1(1,2) assms(1), of ?n ?T g0 ?id1 ?id2 geos] small img1(3,4) by auto
  define G where "G = add_blank_tracks gcr g1"
  have conv: "snd (convert_disk_bin2gcr enc img geos False 0 g) = G"
    using g1(1) img1(4) by (simp add: convert_disk_bin2gcr_def Let_def g0_def [symmetric] img1_def [symmetric] G_def)
  have "?n \<le> 80" using small by (simp split: if_splits)
  then have "gcr \<le> GCRIMAGE_MAXSIZE"
    using g1(2) by (simp add: placed_def GCRIMAGE_MAXSIZE_def GCRIMAGE_MAXTRACKLEN_def GCRIMAGE_MAXUSEDTRACKS_def
        GCRIMAGE_MAXMETADATA_def)
  then have made: "made ?ds ?T ?n G" unfolding G_def by (rule made_blank [OF g1(2)])
  define sz where "sz = (if ?ds then C1541_D71_SIZE_WITH_ERRORS else C1541_MAX_D64_40_WITH_ERRORS)"
  obtain out0 where out0: "init sz out = (0, out0)" "bin_ok out0" "bi_double_sided out0 = ?ds"
    "bi_num_tracks out0 = (if ?ds then 70 else 40)" "bi_data out0 = bi_data out"
    by (rule init_target [OF assms(5), of ?ds sz]) (use assms(6) in \<open>auto simp: sz_def\<close>)
  have data: "256 * total_sectors_before_track ?n ?ds = bi_data_size img" "bi_data_size img \<le> length (bi_data img1)"
    using img1(1,6) assms(2) by (simp_all add: bin_ok_def)
  have B: "track_data img1 j = seg ?ds j (bi_data img1)" if "j < ?n" for j
    using img1(1,3,4) that by (simp add: bin_ok_def track_data_def seg_def)
  have T: "\<forall>j < ?n. ?T j = convert_track_bin2gcr enc ?id1 ?id2 (of_nat (j + 1)) (track_to_region (int j) ?ds)
        (seg ?ds j (bi_data img1)) None geos 0 \<and> length (seg ?ds j (bi_data img1)) = 256 * sectors_of ?ds j"
    using B data length_seg [of _ ?n ?ds "bi_data img1"] by (simp add: disk_track_def img1(3))
  have le: "?n \<le> bi_num_tracks out0" using assms(3) out0(4) by simp
  have all: "{j. j < ?n \<and> gcr_index ?ds j \<in> set [0..<max_tracks]} = {..<?n}" using gcr_index_below by auto
  obtain d where d: "gcr2bin_tracks dec G [0..<max_tracks] (out0, 0, 0) = Some (Some (out0\<lparr>bi_data := d\<rparr>, 0, ?n))"
    "length d = length (bi_data out0)" "\<forall>i < ?n. seg ?ds i d = seg ?ds i (bi_data img1)"
    using read_all [OF assms(1) out0(2,3) le small _ _ made T, of "[0..<max_tracks]" 0 0] gcr_index_below le
    unfolding all by auto
  have "bi_data_size img \<le> length d"
    using d(2) le out0(2,3) total_mono [OF le, of ?ds] data(1) by (simp add: bin_ok_def)
  then have "take (bi_data_size img) d = take (bi_data_size img) (bi_data img1)"
  proof -
    have "map (\<lambda>i. seg ?ds i d) [0..<?n] = map (\<lambda>i. seg ?ds i (bi_data img1)) [0..<?n]" using d(3) by simp
    then have "concat (map (\<lambda>i. seg ?ds i d) [0..<?n]) = concat (map (\<lambda>i. seg ?ds i (bi_data img1)) [0..<?n])"
      by (rule arg_cong)
    then show ?thesis
      using \<open>bi_data_size img \<le> length d\<close> segs [of ?n ?ds d] segs [of ?n ?ds "bi_data img1"] data by simp
  qed
  moreover have "gi_double_sided G = ?ds" using made by (simp add: made_def)
  ultimately show ?thesis
    using d(1) out0(1,3) img1(5) unfolding conv
    by (simp add: convert_disk_gcr2bin_def Let_def sz_def [symmetric])
qed

text \<open>C6: A disk that is converted to group code and back is the same disk: the same number of tracks, the
  same side count and the same sectors, without an error.\<close>

theorem disk_roundtrip:
  assumes "gcr_coder enc dec" "bin_ok img" "bi_num_tracks img \<le> (if bi_double_sided img then 70 else 40)"
    "length (gi_data g) = GCRIMAGE_MAXSIZE" "tables_ok out"
    "(if bi_double_sided img then C1541_D71_SIZE_WITH_ERRORS else C1541_MAX_D64_40_WITH_ERRORS) \<le> length (bi_data out)"
  shows "\<exists>img'. convert_disk_gcr2bin dec (snd (convert_disk_bin2gcr enc img geos False 0 g)) out = Some (Some (img', 0)) \<and>
    bi_num_tracks img' = bi_num_tracks img \<and> bi_double_sided img' = bi_double_sided img \<and>
    take (bi_data_size img) (bi_data img') = take (bi_data_size img) (bi_data img)"
  by (rule disk_back [OF assms])

lemma disk_roundtrip_witness:
  "\<exists>img'. convert_disk_gcr2bin table_decode (snd (convert_disk_bin2gcr table_encode sample_disk True False 0 new_gcr_image))
      (new_bin_image (\<lambda>n. replicate n 0) 40) = Some (Some (img', 0)) \<and> bi_num_tracks img' = 35"
proof -
  have len: "length (bi_data (new_bin_image (\<lambda>n. replicate n x) 40)) = 197376" for x by (rule new_image(2)) simp
  obtain img where img: "init C1541_MAX_D64_35_NO_ERRORS (new_bin_image (\<lambda>n. replicate n 0x11) 40) = (0, img)"
    using init_accepts [OF order_refl] by blast
  then have s: "sample_disk = img" by (simp add: sample_disk_def)
  have size: "C1541_MAX_D64_35_NO_ERRORS \<le> length (bi_data (new_bin_image (\<lambda>n. replicate n 0x11) 40))"
    unfolding len by (simp add: C1541_MAX_D64_35_NO_ERRORS_def)
  note ok = bin_init_ok [OF new_image(1) size img]
  have single: "\<not> bi_double_sided img" "bi_num_tracks img = 35"
    using ok(5) img by (auto simp: C1541_MIN_D71_SIZE_def C1541_MAX_D64_35_NO_ERRORS_def init_def Let_def more_tracks.simps)
  have "length (gi_data new_gcr_image) = GCRIMAGE_MAXSIZE" by (simp add: new_gcr_image_def invalidate_def)
  then show ?thesis
    using disk_roundtrip [OF table.gcr_coder_axioms ok(1), of new_gcr_image "new_bin_image (\<lambda>n. replicate n 0) 40" True]
      single new_image(1) len by (auto simp: s C1541_MAX_D64_40_WITH_ERRORS_def)
qed

end
