(* ===== verification/Cbm_Layout.thy ===== *)
theory Cbm_Layout
  imports Prelude
begin

text \<open>
  Tracks and sectors of a Commodore disk, \<^verbatim>\<open>software/filesystem/filesystem_d64.cc\<close>: the number of a
  sector on the medium from its track and sector, and back, by the layout table of the file system.
  The table is a list of pairs (number of tracks, sectors per track); the last pair has a negative
  number and stands for all the tracks that follow.
\<close>

type_synonym layout = "(int \<times> int) list"

definition layout_d64 :: layout where "layout_d64 = [(17, 21), (7, 19), (6, 18), (-1, 17)]"
definition layout_d71 :: layout where
  "layout_d71 = [(17, 21), (7, 19), (6, 18), (5, 17), (17, 21), (7, 19), (6, 18), (-1, 17)]"
definition layout_d81 :: layout where "layout_d81 = [(-1, 40)]"
definition layout_dnp :: layout where "layout_dnp = [(-1, 256)]"

text \<open>The pair a track (from 0) falls into: how many sectors its tracks have.  (A table always ends in a
  negative pair, so the empty one is never reached.)\<close>

fun sectors_from :: "layout \<Rightarrow> int \<Rightarrow> int" where
  "sectors_from ((n, s) # m) track = (if n \<ge> 1 \<and> track \<ge> n then sectors_from m (track - n) else s)"
| "sectors_from [] track = 0"

definition get_sectors_in_track :: "layout \<Rightarrow> int \<Rightarrow> int" where
  "get_sectors_in_track layout track = (if track < 1 then 0 else sectors_from layout (track - 1))"

text \<open>The number of the first sector of the track plus \<open>result\<close>, with the sectors of the track.\<close>

fun abs_from :: "layout \<Rightarrow> int \<Rightarrow> int \<Rightarrow> int \<times> int" where
  "abs_from ((n, s) # m) track result =
     (if n < 1 then (result + track * s, s)
      else if track \<ge> n then abs_from m (track - n) (result + n * s)
      else (result + track * s, s))"
| "abs_from [] track result = (result, 0)"

definition get_abs_sector :: "layout \<Rightarrow> int \<Rightarrow> int \<Rightarrow> int \<Rightarrow> int" where
  "get_abs_sector layout num_sectors track sector =
     (if track \<le> 0 then - 1
      else case abs_from layout (track - 1) sector of
             (result, s) \<Rightarrow> if sector \<ge> s then - 1 else if result \<ge> num_sectors then - 1 else result)"

fun track_from :: "layout \<Rightarrow> int \<Rightarrow> int \<Rightarrow> int \<times> int" where
  "track_from ((n, s) # m) abs' track =
     (let t = abs' div s
      in if n < 1 then (track + t, abs' - t * s)
         else if abs' \<ge> n * s then track_from m (abs' - n * s) (track + n)
         else (track + t, abs' - t * s))"
| "track_from [] abs' track = (track, abs')"

definition get_track_sector :: "layout \<Rightarrow> int \<Rightarrow> int \<Rightarrow> (int \<times> int) option" where
  "get_track_sector layout num_sectors abs' =
     (if abs' < 0 \<or> abs' \<ge> num_sectors then None else Some (track_from layout abs' 1))"

definition get_num_tracks :: "layout \<Rightarrow> int \<Rightarrow> int" where
  "get_num_tracks layout num_sectors =
     (case get_track_sector layout num_sectors (num_sectors - 1) of None \<Rightarrow> 0 | Some (track, _) \<Rightarrow> track)"

section \<open>The two directions\<close>

fun layout_ok :: "layout \<Rightarrow> bool" where
  "layout_ok [] \<longleftrightarrow> False"
| "layout_ok ((n, s) # m) \<longleftrightarrow> 0 < s \<and> (n < 1 \<or> layout_ok m)"

lemma layouts_ok: "layout_ok layout_d64" "layout_ok layout_d71" "layout_ok layout_d81" "layout_ok layout_dnp"
  by (simp_all add: layout_d64_def layout_d71_def layout_d81_def layout_dnp_def)

lemma abs_from_sectors: "snd (abs_from m t r) = sectors_from m t"
  by (induction m t r rule: abs_from.induct) auto

lemma abs_from_add: "fst (abs_from m t (r + d)) = fst (abs_from m t r) + d"
  by (induction m t r arbitrary: d rule: abs_from.induct) (simp_all add: algebra_simps)

lemma abs_from_nonneg: "layout_ok m \<Longrightarrow> 0 \<le> t \<Longrightarrow> 0 \<le> r \<Longrightarrow> r \<le> fst (abs_from m t r)"
proof (induction m t r rule: abs_from.induct)
  case (1 n s m t r)
  then show ?case by (cases "t \<ge> n") (auto intro: order_trans [of r "r + n * s"])
qed simp

lemma track_from_abs:
  "layout_ok m \<Longrightarrow> 0 \<le> a \<Longrightarrow> track_from m a t0 = (t, s) \<Longrightarrow>
    t0 \<le> t \<and> 0 \<le> s \<and> s < sectors_from m (t - t0) \<and> fst (abs_from m (t - t0) s) = a"
proof (induction m a t0 rule: track_from.induct)
  case (1 n k m a t0)
  have k: "0 < k" using 1(2) by simp
  have div: "a div k * k \<le> a" "a - a div k * k < k" "0 \<le> a div k"
    using k 1(3) minus_mod_eq_div_mult [of a k] pos_mod_bound [OF k, of a] pos_mod_sign [OF k, of a]
    by (simp_all add: pos_imp_zdiv_nonneg_iff)
  show ?case
  proof (cases "n < 1 \<or> a < n * k")
    case True
    then have ts: "t = t0 + a div k" "s = a - a div k * k" using 1(4) by (auto simp: Let_def split: if_splits)
    have "\<not> (n \<ge> 1 \<and> a div k \<ge> n)"
    proof
      assume n: "n \<ge> 1 \<and> a div k \<ge> n"
      then have "n * k \<le> a div k * k" using k by (simp add: mult_right_mono)
      moreover have "a < n * k" using True n by simp
      ultimately show False using div(1) by linarith
    qed
    then show ?thesis using ts div by auto
  next
    case False
    then have r: "track_from m (a - n * k) (t0 + n) = (t, s)" "layout_ok m" "0 \<le> a - n * k"
      using 1(2,4) by (auto simp: Let_def)
    have IH: "t0 + n \<le> t \<and> 0 \<le> s \<and> s < sectors_from m (t - (t0 + n)) \<and> fst (abs_from m (t - (t0 + n)) s) = a - n * k"
      using 1(1) [OF refl _ _ r(2,3,1)] False by simp
    then show ?thesis
      using False abs_from_add [of m "t - t0 - n" s "n * k"] by (simp add: algebra_simps)
  qed
qed simp

lemma abs_track_from:
  "layout_ok m \<Longrightarrow> 0 \<le> t \<Longrightarrow> 0 \<le> s \<Longrightarrow> s < sectors_from m t \<Longrightarrow> track_from m (fst (abs_from m t s)) t0 = (t0 + t, s)"
proof (induction m arbitrary: t t0)
  case (Cons p m)
  obtain n k where p: "p = (n, k)" by force
  have k: "0 < k" using Cons.prems(1) by (simp add: p)
  show ?case
  proof (cases "n \<ge> 1 \<and> t \<ge> n")
    case True
    have ok: "layout_ok m" "0 \<le> t - n" "s < sectors_from m (t - n)" using Cons.prems True by (auto simp: p)
    have IH: "track_from m (fst (abs_from m (t - n) s)) (t0 + n) = (t0 + n + (t - n), s)"
      by (rule Cons.IH [OF ok(1,2) Cons.prems(3) ok(3)])
    show ?thesis
      using True IH abs_from_add [of m "t - n" s "n * k"] abs_from_nonneg [OF ok(1,2) Cons.prems(3)] Cons.prems(3)
      by (simp add: p Let_def)
  next
    case False
    then have s: "s < k" using Cons.prems(4) by (auto simp: p)
    have "(s + t * k) div k = t" using k s Cons.prems(3) by simp
    moreover have "s + t * k < n * k" if "n \<ge> 1"
    proof -
      have "t + 1 \<le> n" using False that by simp
      then have "(t + 1) * k \<le> n * k" using k by (simp add: mult_right_mono)
      then show ?thesis using s by (simp add: algebra_simps)
    qed
    ultimately show ?thesis using False by (auto simp: p Let_def)
  qed
qed simp

lemma get_track_abs:
  assumes "layout_ok layout" "get_track_sector layout num a = Some (t, s)"
  shows "get_abs_sector layout num t s = a" "1 \<le> t" "0 \<le> s" "s < get_sectors_in_track layout t"
proof -
  have a: "0 \<le> a" "a < num" "track_from layout a 1 = (t, s)"
    using assms(2) by (auto simp: get_track_sector_def split: if_splits)
  have r: "1 \<le> t" "0 \<le> s" "s < sectors_from layout (t - 1)" "fst (abs_from layout (t - 1) s) = a"
    using track_from_abs [OF assms(1) a(1,3)] by simp_all
  show "get_abs_sector layout num t s = a"
    using r a abs_from_sectors [of layout "t - 1" s] by (auto simp: get_abs_sector_def split: prod.split)
  show "1 \<le> t" "0 \<le> s" "s < get_sectors_in_track layout t" using r by (simp_all add: get_sectors_in_track_def)
qed

lemma get_abs_track:
  assumes "layout_ok layout" "get_abs_sector layout num t s = a" "a \<noteq> - 1" "0 \<le> s"
  shows "get_track_sector layout num a = Some (t, s)"
proof -
  have t: "0 < t" "a = fst (abs_from layout (t - 1) s)" "s < sectors_from layout (t - 1)" "a < num"
    using assms(2,3) abs_from_sectors [of layout "t - 1" s]
    by (auto simp: get_abs_sector_def split: if_splits prod.splits)
  have "0 \<le> a" using abs_from_nonneg [OF assms(1), of "t - 1" s] t(1,2) assms(4) by simp
  then show ?thesis
    using abs_track_from [OF assms(1) _ assms(4) t(3), of 1] t by (simp add: get_track_sector_def)
qed

text \<open>C25: Sector numbers and pairs of track and sector correspond one to one: for every well formed layout
  table, in particular the four of the file systems, each conversion undoes the other, and the pairs
  that occur are those of existing sectors.\<close>

theorem sector_numbers_exact:
  assumes "layout_ok layout" "0 \<le> s" "0 \<le> a"
  shows "(get_abs_sector layout num t s = a \<longleftrightarrow> get_track_sector layout num a = Some (t, s)) \<and>
    (get_track_sector layout num a = Some (t, s) \<longrightarrow> 1 \<le> t \<and> s < get_sectors_in_track layout t)"
  using get_abs_track [OF assms(1) _ _ assms(2)] get_track_abs [OF assms(1)] assms(3) by auto

lemma sector_numbers_exact_witness:
  "get_abs_sector layout_d64 683 18 0 = 357 \<and> get_track_sector layout_d64 683 357 = Some (18, 0)"
  using sector_numbers_exact [OF layouts_ok(1), of 0 357 683 18] by (simp add: get_abs_sector_def layout_d64_def)

end
