(* ===== verification/Cbm_Bam.thy ===== *)
theory Cbm_Bam
  imports Cbm_Layout
begin

text \<open>
  The block availability map (BAM) of the four Commodore file systems, \<^verbatim>\<open>software/filesystem/filesystem_d64.cc\<close>:
  a byte with the number of free sectors and a bit per sector for every track (only the bits for
  DNP), in the root sector or a buffer of its own, and the operations that take and give back
  sectors.  An access outside these buffers is \<open>None\<close>, or \<open>Beyond\<close>.
\<close>

section \<open>The file systems\<close>

datatype cbm_kind = D64 | D71 | D81 | DNP

text \<open>\<open>cb_bam\<close> is \<open>bam2_buffer\<close> (D71) or \<open>bam_buffer\<close> (D81, DNP); its dirty flag is a set of bits for DNP.\<close>

record cbm =
  cb_kind :: cbm_kind
  cb_layout :: layout
  cb_num_sectors :: int
  cb_root_track :: int
  cb_root :: "byte list"
  cb_bam :: "byte list"
  cb_root_dirty :: bool
  cb_bam_dirty :: u32
  cb_root_valid :: bool
  cb_bam_valid :: bool
  cb_writable :: bool

definition is_writable :: "cbm \<Rightarrow> bool" where
  "is_writable st \<longleftrightarrow>
     (let version = (if cb_root_valid st then cb_root st ! 2 else 0)
      in cb_writable st \<and> \<not> (version \<noteq> 0 \<and> version < 0x40))"

section \<open>Places in the map\<close>

text \<open>A place: whether it is in the second buffer, and its index.\<close>

type_synonym place = "bool \<times> nat"

definition bam_byte :: "cbm \<Rightarrow> place \<Rightarrow> byte option" where
  "bam_byte st p = peek (if fst p then cb_bam st else cb_root st) (snd p)"

definition set_bam_byte :: "place \<Rightarrow> byte \<Rightarrow> cbm \<Rightarrow> cbm" where
  "set_bam_byte p x st =
     (if fst p then st\<lparr>cb_bam := (cb_bam st)[snd p := x]\<rparr> else st\<lparr>cb_root := (cb_root st)[snd p := x]\<rparr>)"

text \<open>Where the free count of a track is, and its first byte of bits.\<close>

definition count_place :: "cbm_kind \<Rightarrow> nat \<Rightarrow> place" where
  "count_place kind track =
     (case kind of
        D64 \<Rightarrow> (False, 4 * track)
      | D71 \<Rightarrow> if track > 35 then (False, 0xDD + (track - 36)) else (False, 4 * track)
      | D81 \<Rightarrow> if track > 40 then (True, 0x110 + 6 * (track - 41)) else (True, 0x10 + 6 * (track - 1))
      | DNP \<Rightarrow> (True, 0))"

definition bits_place :: "cbm_kind \<Rightarrow> nat \<Rightarrow> place" where
  "bits_place kind track =
     (case kind of
        D71 \<Rightarrow> if track > 35 then (True, 3 * (track - 36)) else (False, 4 * track + 1)
      | DNP \<Rightarrow> (True, track * 32)
      | _ \<Rightarrow> (fst (count_place kind track), snd (count_place kind track) + 1))"

definition bit_place :: "cbm_kind \<Rightarrow> nat \<Rightarrow> nat \<Rightarrow> place" where
  "bit_place kind track sector =
     (fst (bits_place kind track), snd (bits_place kind track) + sector div 8)"

definition mark_dirty :: "nat \<Rightarrow> cbm \<Rightarrow> cbm" where
  "mark_dirty track st =
     (case cb_kind st of
        D64 \<Rightarrow> st\<lparr>cb_root_dirty := True\<rparr>
      | D71 \<Rightarrow> st\<lparr>cb_root_dirty := True, cb_bam_dirty := (if track > 35 then 1 else cb_bam_dirty st)\<rparr>
      | D81 \<Rightarrow> st\<lparr>cb_bam_dirty := 1\<rparr>
      | DNP \<Rightarrow> st\<lparr>cb_bam_dirty := cb_bam_dirty st OR push_bit ((track * 32) div 256) 1\<rparr>)"

section \<open>Freeing and allocating a given sector\<close>

text \<open>The count may be missing (\<open>NULL\<close>).  The result: whether the state of the sector changed.\<close>

definition modify_allocation_bit :: "place option \<Rightarrow> place \<Rightarrow> nat \<Rightarrow> bool \<Rightarrow> cbm \<Rightarrow> (bool \<times> cbm) option" where
  "modify_allocation_bit fr bits sector alloc st =
     (let p = (fst bits, snd bits + sector div 8); b = sector mod 8
      in case bam_byte st p of
           None \<Rightarrow> None
         | Some x \<Rightarrow>
             if \<not> alloc then
               if bit x b then Some (False, st)
               else
                 let st1 = set_bam_byte p (x OR push_bit b 1) st
                 in (case fr of
                       None \<Rightarrow> Some (True, st1)
                     | Some f \<Rightarrow> map_option (\<lambda>n. (True, set_bam_byte f (n + 1) st1)) (bam_byte st1 f))
             else
               if \<not> bit x b then Some (False, st)
               else
                 let st1 = set_bam_byte p (x AND NOT (push_bit b 1)) st
                 in (case fr of
                       None \<Rightarrow> Some (True, st1)
                     | Some f \<Rightarrow>
                         map_option (\<lambda>n. (True, if n \<noteq> 0 then set_bam_byte f (n - 1) st1 else st1)) (bam_byte st1 f)))"

text \<open>DNP keeps the bits of a byte in reverse order and has no counts.\<close>

definition set_sector_allocation :: "nat \<Rightarrow> nat \<Rightarrow> bool \<Rightarrow> cbm \<Rightarrow> (bool \<times> cbm) option" where
  "set_sector_allocation track sector alloc st =
     (let k = cb_kind st;
          fr = (if k = DNP then None else Some (count_place k track));
          s = (if k = DNP then sector XOR 7 else sector)
      in map_option (\<lambda>(success, st'). (success, if success then mark_dirty track st' else st'))
           (modify_allocation_bit fr (bits_place k track) s alloc st))"

section \<open>Finding a free sector\<close>

datatype 'a alloc = Beyond | Full cbm | Got 'a cbm

text \<open>The first sector of the track, below \<open>limit\<close>, whose bit is set.\<close>

fun take_free :: "nat \<Rightarrow> nat list \<Rightarrow> cbm \<Rightarrow> nat alloc" where
  "take_free track [] st =
     Full (mark_dirty track (set_bam_byte (count_place (cb_kind st) track) 0 st))"
| "take_free track (i # is) st =
     (let p = bit_place (cb_kind st) track i; f = count_place (cb_kind st) track
      in case bam_byte st p of
           None \<Rightarrow> Beyond
         | Some x \<Rightarrow>
             if bit x (i mod 8)
             then let st1 = set_bam_byte p (x AND NOT (push_bit (i mod 8) 1)) st
                  in (case bam_byte st1 f of
                        None \<Rightarrow> Beyond
                      | Some n \<Rightarrow> Got i (mark_dirty track (set_bam_byte f (n - 1) st1)))
             else take_free track is st)"

definition track_limit :: "cbm_kind \<Rightarrow> nat" where
  "track_limit kind = (case kind of D81 \<Rightarrow> 40 | _ \<Rightarrow> 21)"

text \<open>The base class, and so DNP, has no sector to give here.\<close>

definition allocate_sector_on_track :: "nat \<Rightarrow> cbm \<Rightarrow> nat alloc" where
  "allocate_sector_on_track track st =
     (if cb_kind st = DNP then Full st
      else case bam_byte st (count_place (cb_kind st) track) of
             None \<Rightarrow> Beyond
           | Some n \<Rightarrow> if n \<noteq> 0 then take_free track [0..<track_limit (cb_kind st)] st else Full st)"

text \<open>The first of these tracks with a free sector.\<close>

fun try_tracks :: "nat list \<Rightarrow> cbm \<Rightarrow> (nat \<times> nat) alloc" where
  "try_tracks [] st = Full st"
| "try_tracks (t # ts) st =
     (case allocate_sector_on_track t st of
        Beyond \<Rightarrow> Beyond
      | Got s st' \<Rightarrow> Got (t, s) st'
      | Full st' \<Rightarrow> try_tracks ts st')"

definition first_track :: "nat \<Rightarrow> cbm \<Rightarrow> nat" where
  "first_track track st = (if track = 0 then nat (cb_root_track st - 1) else track)"

definition tracks_below_root :: "cbm \<Rightarrow> nat list" where
  "tracks_below_root st = rev [1..<nat (cb_root_track st)]"

text \<open>The base class (D64 and D81): the given track, then from the root track down, then up to the last.
  (\<open>num_sectors\<close> is positive on any medium with a file system.)\<close>

definition get_next_free_sector_cbm :: "nat \<Rightarrow> cbm \<Rightarrow> (nat \<times> nat) alloc" where
  "get_next_free_sector_cbm track st =
     (let mt = nat (get_num_tracks (cb_layout st) (cb_num_sectors st))
      in try_tracks (first_track track st # tracks_below_root st @
           [nat (cb_root_track st) + 1..<mt + 1]) st)"

text \<open>D71: its last loop counts upwards from 35 as long as it is above the root track.  \<open>None\<close> when it never
  ends.\<close>

partial_function (option) last_tracks :: "nat \<Rightarrow> cbm \<Rightarrow> (nat \<times> nat) alloc option" where
  "last_tracks i st =
     (if int i > cb_root_track st
      then case allocate_sector_on_track i st of
             Beyond \<Rightarrow> Some Beyond
           | Got s st' \<Rightarrow> Some (Got (i, s) st')
           | Full st' \<Rightarrow> last_tracks (i + 1) st'
      else Some (Full st))"

definition get_next_free_sector_d71 :: "nat \<Rightarrow> cbm \<Rightarrow> (nat \<times> nat) alloc option" where
  "get_next_free_sector_d71 track st =
     (case try_tracks (first_track track st # tracks_below_root st @ [36..<53] @ [54..<71]) st of
        Full st' \<Rightarrow> last_tracks 35 st'
      | r \<Rightarrow> Some r)"

text \<open>DNP: the first byte with a bit set, and its highest bit.\<close>

fun dnp_bytes :: "nat list \<Rightarrow> cbm \<Rightarrow> (nat \<times> nat) alloc" where
  "dnp_bytes [] st = Full st"
| "dnp_bytes (i # is) st =
     (case peek (cb_bam st) (32 + i) of
        None \<Rightarrow> Beyond
      | Some bb \<Rightarrow>
          (case find (\<lambda>j. bit bb (7 - j)) [0..<8] of
             None \<Rightarrow> dnp_bytes is st
           | Some j \<Rightarrow>
               (case get_track_sector (cb_layout st) (cb_num_sectors st) (int (8 * i + j)) of
                  None \<Rightarrow> Beyond
                | Some (t, s) \<Rightarrow>
                    Got (nat t, nat s) (st\<lparr>cb_bam := (cb_bam st)[32 + i := bb AND NOT (push_bit (7 - j) 1)],
                      cb_bam_dirty := cb_bam_dirty st OR push_bit ((i + 32) div 256) 1\<rparr>))))"

definition get_next_free_sector_dnp :: "cbm \<Rightarrow> (nat \<times> nat) alloc" where
  "get_next_free_sector_dnp st =
     (if \<not> cb_bam_valid st then Full st else dnp_bytes [0..<nat (cb_num_sectors st div 8)] st)"

definition get_next_free_sector :: "nat \<Rightarrow> cbm \<Rightarrow> (nat \<times> nat) alloc option" where
  "get_next_free_sector track st =
     (case cb_kind st of
        D71 \<Rightarrow> get_next_free_sector_d71 track st
      | DNP \<Rightarrow> Some (get_next_free_sector_dnp st)
      | _ \<Rightarrow> Some (get_next_free_sector_cbm track st))"

section \<open>Free sectors of the whole medium\<close>

definition count_tracks :: "cbm_kind \<Rightarrow> nat list" where
  "count_tracks kind =
     (case kind of
        D64 \<Rightarrow> filter (\<lambda>i. i \<noteq> 18) [1..<36]
      | D71 \<Rightarrow> filter (\<lambda>i. i \<noteq> 18) [1..<36] @ filter (\<lambda>i. i \<noteq> 53) [36..<71]
      | D81 \<Rightarrow> filter (\<lambda>i. i \<noteq> 40) [1..<41] @ [41..<81]
      | DNP \<Rightarrow> [])"

text \<open>\<open>None\<close>: no file system.\<close>

definition get_free :: "cbm \<Rightarrow> nat option" where
  "get_free st =
     (let count = (\<lambda>t. case bam_byte st (count_place (cb_kind st) t) of None \<Rightarrow> 0 | Some n \<Rightarrow> unat n)
      in case cb_kind st of
           DNP \<Rightarrow> if \<not> cb_bam_valid st then None
             else Some (sum_list (map (\<lambda>i. sum_list (map (\<lambda>j. of_bool (bit (cb_bam st ! (32 + i)) j)) [0..<8]))
               [0..<nat (cb_num_sectors st div 8)]))
         | D81 \<Rightarrow> if \<not> cb_bam_valid st then None else Some (sum_list (map count (count_tracks D81)))
         | k \<Rightarrow> if \<not> cb_root_valid st then None else Some (sum_list (map count (count_tracks k))))"

section \<open>Allocating a given sector for the drive\<close>

text \<open>The next higher sector that is free: a sector is found free when freeing it fails; otherwise it is
  allocated again.  \<open>None\<close> on an access outside the map.\<close>

fun next_free_on :: "nat \<Rightarrow> nat list \<Rightarrow> cbm \<Rightarrow> (nat option \<times> cbm) option" where
  "next_free_on t [] st = Some (None, st)"
| "next_free_on t (s # ss) st =
     (case set_sector_allocation t s False st of
        None \<Rightarrow> None
      | Some (False, st') \<Rightarrow> Some (Some s, st')
      | Some (True, st') \<Rightarrow>
          (case set_sector_allocation t s True st' of None \<Rightarrow> None | Some (_, st'') \<Rightarrow> next_free_on t ss st''))"

fun next_free :: "nat list \<Rightarrow> nat \<Rightarrow> cbm \<Rightarrow> ((nat \<times> nat) option \<times> cbm) option" where
  "next_free [] s st = Some (None, st)"
| "next_free (t # ts) s st =
     (case next_free_on t [s..<nat (get_sectors_in_track (cb_layout st) (int t))] st of
        None \<Rightarrow> None
      | Some (Some s', st') \<Rightarrow> Some (Some (t, s'), st')
      | Some (None, st') \<Rightarrow> next_free ts 0 st')"

text \<open>The result code, the track and the sector.\<close>

definition allocate_sector :: "nat \<Rightarrow> nat \<Rightarrow> bool \<Rightarrow> cbm \<Rightarrow> ((fresult \<times> nat \<times> nat) \<times> cbm) option" where
  "allocate_sector track sector alloc st =
     (if \<not> is_writable st then Some ((FR_WRITE_PROTECTED, track, sector), st)
      else if get_abs_sector (cb_layout st) (cb_num_sectors st) (int track) (int sector) < 0
      then Some ((FR_INVALID_PARAMETER, track, sector), st)
      else case set_sector_allocation track sector alloc st of
             None \<Rightarrow> None
           | Some (success, st1) \<Rightarrow>
               if success \<or> \<not> alloc then Some ((FR_OK, track, sector), st1)
               else case next_free [track..<nat (get_num_tracks (cb_layout st1) (cb_num_sectors st1)) + 1] (sector + 1) st1 of
                      None \<Rightarrow> None
                    | Some (Some (t, s), st2) \<Rightarrow> Some ((FR_EXIST, t, s), st2)
                    | Some (None, st2) \<Rightarrow> Some ((FR_EXIST, 0, 0), st2))"

declare last_tracks.simps [code]

end
