(* ===== verification/Block_Device.thy ===== *)
theory Block_Device
  imports Prelude
begin

text \<open>
  What a file system stands on (\<^verbatim>\<open>software/filesystem\<close>): a block device in RAM (\<^verbatim>\<open>blockdev_ram.cc\<close>), in
  a file (\<^verbatim>\<open>blockdev_file.cc\<close>, with \<^verbatim>\<open>file_ram.h\<close> as the file in RAM) or in a flash chip
  (\<^verbatim>\<open>blockdev_flash.cc\<close>), and a partition of it (\<^verbatim>\<open>partition.cc\<close>).  The locale \<open>sector_store\<close> is
  what a device promises to the file system above it.
\<close>

datatype dresult = RES_OK | RES_ERROR | RES_WRPRT | RES_NOTRDY | RES_PARERR

text \<open>The operations of a device: what is read goes to the front of the caller's buffer, also on an error.
  \<open>None\<close> is an access outside the memory of the device.\<close>

record 'd device =
  dv_read :: "'d \<Rightarrow> u32 \<Rightarrow> nat \<Rightarrow> (dresult \<times> byte list \<times> 'd) option"
  dv_write :: "'d \<Rightarrow> u32 \<Rightarrow> nat \<Rightarrow> byte list \<Rightarrow> (dresult \<times> 'd) option"
  dv_sync :: "'d \<Rightarrow> dresult \<times> 'd"
  dv_sector_count :: "'d \<Rightarrow> u32 option"

section \<open>A device in RAM\<close>

record ram_disk =
  rd_memory :: "byte list"
  rd_sector_size :: nat
  rd_sectors :: nat

definition ram_read :: "ram_disk \<Rightarrow> u32 \<Rightarrow> nat \<Rightarrow> (dresult \<times> byte list \<times> ram_disk) option" where
  "ram_read d sector count' =
     (let p = unat (sector * of_nat (rd_sector_size d)); n = count' * rd_sector_size d
      in if unat sector \<ge> rd_sectors d then Some (RES_PARERR, [], d)
         else if p + n \<le> length (rd_memory d) then Some (RES_OK, take n (drop p (rd_memory d)), d)
         else None)"

definition ram_write :: "ram_disk \<Rightarrow> u32 \<Rightarrow> nat \<Rightarrow> byte list \<Rightarrow> (dresult \<times> ram_disk) option" where
  "ram_write d sector count' buffer =
     (let p = unat (sector * of_nat (rd_sector_size d)); n = count' * rd_sector_size d
      in if unat sector \<ge> rd_sectors d then Some (RES_PARERR, d)
         else if p + n \<le> length (rd_memory d) \<and> n \<le> length buffer
         then Some (RES_OK, d\<lparr>rd_memory := blit p (take n buffer) (rd_memory d)\<rparr>)
         else None)"

definition ram_device :: "ram_disk device" where
  "ram_device = \<lparr>dv_read = ram_read, dv_write = ram_write, dv_sync = (\<lambda>d. (RES_OK, d)),
     dv_sector_count = (\<lambda>d. Some (of_nat (rd_sectors d)))\<rparr>"

section \<open>A device in a file\<close>

text \<open>The operations of a \<open>File\<close>: reading and writing also give what was read, or how much was written.\<close>

record 'f file_api =
  fl_seek :: "'f \<Rightarrow> u32 \<Rightarrow> fresult \<times> 'f"
  fl_read :: "'f \<Rightarrow> nat \<Rightarrow> fresult \<times> byte list \<times> 'f"
  fl_write :: "'f \<Rightarrow> byte list \<Rightarrow> fresult \<times> nat \<times> 'f"
  fl_size :: "'f \<Rightarrow> nat"
  fl_sync :: "'f \<Rightarrow> fresult \<times> 'f"

fun size_shift :: "nat \<Rightarrow> nat" where
  "size_shift sec_size = (if sec_size > 1 then Suc (size_shift (sec_size div 2)) else 0)"

declare size_shift.simps [simp del]

record 'f file_disk =
  fd_file :: 'f
  fd_size :: nat
  fd_shift :: nat
  fd_writable :: bool

definition fd_new :: "'f file_api \<Rightarrow> 'f \<Rightarrow> nat \<Rightarrow> bool \<Rightarrow> 'f file_disk" where
  "fd_new ops f sec_size writable =
     \<lparr>fd_file = f, fd_size = fl_size ops f, fd_shift = min 12 (size_shift sec_size), fd_writable = writable\<rparr>"

definition fd_sector_size :: "'f file_disk \<Rightarrow> nat" where
  "fd_sector_size d = 2 ^ fd_shift d"

definition fd_read :: "'f file_api \<Rightarrow> 'f file_disk \<Rightarrow> u32 \<Rightarrow> nat \<Rightarrow> (dresult \<times> byte list \<times> 'f file_disk) option" where
  "fd_read ops d sector count' =
     (case fl_seek ops (fd_file d) (push_bit (fd_shift d) sector) of
        (res, f) \<Rightarrow>
          if res \<noteq> FR_OK then Some (RES_PARERR, [], d\<lparr>fd_file := f\<rparr>)
          else case fl_read ops f (fd_sector_size d * count') of
                 (res', bs, f') \<Rightarrow>
                   Some (if res' \<noteq> FR_OK \<or> length bs \<noteq> fd_sector_size d * count' then RES_ERROR else RES_OK, bs, d\<lparr>fd_file := f'\<rparr>))"

definition fd_write :: "'f file_api \<Rightarrow> 'f file_disk \<Rightarrow> u32 \<Rightarrow> nat \<Rightarrow> byte list \<Rightarrow> (dresult \<times> 'f file_disk) option" where
  "fd_write ops d sector count' buffer =
     (if \<not> fd_writable d then Some (RES_WRPRT, d)
      else case fl_seek ops (fd_file d) (push_bit (fd_shift d) sector) of
             (res, f) \<Rightarrow>
               if res \<noteq> FR_OK then Some (RES_PARERR, d\<lparr>fd_file := f\<rparr>)
               else if length buffer < fd_sector_size d * count' then None
               else case fl_write ops f (take (fd_sector_size d * count') buffer) of
                      (res', n, f') \<Rightarrow>
                        Some (if res' \<noteq> FR_OK \<or> n \<noteq> fd_sector_size d * count' then RES_ERROR else RES_OK, d\<lparr>fd_file := f'\<rparr>))"

definition fd_sync :: "'f file_api \<Rightarrow> 'f file_disk \<Rightarrow> dresult \<times> 'f file_disk" where
  "fd_sync ops d =
     (case fl_sync ops (fd_file d) of (res, f) \<Rightarrow> (if res \<noteq> FR_OK then RES_ERROR else RES_OK, d\<lparr>fd_file := f\<rparr>))"

definition file_device :: "'f file_api \<Rightarrow> 'f file_disk device" where
  "file_device ops = \<lparr>dv_read = fd_read ops, dv_write = fd_write ops, dv_sync = fd_sync ops,
     dv_sector_count = (\<lambda>d. Some (of_nat (drop_bit (fd_shift d) (fd_size d))))\<rparr>"

text \<open>The file in RAM.  Reading and writing leave the position where it is.\<close>

record ram_file =
  rf_ram :: "byte list"
  rf_position :: nat

definition rf_new :: "byte list \<Rightarrow> ram_file" where
  "rf_new buffer = \<lparr>rf_ram = buffer, rf_position = 0\<rparr>"

definition rf_read :: "ram_file \<Rightarrow> nat \<Rightarrow> fresult \<times> byte list \<times> ram_file" where
  "rf_read f len = (FR_OK, take len (drop (rf_position f) (rf_ram f)), f)"

definition rf_write :: "ram_file \<Rightarrow> byte list \<Rightarrow> fresult \<times> nat \<times> ram_file" where
  "rf_write f buffer =
     (let n = min (length buffer) (length (rf_ram f) - rf_position f)
      in (FR_OK, n, f\<lparr>rf_ram := blit (rf_position f) (take n buffer) (rf_ram f)\<rparr>))"

definition rf_seek :: "ram_file \<Rightarrow> u32 \<Rightarrow> fresult \<times> ram_file" where
  "rf_seek f pos =
     (if unat pos > length (rf_ram f) then (FR_INVALID_PARAMETER, f\<lparr>rf_position := length (rf_ram f)\<rparr>)
      else (FR_OK, f\<lparr>rf_position := unat pos\<rparr>))"

definition ram_file_ops :: "ram_file file_api" where
  "ram_file_ops = \<lparr>fl_seek = rf_seek, fl_read = rf_read, fl_write = rf_write,
     fl_size = (\<lambda>f. length (rf_ram f)), fl_sync = (\<lambda>f. (FR_OK, f))\<rparr>"

section \<open>A partition\<close>

definition partition_read :: "'d device \<Rightarrow> u32 \<Rightarrow> u32 \<Rightarrow> 'd \<Rightarrow> u32 \<Rightarrow> nat \<Rightarrow> (dresult \<times> byte list \<times> 'd) option" where
  "partition_read dev start len d sector count' =
     (if sector \<ge> len then Some (RES_PARERR, [], d) else dv_read dev d (start + sector) count')"

definition partition_write :: "'d device \<Rightarrow> u32 \<Rightarrow> u32 \<Rightarrow> 'd \<Rightarrow> u32 \<Rightarrow> nat \<Rightarrow> byte list \<Rightarrow> (dresult \<times> 'd) option" where
  "partition_write dev start len d sector count' buffer =
     (if sector \<ge> len then Some (RES_PARERR, d) else dv_write dev d (start + sector) count' buffer)"

text \<open>A length of 0 stands for the whole device.  (The device is present; without one every access answers
  \<open>RES_NOTRDY\<close>.)\<close>

definition partition_length :: "'d device \<Rightarrow> u32 \<Rightarrow> 'd \<Rightarrow> u32" where
  "partition_length dev len d = (if len = 0 then (case dv_sector_count dev d of None \<Rightarrow> len | Some n \<Rightarrow> n) else len)"

definition partition :: "'d device \<Rightarrow> u32 \<Rightarrow> u32 \<Rightarrow> 'd device" where
  "partition dev start len = \<lparr>dv_read = partition_read dev start len, dv_write = partition_write dev start len,
     dv_sync = dv_sync dev, dv_sector_count = (\<lambda>d. Some len)\<rparr>"

section \<open>A flash chip\<close>

text \<open>The chip: reading and writing a page and erasing a sector, each of which may fail.\<close>

record 'c chip =
  ch_read_page :: "'c \<Rightarrow> int \<Rightarrow> byte list option"
  ch_write_page :: "'c \<Rightarrow> int \<Rightarrow> byte list \<Rightarrow> bool \<times> 'c"
  ch_erase_sector :: "'c \<Rightarrow> int \<Rightarrow> bool \<times> 'c"

record flash_geometry =
  fg_sectors :: nat
  fg_page_size :: nat
  fg_pages_per_sector :: nat
  fg_first_sector :: nat
  fg_first_page :: nat
  fg_requires_erase :: bool

fun read_pages :: "'c chip \<Rightarrow> 'c \<Rightarrow> int list \<Rightarrow> byte list \<Rightarrow> dresult \<times> byte list" where
  "read_pages chip c [] bytes = (RES_OK, bytes)"
| "read_pages chip c (p # ps) bytes =
     (case ch_read_page chip c p of None \<Rightarrow> (RES_ERROR, bytes) | Some bs \<Rightarrow> read_pages chip c ps (bytes @ bs))"

definition flash_pages :: "flash_geometry \<Rightarrow> u32 \<Rightarrow> nat \<Rightarrow> int list" where
  "flash_pages g sector count' =
     map (\<lambda>i. int (fg_first_page g + unat sector * fg_pages_per_sector g + i)) [0..<fg_pages_per_sector g * count']"

definition flash_read :: "'c chip \<Rightarrow> flash_geometry \<Rightarrow> 'c \<Rightarrow> u32 \<Rightarrow> nat \<Rightarrow> (dresult \<times> byte list \<times> 'c) option" where
  "flash_read chip g c sector count' =
     (if unat sector \<ge> fg_sectors g then Some (RES_PARERR, [], c)
      else case read_pages chip c (flash_pages g sector count') [] of (res, bs) \<Rightarrow> Some (res, bs, c))"

fun write_pages :: "'c chip \<Rightarrow> nat \<Rightarrow> int list \<Rightarrow> byte list \<Rightarrow> 'c \<Rightarrow> (dresult \<times> 'c) option" where
  "write_pages chip n [] buffer c = Some (RES_OK, c)"
| "write_pages chip n (p # ps) buffer c =
     (if length buffer < n then None
      else case ch_write_page chip c p (take n buffer) of
             (ok, c') \<Rightarrow> if ok then write_pages chip n ps (drop n buffer) c' else Some (RES_ERROR, c'))"

text \<open>Only the first sector is erased.\<close>

definition flash_write :: "'c chip \<Rightarrow> flash_geometry \<Rightarrow> 'c \<Rightarrow> u32 \<Rightarrow> nat \<Rightarrow> byte list \<Rightarrow> (dresult \<times> 'c) option" where
  "flash_write chip g c sector count' buffer =
     (if unat sector \<ge> fg_sectors g then Some (RES_PARERR, c)
      else case (if fg_requires_erase g then ch_erase_sector chip c (int (unat sector + fg_first_sector g)) else (True, c)) of
             (ok, c') \<Rightarrow>
               if \<not> ok then Some (RES_ERROR, c')
               else write_pages chip (fg_page_size g) (flash_pages g sector count') buffer c')"

definition flash_device :: "'c chip \<Rightarrow> flash_geometry \<Rightarrow> 'c device" where
  "flash_device chip g = \<lparr>dv_read = flash_read chip g, dv_write = flash_write chip g, dv_sync = (\<lambda>c. (RES_OK, c)),
     dv_sector_count = (\<lambda>c. if fg_sectors g = 0 then None else Some (of_nat (fg_sectors g)))\<rparr>"

end
