(* ===== verification/Cbm_Disk.thy ===== *)
theory Cbm_Disk
  imports Cbm_Bam Block_Device "HOL-Library.Monad_Syntax"
begin

text \<open>
  A Commodore file system on its medium, \<^verbatim>\<open>software/filesystem/filesystem_d64.cc\<close>: mounting, the
  window of one sector, flushing, formatting, the volume name and the write lock, the drive's access
  to single sectors, and giving back the sectors of a file.  The medium is any device of
  \<open>Block_Device\<close>.  \<open>None\<close> is an access outside a buffer, or an undefined value used as one.
\<close>

lemma filter_not_update:
  "i < length xs \<Longrightarrow> \<not> xs ! i \<Longrightarrow> length (filter Not (xs[i := True])) < length (filter Not xs)"
proof (induction xs arbitrary: i)
  case (Cons x xs)
  then show ?case by (cases i) auto
qed simp

section \<open>State\<close>

record 'd cbmfs =
  fs_map :: cbm
  fs_sect :: "byte list"
  fs_current :: int
  fs_dirty :: bool
  fs_medium :: 'd

text \<open>The constants each file system sets in \<open>init\<close>: the root sector, the first sector of the directory
  (none for DNP, whose root header names it), where the volume name is, and the version bytes.\<close>

definition root_track_of :: "cbm_kind \<Rightarrow> int" where
  "root_track_of kind = (case kind of D81 \<Rightarrow> 40 | DNP \<Rightarrow> 1 | _ \<Rightarrow> 18)"

definition root_sector :: "cbm_kind \<Rightarrow> int" where
  "root_sector kind = (if kind = DNP then 1 else 0)"

definition dir_start :: "cbm_kind \<Rightarrow> int \<times> int" where
  "dir_start kind = (case kind of D81 \<Rightarrow> (40, 3) | DNP \<Rightarrow> (- 1, - 1) | _ \<Rightarrow> (18, 1))"

definition dos_version :: "cbm_kind \<Rightarrow> byte" where
  "dos_version kind = (case kind of D81 \<Rightarrow> 0x44 | DNP \<Rightarrow> 0x48 | _ \<Rightarrow> 0x41)"

definition locked_dos_version :: "cbm_kind \<Rightarrow> byte" where
  "locked_dos_version kind = (case kind of D81 \<Rightarrow> 0x3D | DNP \<Rightarrow> 0x3E | _ \<Rightarrow> 0x3C)"

definition layout_of :: "cbm_kind \<Rightarrow> layout" where
  "layout_of kind = (case kind of D64 \<Rightarrow> layout_d64 | D71 \<Rightarrow> layout_d71 | D81 \<Rightarrow> layout_d81 | DNP \<Rightarrow> layout_dnp)"

definition fs_abs :: "'d cbmfs \<Rightarrow> int \<Rightarrow> int \<Rightarrow> int" where
  "fs_abs fs track sector = get_abs_sector (cb_layout (fs_map fs)) (cb_num_sectors (fs_map fs)) track sector"

text \<open>Reading \<open>count\<close> sectors into a buffer, and writing one, at a sector number of the \<open>int\<close> kind.\<close>

definition read_into :: "'d device \<Rightarrow> int \<Rightarrow> nat \<Rightarrow> byte list \<Rightarrow> 'd \<Rightarrow> (dresult \<times> byte list \<times> 'd) option" where
  "read_into dev abs' n buffer d =
     do { (res, bs, d') \<leftarrow> dv_read dev d (of_int abs') n;
          if length bs \<le> length buffer then Some (res, blit 0 bs buffer, d') else None }"

definition write_from :: "'d device \<Rightarrow> int \<Rightarrow> nat \<Rightarrow> byte list \<Rightarrow> 'd \<Rightarrow> (dresult \<times> 'd) option" where
  "write_from dev abs' n buffer d = dv_write dev d (of_int abs') n buffer"

section \<open>Mounting\<close>

text \<open>The map in its own buffer: where it is on the medium.\<close>

definition bam_start :: "cbm_kind \<Rightarrow> int \<times> int" where
  "bam_start kind = (case kind of D71 \<Rightarrow> (53, 0) | D81 \<Rightarrow> (40, 1) | _ \<Rightarrow> (1, 2))"

definition bam_sectors :: "cbm_kind \<Rightarrow> nat" where
  "bam_sectors kind = (case kind of D64 \<Rightarrow> 0 | D71 \<Rightarrow> 1 | D81 \<Rightarrow> 2 | DNP \<Rightarrow> 32)"

definition read_root :: "'d device \<Rightarrow> 'd cbmfs \<Rightarrow> 'd cbmfs option" where
  "read_root dev fs =
     (let m = fs_map fs
      in do { (res, buf, d) \<leftarrow> read_into dev (fs_abs fs (cb_root_track m) (root_sector (cb_kind m))) 1 (cb_root m) (fs_medium fs);
              Some (fs\<lparr>fs_map := m\<lparr>cb_root := buf, cb_root_valid := (cb_root_valid m \<or> res = RES_OK)\<rparr>, fs_medium := d\<rparr>) })"

definition read_bam :: "'d device \<Rightarrow> 'd cbmfs \<Rightarrow> 'd cbmfs option" where
  "read_bam dev fs =
     (let m = fs_map fs; (t, s) = bam_start (cb_kind m)
      in do { (res, buf, d) \<leftarrow> read_into dev (fs_abs fs t s) (bam_sectors (cb_kind m)) (cb_bam m) (fs_medium fs);
              Some (fs\<lparr>fs_map := m\<lparr>cb_bam := buf, cb_bam_valid := (cb_bam_valid m \<or> res = RES_OK)\<rparr>, fs_medium := d\<rparr>) })"

text \<open>The D71 reads its second map in its constructor only, and does not look at it here.\<close>

definition fs_init :: "'d device \<Rightarrow> 'd cbmfs \<Rightarrow> (bool \<times> 'd cbmfs) option" where
  "fs_init dev fs =
     (let k = cb_kind (fs_map fs)
      in do { fs1 \<leftarrow> read_root dev (fs\<lparr>fs_map := (fs_map fs)\<lparr>cb_root_track := root_track_of k\<rparr>\<rparr>);
              if k = D64 \<or> k = D71 then Some (cb_root_valid (fs_map fs1), fs1)
              else do { fs2 \<leftarrow> read_bam dev (fs1\<lparr>fs_map := (fs_map fs1)\<lparr>cb_bam_dirty := 0\<rparr>\<rparr>);
                        Some (cb_root_valid (fs_map fs2) \<and> cb_bam_valid (fs_map fs2), fs2) } })"

text \<open>The constructor.  The buffers are fresh memory, and so is the flag that tells whether the second map
  is valid.\<close>

definition fs_new :: "'d device \<Rightarrow> cbm_kind \<Rightarrow> bool \<Rightarrow> byte list \<Rightarrow> byte list \<Rightarrow> byte list \<Rightarrow> bool \<Rightarrow> 'd \<Rightarrow> 'd cbmfs option" where
  "fs_new dev kind writable root sect bam valid d =
     (let sectors = (case dv_sector_count dev d of None \<Rightarrow> 0 | Some n \<Rightarrow> sint n);
          m = \<lparr>cb_kind = kind, cb_layout = layout_of kind, cb_num_sectors = sectors, cb_root_track = 0,
               cb_root = root, cb_bam = bam, cb_root_dirty = False, cb_bam_dirty = 0, cb_root_valid = False,
               cb_bam_valid = valid, cb_writable = writable\<rparr>;
          fs = \<lparr>fs_map = m, fs_sect = sect, fs_current = - 1, fs_dirty = False, fs_medium = d\<rparr>
      in do { (_, fs1) \<leftarrow> fs_init dev fs;
              if kind = D71 then read_bam dev (fs1\<lparr>fs_map := (fs_map fs1)\<lparr>cb_bam_dirty := 0\<rparr>\<rparr>) else Some fs1 })"

section \<open>The window and flushing\<close>

definition write_sect :: "'d device \<Rightarrow> 'd cbmfs \<Rightarrow> (dresult \<times> 'd cbmfs) option" where
  "write_sect dev fs =
     do { (res, d) \<leftarrow> write_from dev (fs_current fs) 1 (fs_sect fs) (fs_medium fs); Some (res, fs\<lparr>fs_medium := d\<rparr>) }"

text \<open>A failed read leaves the old sector number with what is in the buffer now.\<close>

definition move_window :: "'d device \<Rightarrow> int \<Rightarrow> 'd cbmfs \<Rightarrow> (fresult \<times> 'd cbmfs) option" where
  "move_window dev abs' fs =
     (if abs' < 0 then Some (FR_INT_ERR, fs)
      else if fs_current fs = abs' then Some (FR_OK, fs)
      else do { (res, fs1) \<leftarrow> (if fs_dirty fs then write_sect dev fs else Some (RES_OK, fs));
                if res \<noteq> RES_OK then Some (FR_DISK_ERR, fs1)
                else do { (res', buf, d) \<leftarrow> read_into dev abs' 1 (fs_sect fs1) (fs_medium fs1);
                          let fs2 = fs1\<lparr>fs_sect := buf, fs_medium := d\<rparr>;
                          Some (if res' = RES_OK then (FR_OK, fs2\<lparr>fs_current := abs', fs_dirty := False\<rparr>)
                                else (FR_DISK_ERR, fs2)) } })"

definition sync_medium :: "'d device \<Rightarrow> 'd cbmfs \<Rightarrow> dresult \<times> 'd cbmfs" where
  "sync_medium dev fs = (case dv_sync dev (fs_medium fs) of (res, d) \<Rightarrow> (res, fs\<lparr>fs_medium := d\<rparr>))"

definition sync_base :: "'d device \<Rightarrow> 'd cbmfs \<Rightarrow> (fresult \<times> 'd cbmfs) option" where
  "sync_base dev fs =
     do { (res, fs1) \<leftarrow> (if fs_dirty fs then write_sect dev fs else Some (RES_OK, fs));
          if res \<noteq> RES_OK then Some (FR_DISK_ERR, fs1)
          else let fs2 = fs1\<lparr>fs_dirty := False\<rparr>; m = fs_map fs2
               in do { (res', d) \<leftarrow> (if cb_root_dirty m
                         then write_from dev (fs_abs fs2 (cb_root_track m) (root_sector (cb_kind m))) 1 (cb_root m) (fs_medium fs2)
                         else Some (RES_OK, fs_medium fs2));
                       let fs3 = fs2\<lparr>fs_medium := d\<rparr>;
                       if res' \<noteq> RES_OK then Some (FR_DISK_ERR, fs3)
                       else Some (FR_OK, snd (sync_medium dev (fs3\<lparr>fs_map := m\<lparr>cb_root_dirty := False\<rparr>\<rparr>))) } }"

definition sync_bam :: "'d device \<Rightarrow> 'd cbmfs \<Rightarrow> (fresult \<times> 'd cbmfs) option" where
  "sync_bam dev fs =
     (let m = fs_map fs; (t, s) = bam_start (cb_kind m)
      in if cb_bam_dirty m = 0 then Some (FR_OK, fs)
         else do { (res, d) \<leftarrow> write_from dev (fs_abs fs t s) (bam_sectors (cb_kind m)) (cb_bam m) (fs_medium fs);
                   let fs1 = fs\<lparr>fs_medium := d\<rparr>;
                   let fs2 = (if cb_kind m = D81 \<or> res = RES_OK then snd (sync_medium dev fs1) else fs1);
                   Some (if res \<noteq> RES_OK then (FR_DISK_ERR, fs2)
                         else (FR_OK, fs2\<lparr>fs_map := m\<lparr>cb_bam_dirty := 0\<rparr>\<rparr>)) })"

text \<open>DNP writes the map two sectors at a time, following the bits of its dirty flag.\<close>

lemma drop_bit_less: "(w :: u32) \<noteq> 0 \<Longrightarrow> unat (drop_bit 2 w) < unat w"
  using unat_gt_0 [of w] by (simp add: drop_bit_eq_div unat_div)

function sync_pairs :: "'d device \<Rightarrow> u32 \<Rightarrow> int \<Rightarrow> byte list \<Rightarrow> 'd \<Rightarrow> (fresult \<times> 'd) option" where
  "sync_pairs dev dirty sector bam d =
     (if dirty = 0 then Some (FR_OK, d)
      else do { (res, d') \<leftarrow> (if dirty AND 3 \<noteq> 0 then write_from dev sector 2 bam d else Some (RES_OK, d));
                if res \<noteq> RES_OK then Some (FR_DISK_ERR, d')
                else sync_pairs dev (drop_bit 2 dirty) (sector + 2) (drop 512 bam) d' })"
  by pat_completeness auto
termination by (relation "measure (\<lambda>(_, dirty, _). unat dirty)") (auto intro: drop_bit_less)

declare sync_pairs.simps [simp del]

definition sync_dnp :: "'d device \<Rightarrow> fresult \<Rightarrow> 'd cbmfs \<Rightarrow> (fresult \<times> 'd cbmfs) option" where
  "sync_dnp dev fres fs =
     do { (res, d) \<leftarrow> sync_pairs dev (cb_bam_dirty (fs_map fs)) 2 (cb_bam (fs_map fs)) (fs_medium fs);
          let fs1 = fs\<lparr>fs_medium := d\<rparr>;
          Some (if res \<noteq> FR_OK then (res, fs1)
                else (fres, snd (sync_medium dev (fs1\<lparr>fs_map := (fs_map fs1)\<lparr>cb_bam_dirty := 0\<rparr>\<rparr>)))) }"

definition fs_sync :: "'d device \<Rightarrow> 'd cbmfs \<Rightarrow> (fresult \<times> 'd cbmfs) option" where
  "fs_sync dev fs =
     do { (fres, fs1) \<leftarrow> sync_base dev fs;
          case cb_kind (fs_map fs) of
            D64 \<Rightarrow> Some (fres, fs1)
          | DNP \<Rightarrow> sync_dnp dev fres fs1
          | _ \<Rightarrow> if fres = FR_OK then sync_bam dev fs1 else Some (fres, fs1) }"

section \<open>Formatting\<close>

definition toupper :: "byte \<Rightarrow> byte" where
  "toupper c = (if 97 \<le> c \<and> c \<le> 122 then c - 32 else c)"

text \<open>The name up to a comma, in at most sixteen characters, and behind the comma two characters of the
  id, in a field of 27 shifted spaces with the DOS type.\<close>

definition volume_field :: "byte list \<Rightarrow> byte list \<Rightarrow> byte list" where
  "volume_field name dos =
     (let start = takeWhile (\<lambda>c. c \<noteq> 0x2C) name;
          rest = dropWhile (\<lambda>c. c \<noteq> 0x2C) name;
          field = (replicate 27 0xA0)[21 := dos ! 0, 22 := dos ! 1];
          named = blit 0 (map toupper (take 16 start)) field
      in if rest = [] then named else blit 18 (map toupper (take 2 (tl rest))) named)"

definition set_volume_name :: "byte list \<Rightarrow> nat \<Rightarrow> byte list \<Rightarrow> byte list \<Rightarrow> byte list" where
  "set_volume_name name offset dos buffer = blit offset (volume_field name dos) buffer"

text \<open>Giving back the sectors with these numbers, and taking these sectors.\<close>

fun free_all :: "int list \<Rightarrow> cbm \<Rightarrow> cbm option" where
  "free_all [] m = Some m"
| "free_all (i # is) m =
     (case get_track_sector (cb_layout m) (cb_num_sectors m) i of
        None \<Rightarrow> None
      | Some (t, s) \<Rightarrow> (case set_sector_allocation (nat t) (nat s) False m of None \<Rightarrow> None | Some (_, m') \<Rightarrow> free_all is m'))"

fun take_all :: "(nat \<times> nat) list \<Rightarrow> cbm \<Rightarrow> cbm option" where
  "take_all [] m = Some m"
| "take_all ((t, s) # ps) m =
     (case set_sector_allocation t s True m of None \<Rightarrow> None | Some (_, m') \<Rightarrow> take_all ps m')"

text \<open>An empty directory sector in the window, and everything to the medium.\<close>

definition empty_dir :: "byte list" where
  "empty_dir = (replicate 256 0)[1 := 0xFF]"

definition write_empty_dir :: "'d device \<Rightarrow> int \<times> int \<Rightarrow> 'd cbmfs \<Rightarrow> (fresult \<times> 'd cbmfs) option" where
  "write_empty_dir dev dir fs =
     fs_sync dev (fs\<lparr>fs_current := fs_abs fs (fst dir) (snd dir), fs_sect := empty_dir, fs_dirty := True\<rparr>)"

definition root_header :: "cbm_kind \<Rightarrow> byte list" where
  "root_header kind = blit 0 [of_int (fst (dir_start kind)), of_int (snd (dir_start kind)), dos_version kind] (replicate 256 0)"

definition format_d64 :: "'d device \<Rightarrow> byte list \<Rightarrow> 'd cbmfs \<Rightarrow> (fresult \<times> 'd cbmfs) option" where
  "format_d64 dev name fs =
     (let m0 = fs_map fs; root = set_volume_name name 144 [0x32, 0x41] ((root_header D64)[3 := 0x20])
      in if \<not> is_writable m0 then Some (FR_WRITE_PROTECTED, fs)
         else do { m1 \<leftarrow> free_all [0..682] (m0\<lparr>cb_root := root, cb_root_dirty := True\<rparr>);
                   m2 \<leftarrow> take_all [(18, 0), (18, 1)] m1;
                   write_empty_dir dev (18, 1) (fs\<lparr>fs_map := m2\<rparr>) })"

definition format_d71 :: "'d device \<Rightarrow> byte list \<Rightarrow> 'd cbmfs \<Rightarrow> (fresult \<times> 'd cbmfs) option" where
  "format_d71 dev name fs =
     (let m0 = fs_map fs; root = set_volume_name name 144 [0x32, 0x41] ((root_header D71)[3 := 0x80])
      in if \<not> is_writable m0 then Some (FR_WRITE_PROTECTED, fs)
         else do { m1 \<leftarrow> free_all [0..1365] (m0\<lparr>cb_root := root, cb_bam := replicate 256 0\<rparr>);
                   m2 \<leftarrow> take_all ([(18, 0), (18, 1), (18, 1)] @ map (Pair 53) [0..<19]) m1;
                   write_empty_dir dev (18, 1) (fs\<lparr>fs_map := m2\<lparr>cb_root_dirty := True, cb_bam_dirty := 1\<rparr>\<rparr>) })"

text \<open>The header of the two map sectors of a D81.\<close>

definition bam_header_d81 :: "byte list \<Rightarrow> byte list \<Rightarrow> byte list" where
  "bam_header_d81 root bam =
     (let header = [40, 2, 0x44, 0xBB, root ! 22, root ! 23, 0xC0]
      in (blit 256 (take 6 header) (blit 0 header bam))[256 := 0, 257 := 0xFF])"

definition format_d81 :: "'d device \<Rightarrow> byte list \<Rightarrow> 'd cbmfs \<Rightarrow> (fresult \<times> 'd cbmfs) option" where
  "format_d81 dev name fs =
     (let m0 = fs_map fs; root = set_volume_name name 4 [0x33, 0x44] (root_header D81)
      in if \<not> is_writable m0 then Some (FR_WRITE_PROTECTED, fs)
         else do { m1 \<leftarrow> free_all [0..3199] (m0\<lparr>cb_root := root, cb_bam := replicate 512 0, cb_root_dirty := True\<rparr>);
                   m2 \<leftarrow> take_all [(40, 0), (40, 1), (40, 2), (40, 3)] m1;
                   write_empty_dir dev (40, 3)
                     (fs\<lparr>fs_map := m2\<lparr>cb_bam := bam_header_d81 (cb_root m2) (cb_bam m2), cb_bam_dirty := 1\<rparr>\<rparr>) })"

text \<open>A bit per sector of the partition, with the 35 sectors in use after formatting taken.\<close>

definition bam_dnp :: "int \<Rightarrow> byte list \<Rightarrow> byte list" where
  "bam_dnp sectors root =
     (let n = nat (sectors div 8);
          header = [0, 0, 0x48, 0xB7, root ! 22, root ! 23, 0xC0, 0, of_int ((sectors + 255) div 256)];
          bam = (blit 0 header (replicate 8192 0))[36 := 0x1F];
          bam' = blit 37 (replicate (n - 5) 0xFF) bam
      in if sectors mod 8 \<noteq> 0 then bam'[32 + n := push_bit (nat (sectors mod 8)) 1 - 1] else bam')"

definition format_dnp :: "'d device \<Rightarrow> byte list \<Rightarrow> 'd cbmfs \<Rightarrow> (fresult \<times> 'd cbmfs) option" where
  "format_dnp dev name fs =
     (let m0 = fs_map fs;
          root = (set_volume_name name 4 [0x31, 0x48] (blit 0 [1, 0x22, 0x48] (replicate 256 0)))[32 := 1, 33 := 1]
      in if \<not> is_writable m0 then Some (FR_WRITE_PROTECTED, fs)
         else if cb_num_sectors m0 < 0 \<or> 65280 < cb_num_sectors m0 then None
         else write_empty_dir dev (1, 34)
           (fs\<lparr>fs_map := m0\<lparr>cb_root := root, cb_root_dirty := True, cb_bam := bam_dnp (cb_num_sectors m0) root,
              cb_bam_dirty := 0xFFFFFFFF\<rparr>\<rparr>))"

definition fs_format :: "'d device \<Rightarrow> byte list \<Rightarrow> 'd cbmfs \<Rightarrow> (fresult \<times> 'd cbmfs) option" where
  "fs_format dev name fs =
     (case cb_kind (fs_map fs) of
        D64 \<Rightarrow> format_d64 dev name fs | D71 \<Rightarrow> format_d71 dev name fs
      | D81 \<Rightarrow> format_d81 dev name fs | DNP \<Rightarrow> format_dnp dev name fs)"

section \<open>The volume name and the write lock\<close>

text \<open>The new header: sixteen characters of the name, and the id when one is given.\<close>

definition relabel :: "byte list \<Rightarrow> byte list \<Rightarrow> nat \<Rightarrow> byte list \<Rightarrow> byte list" where
  "relabel name ident offset buffer =
     (let named = blit offset (map toupper (take 16 name)) (blit offset (replicate 16 0xA0) buffer)
      in if ident = [] then named
         else blit (offset + 18) (map toupper (take 2 ident)) (blit (offset + 18) [0xA0, 0xA0] named))"

definition volume_name_offset :: "cbm_kind \<Rightarrow> nat" where
  "volume_name_offset kind = (if kind = D81 \<or> kind = DNP then 4 else 144)"

text \<open>The label of the root directory (\<open>header = None\<close>) or of the one with this header sector, which
  \<open>dir_open\<close> has found.\<close>

definition set_label :: "'d device \<Rightarrow> (int \<times> int) option \<Rightarrow> byte list \<Rightarrow> byte list \<Rightarrow> 'd cbmfs \<Rightarrow> (fresult \<times> 'd cbmfs) option" where
  "set_label dev header name ident fs =
     (let m = fs_map fs
      in if \<not> is_writable m then Some (FR_WRITE_PROTECTED, fs)
         else case header of
                None \<Rightarrow> fs_sync dev (fs\<lparr>fs_map := m\<lparr>cb_root := relabel name ident (volume_name_offset (cb_kind m)) (cb_root m),
                  cb_root_dirty := True\<rparr>\<rparr>)
              | Some (t, s) \<Rightarrow>
                  if fs_abs fs t s < 0 then Some (FR_DISK_ERR, fs)
                  else do { (res, fs1) \<leftarrow> move_window dev (fs_abs fs t s) fs;
                            if res \<noteq> FR_OK then Some (FR_DISK_ERR, fs1)
                            else fs_sync dev (fs1\<lparr>fs_sect := relabel name ident 4 (fs_sect fs1), fs_dirty := True\<rparr>) })"

definition set_write_lock :: "'d device \<Rightarrow> bool \<Rightarrow> 'd cbmfs \<Rightarrow> (fresult \<times> 'd cbmfs) option" where
  "set_write_lock dev locked fs =
     (let m = fs_map fs
      in if \<not> cb_writable m then Some (FR_WRITE_PROTECTED, fs)
         else if \<not> cb_root_valid m then Some (FR_DISK_ERR, fs)
         else fs_sync dev (fs\<lparr>fs_map := m\<lparr>cb_root := (cb_root m)[2 := (if locked then locked_dos_version else dos_version) (cb_kind m)],
                cb_root_dirty := True\<rparr>\<rparr>))"

section \<open>Single sectors\<close>

definition read_sector :: "'d device \<Rightarrow> byte list \<Rightarrow> int \<Rightarrow> int \<Rightarrow> 'd cbmfs \<Rightarrow> (fresult \<times> byte list \<times> 'd cbmfs) option" where
  "read_sector dev buffer track sector fs =
     (if fs_abs fs track sector < 0 then Some (FR_INVALID_PARAMETER, buffer, fs)
      else do { (res, buf, d) \<leftarrow> read_into dev (fs_abs fs track sector) 1 buffer (fs_medium fs);
                Some (if res \<noteq> RES_OK then FR_DISK_ERR else FR_OK, buf, fs\<lparr>fs_medium := d\<rparr>) })"

definition write_sector :: "'d device \<Rightarrow> byte list \<Rightarrow> int \<Rightarrow> int \<Rightarrow> 'd cbmfs \<Rightarrow> (fresult \<times> 'd cbmfs) option" where
  "write_sector dev buffer track sector fs =
     (if \<not> is_writable (fs_map fs) then Some (FR_WRITE_PROTECTED, fs)
      else if fs_abs fs track sector < 0 then Some (FR_INVALID_PARAMETER, fs)
      else do { (res, d) \<leftarrow> write_from dev (fs_abs fs track sector) 1 buffer (fs_medium fs);
                Some (if res \<noteq> RES_OK then FR_DISK_ERR else FR_OK, fs\<lparr>fs_medium := d\<rparr>) })"

section \<open>Giving back the sectors of a file\<close>

text \<open>The chain of sectors from this one; \<open>visited\<close> has a cell for every sector of the medium.\<close>

function deallocate_chain :: "'d device \<Rightarrow> nat \<Rightarrow> nat \<Rightarrow> bool list \<Rightarrow> 'd cbmfs \<Rightarrow> (fresult \<times> bool list \<times> 'd cbmfs) option" where
  "deallocate_chain dev track sector visited fs =
     (if track = 0 then Some (FR_OK, visited, fs)
      else let a = fs_abs fs (int track) (int sector)
           in if a > cb_num_sectors (fs_map fs) then Some (FR_DISK_ERR, visited, fs)
              else if a < 0 then Some (FR_INT_ERR, visited, fs)
              else if length visited \<le> nat a then None
              else if visited ! nat a then Some (FR_LOOP_DETECTED, visited, fs)
              else case move_window dev a fs of
                     None \<Rightarrow> None
                   | Some (res, fs1) \<Rightarrow>
                       if res \<noteq> FR_OK then Some (res, visited[nat a := True], fs1)
                       else case set_sector_allocation track sector False (fs_map fs1) of
                              None \<Rightarrow> None
                            | Some (_, m) \<Rightarrow>
                                deallocate_chain dev (unat (fs_sect fs1 ! 0)) (unat (fs_sect fs1 ! 1)) (visited[nat a := True])
                                  (fs1\<lparr>fs_map := m\<rparr>))"
  by pat_completeness auto
termination
proof (relation "measure (\<lambda>(_, _, _, visited, _). length (filter Not visited))", goal_cases)
  case (2 dev track sector visited fs a)
  then show ?case by (simp add: filter_not_update)
qed simp

declare deallocate_chain.simps [simp del]

text \<open>The records of a GEOS file, up to the end of the list.\<close>

fun deallocate_records :: "'d device \<Rightarrow> byte list \<Rightarrow> nat list \<Rightarrow> fresult \<Rightarrow> bool list \<Rightarrow> 'd cbmfs \<Rightarrow> (fresult \<times> bool list \<times> 'd cbmfs) option" where
  "deallocate_records dev blk [] res visited fs = Some (res, visited, fs)"
| "deallocate_records dev blk (i # is) res visited fs =
     (if blk ! (2 * i + 2) \<noteq> 0
      then case deallocate_chain dev (unat (blk ! (2 * i + 2))) (unat (blk ! (2 * i + 3))) visited fs of
             None \<Rightarrow> None
           | Some (res', visited', fs') \<Rightarrow>
               if res' \<noteq> FR_OK then Some (res', visited', fs') else deallocate_records dev blk is res' visited' fs'
      else if blk ! (2 * i + 3) = 0 then Some (res, visited, fs)
      else deallocate_records dev blk is res visited fs)"

definition deallocate_vlir_records ::
  "'d device \<Rightarrow> byte list \<Rightarrow> nat \<Rightarrow> nat \<Rightarrow> bool list \<Rightarrow> 'd cbmfs \<Rightarrow> (fresult \<times> bool list \<times> 'd cbmfs) option" where
  "deallocate_vlir_records dev fresh track sector visited fs =
     (case read_sector dev fresh (int track) (int sector) fs of
        None \<Rightarrow> None
      | Some (res, blk, fs1) \<Rightarrow>
          if res = FR_OK \<and> blk ! 0 = 0 \<and> blk ! 1 = 0xFF then deallocate_records dev blk [0..<127] res visited fs1
          else Some (res, visited, fs1))"

end
