(* ===== verification/Side_Sectors.thy ===== *)
theory Side_Sectors
  imports Cbm_Disk
begin

text \<open>
  The side sectors of a relative file, \<^verbatim>\<open>software/filesystem/side_sectors.h\<close>: clusters of six blocks
  that list the data sectors of the file, 120 in each, and on larger disks a super side sector that
  lists the clusters.  The list of clusters is an \<open>IndexedList\<close>, which \<open>Indexed_List\<close> shows to behave
  as the list it stands for; here it is that list.
\<close>

section \<open>State\<close>

record cached_block =
  bk_track :: byte
  bk_sector :: byte
  bk_data :: "byte list"

record cluster =
  cl_blocks :: "cached_block option list"
  cl_datablocks :: nat
  cl_record_size :: byte
  cl_start :: "byte \<times> byte"
  cl_faulty :: bool

record side_sectors =
  ss_datablocks :: nat
  ss_record_size :: byte
  ss_do_super :: bool
  ss_super :: "cached_block option"
  ss_clusters :: "cluster list"

definition new_block :: "nat \<Rightarrow> nat \<Rightarrow> cached_block" where
  "new_block t s = \<lparr>bk_track = of_nat t, bk_sector = of_nat s, bk_data = replicate 256 0\<rparr>"

definition new_cluster :: "byte \<Rightarrow> cluster" where
  "new_cluster record_size = \<lparr>cl_blocks = replicate 6 None, cl_datablocks = 0, cl_record_size = record_size,
     cl_start = (0, 0), cl_faulty = False\<rparr>"

definition new_side_sectors :: "cbm \<Rightarrow> byte \<Rightarrow> side_sectors" where
  "new_side_sectors m record_size = \<lparr>ss_datablocks = 0, ss_record_size = record_size,
     ss_do_super = (cb_num_sectors m > 720), ss_super = None, ss_clusters = []\<rparr>"

section \<open>Adding a data block\<close>

text \<open>A free sector of the disk, searched without a track of preference.\<close>

definition some_free_sector :: "cbm \<Rightarrow> ((nat \<times> nat) option \<times> cbm) option" where
  "some_free_sector m =
     (case get_next_free_sector 0 m of
        Some (Got p m') \<Rightarrow> Some (Some p, m') | Some (Full m') \<Rightarrow> Some (None, m') | _ \<Rightarrow> None)"

definition put_reference :: "nat \<Rightarrow> byte \<Rightarrow> byte \<Rightarrow> cached_block \<Rightarrow> cached_block" where
  "put_reference i track sector b = b\<lparr>bk_data := (bk_data b)[16 + 2 * i := track, 17 + 2 * i := sector]\<rparr>"

definition cluster_add :: "byte \<Rightarrow> byte \<Rightarrow> cluster \<Rightarrow> cbm \<Rightarrow> (bool \<times> cluster \<times> cbm) option" where
  "cluster_add track sector cl m =
     (let i = cl_datablocks cl div 120; k = cl_datablocks cl - i * 120;
          add = (\<lambda>b cl m. Some (True, cl\<lparr>cl_blocks := (cl_blocks cl)[i := Some (put_reference k track sector b)],
            cl_datablocks := cl_datablocks cl + 1\<rparr>, m))
      in if cl_datablocks cl = 720 then Some (False, cl, m)
         else case cl_blocks cl ! i of
                Some b \<Rightarrow> add b cl m
              | None \<Rightarrow>
                  (case some_free_sector m of
                     None \<Rightarrow> None
                   | Some (None, m') \<Rightarrow> Some (False, cl, m')
                   | Some (Some (t, s), m') \<Rightarrow>
                       let b = new_block t s; b' = b\<lparr>bk_data := (bk_data b)[2 := of_nat i, 3 := cl_record_size cl]\<rparr>
                       in add b' (if i = 0 then cl\<lparr>cl_start := (of_nat t, of_nat s)\<rparr> else cl) m'))"

text \<open>The super side sector comes first, on a disk that wants one.\<close>

definition ensure_super :: "side_sectors \<Rightarrow> cbm \<Rightarrow> (bool \<times> side_sectors \<times> cbm) option" where
  "ensure_super ss m =
     (if ss_do_super ss \<and> ss_super ss = None
      then case some_free_sector m of
             None \<Rightarrow> None
           | Some (None, m') \<Rightarrow> Some (False, ss, m')
           | Some (Some (t, s), m') \<Rightarrow>
               Some (True, ss\<lparr>ss_super := Some \<lparr>bk_track = of_nat t, bk_sector = of_nat s, bk_data = (replicate 256 0)[2 := 0xFE]\<rparr>\<rparr>, m')
      else Some (True, ss, m))"

definition side_reference :: "byte \<Rightarrow> byte \<Rightarrow> side_sectors \<Rightarrow> cbm \<Rightarrow> (bool \<times> side_sectors \<times> cbm) option" where
  "side_reference track sector ss m =
     (let c = ss_datablocks ss div 720;
          (i, cls) = (if c < length (ss_clusters ss) then (c, ss_clusters ss)
            else (length (ss_clusters ss), ss_clusters ss @ [new_cluster (ss_record_size ss)]))
      in case cluster_add track sector (cls ! i) m of
           None \<Rightarrow> None
         | Some (ok, cl, m') \<Rightarrow>
             Some (ok, ss\<lparr>ss_clusters := cls[i := cl], ss_datablocks := (if ok then ss_datablocks ss + 1 else ss_datablocks ss)\<rparr>, m'))"

definition side_add :: "byte \<Rightarrow> byte \<Rightarrow> side_sectors \<Rightarrow> cbm \<Rightarrow> (bool \<times> side_sectors \<times> cbm) option" where
  "side_add track sector ss m =
     (case ensure_super ss m of
        None \<Rightarrow> None
      | Some (ok, ss1, m1) \<Rightarrow> if ok then side_reference track sector ss1 m1 else Some (False, ss1, m1))"

section \<open>Where they are, and how many\<close>

definition cluster_place :: "cluster \<Rightarrow> byte \<times> byte" where
  "cluster_place cl = (case cl_blocks cl ! 0 of None \<Rightarrow> (0, 0) | Some b \<Rightarrow> (bk_track b, bk_sector b))"

definition side_place :: "side_sectors \<Rightarrow> byte \<times> byte" where
  "side_place ss =
     (case ss_super ss of
        Some b \<Rightarrow> (bk_track b, bk_sector b)
      | None \<Rightarrow> (case ss_clusters ss of [] \<Rightarrow> (0, 0) | cl # _ \<Rightarrow> cluster_place cl))"

definition get_number_of_blocks :: "side_sectors \<Rightarrow> nat" where
  "get_number_of_blocks ss = (if ss_super ss = None then 0 else 1) + (ss_datablocks ss + 119) div 120"

section \<open>The data sector of a position\<close>

definition cluster_seek :: "nat \<Rightarrow> cluster \<Rightarrow> fresult + byte \<times> byte" where
  "cluster_seek sect cl =
     (let block = sect div 120; i = 16 + 2 * (sect - block * 120)
      in if sect \<ge> cl_datablocks cl then Inl FR_INVALID_PARAMETER
         else if block > 5 then Inl FR_INT_ERR
         else case cl_blocks cl ! block of
                None \<Rightarrow> Inl FR_INT_ERR
              | Some b \<Rightarrow> if bk_data b ! i = 0 then Inl FR_INT_ERR else Inr (bk_data b ! i, bk_data b ! (i + 1)))"

text \<open>The bytes of a cluster: all of its sectors are full but the last, whose second byte tells the rest.
  Without a data sector the search fails and leaves the place undefined: \<open>None\<close>.\<close>

definition cluster_file_size :: "'d device \<Rightarrow> byte list \<Rightarrow> cluster \<Rightarrow> 'd cbmfs \<Rightarrow> (u32 \<times> 'd cbmfs) option" where
  "cluster_file_size dev fresh cl fs =
     (if cl_datablocks cl = 720 then Some (720 * 254, fs)
      else if cl_datablocks cl = 0 then None
      else case cluster_seek (cl_datablocks cl - 1) cl of
             Inl _ \<Rightarrow> None
           | Inr (t, s) \<Rightarrow>
               do { (res, b, d) \<leftarrow> read_into dev (fs_abs fs (uint t) (uint s)) 1 fresh (fs_medium fs);
                    let n = 254 * of_nat (cl_datablocks cl - 1);
                    Some (if res = RES_OK then n + ucast (b ! 1) - 1 else n, fs\<lparr>fs_medium := d\<rparr>) })"

fun side_file_size :: "'d device \<Rightarrow> byte list \<Rightarrow> cluster list \<Rightarrow> 'd cbmfs \<Rightarrow> (u32 \<times> 'd cbmfs) option" where
  "side_file_size dev fresh [] fs = Some (0, fs)"
| "side_file_size dev fresh (cl # cls) fs =
     do { (n, fs1) \<leftarrow> cluster_file_size dev fresh cl fs;
          (k, fs2) \<leftarrow> side_file_size dev fresh cls fs1;
          Some (n + k, fs2) }"

text \<open>The offset in the sector and the sector.  At the end of the last sector the position is behind it.\<close>

definition side_seek ::
  "'d device \<Rightarrow> byte list \<Rightarrow> u32 \<Rightarrow> side_sectors \<Rightarrow> 'd cbmfs \<Rightarrow> ((nat \<times> (fresult + byte \<times> byte)) \<times> 'd cbmfs) option" where
  "side_seek dev fresh pos ss fs =
     (let sect = unat pos div 254; off = 2 + (unat pos - sect * 254)
      in do { ((sect', off'), fs') \<leftarrow>
                (if sect > 0 \<and> sect = ss_datablocks ss \<and> off = 2
                 then do { (n, fs') \<leftarrow> side_file_size dev fresh (ss_clusters ss) fs;
                           Some (if pos = n then (sect - 1, 256) else (sect, off), fs') }
                 else Some ((sect, off), fs));
              let c = sect' div 720;
              Some ((off', if c \<ge> length (ss_clusters ss) then Inl FR_INVALID_PARAMETER
                           else cluster_seek (sect' - c * 720) (ss_clusters ss ! c)), fs') })"

section \<open>The links between the blocks\<close>

definition local_references :: "cluster \<Rightarrow> byte list" where
  "local_references cl =
     concat (map (\<lambda>b. case b of None \<Rightarrow> [0, 0] | Some b \<Rightarrow> [bk_track b, bk_sector b]) (cl_blocks cl))"

text \<open>One round of the loop of \<open>validate\<close>; a missing block before one that is there would be a null pointer.\<close>

fun validate_blocks :: "byte list \<Rightarrow> byte \<Rightarrow> nat \<Rightarrow> int \<Rightarrow> cached_block option list \<Rightarrow> cached_block option list option" where
  "validate_blocks refs rs i remaining [] = Some []"
| "validate_blocks refs rs i remaining (b # bs) =
     (let b1 = map_option (\<lambda>b. b\<lparr>bk_data := (blit 4 refs (bk_data b))[2 := of_nat i, 3 := rs, 1 := of_int (remaining * 2 + 15)]\<rparr>) b
      in do { b2 \<leftarrow> (case bs of
                Some n # _ \<Rightarrow> map_option (\<lambda>b. Some (b\<lparr>bk_data := (bk_data b)[0 := bk_track n, 1 := bk_sector n]\<rparr>)) b1
              | _ \<Rightarrow> Some b1);
              rest \<leftarrow> validate_blocks refs rs (i + 1) (remaining - 120) bs;
              Some (b2 # rest) })"

definition cluster_validate :: "byte \<Rightarrow> cluster \<Rightarrow> cluster option" where
  "cluster_validate rec_size cl =
     (let rs = (if rec_size \<noteq> 0 then rec_size else cl_record_size cl)
      in map_option (\<lambda>bs. cl\<lparr>cl_record_size := rs, cl_blocks := bs\<rparr>)
           (validate_blocks (local_references cl) rs 0 (int (cl_datablocks cl)) (cl_blocks cl)))"

text \<open>The last block of a cluster that is there is linked to the next cluster.\<close>

fun link_last :: "byte \<times> byte \<Rightarrow> cached_block option list \<Rightarrow> cached_block option list" where
  "link_last p [] = []"
| "link_last p (b # bs) =
     (if \<exists>x \<in> set bs. x \<noteq> None then b # link_last p bs
      else map_option (\<lambda>b. b\<lparr>bk_data := (bk_data b)[0 := fst p, 1 := snd p]\<rparr>) b # bs)"

fun link_clusters :: "cluster list \<Rightarrow> cluster list" where
  "link_clusters (c # d # cs) =
     c\<lparr>cl_blocks := link_last (cluster_place d) (cl_blocks c)\<rparr> # link_clusters (d # cs)"
| "link_clusters cs = cs"

text \<open>The super side sector names the first cluster, and then all of them from byte 3 on.\<close>

definition side_validate :: "byte \<Rightarrow> side_sectors \<Rightarrow> side_sectors option" where
  "side_validate rec_size ss =
     (case ss_super ss of
        None \<Rightarrow>
          (case ss_clusters ss of
             [] \<Rightarrow> Some ss
           | c # cs \<Rightarrow> map_option (\<lambda>c'. ss\<lparr>ss_clusters := c' # cs\<rparr>) (cluster_validate rec_size c))
      | Some b \<Rightarrow>
          let places = map cluster_place (ss_clusters ss);
              first = (case places of [] \<Rightarrow> bk_data b | (t, s) # _ \<Rightarrow> (bk_data b)[0 := t, 1 := s]);
              data = blit 3 (concat (map (\<lambda>(t, s). [t, s]) places)) first
          in if 3 + 2 * length places > 256 then None
             else do { cls \<leftarrow> those (map (cluster_validate rec_size) (ss_clusters ss));
                       Some (ss\<lparr>ss_super := Some (b\<lparr>bk_data := data\<rparr>), ss_clusters := link_clusters cls\<rparr>) })"

section \<open>Reading and writing them\<close>

text \<open>The next sector, and the cluster with one more block.\<close>

fun load_blocks :: "'d device \<Rightarrow> nat list \<Rightarrow> byte \<times> byte \<Rightarrow> cluster \<Rightarrow> 'd cbmfs \<Rightarrow>
    ((fresult \<times> (byte \<times> byte) \<times> cluster) \<times> 'd cbmfs) option" where
  "load_blocks dev [] p cl fs = Some ((FR_OK, p, cl), fs)"
| "load_blocks dev (i # is) (track, sector) cl fs =
     (if track = 0 then Some ((FR_OK, (track, sector), cl), fs)
      else let b = (case cl_blocks cl ! i of
               Some b \<Rightarrow> b | None \<Rightarrow> \<lparr>bk_track = track, bk_sector = sector, bk_data = replicate 256 0\<rparr>)
           in do { (res, data, d) \<leftarrow> read_into dev (fs_abs fs (uint track) (uint sector)) 1 (bk_data b) (fs_medium fs);
                   let fs' = fs\<lparr>fs_medium := d\<rparr>;
                   let cl1 = cl\<lparr>cl_blocks := (cl_blocks cl)[i := Some (b\<lparr>bk_data := data\<rparr>)]\<rparr>;
                   if res \<noteq> RES_OK then Some ((FR_DISK_ERR, (track, sector), cl1), fs')
                   else let t = data ! 0; s = data ! 1;
                            more = (if t \<noteq> 0 then 120 else if s > 16 then unat s div 2 - 7 else 0)
                        in load_blocks dev is (t, s)
                             (cl1\<lparr>cl_faulty := (cl_faulty cl1 \<or> data ! 2 \<noteq> of_nat i), cl_record_size := data ! 3,
                                cl_datablocks := cl_datablocks cl1 + more\<rparr>) fs' })"

definition cluster_load :: "'d device \<Rightarrow> byte \<times> byte \<Rightarrow> cluster \<Rightarrow> 'd cbmfs \<Rightarrow>
    ((fresult \<times> (byte \<times> byte) \<times> cluster) \<times> 'd cbmfs) option" where
  "cluster_load dev p cl fs = load_blocks dev [0..<6] p cl fs"

text \<open>A chain of clusters that runs in a circle is followed for ever.\<close>

partial_function (option) load_clusters :: "'d device \<Rightarrow> byte \<times> byte \<Rightarrow> side_sectors \<Rightarrow> 'd cbmfs \<Rightarrow>
    ((fresult \<times> side_sectors) \<times> 'd cbmfs) option" where
  "load_clusters dev p ss fs =
     (if fst p = 0 then Some ((FR_OK, ss), fs)
      else do { ((res, p', cl), fs') \<leftarrow> cluster_load dev p (new_cluster 0) fs;
                let ss' = ss\<lparr>ss_clusters := ss_clusters ss @ [cl]\<rparr>;
                if res \<noteq> FR_OK then Some ((res, ss'), fs')
                else load_clusters dev p' (ss'\<lparr>ss_datablocks := ss_datablocks ss' + cl_datablocks cl\<rparr>) fs' })"

definition side_load :: "'d device \<Rightarrow> byte \<times> byte \<Rightarrow> side_sectors \<Rightarrow> 'd cbmfs \<Rightarrow> ((fresult \<times> side_sectors) \<times> 'd cbmfs) option" where
  "side_load dev p ss fs =
     do { (res, fs1) \<leftarrow> move_window dev (fs_abs fs (uint (fst p)) (uint (snd p))) fs;
          if res \<noteq> FR_OK then Some ((res, ss), fs1)
          else let buf = fs_sect fs1;
                   (ss1, p1) = (if buf ! 2 = 0xFE
                     then (ss\<lparr>ss_super := Some \<lparr>bk_track = fst p, bk_sector = snd p, bk_data = buf\<rparr>, ss_do_super := True\<rparr>,
                           (buf ! 0, buf ! 1))
                     else (ss, p))
               in load_clusters dev p1 (ss1\<lparr>ss_datablocks := 0\<rparr>) fs1 }"

fun write_blocks :: "'d device \<Rightarrow> cached_block option list \<Rightarrow> 'd cbmfs \<Rightarrow> (fresult \<times> 'd cbmfs) option" where
  "write_blocks dev [] fs = Some (FR_OK, fs)"
| "write_blocks dev (None # bs) fs = write_blocks dev bs fs"
| "write_blocks dev (Some b # bs) fs =
     do { (res, d) \<leftarrow> write_from dev (fs_abs fs (uint (bk_track b)) (uint (bk_sector b))) 1 (bk_data b) (fs_medium fs);
          let fs' = fs\<lparr>fs_medium := d\<rparr>;
          if res \<noteq> RES_OK then Some (FR_DISK_ERR, fs') else write_blocks dev bs fs' }"

fun write_clusters :: "'d device \<Rightarrow> cluster list \<Rightarrow> 'd cbmfs \<Rightarrow> (fresult \<times> 'd cbmfs) option" where
  "write_clusters dev [] fs = Some (FR_OK, fs)"
| "write_clusters dev (cl # cls) fs =
     do { (res, fs') \<leftarrow> write_blocks dev (cl_blocks cl) fs;
          if res \<noteq> FR_OK then Some (res, fs') else write_clusters dev cls fs' }"

definition side_write :: "'d device \<Rightarrow> side_sectors \<Rightarrow> 'd cbmfs \<Rightarrow> (fresult \<times> 'd cbmfs) option" where
  "side_write dev ss fs =
     do { (res, fs1) \<leftarrow> write_blocks dev [ss_super ss] fs;
          if res \<noteq> FR_OK then Some (res, fs1) else write_clusters dev (ss_clusters ss) fs1 }"

declare load_clusters.simps [code]

end
