(* ===== verification/Cbm_Bam_Correct.thy ===== *)
theory Cbm_Bam_Correct
  imports Cbm_Bam
begin

text \<open>
  The map of free sectors is correct: seen as the set of sectors whose bit is set, taking a sector
  removes just that one, giving it back adds it, and the counts stay the number of set bits.  The
  locale \<open>bam_map\<close> asks that the bytes of different tracks are different and inside the buffers; it
  is interpreted on the D64, the D71 and the D81.
\<close>

section \<open>Bytes of the map\<close>

lemma bam_byte_set:
  "bam_byte (set_bam_byte p x st) q = (if p = q \<and> bam_byte st p \<noteq> None then Some x else bam_byte st q)"
  by (cases p; cases q) (auto simp: bam_byte_def set_bam_byte_def peek_def)

lemma set_bam_byte_fields [simp]:
  "cb_kind (set_bam_byte p x st) = cb_kind st" "cb_layout (set_bam_byte p x st) = cb_layout st"
  "cb_num_sectors (set_bam_byte p x st) = cb_num_sectors st" "cb_root_track (set_bam_byte p x st) = cb_root_track st"
  "length (cb_root (set_bam_byte p x st)) = length (cb_root st)" "length (cb_bam (set_bam_byte p x st)) = length (cb_bam st)"
  by (simp_all add: set_bam_byte_def)

lemma mark_dirty_fields [simp]:
  "cb_kind (mark_dirty t st) = cb_kind st" "cb_layout (mark_dirty t st) = cb_layout st"
  "cb_num_sectors (mark_dirty t st) = cb_num_sectors st" "cb_root_track (mark_dirty t st) = cb_root_track st"
  "cb_root (mark_dirty t st) = cb_root st" "cb_bam (mark_dirty t st) = cb_bam st"
  "bam_byte (mark_dirty t st) p = bam_byte st p"
  by (simp_all add: mark_dirty_def bam_byte_def split: cbm_kind.split)

lemma bit_cleared: "b < 8 \<Longrightarrow> bit ((x :: byte) AND NOT (push_bit b 1)) k \<longleftrightarrow> bit x k \<and> k \<noteq> b"
  using bit_imp_le_length [of x k] by (auto simp: bit_simps)

lemma bit_added: "b < 8 \<Longrightarrow> bit ((x :: byte) OR push_bit b 1) k \<longleftrightarrow> bit x k \<or> k = b"
  by (auto simp: bit_simps)

lemma unat_dec: "0 < unat (n :: byte) \<Longrightarrow> unat (n - 1) = unat n - 1"
  by (rule unat_minus_one) auto

lemma unat_inc: "unat (n :: byte) < 255 \<Longrightarrow> unat (n + 1) = unat n + 1"
  by (simp add: unat_word_ariths)

text \<open>The steps of \<open>set_sector_allocation\<close>, without the meaning of the map.\<close>

lemma set_allocation_step:
  assumes "cb_kind st = k" "k \<noteq> DNP" "bam_byte st (bit_place k t s) = Some x"
    "bam_byte st (count_place k t) = Some n" "bit_place k t s \<noteq> count_place k t"
  shows "bit x (s mod 8) \<noteq> alloc \<Longrightarrow> set_sector_allocation t s alloc st = Some (False, st)"
    "bit x (s mod 8) = alloc \<Longrightarrow> (alloc \<longrightarrow> n \<noteq> 0) \<Longrightarrow>
      set_sector_allocation t s alloc st = Some (True, mark_dirty t (set_bam_byte (count_place k t) (if alloc then n - 1 else n + 1)
        (set_bam_byte (bit_place k t s) (if alloc then x AND NOT (push_bit (s mod 8) 1) else x OR push_bit (s mod 8) 1) st)))"
proof -
  have p: "(fst (bits_place k t), snd (bits_place k t) + s div 8) = bit_place k t s" by (simp add: bit_place_def)
  have n': "bam_byte (set_bam_byte (bit_place k t s) y st) (count_place k t) = Some n" for y
    using assms(4,5) by (simp add: bam_byte_set)
  show "bit x (s mod 8) \<noteq> alloc \<Longrightarrow> set_sector_allocation t s alloc st = Some (False, st)"
    using assms(1-3) by (cases alloc) (simp_all add: set_sector_allocation_def modify_allocation_bit_def p)
  show "set_sector_allocation t s alloc st = Some (True, mark_dirty t (set_bam_byte (count_place k t) (if alloc then n - 1 else n + 1)
        (set_bam_byte (bit_place k t s) (if alloc then x AND NOT (push_bit (s mod 8) 1) else x OR push_bit (s mod 8) 1) st)))"
    if "bit x (s mod 8) = alloc" "alloc \<longrightarrow> n \<noteq> 0"
    using assms(1-3) that n' by (cases alloc) (simp_all add: set_sector_allocation_def modify_allocation_bit_def p)
qed

lemma find_append: "find P (xs @ ys) = (case find P xs of None \<Rightarrow> find P ys | Some x \<Rightarrow> Some x)"
  by (induction xs) auto

lemma find_map: "find P (map f xs) = map_option f (find (P \<circ> f) xs)"
  by (induction xs) auto

lemma set_sector_allocation_fields:
  assumes "set_sector_allocation t s alloc st = Some (b, st')"
  shows "cb_kind st' = cb_kind st" "cb_layout st' = cb_layout st" "cb_num_sectors st' = cb_num_sectors st"
    "cb_root_track st' = cb_root_track st"
  using assms
  by (auto simp: set_sector_allocation_def modify_allocation_bit_def Let_def split: option.splits if_splits)

text \<open>The sectors from \<open>s\<close> on the first of these tracks, and all of those of the others, in order.\<close>

fun sectors_above :: "layout \<Rightarrow> nat list \<Rightarrow> nat \<Rightarrow> (nat \<times> nat) list" where
  "sectors_above layout [] s = []"
| "sectors_above layout (t # ts) s =
     map (Pair t) [s..<nat (get_sectors_in_track layout (int t))] @ sectors_above layout ts 0"

section \<open>The map of a kind of disk\<close>

text \<open>A sector is free when its bit is set.\<close>

definition is_free :: "cbm \<Rightarrow> nat \<Rightarrow> nat \<Rightarrow> bool" where
  "is_free st t s \<longleftrightarrow> (case bam_byte st (bit_place (cb_kind st) t s) of None \<Rightarrow> False | Some x \<Rightarrow> bit x (s mod 8))"

definition inside :: "nat \<Rightarrow> place \<Rightarrow> bool" where
  "inside n p \<longleftrightarrow> snd p < (if fst p then n else 256)"

locale bam_map =
  fixes kind :: cbm_kind and tracks :: nat and bam_size :: nat
  assumes counted: "kind \<noteq> DNP"
    and count_inside: "t \<in> {1..tracks} \<Longrightarrow> inside bam_size (count_place kind t)"
    and bit_inside: "t \<in> {1..tracks} \<Longrightarrow> s < track_limit kind \<Longrightarrow> inside bam_size (bit_place kind t s)"
    and count_apart: "t \<in> {1..tracks} \<Longrightarrow> t' \<in> {1..tracks} \<Longrightarrow> count_place kind t = count_place kind t' \<Longrightarrow> t = t'"
    and bits_apart: "t \<in> {1..tracks} \<Longrightarrow> t' \<in> {1..tracks} \<Longrightarrow> s < track_limit kind \<Longrightarrow> s' < track_limit kind \<Longrightarrow>
      bit_place kind t s = bit_place kind t' s' \<Longrightarrow> t = t' \<and> s div 8 = s' div 8"
    and bit_no_count: "t \<in> {1..tracks} \<Longrightarrow> t' \<in> {1..tracks} \<Longrightarrow> s < track_limit kind \<Longrightarrow>
      bit_place kind t s \<noteq> count_place kind t'"
begin

definition free :: "cbm \<Rightarrow> (nat \<times> nat) set" where
  "free st = {(t, s). t \<in> {1..tracks} \<and> s < track_limit kind \<and> is_free st t s}"

definition map_ok :: "cbm \<Rightarrow> bool" where
  "map_ok st \<longleftrightarrow> cb_kind st = kind \<and> length (cb_root st) = 256 \<and> length (cb_bam st) = bam_size \<and>
     (\<forall>t \<in> {1..tracks}. map_option unat (bam_byte st (count_place kind t)) =
        Some (card {s. s < track_limit kind \<and> is_free st t s}))"

lemma inside_byte: "map_ok st \<Longrightarrow> inside bam_size p \<Longrightarrow> bam_byte st p \<noteq> None"
  by (auto simp: map_ok_def inside_def bam_byte_def peek_def split: if_splits)

text \<open>Setting the bit of one sector, and its count.\<close>

lemma change_sector:
  assumes "map_ok st" "t \<in> {1..tracks}" "s < track_limit kind"
    "bam_byte st (bit_place kind t s) = Some x" "\<And>k. k < 8 \<Longrightarrow> bit y k = (if k = s mod 8 then v else bit x k)"
    "unat c = card {s'. s' < track_limit kind \<and> (if s' = s then v else is_free st t s')}"
    "st' = mark_dirty t (set_bam_byte (count_place kind t) c (set_bam_byte (bit_place kind t s) y st))"
  shows "map_ok st'" "free st' = (if v then insert (t, s) (free st) else free st - {(t, s)})"
proof -
  have k: "cb_kind st = kind" using assms(1) by (simp add: map_ok_def)
  have k': "cb_kind st' = kind" using k by (simp add: assms(7))
  have byte: "bam_byte st' p = (if p = count_place kind t then Some c
      else if p = bit_place kind t s then Some y else bam_byte st p)" for p
    using bit_no_count [OF assms(2,2,3)] inside_byte [OF assms(1) count_inside [OF assms(2)]] assms(4)
    by (auto simp: assms(7) bam_byte_set)
  have free: "is_free st' t' s' = (if t' = t \<and> s' = s then v else is_free st t' s')"
    if "t' \<in> {1..tracks}" "s' < track_limit kind" for t' s'
  proof -
    have n: "bit_place kind t' s' \<noteq> count_place kind t" by (rule bit_no_count [OF that(1) assms(2) that(2)])
    show ?thesis
    proof (cases "bit_place kind t' s' = bit_place kind t s")
      case True
      then have same: "t' = t" "s' div 8 = s div 8" using bits_apart [OF that(1) assms(2) that(2) assms(3)] by simp_all
      have m: "s' = s \<longleftrightarrow> s' mod 8 = s mod 8" using same(2) by (metis div_mult_mod_eq)
      have "is_free st' t' s' = bit y (s' mod 8)" using True n k' by (simp add: is_free_def byte)
      also have "\<dots> = (if s' = s then v else bit x (s' mod 8))" using m by (simp add: assms(5))
      also have "bit x (s' mod 8) = is_free st t' s'" using True k assms(4) by (simp add: is_free_def)
      finally show ?thesis using same(1) by simp
    next
      case False
      then have "\<not> (t' = t \<and> s' = s)" by auto
      then have "(if t' = t \<and> s' = s then v else is_free st t' s') = is_free st t' s'" by (rule if_not_P)
      then show ?thesis using False n k k' by (simp only:) (simp add: is_free_def byte)
    qed
  qed
  show "free st' = (if v then insert (t, s) (free st) else free st - {(t, s)})"
    using assms(2,3) free by (auto simp: free_def split: if_splits)
  have "map_option unat (bam_byte st' (count_place kind t')) = Some (card {s'. s' < track_limit kind \<and> is_free st' t' s'})"
    if t': "t' \<in> {1..tracks}" for t'
  proof (cases "t' = t")
    case True
    have "{s'. s' < track_limit kind \<and> is_free st' t s'} =
        {s'. s' < track_limit kind \<and> (if s' = s then v else is_free st t s')}"
      using free [OF assms(2)] by auto
    then show ?thesis using True assms(6) by (simp add: byte)
  next
    case False
    have "{s'. s' < track_limit kind \<and> is_free st' t' s'} = {s'. s' < track_limit kind \<and> is_free st t' s'}"
      using free [OF t'] False by auto
    moreover have "count_place kind t' \<noteq> count_place kind t" "count_place kind t' \<noteq> bit_place kind t s"
      using count_apart [OF t' assms(2)] False bit_no_count [OF assms(2) t' assms(3)] by auto
    ultimately show ?thesis using assms(1) t' by (simp add: byte map_ok_def)
  qed
  then show "map_ok st'" using assms(1) by (simp add: map_ok_def assms(7))
qed

lemma limit_small: "track_limit kind \<le> 40"
  by (simp add: track_limit_def split: cbm_kind.split)

lemma count_free:
  assumes "map_ok st" "t \<in> {1..tracks}"
  obtains n where "bam_byte st (count_place kind t) = Some n" "unat n = card {s. s < track_limit kind \<and> is_free st t s}"
proof -
  have "map_option unat (bam_byte st (count_place kind t)) = Some (card {s. s < track_limit kind \<and> is_free st t s})"
    using assms(1) unfolding map_ok_def by (elim conjE bspec [OF _ assms(2)])
  then obtain n where "bam_byte st (count_place kind t) = Some n" "unat n = card {s. s < track_limit kind \<and> is_free st t s}"
    unfolding map_option_eq_Some by blast
  then show ?thesis by (rule that)
qed

lemma count_positive:
  assumes "map_ok st" "t \<in> {1..tracks}" "s < track_limit kind" "is_free st t s" "bam_byte st (count_place kind t) = Some n"
  shows "0 < unat n"
proof -
  obtain m where m: "bam_byte st (count_place kind t) = Some m" "unat m = card {s. s < track_limit kind \<and> is_free st t s}"
    by (rule count_free [OF assms(1,2)])
  have "n = m" using m(1) assms(5) by simp
  then have "unat n = card {s. s < track_limit kind \<and> is_free st t s}" using m(2) by simp
  moreover have "finite {s. s < track_limit kind \<and> is_free st t s}" by simp
  moreover have "s \<in> {s. s < track_limit kind \<and> is_free st t s}" using assms(3,4) by simp
  ultimately show ?thesis by (simp only: card_gt_0_iff) blast
qed

text \<open>A sector of its own choice: the bit changes exactly when it was different.\<close>

lemma set_allocation:
  assumes "map_ok st" "t \<in> {1..tracks}" "s < track_limit kind"
  shows "\<exists>st'. set_sector_allocation t s alloc st = Some (is_free st t s = alloc, st') \<and> map_ok st' \<and>
    free st' = (if alloc then free st - {(t, s)} else insert (t, s) (free st))"
proof -
  have k: "cb_kind st = kind" using assms(1) by (simp add: map_ok_def)
  obtain x where x: "bam_byte st (bit_place kind t s) = Some x"
    using inside_byte [OF assms(1) bit_inside [OF assms(2,3)]] by blast
  have fr: "is_free st t s = bit x (s mod 8)" using x k by (simp add: is_free_def)
  let ?S = "{s. s < track_limit kind \<and> is_free st t s}"
  have fin: "finite ?S" by simp
  obtain n where n: "bam_byte st (count_place kind t) = Some n" "unat n = card ?S" by (rule count_free [OF assms(1,2)])
  note step = set_allocation_step [OF k counted x n(1) bit_no_count [OF assms(2,2,3)], of alloc]
  show ?thesis
  proof (cases "is_free st t s = alloc")
    case False
    then have "free st = (if alloc then free st - {(t, s)} else insert (t, s) (free st))"
      using assms(2,3) by (auto simp: free_def)
    moreover have "set_sector_allocation t s alloc st = Some (is_free st t s = alloc, st)"
      using step(1) False fr by simp
    ultimately show ?thesis using assms(1) by metis
  next
    case True
    let ?y = "if alloc then x AND NOT (push_bit (s mod 8) 1) else x OR push_bit (s mod 8) 1"
    let ?c = "if alloc then n - 1 else n + 1"
    let ?T = "{s'. s' < track_limit kind \<and> (if s' = s then \<not> alloc else is_free st t s')}"
    have y: "bit ?y b = (if b = s mod 8 then \<not> alloc else bit x b)" if "b < 8" for b
      using bit_cleared [of "s mod 8" x b] bit_added [of "s mod 8" x b] by auto
    have c: "unat ?c = card ?T \<and> (alloc \<longrightarrow> n \<noteq> 0)"
    proof (cases alloc)
      case a: True
      have ins: "s \<in> ?S" using True a assms(3) by simp
      have pos: "0 < unat n" using count_positive [OF assms _ n(1)] True a by simp
      then have "n \<noteq> 0" by auto
      moreover have "unat (n - 1) = card ?S - 1" using unat_dec [OF pos] n(2) by simp
      moreover have "?T = ?S - {s}" using a by auto
      ultimately show ?thesis using a card_Diff_singleton [OF ins] by simp
    next
      case a: False
      have ins: "s \<notin> ?S" using True a by simp
      have T: "?T = insert s ?S" using assms(3) a by auto
      have "card (insert s ?S) \<le> card {..<track_limit kind}" using assms(3) by (intro card_mono) auto
      then have "unat n < 255" using card_insert_disjoint [OF fin ins] limit_small n(2) by simp
      then have "unat (n + 1) = card ?S + 1" using unat_inc n(2) by simp
      then show ?thesis unfolding T using a card_insert_disjoint [OF fin ins] by simp
    qed
    note ch = change_sector [OF assms x y conjunct1 [OF c] refl]
    show ?thesis using step(2) True fr c ch by (intro exI conjI) (assumption | simp)+
  qed
qed

text \<open>The first free sector of a track.\<close>

lemma take_free:
  assumes "map_ok st" "t \<in> {1..tracks}" "\<forall>i \<in> set is. i < track_limit kind" "find (is_free st t) is = Some s"
  shows "\<exists>st'. take_free t is st = Got s st' \<and> map_ok st' \<and> free st' = free st - {(t, s)}"
  using assms(3,4)
proof (induction "is")
  case (Cons i "is")
  have k: "cb_kind st = kind" using assms(1) by (simp add: map_ok_def)
  have i: "i < track_limit kind" using Cons.prems(1) by simp
  obtain x where x: "bam_byte st (bit_place kind t i) = Some x"
    using inside_byte [OF assms(1) bit_inside [OF assms(2) i]] by blast
  have fr: "is_free st t i = bit x (i mod 8)" using x k by (simp add: is_free_def)
  show ?case
  proof (cases "bit x (i mod 8)")
    case False
    moreover have "take_free t (i # is) st = take_free t is st" using False x k by simp
    ultimately show ?thesis using Cons fr by simp
  next
    case True
    have s: "i = s" using True Cons.prems(2) fr by simp
    obtain n where n: "bam_byte st (count_place kind t) = Some n" by (rule count_free [OF assms(1,2)])
    note apart = bit_no_count [OF assms(2,2) i]
    obtain st' where st': "set_sector_allocation t i True st = Some (True, st')" "map_ok st'" "free st' = free st - {(t, i)}"
      using set_allocation [OF assms(1,2) i, of True] True fr by auto
    have "n \<noteq> 0" using count_positive [OF assms(1,2) i _ n] True fr by auto
    then have "st' = mark_dirty t (set_bam_byte (count_place kind t) (n - 1)
        (set_bam_byte (bit_place kind t i) (x AND NOT (push_bit (i mod 8) 1)) st))"
      using set_allocation_step(2) [OF k counted x n apart, of True] True st'(1) by simp
    moreover have "bam_byte (set_bam_byte (bit_place kind t i) y st) (count_place kind t) = Some n" for y
      using apart n by (simp add: bam_byte_set)
    ultimately have "take_free t (i # is) st = Got i st'" by (simp add: True x k del: mark_dirty_fields)
    then show ?thesis using s st'(2,3) by blast
  qed
qed simp

lemma allocate_on_track:
  assumes "map_ok st" "t \<in> {1..tracks}"
  shows "case find (\<lambda>s. (t, s) \<in> free st) [0..<track_limit kind] of
      None \<Rightarrow> allocate_sector_on_track t st = Full st
    | Some s \<Rightarrow> \<exists>st'. allocate_sector_on_track t st = Got s st' \<and> map_ok st' \<and> free st' = free st - {(t, s)}"
proof -
  have k: "cb_kind st = kind" using assms(1) by (simp add: map_ok_def)
  have fr: "find (\<lambda>s. (t, s) \<in> free st) [0..<track_limit kind] = find (is_free st t) [0..<track_limit kind]"
    using assms(2) by (intro find_cong) (auto simp: free_def)
  obtain n where n: "bam_byte st (count_place kind t) = Some n" "unat n = card {s. s < track_limit kind \<and> is_free st t s}"
    by (rule count_free [OF assms])
  have "allocate_sector_on_track t st = (if n \<noteq> 0 then take_free t [0..<track_limit kind] st else Full st)"
    unfolding allocate_sector_on_track_def k n(1) using counted by (simp del: take_free.simps)
  moreover have "n = 0 \<longleftrightarrow> find (is_free st t) [0..<track_limit kind] = None"
  proof -
    have "n = 0 \<longleftrightarrow> card {s. s < track_limit kind \<and> is_free st t s} = 0" unfolding n(2) [symmetric] by (simp add: unat_eq_zero)
    also have "\<dots> \<longleftrightarrow> (\<forall>s < track_limit kind. \<not> is_free st t s)" by auto
    finally show ?thesis by (auto simp: find_None_iff)
  qed
  ultimately show ?thesis unfolding fr
    using take_free [OF assms, of "[0..<track_limit kind]"] by (simp del: take_free.simps split: option.split)
qed

lemma try_tracks:
  assumes "map_ok st" "set ts \<subseteq> {1..tracks}"
  shows "case find (\<lambda>p. p \<in> free st) (List.product ts [0..<track_limit kind]) of
      None \<Rightarrow> try_tracks ts st = Full st
    | Some p \<Rightarrow> \<exists>st'. try_tracks ts st = Got p st' \<and> map_ok st' \<and> free st' = free st - {p}"
  using assms(2)
proof (induction ts)
  case (Cons t ts)
  have "case find (\<lambda>s. (t, s) \<in> free st) [0..<track_limit kind] of
      None \<Rightarrow> allocate_sector_on_track t st = Full st
    | Some s \<Rightarrow> \<exists>st'. allocate_sector_on_track t st = Got s st' \<and> map_ok st' \<and> free st' = free st - {(t, s)}"
    using allocate_on_track [OF assms(1)] Cons.prems by simp
  then show ?case using Cons by (auto simp: find_append find_map o_def split: option.splits)
qed simp

text \<open>The search for the next higher free sector leaves the map as it was.\<close>

lemma next_free_on:
  assumes "map_ok st" "t \<in> {1..tracks}" "\<forall>s \<in> set ss. s < track_limit kind"
  shows "\<exists>st'. next_free_on t ss st = Some (find (\<lambda>s. (t, s) \<in> free st) ss, st') \<and> map_ok st' \<and> free st' = free st \<and>
    cb_layout st' = cb_layout st"
  using assms(1,3)
proof (induction ss arbitrary: st)
  case (Cons s ss)
  have s: "s < track_limit kind" using Cons.prems(2) by simp
  have fr: "(t, s) \<in> free st \<longleftrightarrow> is_free st t s" using assms(2) s by (simp add: free_def)
  obtain st1 where 1: "set_sector_allocation t s False st = Some (is_free st t s = False, st1)" "map_ok st1"
    "free st1 = insert (t, s) (free st)" using set_allocation [OF Cons.prems(1) assms(2) s, of False] by auto
  note f1 = set_sector_allocation_fields [OF 1(1)]
  show ?case
  proof (cases "is_free st t s")
    case True
    then show ?thesis using 1 fr f1 by (auto simp: insert_absorb)
  next
    case False
    have fr1: "is_free st1 t s" using 1(3) assms(2) s by (auto simp: free_def)
    obtain st2 where 2: "set_sector_allocation t s True st1 = Some (True, st2)" "map_ok st2"
      "free st2 = free st1 - {(t, s)}" using set_allocation [OF 1(2) assms(2) s, of True] fr1 by auto
    note f2 = set_sector_allocation_fields [OF 2(1)]
    have same: "free st2 = free st" using 1(3) 2(3) False fr by auto
    have "next_free_on t (s # ss) st = next_free_on t ss st2" using 1(1) 2(1) False by simp
    then show ?thesis using Cons.IH [OF 2(2)] Cons.prems(2) same False fr f1 f2 by auto
  qed
qed simp

lemma next_free:
  assumes "map_ok st" "set ts \<subseteq> {1..tracks}" "cb_layout st = layout"
    "\<forall>t \<in> set ts. nat (get_sectors_in_track layout (int t)) \<le> track_limit kind"
  shows "\<exists>st'. next_free ts s st = Some (find (\<lambda>p. p \<in> free st) (sectors_above layout ts s), st') \<and> map_ok st' \<and>
    free st' = free st"
  using assms
proof (induction ts arbitrary: s st)
  case (Cons t ts)
  let ?ss = "[s..<nat (get_sectors_in_track layout (int t))]"
  have t: "t \<in> {1..tracks}" "\<forall>s \<in> set ?ss. s < track_limit kind" using Cons.prems(2,4) by auto
  obtain st1 where 1: "next_free_on t ?ss st = Some (find (\<lambda>s. (t, s) \<in> free st) ?ss, st1)" "map_ok st1"
    "free st1 = free st" "cb_layout st1 = layout" using next_free_on [OF Cons.prems(1) t] Cons.prems(3) by auto
  show ?case
  proof (cases "find (\<lambda>s. (t, s) \<in> free st) ?ss")
    case None
    then have "next_free (t # ts) s st = next_free ts 0 st1" using 1(1) Cons.prems(3) by simp
    moreover have "\<exists>st'. next_free ts 0 st1 = Some (find (\<lambda>p. p \<in> free st1) (sectors_above layout ts 0), st') \<and>
        map_ok st' \<and> free st' = free st1"
      using Cons.IH [OF 1(2) _ 1(4)] Cons.prems(2,4) by simp
    ultimately show ?thesis using None 1(3) by (simp add: find_append find_map o_def)
  next
    case (Some s')
    then have "next_free (t # ts) s st = Some (Some (t, s'), st1)" using 1(1) Cons.prems(3) by simp
    then show ?thesis using Some 1(2,3) by (simp add: find_append find_map o_def)
  qed
qed simp

end

end
