(* ===== verification/Cbm_Alloc.thy ===== *)
theory Cbm_Alloc
  imports Cbm_Bam_Correct
begin

text \<open>
  What the allocation operations of the D64, D71 and D81 do to the set of free sectors: the search
  for a free sector in the order of the drive, giving and taking a sector for the drive's block
  commands, and what goes wrong in the D71 search.
\<close>

section \<open>The three maps\<close>

definition disk_tracks :: "cbm_kind \<Rightarrow> nat" where
  "disk_tracks kind = (case kind of D64 \<Rightarrow> 35 | D71 \<Rightarrow> 70 | D81 \<Rightarrow> 80 | DNP \<Rightarrow> 0)"

definition bam_size :: "cbm_kind \<Rightarrow> nat" where
  "bam_size kind = (case kind of D64 \<Rightarrow> 0 | D71 \<Rightarrow> 256 | D81 \<Rightarrow> 512 | DNP \<Rightarrow> 8192)"

lemmas bam_places = count_place_def bits_place_def bit_place_def inside_def track_limit_def

text \<open>Every track has a count byte and room for three (or five) bytes of bits after each other.\<close>

lemma bytes_apart:
  "q < 3 \<Longrightarrow> q' < 3 \<Longrightarrow> (4 * t + 1 + q = 4 * t' + 1 + q') = (t = t' \<and> q = (q' :: nat))"
  "q < 3 \<Longrightarrow> q' < 3 \<Longrightarrow> (3 * t + q = 3 * t' + q') = (t = t' \<and> q = q')"
  "q < 5 \<Longrightarrow> q' < 5 \<Longrightarrow> (6 * t + 1 + q = 6 * t' + 1 + q') = (t = t' \<and> q = q')"
  "q < 3 \<Longrightarrow> 4 * t + 1 + q \<noteq> 4 * t'"
  "q < 5 \<Longrightarrow> 6 * t + 1 + q \<noteq> 6 * t'"
  by presburger+

interpretation d64: bam_map D64 35 0
proof
  fix t t' s s' :: nat
  assume "s < track_limit D64" "s' < track_limit D64"
  then have q: "s div 8 < 3" "s' div 8 < 3" by (simp_all add: track_limit_def)
  show "bit_place D64 t s = bit_place D64 t' s' \<Longrightarrow> t = t' \<and> s div 8 = s' div 8"
    using bytes_apart(1) [OF q] by (simp add: bam_places)
qed (use bytes_apart(4) in \<open>auto simp: bam_places\<close>)

interpretation d71: bam_map D71 70 256
proof
  fix t t' s s' :: nat
  assume t: "t \<in> {1..70}" "t' \<in> {1..70}" and "s < track_limit D71"
  then have s: "s div 8 < 3" by (simp add: track_limit_def)
  show "bit_place D71 t s \<noteq> count_place D71 t'"
    using bytes_apart(4) [OF s, of t t'] t s by (auto simp: bam_places)
  assume "s' < track_limit D71"
  then have s': "s' div 8 < 3" by (simp add: track_limit_def)
  show "bit_place D71 t s = bit_place D71 t' s' \<Longrightarrow> t = t' \<and> s div 8 = s' div 8"
    using bytes_apart(1) [OF s s', of t t'] bytes_apart(2) [OF s s', of "t - 36" "t' - 36"]
    by (auto simp: bam_places split: if_splits)
qed (auto simp: bam_places split: if_splits)

interpretation d81: bam_map D81 80 512
proof
  fix t t' s s' :: nat
  assume t: "t \<in> {1..80}" "t' \<in> {1..80}" and "s < track_limit D81"
  then have s: "s div 8 < 5" by (simp add: track_limit_def)
  show "bit_place D81 t s \<noteq> count_place D81 t'"
    using bytes_apart(5) [OF s, of "t - 1" "t' - 1"] bytes_apart(5) [OF s, of "t - 41" "t' - 41"] t s
    by (auto simp: bam_places)
  assume "s' < track_limit D81"
  then have s': "s' div 8 < 5" by (simp add: track_limit_def)
  show "bit_place D81 t s = bit_place D81 t' s' \<Longrightarrow> t = t' \<and> s div 8 = s' div 8"
    using bytes_apart(3) [OF s s', of "t - 1" "t' - 1"] bytes_apart(3) [OF s s', of "t - 41" "t' - 41"] t s s'
    by (auto simp: bam_places split: if_splits)
qed (auto simp: bam_places split: if_splits)

lemma disk_map: "kind \<noteq> DNP \<Longrightarrow> bam_map kind (disk_tracks kind) (bam_size kind)"
  using d64.bam_map_axioms d71.bam_map_axioms d81.bam_map_axioms
  by (cases kind) (simp_all add: disk_tracks_def bam_size_def)

section \<open>Free sectors of a disk\<close>

definition free_sectors :: "cbm \<Rightarrow> (nat \<times> nat) set" where
  "free_sectors st = {(t, s). t \<in> {1..disk_tracks (cb_kind st)} \<and> s < track_limit (cb_kind st) \<and> is_free st t s}"

text \<open>The buffers have their size, and every count is the number of set bits.\<close>

definition bam_ok :: "cbm \<Rightarrow> bool" where
  "bam_ok st \<longleftrightarrow> length (cb_root st) = 256 \<and> length (cb_bam st) = bam_size (cb_kind st) \<and>
     (\<forall>t \<in> {1..disk_tracks (cb_kind st)}.
        map_option unat (bam_byte st (count_place (cb_kind st) t)) = Some (card {s. (t, s) \<in> free_sectors st}))"

text \<open>A D64, D71 or D81 of the normal size.\<close>

definition standard :: "cbm \<Rightarrow> bool" where
  "standard st \<longleftrightarrow> cb_kind st \<noteq> DNP \<and>
     (cb_layout st, cb_num_sectors st, cb_root_track st) =
     (case cb_kind st of D64 \<Rightarrow> (layout_d64, 683, 18) | D71 \<Rightarrow> (layout_d71, 1366, 18) | _ \<Rightarrow> (layout_d81, 3200, 40))"

lemma free_sectors_map:
  "kind \<noteq> DNP \<Longrightarrow> cb_kind st = kind \<Longrightarrow> bam_map.free kind (disk_tracks kind) st = free_sectors st"
  using bam_map.free_def [OF disk_map] by (simp add: free_sectors_def)

lemma bam_ok_map:
  assumes "kind \<noteq> DNP"
  shows "bam_map.map_ok kind (disk_tracks kind) (bam_size kind) st \<longleftrightarrow> cb_kind st = kind \<and> bam_ok st"
  using bam_map.map_ok_def [OF disk_map [OF assms]]
  by (auto simp: bam_ok_def free_sectors_def)

lemma standard_tracks: "standard st \<Longrightarrow> get_num_tracks (cb_layout st) (cb_num_sectors st) = int (disk_tracks (cb_kind st))"
  by (cases "cb_kind st") (simp_all add: standard_def disk_tracks_def get_num_tracks_def get_track_sector_def layout_d64_def
    layout_d71_def layout_d81_def Let_def)

lemma standard_sectors: "standard st \<Longrightarrow> nat (get_sectors_in_track (cb_layout st) t) \<le> track_limit (cb_kind st)"
  by (cases "cb_kind st") (simp_all add: standard_def track_limit_def get_sectors_in_track_def layout_d64_def
    layout_d71_def layout_d81_def)

lemma standard_inside:
  assumes "standard st" "\<not> get_abs_sector (cb_layout st) (cb_num_sectors st) (int t) (int s) < 0"
  shows "t \<in> {1..disk_tracks (cb_kind st)}" "s < track_limit (cb_kind st)"
  using assms
  by (cases "cb_kind st"; simp add: standard_def disk_tracks_def track_limit_def get_abs_sector_def layout_d64_def
    layout_d71_def layout_d81_def split: if_splits)+

section \<open>The search for a free sector\<close>

lemma product_append: "List.product (xs @ ys) zs = List.product xs zs @ List.product ys zs"
  by (induction xs) auto

text \<open>The tracks in the order they are searched.\<close>

definition search_order :: "cbm \<Rightarrow> nat \<Rightarrow> nat list" where
  "search_order st track =
     (let r = nat (cb_root_track st); first = (if track = 0 then r - 1 else track)
      in first # rev [1..<r] @
         (if cb_kind st = D71 then [36..<53] @ [54..<71] @ [35..<71] else [r + 1..<disk_tracks (cb_kind st) + 1]))"

lemma last_tracks_beyond:
  assumes "cb_kind st = D71" "cb_root_track st = 18" "bam_ok st" "i \<le> 71" "35 \<le> i"
  shows "case find (\<lambda>p. p \<in> free_sectors st) (List.product [i..<71] [0..<21]) of
      None \<Rightarrow> last_tracks i st = Some Beyond
    | Some p \<Rightarrow> \<exists>st'. last_tracks i st = Some (Got p st') \<and> bam_ok st' \<and> free_sectors st' = free_sectors st - {p}"
  using assms(4,5)
proof (induction "71 - i" arbitrary: i)
  case 0
  then have i: "i = 71" by simp
  have "bam_byte st (count_place D71 71) = None" using assms(3) by (simp add: bam_ok_def bam_places bam_byte_def peek_def)
  then have "allocate_sector_on_track 71 st = Beyond" using assms(1) by (simp add: allocate_sector_on_track_def)
  then show ?case using assms(2) i by (simp add: last_tracks.simps)
next
  case (Suc n)
  then have i: "i < 71" by simp
  have st: "d71.map_ok st" using bam_ok_map [of D71 st] assms(1,3) by (simp add: disk_tracks_def bam_size_def)
  have fr: "d71.free st' = free_sectors st'" if "cb_kind st' = D71" for st'
    using free_sectors_map [of D71 st'] that by (simp add: disk_tracks_def)
  have ok: "bam_ok st' \<and> free_sectors st' = d71.free st'" if "d71.map_ok st'" for st'
    using bam_ok_map [of D71 st'] that fr by (simp add: disk_tracks_def bam_size_def)
  have lim: "track_limit D71 = 21" by (simp add: track_limit_def)
  have t: "case find (\<lambda>s. (i, s) \<in> free_sectors st) [0..<21] of
      None \<Rightarrow> allocate_sector_on_track i st = Full st
    | Some s \<Rightarrow> \<exists>st'. allocate_sector_on_track i st = Got s st' \<and> d71.map_ok st' \<and> d71.free st' = free_sectors st - {(i, s)}"
    using d71.allocate_on_track [OF st, of i] i Suc.prems unfolding lim fr [OF assms(1)] by simp
  have up: "[i..<71] = i # [Suc i..<71]" using i by (simp add: upt_conv_Cons)
  have step: "last_tracks i st = (case allocate_sector_on_track i st of
      Beyond \<Rightarrow> Some Beyond | Got s st' \<Rightarrow> Some (Got (i, s) st') | Full st' \<Rightarrow> last_tracks (i + 1) st')"
    using assms(2) Suc.prems by (simp add: last_tracks.simps)
  show ?case
  proof (cases "find (\<lambda>s. (i, s) \<in> free_sectors st) [0..<21]")
    case None
    then have next_track: "last_tracks i st = last_tracks (Suc i) st" using t by (simp add: step)
    have "n = 71 - Suc i" "Suc i \<le> 71" "35 \<le> Suc i" using Suc(2) i Suc.prems by auto
    from Suc(1) [OF this] show ?thesis unfolding next_track up using None by (simp add: find_append find_map o_def)
  next
    case (Some s)
    then obtain st' where "allocate_sector_on_track i st = Got s st'" "d71.map_ok st'" "d71.free st' = free_sectors st - {(i, s)}"
      using t by auto
    then show ?thesis using Some ok unfolding up step by (auto simp: find_append find_map o_def)
  qed
qed

lemma try_order:
  assumes "standard st" "bam_ok st" "set ts \<subseteq> {1..disk_tracks (cb_kind st)}"
  shows "case find (\<lambda>p. p \<in> free_sectors st) (List.product ts [0..<track_limit (cb_kind st)]) of
      None \<Rightarrow> try_tracks ts st = Full st
    | Some p \<Rightarrow> \<exists>st'. try_tracks ts st = Got p st' \<and> bam_ok st' \<and> free_sectors st' = free_sectors st - {p}"
proof -
  have k: "cb_kind st \<noteq> DNP" using assms(1) by (simp add: standard_def)
  note ok = bam_ok_map [OF k] free_sectors_map [OF k]
  have st: "bam_map.map_ok (cb_kind st) (disk_tracks (cb_kind st)) (bam_size (cb_kind st)) st" using ok(1) assms(2) by blast
  show ?thesis
  proof (cases "find (\<lambda>p. p \<in> free_sectors st) (List.product ts [0..<track_limit (cb_kind st)])")
    case None
    then show ?thesis using bam_map.try_tracks [OF disk_map [OF k] st assms(3)] unfolding ok(2) [OF refl] None by simp
  next
    case (Some p)
    then obtain st' where "try_tracks ts st = Got p st'"
      "bam_map.map_ok (cb_kind st) (disk_tracks (cb_kind st)) (bam_size (cb_kind st)) st'"
      "bam_map.free (cb_kind st) (disk_tracks (cb_kind st)) st' = free_sectors st - {p}"
      using bam_map.try_tracks [OF disk_map [OF k] st assms(3)] unfolding ok(2) [OF refl] Some by auto
    then show ?thesis using Some ok by auto
  qed
qed

lemma next_free_ok:
  assumes "standard st" "bam_ok st" "track \<le> disk_tracks (cb_kind st)"
  shows "case find (\<lambda>p. p \<in> free_sectors st) (List.product (search_order st track) [0..<track_limit (cb_kind st)]) of
      Some p \<Rightarrow> \<exists>st'. get_next_free_sector track st = Some (Got p st') \<and> bam_ok st' \<and> free_sectors st' = free_sectors st - {p}
    | None \<Rightarrow> get_next_free_sector track st = Some (if cb_kind st = D71 then Beyond else Full st)"
proof (cases "cb_kind st = D71")
  case True
  have r: "cb_root_track st = 18" using assms(1) True by (simp add: standard_def)
  let ?order = "first_track track st # tracks_below_root st @ [36..<53] @ [54..<71]"
  have order: "set ?order \<subseteq> {1..disk_tracks (cb_kind st)}"
    using assms(3) True r by (auto simp: disk_tracks_def first_track_def tracks_below_root_def)
  have so: "search_order st track = ?order @ [35..<71]"
    using True r by (simp add: search_order_def first_track_def tracks_below_root_def)
  have g: "get_next_free_sector track st = (case try_tracks ?order st of Full st' \<Rightarrow> last_tracks 35 st' | r \<Rightarrow> Some r)"
    using True by (simp add: get_next_free_sector_def get_next_free_sector_d71_def)
  have lim: "track_limit (cb_kind st) = 21" using True by (simp add: track_limit_def)
  note first = try_order [OF assms(1,2) order, unfolded lim]
  show ?thesis
  proof (cases "find (\<lambda>p. p \<in> free_sectors st) (List.product ?order [0..<21])")
    case None
    then show ?thesis using first last_tracks_beyond [OF True r assms(2), of 35]
      unfolding so product_append find_append lim g by (simp only: option.case alloc.case True) (simp split: option.split)
  next
    case (Some p)
    then obtain st' where "try_tracks ?order st = Got p st'" "bam_ok st'" "free_sectors st' = free_sectors st - {p}"
      using first by (simp only: option.case) blast
    then show ?thesis using Some unfolding so product_append find_append lim g by (simp only: option.case alloc.case) simp
  qed
next
  case False
  have so: "search_order st track = first_track track st # tracks_below_root st @
      [nat (cb_root_track st) + 1..<disk_tracks (cb_kind st) + 1]"
    using assms(1) False by (cases "cb_kind st") (simp_all add: search_order_def standard_def first_track_def tracks_below_root_def)
  have order: "set (search_order st track) \<subseteq> {1..disk_tracks (cb_kind st)}"
    using assms(1,3) False unfolding so
    by (cases "cb_kind st") (auto simp: standard_def disk_tracks_def first_track_def tracks_below_root_def)
  have "get_next_free_sector track st = Some (try_tracks (search_order st track) st)"
    using assms(1) False unfolding so get_next_free_sector_def get_next_free_sector_cbm_def standard_tracks [OF assms(1)]
    by (cases "cb_kind st") (simp_all add: standard_def del: try_tracks.simps upt_Suc)
  then show ?thesis
    using try_order [OF assms(1,2) order] False
    by (cases "find (\<lambda>p. p \<in> free_sectors st) (List.product (search_order st track) [0..<track_limit (cb_kind st)])") auto
qed

text \<open>C13: The search for a free sector gives the first free one in the order of the drive, on the given
  track (or the one below the directory), then downwards from the directory track and then upwards,
  takes exactly this sector out of the map and keeps all counts right.  A D64 or D81 without a free
  sector answers that it is full.  The D71 search instead runs into a loop that counts upwards from
  track 35 (\<open>i++\<close> where the others of this routine count down): it never looks at tracks 19 to 34, and
  when it finds no sector elsewhere it reads behind the end of the BAM buffer.\<close>

theorem next_free_sector:
  assumes "standard st" "bam_ok st" "track \<le> disk_tracks (cb_kind st)"
  shows "case find (\<lambda>p. p \<in> free_sectors st) (List.product (search_order st track) [0..<track_limit (cb_kind st)]) of
      Some p \<Rightarrow> \<exists>st'. get_next_free_sector track st = Some (Got p st') \<and> bam_ok st' \<and> free_sectors st' = free_sectors st - {p}
    | None \<Rightarrow> get_next_free_sector track st = Some (if cb_kind st = D71 then Beyond else Full st)"
  by (rule next_free_ok [OF assms])

text \<open>A D64 with one free sector, the first of track 17.\<close>

definition one_free :: cbm where
  "one_free = \<lparr>cb_kind = D64, cb_layout = layout_d64, cb_num_sectors = 683, cb_root_track = 18,
     cb_root = (replicate 256 0)[68 := 1, 69 := 1], cb_bam = [], cb_root_dirty = False, cb_bam_dirty = 0,
     cb_root_valid = True, cb_bam_valid = False, cb_writable = True\<rparr>"

lemma one_free_byte: "i < 256 \<Longrightarrow> bam_byte one_free (False, i) = Some (if i = 68 \<or> i = 69 then 1 else 0)"
  by (simp add: bam_byte_def one_free_def peek_def nth_list_update)

lemma one_free_sector: "t \<in> {1..35} \<Longrightarrow> s < 21 \<Longrightarrow> is_free one_free t s \<longleftrightarrow> t = 17 \<and> s = 0"
proof -
  assume t: "t \<in> {1..35}" "s < 21"
  have k: "cb_kind one_free = D64" by (simp add: one_free_def)
  have s: "s div 8 < 3" using t(2) by simp
  have "4 * t + 1 + s div 8 = 69 \<longleftrightarrow> t = 17 \<and> s div 8 = 0" using bytes_apart(1) [OF s, of 0 t 17] by simp
  moreover have "4 * t + 1 + s div 8 \<noteq> 68" using bytes_apart(4) [OF s, of t 17] by simp
  moreover have "bit (1 :: byte) (s mod 8) \<longleftrightarrow> s mod 8 = 0" by (simp add: bit_1_iff)
  moreover have "s = 0 \<longleftrightarrow> s div 8 = 0 \<and> s mod 8 = 0" by (metis add.right_neutral div_mult_mod_eq mult_zero_left div_0 mod_0)
  ultimately show ?thesis
    using t one_free_byte [of "4 * t + 1 + s div 8"] s by (auto simp: is_free_def k bam_places)
qed

lemma one_free_ok: "standard one_free" "free_sectors one_free = {(17, 0)}" "bam_ok one_free" "cb_kind one_free = D64"
proof -
  show k: "cb_kind one_free = D64" by (simp add: one_free_def)
  show f: "free_sectors one_free = {(17, 0)}"
    using one_free_sector by (auto simp: free_sectors_def k disk_tracks_def track_limit_def)
  have "map_option unat (bam_byte one_free (count_place D64 t)) = Some (card {s. (t, s) = (17, 0 :: nat)})" if "t \<in> {1..35}" for t
    using that one_free_byte [of "4 * t"] by (cases "t = 17") (simp_all add: bam_places)
  moreover have "length (cb_root one_free) = 256" "cb_bam one_free = []" by (simp_all add: one_free_def)
  ultimately show "bam_ok one_free" unfolding bam_ok_def f k by (auto simp: disk_tracks_def bam_size_def)
qed (simp add: standard_def one_free_def)

lemma next_free_sector_witness:
  "\<exists>st'. get_next_free_sector 0 one_free = Some (Got (17, 0) st') \<and> bam_ok st' \<and> free_sectors st' = {}"
proof -
  have "List.product (search_order one_free 0) [0..<21] = (17, 0) # tl (List.product (search_order one_free 0) [0..<21])"
    by (simp add: search_order_def one_free_def upt_conv_Cons)
  then have "find (\<lambda>p. p \<in> free_sectors one_free) (List.product (search_order one_free 0) [0..<21]) = Some (17, 0)"
    unfolding one_free_ok(2) by (metis find.simps(2) singletonI)
  then show ?thesis
    using next_free_sector [OF one_free_ok(1,3), of 0] one_free_ok by (simp add: track_limit_def)
qed

section \<open>Giving and taking a sector\<close>

text \<open>What the drive's block commands promise: a sector outside the disk is refused; a free sector is
  taken, a taken one given back; for one that is taken already the next higher free sector is named.\<close>

definition allocate_spec :: "nat \<Rightarrow> nat \<Rightarrow> bool \<Rightarrow> cbm \<Rightarrow> (fresult \<times> nat \<times> nat) \<times> (nat \<times> nat) set" where
  "allocate_spec track sector alloc st =
     (let free = free_sectors st
      in if \<not> is_writable st then ((FR_WRITE_PROTECTED, track, sector), free)
         else if get_abs_sector (cb_layout st) (cb_num_sectors st) (int track) (int sector) < 0
         then ((FR_INVALID_PARAMETER, track, sector), free)
         else if \<not> alloc then ((FR_OK, track, sector), insert (track, sector) free)
         else if (track, sector) \<in> free then ((FR_OK, track, sector), free - {(track, sector)})
         else (case find (\<lambda>p. p \<in> free)
                 (sectors_above (cb_layout st) [track..<disk_tracks (cb_kind st) + 1] (sector + 1)) of
                 None \<Rightarrow> ((FR_EXIST, 0, 0), free)
               | Some (t, s) \<Rightarrow> ((FR_EXIST, t, s), free)))"

text \<open>C12: The drive's command to take or give back a sector does exactly what it promises on every D64, D71
  and D81 with a correct map, and never leaves the map: the map stays correct, with the counts of free
  sectors equal to the bits, and the answer for a sector that is taken already is the next higher free
  sector, or track 0 when there is none, with the map unchanged.\<close>

theorem allocate_sector_refines:
  assumes "standard st" "bam_ok st"
  shows "\<exists>r st'. allocate_sector track sector alloc st = Some (r, st') \<and> bam_ok st' \<and>
    (r, free_sectors st') = allocate_spec track sector alloc st"
proof -
  define k where "k = cb_kind st"
  have k: "k \<noteq> DNP" using assms(1) by (simp add: k_def standard_def)
  let ?num = "cb_num_sectors st" and ?L = "cb_layout st" and ?up = "[track..<disk_tracks k + 1]"
  have ok: "bam_map.map_ok k (disk_tracks k) (bam_size k) st' \<Longrightarrow>
      bam_ok st' \<and> bam_map.free k (disk_tracks k) st' = free_sectors st'" for st'
    using bam_ok_map [OF k] free_sectors_map [OF k] by blast
  have st: "bam_map.map_ok k (disk_tracks k) (bam_size k) st" using bam_ok_map [OF k] assms(2) by (simp add: k_def)
  show ?thesis
  proof (cases "is_writable st \<and> \<not> get_abs_sector ?L ?num (int track) (int sector) < 0")
    case False
    then show ?thesis using assms(2) by (auto simp: allocate_sector_def allocate_spec_def Let_def)
  next
    case True
    note ins = standard_inside [OF assms(1) conjunct2 [OF True], folded k_def]
    have fr: "(track, sector) \<in> free_sectors st \<longleftrightarrow> is_free st track sector"
      using ins by (simp add: free_sectors_def k_def)
    obtain st1 where 1: "set_sector_allocation track sector alloc st = Some (is_free st track sector = alloc, st1)"
      "bam_map.map_ok k (disk_tracks k) (bam_size k) st1" "bam_ok st1"
      "free_sectors st1 = (if alloc then free_sectors st - {(track, sector)} else insert (track, sector) (free_sectors st))"
      using bam_map.set_allocation [OF disk_map [OF k] st ins, of alloc] ok ok [OF st] by auto
    note f1 = set_sector_allocation_fields [OF 1(1)]
    have range: "set ?up \<subseteq> {1..disk_tracks k}" using ins(1) by auto
    have "\<forall>t \<in> set ?up. nat (get_sectors_in_track ?L (int t)) \<le> track_limit k"
      using standard_sectors [OF assms(1)] by (simp add: k_def)
    note above = bam_map.next_free [OF disk_map [OF k] 1(2) range f1(2) this]
    obtain st2 where 2: "next_free ?up (sector + 1) st1 =
        Some (find (\<lambda>p. p \<in> free_sectors st1) (sectors_above ?L ?up (sector + 1)), st2)" "bam_ok st2"
      "free_sectors st2 = free_sectors st1"
      using above [of "sector + 1"] ok ok [OF 1(2)] by metis
    have up: "[track..<nat (get_num_tracks (cb_layout st1) (cb_num_sectors st1)) + 1] = ?up"
      using f1 standard_tracks [OF assms(1)] by (simp add: k_def)
    show ?thesis
      using True 1 2 fr up k_def
      by (auto simp: allocate_sector_def allocate_spec_def Let_def split: option.splits if_splits)
  qed
qed

lemma allocate_sector_refines_witness:
  "\<exists>r st'. allocate_sector 1 0 True one_free = Some (r, st') \<and> bam_ok st' \<and>
    (r, free_sectors st') = allocate_spec 1 0 True one_free"
  by (rule allocate_sector_refines [OF one_free_ok(1,3)])

section \<open>Counting free sectors\<close>

lemma sum_list_upt_card:
  assumes "distinct ts" "\<And>t. t \<in> set ts \<Longrightarrow> finite {s. (t, s) \<in> F}"
  shows "sum_list (map (\<lambda>t. card {s. (t, s) \<in> F}) ts) = card {(t, s). t \<in> set ts \<and> (t, s) \<in> F}"
proof -
  have "{(t, s). t \<in> set ts \<and> (t, s) \<in> F} = (SIGMA t : set ts. {s. (t, s) \<in> F})" by auto
  then show ?thesis using assms by (simp add: sum_list_distinct_conv_sum_set card_SigmaI)
qed

lemma sum_list_map_same: "(\<And>t. t \<in> set ts \<Longrightarrow> f t = g t) \<Longrightarrow> sum_list (map f ts) = sum_list (map g ts)"
  by (metis map_eq_conv)

text \<open>The number of free sectors that is shown is exact: on every D64, D71 and D81 with a correct map it
  is the number of free sectors outside the tracks reserved for the directory (18, on a D71 also 53, on
  a D81 track 40).\<close>

lemma get_free_exact:
  assumes "standard st" "bam_ok st" "if cb_kind st = D81 then cb_bam_valid st else cb_root_valid st"
  shows "get_free st = Some (card {(t, s) \<in> free_sectors st. t \<notin> (case cb_kind st of D64 \<Rightarrow> {18} | D71 \<Rightarrow> {18, 53} | _ \<Rightarrow> {40})})"
proof -
  let ?k = "cb_kind st" and ?F = "free_sectors st"
  let ?n = "\<lambda>t. case bam_byte st (count_place ?k t) of None \<Rightarrow> 0 | Some n \<Rightarrow> unat n"
  have k: "?k \<noteq> DNP" using assms(1) by (simp add: standard_def)
  have ts: "set (count_tracks ?k) = {1..disk_tracks ?k} - (case ?k of D64 \<Rightarrow> {18} | D71 \<Rightarrow> {18, 53} | _ \<Rightarrow> {40})"
    "distinct (count_tracks ?k)"
    using k by (cases ?k; auto simp: count_tracks_def disk_tracks_def simp del: upt_rec_numeral)+
  have n: "?n t = card {s. (t, s) \<in> ?F}" if "t \<in> set (count_tracks ?k)" for t
  proof -
    have "map_option unat (bam_byte st (count_place ?k t)) = Some (card {s. (t, s) \<in> ?F})"
      using assms(2) that ts(1) unfolding bam_ok_def by blast
    then show ?thesis by auto
  qed
  have fin: "finite {s. (t, s) \<in> ?F}" for t by (rule finite_subset [of _ "{..<track_limit ?k}"]) (auto simp: free_sectors_def)
  have "get_free st = Some (sum_list (map ?n (count_tracks ?k)))"
    using assms(3) k by (cases ?k) (simp_all add: get_free_def Let_def)
  also have "sum_list (map ?n (count_tracks ?k)) = sum_list (map (\<lambda>t. card {s. (t, s) \<in> ?F}) (count_tracks ?k))"
    by (rule sum_list_map_same) (rule n)
  also have "\<dots> = card {(t, s). t \<in> set (count_tracks ?k) \<and> (t, s) \<in> ?F}"
    by (rule sum_list_upt_card [OF ts(2) fin])
  also have "{(t, s). t \<in> set (count_tracks ?k) \<and> (t, s) \<in> ?F} =
      {(t, s) \<in> ?F. t \<notin> (case ?k of D64 \<Rightarrow> {18} | D71 \<Rightarrow> {18, 53} | _ \<Rightarrow> {40})}"
    unfolding ts(1) by (auto simp: free_sectors_def)
  finally show ?thesis .
qed

lemma get_free_exact_witness: "get_free one_free = Some 1"
proof -
  have "{(t, s). (t, s) \<in> free_sectors one_free \<and> t \<notin> {18 :: nat}} = {(17, 0)}" unfolding one_free_ok(2) by auto
  moreover have "cb_root_valid one_free" by (simp add: one_free_def)
  ultimately show ?thesis using get_free_exact [OF one_free_ok(1,3)] one_free_ok(4) by simp
qed

end
