(* ===== verification/Side_Correct.thy ===== *)
theory Side_Correct
  imports Side_Sectors Cbm_Alloc
begin

text \<open>
  The side sectors of a relative file list its data sectors in order: after any number of data blocks
  has been added, every position of the file is found in the right sector at the right offset.
\<close>

section \<open>The list they stand for\<close>

definition block_ref :: "cached_block \<Rightarrow> nat \<Rightarrow> byte \<times> byte" where
  "block_ref b k = (bk_data b ! (16 + 2 * k), bk_data b ! (17 + 2 * k))"

text \<open>A cluster that lists these blocks.\<close>

definition cluster_lists :: "cluster \<Rightarrow> (byte \<times> byte) list \<Rightarrow> bool" where
  "cluster_lists cl ps \<longleftrightarrow> cl_datablocks cl = length ps \<and> length ps \<le> 720 \<and> length (cl_blocks cl) = 6 \<and>
     (\<forall>j < 6. length ps \<le> 120 * j \<longleftrightarrow> cl_blocks cl ! j = None) \<and>
     (\<forall>j b. j < 6 \<longrightarrow> cl_blocks cl ! j = Some b \<longrightarrow> length (bk_data b) = 256) \<and>
     (\<forall>k < length ps. \<exists>b. cl_blocks cl ! (k div 120) = Some b \<and> block_ref b (k mod 120) = ps ! k)"

lemma cluster_lists_new: "cluster_lists (new_cluster r) []"
  by (auto simp: cluster_lists_def new_cluster_def nth_Cons split: nat.splits)

lemma block_ref_put:
  "length (bk_data b) = 256 \<Longrightarrow> k < 120 \<Longrightarrow> j < 120 \<Longrightarrow>
    block_ref (put_reference k t s b) j = (if j = k then (t, s) else block_ref b j)"
  by (auto simp: block_ref_def put_reference_def nth_list_update)

lemma cluster_add_step:
  assumes "cluster_add t s cl m = Some (True, cl', m')"
  shows "\<exists>b. cl_blocks cl' = (cl_blocks cl)[cl_datablocks cl div 120 :=
      Some (put_reference (cl_datablocks cl - cl_datablocks cl div 120 * 120) t s b)] \<and>
    cl_datablocks cl' = cl_datablocks cl + 1 \<and>
    (case cl_blocks cl ! (cl_datablocks cl div 120) of None \<Rightarrow> length (bk_data b) = 256 | Some b' \<Rightarrow> b = b')"
  using assms
  by (auto simp: cluster_add_def new_block_def Let_def split: option.splits if_splits)
    (rule exI, rule conjI, rule refl, simp)+

lemma cluster_add_lists:
  assumes "cluster_lists cl ps" "cluster_add t s cl m = Some (True, cl', m')"
  shows "cluster_lists cl' (ps @ [(t, s)])"
proof -
  let ?n = "length ps"
  let ?i = "?n div 120"
  let ?k = "?n - ?i * 120"
  note l = assms(1) [unfolded cluster_lists_def]
  have "?n \<noteq> 720" using assms(2) l by (auto simp: cluster_add_def Let_def split: if_splits)
  then have n: "?n < 720" using l by linarith
  then have i: "?i < 6" using less_mult_imp_div_less [of ?n 6 120] by simp
  have k: "?k = ?n mod 120" "?k < 120" by (simp_all add: minus_div_mult_eq_mod)
  obtain b where b: "cl_blocks cl' = (cl_blocks cl)[?i := Some (put_reference ?k t s b)]" "cl_datablocks cl' = ?n + 1"
    "case cl_blocks cl ! ?i of None \<Rightarrow> length (bk_data b) = 256 | Some b' \<Rightarrow> b = b'"
    using cluster_add_step [OF assms(2)] l by auto
  have b3: "length (bk_data b) = 256" using b(3) l i by (cases "cl_blocks cl ! ?i") auto
  have bl: "cl_blocks cl' ! j = (if j = ?i then Some (put_reference ?k t s b) else cl_blocks cl ! j)" if "j < 6" for j
    using that l b(1) i by (simp add: nth_list_update)
  have present: "length (ps @ [(t, s)]) \<le> 120 * j \<longleftrightarrow> cl_blocks cl' ! j = None" if "j < 6" for j
  proof (cases "j = ?i")
    case True
    have "\<not> length (ps @ [(t, s)]) \<le> 120 * j" unfolding True using k(2) by simp
    then show ?thesis using bl [OF that] True by simp
  next
    case False
    have "?n \<noteq> 120 * j" using False by auto
    then have "?n + 1 \<le> 120 * j \<longleftrightarrow> ?n \<le> 120 * j" by linarith
    then show ?thesis using bl [OF that] False l that by simp
  qed
  have refs: "\<exists>c. cl_blocks cl' ! (j div 120) = Some c \<and> block_ref c (j mod 120) = (ps @ [(t, s)]) ! j" if "j < ?n + 1" for j
  proof (cases "j = ?n")
    case True
    then show ?thesis using bl [OF i] k block_ref_put [OF b3 k(2), of ?k] by simp
  next
    case False
    then have j: "j < ?n" "j div 120 < 6" using that n less_mult_imp_div_less [of j 6 120] by auto
    then obtain c where c: "cl_blocks cl ! (j div 120) = Some c" "block_ref c (j mod 120) = ps ! j" using l by blast
    show ?thesis
    proof (cases "j div 120 = ?i")
      case True
      then have "b = c" using b(3) c(1) by simp
      moreover have "j mod 120 \<noteq> ?k" using True False k(1) by (metis div_mult_mod_eq)
      ultimately show ?thesis
        using bl [OF j(2)] True c(2) block_ref_put [OF b3 k(2), of "j mod 120"] j(1) by (simp add: nth_append)
    next
      case False
      then show ?thesis using bl [OF j(2)] c j(1) by (simp add: nth_append)
    qed
  qed
  have len: "length (bk_data c) = 256" if "j < 6" "cl_blocks cl' ! j = Some c" for j c
    using that bl [OF that(1)] l b3 by (auto simp: put_reference_def split: if_splits)
  show ?thesis unfolding cluster_lists_def using b(1,2) l n present refs len by simp
qed

lemma cluster_seek_lists:
  assumes "cluster_lists cl ps" "k < length ps" "fst (ps ! k) \<noteq> 0"
  shows "cluster_seek k cl = Inr (ps ! k)"
proof -
  note l = assms(1) [unfolded cluster_lists_def]
  obtain b where b: "cl_blocks cl ! (k div 120) = Some b" "block_ref b (k mod 120) = ps ! k" using l assms(2) by blast
  obtain t s where ts: "ps ! k = (t, s)" by force
  have "k < 6 * 120" using assms(2) l by linarith
  then have "k div 120 \<le> 5" using less_mult_imp_div_less [of k 6 120] by simp
  moreover have "k - k div 120 * 120 = k mod 120" by (simp add: minus_div_mult_eq_mod)
  ultimately show ?thesis using assms(2,3) l b ts by (simp add: cluster_seek_def block_ref_def Let_def)
qed

section \<open>All clusters\<close>

text \<open>Cluster \<open>i\<close> lists the blocks from \<open>720 * i\<close> on.\<close>

definition part_of :: "nat \<Rightarrow> 'a list \<Rightarrow> 'a list" where
  "part_of i ps = take 720 (drop (720 * i) ps)"

definition side_lists :: "side_sectors \<Rightarrow> (byte \<times> byte) list \<Rightarrow> bool" where
  "side_lists ss ps \<longleftrightarrow> ss_datablocks ss = length ps \<and> length ps \<le> 720 * length (ss_clusters ss) \<and>
     length (ss_clusters ss) \<le> length ps div 720 + 1 \<and>
     (\<forall>i < length (ss_clusters ss). cluster_lists (ss_clusters ss ! i) (part_of i ps))"

lemma side_lists_new: "side_lists (new_side_sectors m r) []"
  by (simp add: side_lists_def new_side_sectors_def)

lemma part_of_snoc:
  "part_of i (ps @ [x]) = (if i = length ps div 720 then part_of i ps @ [x] else part_of i ps)"
proof -
  consider "i < length ps div 720" | "i = length ps div 720" | "length ps div 720 < i" by linarith
  then show ?thesis
  proof cases
    case 1
    then have "Suc i \<le> length ps div 720" by simp
    then have "Suc i * 720 \<le> length ps div 720 * 720" by (rule mult_le_mono1)
    then have "720 * i + 720 \<le> length ps" by simp
    then show ?thesis using 1 by (simp add: part_of_def)
  next
    case 2
    have "length (drop (720 * i) ps) < 720" using 2 by (simp add: minus_mult_div_eq_mod)
    moreover have "720 * i \<le> length ps" using 2 by simp
    ultimately show ?thesis using 2 by (simp add: part_of_def)
  next
    case 3
    then have "Suc (length ps div 720) \<le> i" by simp
    then have "720 * Suc (length ps div 720) \<le> 720 * i" by (rule mult_le_mono2)
    moreover have "length ps < 720 * Suc (length ps div 720)" by simp
    ultimately have "length ps < 720 * i" by linarith
    then show ?thesis using 3 by (simp add: part_of_def)
  qed
qed

lemma side_reference_lists:
  assumes "side_lists ss ps" "side_reference t s ss m = Some (True, ss', m')"
  shows "side_lists ss' (ps @ [(t, s)])"
proof -
  note l = assms(1) [unfolded side_lists_def]
  let ?c = "length ps div 720" and ?cls = "ss_clusters ss"
  let ?cls' = "if ?c < length ?cls then ?cls else ?cls @ [new_cluster (ss_record_size ss)]"
  have c: "?c < length ?cls \<or> ?c = length ?cls" using l by auto
  obtain cl where cl: "cluster_add t s (?cls' ! ?c) m = Some (True, cl, m')"
    "ss_clusters ss' = ?cls'[?c := cl]" "ss_datablocks ss' = length ps + 1"
    using assms(2) l c by (auto simp: side_reference_def Let_def split: option.splits if_splits)
  have all: "cluster_lists (?cls' ! i) (part_of i ps)" if "i < length ?cls'" for i
  proof (cases "i < length ?cls")
    case True
    then show ?thesis using l by (simp add: nth_append)
  next
    case False
    then have "i = length ?cls" "i = ?c" using that c by (auto split: if_splits)
    moreover have "part_of i ps = []" using calculation l by (simp add: part_of_def)
    ultimately show ?thesis using False by (simp add: cluster_lists_new)
  qed
  have len: "?c < length ?cls'" using c by auto
  have "cluster_lists cl (part_of ?c ps @ [(t, s)])" by (rule cluster_add_lists [OF all [OF len] cl(1)])
  then have "cluster_lists (ss_clusters ss' ! i) (part_of i (ps @ [(t, s)]))" if "i < length ?cls'" for i
    using all [OF that] that cl(2) by (simp add: part_of_snoc nth_list_update)
  moreover have "length ps + 1 \<le> 720 * length ?cls'" "length ?cls' \<le> (length ps + 1) div 720 + 1"
    using l c len by (auto split: if_splits)
  ultimately show ?thesis using cl(2,3) by (simp add: side_lists_def)
qed

lemma side_add_lists:
  assumes "side_lists ss ps" "side_add t s ss m = Some (True, ss', m')"
  shows "side_lists ss' (ps @ [(t, s)])"
proof -
  obtain ss1 m1 where e: "ensure_super ss m = Some (True, ss1, m1)" "side_reference t s ss1 m1 = Some (True, ss', m')"
    using assms(2) by (auto simp: side_add_def split: option.splits if_splits)
  have "ss_clusters ss1 = ss_clusters ss" "ss_datablocks ss1 = ss_datablocks ss"
    using e(1) by (auto simp: ensure_super_def split: option.splits if_splits)
  then show ?thesis using side_reference_lists [OF _ e(2)] assms(1) by (simp add: side_lists_def)
qed

text \<open>Adding several data blocks, as writing a file does.\<close>

fun side_add_all :: "(byte \<times> byte) list \<Rightarrow> side_sectors \<Rightarrow> cbm \<Rightarrow> (side_sectors \<times> cbm) option" where
  "side_add_all [] ss m = Some (ss, m)"
| "side_add_all ((t, s) # ps) ss m =
     (case side_add t s ss m of Some (True, ss', m') \<Rightarrow> side_add_all ps ss' m' | _ \<Rightarrow> None)"

lemma side_add_all_lists:
  "side_lists ss ps \<Longrightarrow> side_add_all qs ss m = Some (ss', m') \<Longrightarrow> side_lists ss' (ps @ qs)"
proof (induction qs arbitrary: ps ss m)
  case (Cons q qs)
  obtain t s where q: "q = (t, s)" by force
  obtain ss1 m1 where "side_add t s ss m = Some (True, ss1, m1)" "side_add_all qs ss1 m1 = Some (ss', m')"
    using Cons.prems(2) by (auto simp: q split: option.splits bool.splits)
  then show ?case using Cons.IH [OF side_add_lists [OF Cons.prems(1)]] by (simp add: q)
qed simp

text \<open>C26: A position in a relative file is found in the right place: after the data blocks of a file have
  been added to its side sectors one after another, however many clusters that takes, every position
  inside them is answered with the sector that was added for it and the offset of the byte in it.\<close>

theorem side_seek_exact:
  assumes "side_add_all ps (new_side_sectors m0 r) m = Some (ss, m')" "\<forall>(t, s) \<in> set ps. t \<noteq> 0"
    "unat pos < 254 * length ps"
  shows "side_seek dev fresh pos ss fs = Some ((2 + unat pos mod 254, Inr (ps ! (unat pos div 254))), fs)"
proof -
  let ?k = "unat pos div 254"
  have l: "side_lists ss ps" using side_add_all_lists [OF side_lists_new assms(1)] by simp
  have k: "?k < length ps" using less_mult_imp_div_less [of "unat pos" "length ps" 254] assms(3) by (simp add: mult.commute)
  let ?c = "?k div 720"
  have c: "?c < length (ss_clusters ss)"
    using l k less_mult_imp_div_less [of ?k "length (ss_clusters ss)" 720] by (simp add: side_lists_def mult.commute)
  then have cl: "cluster_lists (ss_clusters ss ! ?c) (part_of ?c ps)" using l by (simp add: side_lists_def)
  have nth: "?k - ?c * 720 < length (part_of ?c ps)" "part_of ?c ps ! (?k - ?c * 720) = ps ! ?k"
  proof -
    have below: "?c * 720 \<le> ?k" by (rule div_times_less_eq_dividend)
    have "?k - ?c * 720 < 720" using minus_div_mult_eq_mod [of ?k 720] by simp
    moreover have "?k - ?c * 720 < length ps - 720 * ?c" using k below by linarith
    ultimately show "?k - ?c * 720 < length (part_of ?c ps)" by (simp add: part_of_def)
    then show "part_of ?c ps ! (?k - ?c * 720) = ps ! ?k" using below k by (simp add: part_of_def)
  qed
  have "fst (ps ! ?k) \<noteq> 0" using assms(2) nth_mem [OF k] by (cases "ps ! ?k") auto
  then have "cluster_seek (?k - ?c * 720) (ss_clusters ss ! ?c) = Inr (ps ! ?k)"
    using cluster_seek_lists [OF cl nth(1)] nth(2) by simp
  moreover have "?k \<noteq> ss_datablocks ss" using l k by (simp add: side_lists_def)
  ultimately show ?thesis using c by (simp add: side_seek_def Let_def minus_div_mult_eq_mod)
qed

lemma side_seek_exact_witness:
  "\<exists>ss m. side_add_all [(17, 5), (19, 7)] (new_side_sectors one_free 100) one_free = Some (ss, m) \<and>
    (\<forall>fs. side_seek ram_device [] 300 ss fs = Some ((48, Inr (19, 7)), fs))"
proof -
  have "\<exists>ss m. side_add_all [(17, 5), (19, 7)] (new_side_sectors one_free 100) one_free = Some (ss, m)"
    by (simp add: one_free_def new_side_sectors_def side_add_def ensure_super_def side_reference_def cluster_add_def
      some_free_sector_def get_next_free_sector_def get_next_free_sector_cbm_def first_track_def allocate_sector_on_track_def
      bam_byte_def set_bam_byte_def count_place_def bits_place_def bit_place_def track_limit_def new_cluster_def new_block_def
      put_reference_def Let_def upt_conv_Cons)
  then obtain ss m where a: "side_add_all [(17, 5), (19, 7)] (new_side_sectors one_free 100) one_free = Some (ss, m)" by blast
  have "side_seek ram_device [] 300 ss fs = Some ((48, Inr (19, 7)), fs)" for fs
    by (rule trans [OF side_seek_exact [OF a]]) simp_all
  then show ?thesis using a by blast
qed

end
