(* ===== verification/Block_Correct.thy ===== *)
theory Block_Correct
  imports Block_Device
begin

text \<open>
  What a block device promises, as a locale: seen as one run of bytes, reading gives the bytes of the
  sectors and changes nothing, writing replaces just these.  Every device keeps this promise as long
  as the access stays inside it: RAM, a file in RAM, and a partition of a device that keeps it.
\<close>

section \<open>The contract\<close>

locale sector_store =
  fixes dev :: "'d device" and sz :: nat and n :: nat and bytes :: "'d \<Rightarrow> byte list" and good :: "'d \<Rightarrow> bool"
  assumes length_bytes: "good d \<Longrightarrow> length (bytes d) = n * sz"
    and reads: "good d \<Longrightarrow> 0 < c \<Longrightarrow> unat s + c \<le> n \<Longrightarrow> \<exists>d'. good d' \<and> bytes d' = bytes d \<and>
      dv_read dev d s c = Some (RES_OK, take (c * sz) (drop (unat s * sz) (bytes d)), d')"
    and writes: "good d \<Longrightarrow> 0 < c \<Longrightarrow> unat s + c \<le> n \<Longrightarrow> length b = c * sz \<Longrightarrow> \<exists>d'. good d' \<and>
      bytes d' = blit (unat s * sz) b (bytes d) \<and> dv_write dev d s c b = Some (RES_OK, d')"
    and syncs: "good d \<Longrightarrow> \<exists>d'. good d' \<and> bytes d' = bytes d \<and> dv_sync dev d = (RES_OK, d')"
    and counts: "good d \<Longrightarrow> dv_sector_count dev d = Some (of_nat n)"
begin

definition part :: "'d \<Rightarrow> nat \<Rightarrow> nat \<Rightarrow> byte list" where
  "part d s c = take (c * sz) (drop (s * sz) (bytes d))"

lemma read_part:
  "good d \<Longrightarrow> 0 < c \<Longrightarrow> unat s + c \<le> n \<Longrightarrow> \<exists>d'. good d' \<and> bytes d' = bytes d \<and>
    dv_read dev d s c = Some (RES_OK, part d (unat s) c, d')"
  using reads unfolding part_def by blast

lemma length_part: "good d \<Longrightarrow> s + c \<le> n \<Longrightarrow> length (part d s c) = c * sz"
  using length_bytes mult_le_mono1 [of "s + c" n sz] by (simp add: part_def add_mult_distrib)

lemma inside_bytes: "good d \<Longrightarrow> s + c \<le> n \<Longrightarrow> s * sz + c * sz \<le> length (bytes d)"
  using length_bytes mult_le_mono1 [of "s + c" n sz] by (simp add: add_mult_distrib)

text \<open>What was written is read, and the other sectors stay.\<close>

lemma write_part:
  assumes "good d" "0 < c" "unat s + c \<le> n" "length b = c * sz"
  shows "\<exists>d'. dv_write dev d s c b = Some (RES_OK, d') \<and> good d' \<and> part d' (unat s) c = b \<and>
    (\<forall>s' c'. s' + c' \<le> n \<longrightarrow> s' + c' \<le> unat s \<or> unat s + c \<le> s' \<longrightarrow> part d' s' c' = part d s' c')"
proof -
  obtain d' where w: "good d'" "bytes d' = blit (unat s * sz) b (bytes d)" "dv_write dev d s c b = Some (RES_OK, d')"
    using writes [OF assms] by blast
  have ins: "unat s * sz + length b \<le> length (bytes d)" using inside_bytes [OF assms(1,3)] assms(4) by simp
  then have same: "part d' (unat s) c = b" using assms(4) by (simp add: part_def w(2) blit_def)
  have "part d' s' c' = part d s' c'" if "s' + c' \<le> n" "s' + c' \<le> unat s \<or> unat s + c \<le> s'" for s' c'
  proof (rule nth_equalityI)
    fix i
    assume "i < length (part d' s' c')"
    then have i: "i < c' * sz" using length_part [OF w(1) that(1)] by simp
    have "s' * sz + i < unat s * sz \<or> unat s * sz + length b \<le> s' * sz + i"
      using that(2)
    proof
      assume "s' + c' \<le> unat s"
      then have "(s' + c') * sz \<le> unat s * sz" by (rule mult_le_mono1)
      then show ?thesis using i by (simp add: add_mult_distrib)
    next
      assume "unat s + c \<le> s'"
      then have "(unat s + c) * sz \<le> s' * sz" by (rule mult_le_mono1)
      then show ?thesis using assms(4) by (simp add: add_mult_distrib)
    qed
    then show "part d' s' c' ! i = part d s' c' ! i"
      using i ins inside_bytes [OF assms(1) that(1)] by (auto simp: part_def w(2) nth_blit)
  qed (simp add: length_part [OF w(1) that(1)] length_part [OF assms(1) that(1)])
  then show ?thesis using w same by blast
qed

end

section \<open>The devices keep it\<close>

lemma unat_sector:
  assumes "unat (s :: u32) < n" "n * sz < 2 ^ 32"
  shows "unat (s * of_nat sz) = unat s * sz"
proof -
  have "sz \<le> n * sz" using assms(1) by (cases n) auto
  then have sz: "sz < 2 ^ 32" using assms(2) by (rule le_less_trans)
  have "unat s * sz \<le> n * sz" using assms(1) by simp
  then have "unat s * sz < 2 ^ 32" using assms(2) by (rule le_less_trans)
  then show ?thesis using sz by (simp add: unat_word_ariths unat_of_nat)
qed

definition ram_good :: "nat \<Rightarrow> nat \<Rightarrow> ram_disk \<Rightarrow> bool" where
  "ram_good sz n d \<longleftrightarrow> rd_sector_size d = sz \<and> rd_sectors d = n \<and> length (rd_memory d) = n * sz"

lemma ram_store:
  assumes "0 < sz" "n * sz < 2 ^ 32"
  shows "sector_store ram_device sz n rd_memory (ram_good sz n)"
proof
  fix d :: ram_disk and s :: u32 and c :: nat and b :: "byte list"
  assume d: "ram_good sz n d"
  then show "length (rd_memory d) = n * sz" by (simp add: ram_good_def)
  assume c: "0 < c" "unat s + c \<le> n"
  then have p: "unat (s * of_nat sz) = unat s * sz" using assms by (intro unat_sector) auto
  have fits: "unat s * sz + c * sz \<le> n * sz" using mult_le_mono1 [OF c(2), of sz] by (simp add: add_mult_distrib)
  show "\<exists>d'. ram_good sz n d' \<and> rd_memory d' = rd_memory d \<and>
      dv_read ram_device d s c = Some (RES_OK, take (c * sz) (drop (unat s * sz) (rd_memory d)), d')"
    using d c p fits by (auto simp: ram_device_def ram_read_def ram_good_def Let_def)
  show "length b = c * sz \<Longrightarrow> \<exists>d'. ram_good sz n d' \<and> rd_memory d' = blit (unat s * sz) b (rd_memory d) \<and>
      dv_write ram_device d s c b = Some (RES_OK, d')"
    using d c p fits by (auto simp: ram_device_def ram_write_def ram_good_def Let_def)
qed (simp_all add: ram_device_def ram_good_def)

text \<open>The file in RAM: a position is reached by seeking, so that it stays where it is does no harm here.\<close>

definition rf_good :: "nat \<Rightarrow> nat \<Rightarrow> ram_file file_disk \<Rightarrow> bool" where
  "rf_good k n d \<longleftrightarrow> fd_shift d = k \<and> fd_writable d \<and> fd_size d = n * 2 ^ k \<and> length (rf_ram (fd_file d)) = n * 2 ^ k"

lemma ram_file_store:
  assumes "n * 2 ^ k < (2 :: nat) ^ 32"
  shows "sector_store (file_device ram_file_ops) (2 ^ k) n (\<lambda>d. rf_ram (fd_file d)) (rf_good k n)"
proof
  fix d :: "ram_file file_disk" and s :: u32 and c :: nat and b :: "byte list"
  assume d: "rf_good k n d"
  then show "length (rf_ram (fd_file d)) = n * 2 ^ k" by (simp add: rf_good_def)
  assume c: "0 < c" "unat s + c \<le> n"
  have p: "unat (push_bit k s) = unat s * 2 ^ k"
    using unat_sector [of s n "2 ^ k"] c assms by (simp add: push_bit_eq_mult)
  have fits: "unat s * 2 ^ k + c * 2 ^ k \<le> n * 2 ^ k" using mult_le_mono1 [OF c(2), of "2 ^ k"] by (simp add: add_mult_distrib)
  have seek: "rf_seek (fd_file d) (push_bit k s) = (FR_OK, (fd_file d)\<lparr>rf_position := unat s * 2 ^ k\<rparr>)"
    using d c p by (simp add: rf_seek_def rf_good_def)
  show "\<exists>d'. rf_good k n d' \<and> rf_ram (fd_file d') = rf_ram (fd_file d) \<and>
      dv_read (file_device ram_file_ops) d s c = Some (RES_OK, take (c * 2 ^ k) (drop (unat s * 2 ^ k) (rf_ram (fd_file d))), d')"
    using d fits seek
    by (auto simp: file_device_def fd_read_def ram_file_ops_def rf_read_def fd_sector_size_def rf_good_def mult.commute)
  show "length b = c * 2 ^ k \<Longrightarrow> \<exists>d'. rf_good k n d' \<and>
      rf_ram (fd_file d') = blit (unat s * 2 ^ k) b (rf_ram (fd_file d)) \<and>
      dv_write (file_device ram_file_ops) d s c b = Some (RES_OK, d')"
    using d fits seek
    by (auto simp: file_device_def fd_write_def ram_file_ops_def rf_write_def fd_sector_size_def rf_good_def Let_def mult.commute)
qed (simp_all add: file_device_def fd_sync_def ram_file_ops_def rf_good_def drop_bit_eq_div)

text \<open>A partition, inside the device.\<close>

lemma partition_store:
  assumes "sector_store dev sz n bytes good" "unat start + unat len \<le> n" "unat start + unat len < 2 ^ 32"
  shows "sector_store (partition dev start len) sz (unat len)
    (\<lambda>d. take (unat len * sz) (drop (unat start * sz) (bytes d))) good"
proof
  fix d :: 'a and s :: u32 and c :: nat and b :: "byte list"
  assume d: "good d"
  have n: "unat start * sz + unat len * sz \<le> length (bytes d)"
    using mult_le_mono1 [OF assms(2), of sz] sector_store.length_bytes [OF assms(1) d] by (simp add: add_mult_distrib)
  then show "length (take (unat len * sz) (drop (unat start * sz) (bytes d))) = unat len * sz" by simp
  assume c: "0 < c" "unat s + c \<le> unat len"
  have s: "\<not> s \<ge> len" "unat (start + s) = unat start + unat s" "unat (start + s) + c \<le> n"
    using c assms(2,3) by (auto simp: word_le_nat_alt unat_word_ariths)
  have fits: "unat s * sz + c * sz \<le> unat len * sz" using mult_le_mono1 [OF c(2), of sz] by (simp add: add_mult_distrib)
  show "\<exists>d'. good d' \<and> take (unat len * sz) (drop (unat start * sz) (bytes d')) = take (unat len * sz) (drop (unat start * sz) (bytes d)) \<and>
      dv_read (partition dev start len) d s c =
        Some (RES_OK, take (c * sz) (drop (unat s * sz) (take (unat len * sz) (drop (unat start * sz) (bytes d)))), d')"
    using sector_store.reads [OF assms(1) d c(1) s(3)] s(1,2) fits
    by (auto simp: partition_def partition_read_def add_mult_distrib drop_take add.commute)
  assume b: "length b = c * sz"
  have "take (unat len * sz) (drop (unat start * sz) (blit ((unat start + unat s) * sz) b (bytes d))) =
      blit (unat s * sz) b (take (unat len * sz) (drop (unat start * sz) (bytes d)))"
    using n fits b by (intro nth_equalityI) (auto simp: nth_blit add_mult_distrib)
  then show "\<exists>d'. good d' \<and> take (unat len * sz) (drop (unat start * sz) (bytes d')) =
        blit (unat s * sz) b (take (unat len * sz) (drop (unat start * sz) (bytes d))) \<and>
      dv_write (partition dev start len) d s c b = Some (RES_OK, d')"
    using sector_store.writes [OF assms(1) d c(1) s(3) b] s(1,2)
    by (auto simp: partition_def partition_write_def)
next
  fix d :: 'a
  assume "good d"
  then obtain d' where "good d'" "bytes d' = bytes d" "dv_sync dev d = (RES_OK, d')"
    using sector_store.syncs [OF assms(1)] by blast
  then show "\<exists>d'. good d' \<and> take (unat len * sz) (drop (unat start * sz) (bytes d')) = take (unat len * sz) (drop (unat start * sz) (bytes d)) \<and>
      dv_sync (partition dev start len) d = (RES_OK, d')"
    by (intro exI [of _ d']) (simp add: partition_def)
qed (simp add: partition_def)

text \<open>A D64 in RAM and in a file.\<close>

interpretation d64_ram: sector_store ram_device 256 683 rd_memory "ram_good 256 683"
  by (rule ram_store) simp_all

interpretation d64_file: sector_store "file_device ram_file_ops" 256 683 "\<lambda>d. rf_ram (fd_file d)" "rf_good 8 683"
  using ram_file_store [of 683 8] by simp

end
