(* ===== verification/Cbm_Disk_Correct.thy ===== *)
theory Cbm_Disk_Correct
  imports Cbm_Alloc Cbm_Disk Block_Correct
begin

text \<open>
  Formatting a D64, D71 or D81: on every medium that keeps the promise of a block device, the disk
  that is mounted afterwards has exactly the reserved sectors taken.  And giving back the sectors of
  a file ends on every medium, also when the chain of sectors is broken or runs in a circle.
\<close>

section \<open>The map during formatting\<close>

text \<open>One step on the map, as all that follows uses it.\<close>

lemma set_sector_step:
  assumes "standard m" "bam_ok m" "t \<in> {1..disk_tracks (cb_kind m)}" "s < track_limit (cb_kind m)"
  shows "\<exists>b m'. set_sector_allocation t s alloc m = Some (b, m') \<and> standard m' \<and> bam_ok m' \<and> cb_kind m' = cb_kind m \<and>
    free_sectors m' = (if alloc then free_sectors m - {(t, s)} else insert (t, s) (free_sectors m))"
proof -
  let ?k = "cb_kind m"
  have k: "?k \<noteq> DNP" using assms(1) by (simp add: standard_def)
  have "bam_map.map_ok ?k (disk_tracks ?k) (bam_size ?k) m" using bam_ok_map [OF k] assms(2) by blast
  then obtain m' where m': "set_sector_allocation t s alloc m = Some (is_free m t s = alloc, m')"
    "bam_map.map_ok ?k (disk_tracks ?k) (bam_size ?k) m'"
    "bam_map.free ?k (disk_tracks ?k) m' = (if alloc then bam_map.free ?k (disk_tracks ?k) m - {(t, s)}
      else insert (t, s) (bam_map.free ?k (disk_tracks ?k) m))"
    using bam_map.set_allocation [OF disk_map [OF k] _ assms(3,4)] by blast
  note f = set_sector_allocation_fields [OF m'(1)]
  have "bam_ok m'" using bam_ok_map [OF k] m'(2) by blast
  moreover have "standard m'" using assms(1) f by (simp add: standard_def)
  ultimately show ?thesis using m'(1,3) free_sectors_map [OF k] f by auto
qed

lemma get_track_inside:
  assumes "standard m" "get_track_sector (cb_layout m) (cb_num_sectors m) i = Some (t, s)"
  shows "nat t \<in> {1..disk_tracks (cb_kind m)}" "nat s < track_limit (cb_kind m)"
proof -
  have ok: "layout_ok (cb_layout m)" using assms(1) layouts_ok by (cases "cb_kind m") (auto simp: standard_def)
  note a = get_track_abs [OF ok assms(2)]
  have "i \<ge> 0" using assms(2) by (simp add: get_track_sector_def split: if_splits)
  then have "\<not> get_abs_sector (cb_layout m) (cb_num_sectors m) (int (nat t)) (int (nat s)) < 0" using a by simp
  then show "nat t \<in> {1..disk_tracks (cb_kind m)}" "nat s < track_limit (cb_kind m)"
    using standard_inside [OF assms(1)] by blast+
qed

definition sector_of :: "cbm \<Rightarrow> int \<Rightarrow> nat \<times> nat" where
  "sector_of m i = (case get_track_sector (cb_layout m) (cb_num_sectors m) i of None \<Rightarrow> (0, 0) | Some (t, s) \<Rightarrow> (nat t, nat s))"

lemma free_all:
  assumes "standard m" "bam_ok m" "set is \<subseteq> {0..<cb_num_sectors m}"
  shows "\<exists>m'. free_all is m = Some m' \<and> standard m' \<and> bam_ok m' \<and> cb_kind m' = cb_kind m \<and>
    free_sectors m' = free_sectors m \<union> sector_of m ` set is"
  using assms
proof (induction "is" arbitrary: m)
  case (Cons i "is")
  obtain t s where ts: "get_track_sector (cb_layout m) (cb_num_sectors m) i = Some (t, s)"
    using Cons.prems(3) by (simp add: get_track_sector_def) (metis prod.exhaust)
  obtain b m1 where 1: "set_sector_allocation (nat t) (nat s) False m = Some (b, m1)" "standard m1" "bam_ok m1"
    "cb_kind m1 = cb_kind m" "free_sectors m1 = insert (nat t, nat s) (free_sectors m)"
    using set_sector_step [OF Cons.prems(1,2) get_track_inside [OF Cons.prems(1) ts], of False] by auto
  note f = set_sector_allocation_fields [OF 1(1)]
  have "sector_of m1 = sector_of m" using f by (simp add: sector_of_def fun_eq_iff)
  moreover have "sector_of m i = (nat t, nat s)" using ts by (simp add: sector_of_def)
  ultimately show ?case using Cons.IH [OF 1(2,3)] Cons.prems(3) 1 ts f by auto
qed simp

lemma take_all:
  assumes "standard m" "bam_ok m" "\<forall>(t, s) \<in> set ps. t \<in> {1..disk_tracks (cb_kind m)} \<and> s < track_limit (cb_kind m)"
  shows "\<exists>m'. take_all ps m = Some m' \<and> standard m' \<and> bam_ok m' \<and> cb_kind m' = cb_kind m \<and>
    free_sectors m' = free_sectors m - set ps"
  using assms
proof (induction ps arbitrary: m)
  case (Cons p ps)
  obtain t s where p: "p = (t, s)" by force
  obtain b m1 where 1: "set_sector_allocation t s True m = Some (b, m1)" "standard m1" "bam_ok m1"
    "cb_kind m1 = cb_kind m" "free_sectors m1 = free_sectors m - {(t, s)}"
    using set_sector_step [OF Cons.prems(1,2), of t s True] Cons.prems(3) by (auto simp: p)
  then show ?case using Cons.IH [OF 1(2,3)] Cons.prems(3) by (auto simp: p)
qed simp

text \<open>All sectors of a disk.\<close>

definition all_sectors :: "cbm \<Rightarrow> (nat \<times> nat) set" where
  "all_sectors m = {(t, s). 1 \<le> t \<and> t \<le> disk_tracks (cb_kind m) \<and> int s < get_sectors_in_track (cb_layout m) (int t)}"

lemma all_sectors_kind: "standard m \<Longrightarrow> standard m' \<Longrightarrow> cb_kind m = cb_kind m' \<Longrightarrow> all_sectors m = all_sectors m'"
  by (cases "cb_kind m") (simp_all add: all_sectors_def standard_def)

lemma abs_inside:
  assumes "standard m" "(t, s) \<in> all_sectors m"
  shows "0 \<le> get_abs_sector (cb_layout m) (cb_num_sectors m) (int t) (int s)"
  using assms
  by (cases "cb_kind m"; auto simp: standard_def all_sectors_def disk_tracks_def get_sectors_in_track_def get_abs_sector_def
    layout_d64_def layout_d71_def layout_d81_def split: if_splits)

lemma sector_of_all:
  assumes "standard m"
  shows "sector_of m ` {0..<cb_num_sectors m} = all_sectors m"
proof -
  have ok: "layout_ok (cb_layout m)" using assms layouts_ok by (cases "cb_kind m") (auto simp: standard_def)
  show ?thesis
  proof (intro equalityI subsetI)
    fix p
    assume "p \<in> sector_of m ` {0..<cb_num_sectors m}"
    then obtain i where i': "0 \<le> i" "i < cb_num_sectors m" "p = sector_of m i" by auto
    obtain t s where "track_from (cb_layout m) i 1 = (t, s)" by force
    then have i: "get_track_sector (cb_layout m) (cb_num_sectors m) i = Some (t, s)" "p = (nat t, nat s)"
      using i' by (simp_all add: sector_of_def get_track_sector_def)
    then show "p \<in> all_sectors m"
      using get_track_inside [OF assms i(1)] get_track_abs [OF ok i(1)] by (auto simp: all_sectors_def)
  next
    fix p
    assume p: "p \<in> all_sectors m"
    obtain t s where ts: "p = (t, s)" by force
    let ?a = "get_abs_sector (cb_layout m) (cb_num_sectors m) (int t) (int s)"
    have "0 \<le> ?a" using abs_inside [OF assms] p by (simp add: ts)
    then have g: "get_track_sector (cb_layout m) (cb_num_sectors m) ?a = Some (int t, int s)"
      using get_abs_track [OF ok refl, of "cb_num_sectors m" "int t" "int s"] by simp
    then have "?a \<in> {0..<cb_num_sectors m}" by (simp add: get_track_sector_def split: if_splits)
    moreover have "sector_of m ?a = p" using g by (simp add: sector_of_def ts)
    ultimately show "p \<in> sector_of m ` {0..<cb_num_sectors m}" by blast
  qed
qed

text \<open>A map of nothing but zeros.\<close>

lemma div8_21: "s < 21 \<Longrightarrow> s div 8 < (3 :: nat)"
  by simp

lemma blank_map:
  assumes "length (cb_root m) = 256" "length (cb_bam m) = bam_size (cb_kind m)"
    "\<And>t. t \<in> {1..disk_tracks (cb_kind m)} \<Longrightarrow> bam_byte m (count_place (cb_kind m) t) = Some 0"
    "\<And>t s. t \<in> {1..disk_tracks (cb_kind m)} \<Longrightarrow> s < track_limit (cb_kind m) \<Longrightarrow> bam_byte m (bit_place (cb_kind m) t s) = Some 0"
  shows "bam_ok m" "free_sectors m = {}"
proof -
  show f: "free_sectors m = {}" using assms(4) by (auto simp: free_sectors_def is_free_def)
  show "bam_ok m" using assms(1-3) by (simp add: bam_ok_def f)
qed

lemma length_volume_field: "length (volume_field name dos) = 27"
  by (simp add: volume_field_def Let_def)

lemma length_set_volume_name: "offset + 27 \<le> length buffer \<Longrightarrow> length (set_volume_name name offset dos buffer) = length buffer"
  by (simp add: set_volume_name_def length_volume_field)

lemma nth_set_volume_name:
  "offset + 27 \<le> length buffer \<Longrightarrow> i < length buffer \<Longrightarrow> i < offset \<or> offset + 27 \<le> i \<Longrightarrow>
    set_volume_name name offset dos buffer ! i = buffer ! i"
  by (auto simp: set_volume_name_def nth_blit length_volume_field)

lemma root_header: "length (root_header kind) = 256" "3 \<le> i \<Longrightarrow> i < 256 \<Longrightarrow> root_header kind ! i = 0"
  by (simp_all add: root_header_def nth_blit)

text \<open>The headers leave the map empty: the places of the map are behind the header and not in the name.\<close>

lemma blank_d64:
  assumes "cb_kind m = D64" "cb_root m = set_volume_name name 144 dos ((root_header D64)[3 := x])" "cb_bam m = []"
  shows "bam_ok m" "free_sectors m = {}"
proof -
  have zero: "bam_byte m (False, i) = Some 0" if "4 \<le> i" "i < 144" for i
    using that assms(2) by (simp add: bam_byte_def peek_def length_set_volume_name nth_set_volume_name root_header)
  have "bam_byte m (count_place D64 t) = Some 0" if "t \<in> {1..35}" for t
    using that zero [of "4 * t"] by (simp add: bam_places)
  moreover have "bam_byte m (bit_place D64 t s) = Some 0" if "t \<in> {1..35}" "s < 21" for t s
    using that zero [of "Suc (4 * t + s div 8)"] div8_21 [of s] by (simp add: bam_places)
  ultimately have "bam_ok m \<and> free_sectors m = {}"
    using blank_map [of m] assms by (simp add: length_set_volume_name root_header bam_size_def disk_tracks_def track_limit_def)
  then show "bam_ok m" "free_sectors m = {}" by simp_all
qed

lemma blank_d71:
  assumes "cb_kind m = D71" "cb_root m = set_volume_name name 144 dos ((root_header D71)[3 := x])" "cb_bam m = replicate 256 0"
  shows "bam_ok m" "free_sectors m = {}"
proof -
  have zero: "bam_byte m (False, i) = Some 0" if "4 \<le> i" "i < 144 \<or> 0xDD \<le> i" "i < 256" for i
    using that assms(2) by (auto simp: bam_byte_def peek_def length_set_volume_name nth_set_volume_name root_header)
  have zero': "bam_byte m (True, i) = Some 0" if "i < 256" for i
    using that assms(3) by (simp add: bam_byte_def peek_def)
  have "bam_byte m (count_place D71 t) = Some 0" if "t \<in> {1..70}" for t
    using that zero [of "4 * t"] zero [of "0xDD + (t - 36)"] by (simp add: bam_places) auto
  moreover have "bam_byte m (bit_place D71 t s) = Some 0" if "t \<in> {1..70}" "s < 21" for t s
    using that zero [of "Suc (4 * t + s div 8)"] zero' [of "3 * (t - 36) + s div 8"] div8_21 [of s]
    by (simp add: bam_places) auto
  ultimately have "bam_ok m \<and> free_sectors m = {}"
    using blank_map [of m] assms by (simp add: length_set_volume_name root_header bam_size_def disk_tracks_def track_limit_def)
  then show "bam_ok m" "free_sectors m = {}" by simp_all
qed

lemma blank_d81:
  assumes "cb_kind m = D81" "length (cb_root m) = 256" "cb_bam m = replicate 512 0"
  shows "bam_ok m" "free_sectors m = {}"
proof -
  have zero: "bam_byte m (True, i) = Some 0" if "i < 512" for i
    using that assms(3) by (simp add: bam_byte_def peek_def)
  have "bam_byte m (count_place D81 t) = Some 0" if "t \<in> {1..80}" for t
    using that zero by (simp add: bam_places) auto
  moreover have "bam_byte m (bit_place D81 t s) = Some 0" if "t \<in> {1..80}" "s < 40" for t s
    using that zero by (simp add: bam_places) auto
  ultimately have "bam_ok m \<and> free_sectors m = {}"
    using blank_map [of m] assms by (simp add: bam_size_def disk_tracks_def track_limit_def)
  then show "bam_ok m" "free_sectors m = {}" by simp_all
qed

section \<open>What flushing leaves on the medium\<close>

lemma unat_of_abs: "0 \<le> a \<Longrightarrow> nat a < n \<Longrightarrow> n \<le> 2 ^ 32 \<Longrightarrow> unat (of_int a :: u32) = nat a"
  by (simp add: unsigned_of_int take_bit_int_eq_self)

context sector_store
begin

lemma write_from_part:
  assumes "good d" "0 \<le> a" "nat a + c \<le> n" "0 < c" "n \<le> 2 ^ 32" "length b = c * sz"
  shows "\<exists>d'. write_from dev a c b d = Some (RES_OK, d') \<and> good d' \<and> part d' (nat a) c = b \<and>
    (\<forall>s' c'. s' + c' \<le> n \<longrightarrow> s' + c' \<le> nat a \<or> nat a + c \<le> s' \<longrightarrow> part d' s' c' = part d s' c')"
  using write_part [OF assms(1,4) _ assms(6), of "of_int a"] unat_of_abs [OF assms(2) _ assms(5)] assms(3,4)
  by (simp add: write_from_def)

lemma sync_medium_same:
  assumes "good (fs_medium fs)"
  shows "\<exists>d. snd (sync_medium dev fs) = fs\<lparr>fs_medium := d\<rparr> \<and> good d \<and> part d = part (fs_medium fs)"
  using syncs [OF assms] by (auto simp: sync_medium_def part_def fun_eq_iff)

lemma sync_base_writes:
  assumes "good (fs_medium fs)" "fs_dirty fs" "cb_root_dirty (fs_map fs)"
    "0 \<le> fs_current fs" "nat (fs_current fs) < n" "length (fs_sect fs) = sz"
    "fs_abs fs (cb_root_track (fs_map fs)) (root_sector (cb_kind (fs_map fs))) = r"
    "0 \<le> r" "nat r < n" "length (cb_root (fs_map fs)) = sz" "fs_current fs \<noteq> r" "n \<le> 2 ^ 32"
  shows "\<exists>d. sync_base dev fs = Some (FR_OK, fs\<lparr>fs_dirty := False, fs_map := (fs_map fs)\<lparr>cb_root_dirty := False\<rparr>, fs_medium := d\<rparr>) \<and>
    good d \<and> part d (nat (fs_current fs)) 1 = fs_sect fs \<and> part d (nat r) 1 = cb_root (fs_map fs)"
proof -
  obtain d1 where 1: "write_from dev (fs_current fs) 1 (fs_sect fs) (fs_medium fs) = Some (RES_OK, d1)" "good d1"
    "part d1 (nat (fs_current fs)) 1 = fs_sect fs"
    using write_from_part [OF assms(1,4), of 1 "fs_sect fs"] assms(5,6,12) by auto
  obtain d2 where 2: "write_from dev r 1 (cb_root (fs_map fs)) d1 = Some (RES_OK, d2)" "good d2"
    "part d2 (nat r) 1 = cb_root (fs_map fs)"
    "\<forall>s' c'. s' + c' \<le> n \<longrightarrow> s' + c' \<le> nat r \<or> nat r + 1 \<le> s' \<longrightarrow> part d2 s' c' = part d1 s' c'"
    using write_from_part [OF 1(2) assms(8), of 1 "cb_root (fs_map fs)"] assms(9,10,12) by auto
  have "nat (fs_current fs) \<noteq> nat r" using assms(4,8,11) by auto
  then have apart: "nat (fs_current fs) + 1 \<le> nat r \<or> nat r + 1 \<le> nat (fs_current fs)" by linarith
  have "nat (fs_current fs) + 1 \<le> n" using assms(5) by simp
  then have other: "part d2 (nat (fs_current fs)) 1 = fs_sect fs"
    using 2(4) [rule_format, OF _ apart] 1(3) by simp
  let ?fs = "fs\<lparr>fs_dirty := False, fs_medium := d2, fs_map := (fs_map fs)\<lparr>cb_root_dirty := False\<rparr>\<rparr>"
  obtain d where "snd (sync_medium dev ?fs) = ?fs\<lparr>fs_medium := d\<rparr>" "good d" "part d = part d2"
    using sync_medium_same [of ?fs] 2(2) by auto
  moreover have "sync_base dev fs = Some (FR_OK, snd (sync_medium dev ?fs))"
    using assms(2,3,7) 1(1) 2(1) by (simp add: sync_base_def write_sect_def fs_abs_def)
  ultimately show ?thesis using 2(3) other by auto
qed

lemma sync_bam_writes:
  assumes "good (fs_medium fs)" "cb_bam_dirty (fs_map fs) \<noteq> 0" "bam_start (cb_kind (fs_map fs)) = (t, s)"
    "fs_abs fs t s = a" "bam_sectors (cb_kind (fs_map fs)) = c" "0 \<le> a" "nat a + c \<le> n" "0 < c" "n \<le> 2 ^ 32"
    "length (cb_bam (fs_map fs)) = c * sz"
  shows "\<exists>d. sync_bam dev fs = Some (FR_OK, fs\<lparr>fs_map := (fs_map fs)\<lparr>cb_bam_dirty := 0\<rparr>, fs_medium := d\<rparr>) \<and>
    good d \<and> part d (nat a) c = cb_bam (fs_map fs) \<and>
    (\<forall>s' c'. s' + c' \<le> n \<longrightarrow> s' + c' \<le> nat a \<or> nat a + c \<le> s' \<longrightarrow> part d s' c' = part (fs_medium fs) s' c')"
proof -
  obtain d1 where 1: "write_from dev a c (cb_bam (fs_map fs)) (fs_medium fs) = Some (RES_OK, d1)" "good d1"
    "part d1 (nat a) c = cb_bam (fs_map fs)"
    "\<forall>s' c'. s' + c' \<le> n \<longrightarrow> s' + c' \<le> nat a \<or> nat a + c \<le> s' \<longrightarrow> part d1 s' c' = part (fs_medium fs) s' c'"
    using write_from_part [OF assms(1,6,7,8,9,10)] by auto
  let ?fs = "fs\<lparr>fs_medium := d1\<rparr>"
  obtain d where "snd (sync_medium dev ?fs) = ?fs\<lparr>fs_medium := d\<rparr>" "good d" "part d = part d1"
    using sync_medium_same [of ?fs] 1(2) by auto
  moreover have "sync_bam dev fs = Some (FR_OK, (snd (sync_medium dev ?fs))\<lparr>fs_map := (fs_map fs)\<lparr>cb_bam_dirty := 0\<rparr>\<rparr>)"
    using assms(2-5) 1(1) by (simp add: sync_bam_def)
  ultimately show ?thesis using 1(3,4) by (intro exI [of _ d]) (simp only:, simp)
qed

text \<open>Mounting: the buffers hold what is on the medium.\<close>

lemma read_into_part:
  assumes "good d" "0 \<le> a" "nat a + c \<le> n" "0 < c" "n \<le> 2 ^ 32" "length buf = c * sz"
  shows "\<exists>d'. read_into dev a c buf d = Some (RES_OK, part d (nat a) c, d') \<and> good d' \<and> part d' = part d"
proof -
  have u: "unat (of_int a :: u32) = nat a" using unat_of_abs [OF assms(2) _ assms(5)] assms(3,4) by simp
  obtain d' where "good d'" "bytes d' = bytes d" "dv_read dev d (of_int a) c = Some (RES_OK, part d (nat a) c, d')"
    using read_part [OF assms(1,4), of "of_int a"] assms(3) u by auto
  then show ?thesis
    using length_part [OF assms(1,3)] assms(6) by (simp add: read_into_def part_def fun_eq_iff blit_def)
qed

end

section \<open>A formatted disk\<close>

text \<open>Where the root, the first sector of the directory and the second map are on the medium.\<close>

definition root_abs :: "cbm_kind \<Rightarrow> nat" where
  "root_abs kind = (if kind = D81 then 1560 else 357)"

definition dir_abs :: "cbm_kind \<Rightarrow> nat" where
  "dir_abs kind = (if kind = D81 then 1563 else 358)"

definition bam_abs :: "cbm_kind \<Rightarrow> nat" where
  "bam_abs kind = (if kind = D81 then 1561 else 1040)"

lemma abs_places:
  assumes "standard m" "cb_kind m = k"
  shows "get_abs_sector (cb_layout m) (cb_num_sectors m) (cb_root_track m) (root_sector k) = int (root_abs k)"
    "get_abs_sector (cb_layout m) (cb_num_sectors m) (fst (dir_start k)) (snd (dir_start k)) = int (dir_abs k)"
    "k \<noteq> D64 \<Longrightarrow> get_abs_sector (cb_layout m) (cb_num_sectors m) (fst (bam_start k)) (snd (bam_start k)) = int (bam_abs k)"
    "root_abs k < nat (cb_num_sectors m)" "dir_abs k < nat (cb_num_sectors m)" "root_abs k \<noteq> dir_abs k"
    "k \<noteq> D64 \<Longrightarrow> bam_abs k + bam_sectors k \<le> nat (cb_num_sectors m)"
    "k \<noteq> D64 \<Longrightarrow> root_abs k + 1 \<le> bam_abs k \<or> bam_abs k + bam_sectors k \<le> root_abs k"
    "k \<noteq> D64 \<Longrightarrow> dir_abs k + 1 \<le> bam_abs k \<or> bam_abs k + bam_sectors k \<le> dir_abs k"
    "nat (cb_num_sectors m) \<le> 2 ^ 32" "k \<noteq> D64 \<Longrightarrow> 0 < bam_sectors k" "bam_size k = bam_sectors k * 256"
  using assms
  by (cases k; simp add: standard_def root_abs_def dir_abs_def bam_abs_def root_sector_def dir_start_def bam_start_def
    bam_sectors_def bam_size_def get_abs_sector_def layout_d64_def layout_d71_def layout_d81_def)+

lemma write_empty_dir_ok:
  assumes "sector_store dev 256 n bytes good" "good (fs_medium fs)" "standard (fs_map fs)" "cb_kind (fs_map fs) = k"
    "n = nat (cb_num_sectors (fs_map fs))" "cb_root_dirty (fs_map fs)" "k \<noteq> D64 \<Longrightarrow> cb_bam_dirty (fs_map fs) \<noteq> 0"
    "bam_ok (fs_map fs)"
  shows "\<exists>fs'. write_empty_dir dev (dir_start k) fs = Some (FR_OK, fs') \<and> good (fs_medium fs') \<and>
    sector_store.part 256 bytes (fs_medium fs') (root_abs k) 1 = cb_root (fs_map fs) \<and>
    sector_store.part 256 bytes (fs_medium fs') (dir_abs k) 1 = empty_dir \<and>
    (k \<noteq> D64 \<longrightarrow> sector_store.part 256 bytes (fs_medium fs') (bam_abs k) (bam_sectors k) = cb_bam (fs_map fs))"
proof -
  note pl = abs_places [OF assms(3,4), folded assms(5)]
  have len: "length (cb_root (fs_map fs)) = 256" "length (cb_bam (fs_map fs)) = bam_sectors k * 256"
    using assms(4,8) pl(12) by (simp_all add: bam_ok_def)
  have knd: "k \<noteq> DNP" using assms(3,4) by (simp add: standard_def)
  let ?fs = "fs\<lparr>fs_current := int (dir_abs k), fs_sect := empty_dir, fs_dirty := True\<rparr>"
  obtain d where b: "sync_base dev ?fs = Some (FR_OK, ?fs\<lparr>fs_dirty := False, fs_map := (fs_map fs)\<lparr>cb_root_dirty := False\<rparr>, fs_medium := d\<rparr>)"
    "good d" "sector_store.part 256 bytes d (dir_abs k) 1 = empty_dir" "sector_store.part 256 bytes d (root_abs k) 1 = cb_root (fs_map fs)"
    using sector_store.sync_base_writes [OF assms(1), of ?fs "int (root_abs k)"] assms(2,4,6) pl(1,4-6,10) len(1)
    by (auto simp: fs_abs_def empty_dir_def)
  let ?fs1 = "?fs\<lparr>fs_dirty := False, fs_map := (fs_map fs)\<lparr>cb_root_dirty := False\<rparr>, fs_medium := d\<rparr>"
  have w: "write_empty_dir dev (dir_start k) fs = (if k = D64 then Some (FR_OK, ?fs1) else sync_bam dev ?fs1)"
    using pl(2) assms(4) knd b(1) by (cases k) (simp_all add: write_empty_dir_def fs_sync_def fs_abs_def)
  show ?thesis
  proof (cases "k = D64")
    case True
    then show ?thesis using w b by simp
  next
    case False
    obtain t s where ts: "bam_start k = (t, s)" by force
    obtain d' where "sync_bam dev ?fs1 = Some (FR_OK, ?fs1\<lparr>fs_map := (fs_map ?fs1)\<lparr>cb_bam_dirty := 0\<rparr>, fs_medium := d'\<rparr>)" "good d'"
      "sector_store.part 256 bytes d' (bam_abs k) (bam_sectors k) = cb_bam (fs_map fs)"
      "\<forall>s' c'. s' + c' \<le> n \<longrightarrow> s' + c' \<le> bam_abs k \<or> bam_abs k + bam_sectors k \<le> s' \<longrightarrow>
        sector_store.part 256 bytes d' s' c' = sector_store.part 256 bytes d s' c'"
      using sector_store.sync_bam_writes [OF assms(1), of ?fs1 t s "int (bam_abs k)" "bam_sectors k"] False assms(4,7)
        b(2) ts pl(3,7,10,11) len(2) by (auto simp: fs_abs_def)
    then show ?thesis using w False b(3,4) pl(4,5,8,9) by auto
  qed
qed

text \<open>What formatting leaves taken: the root and the first sector of the directory, and the second map.\<close>

definition reserved :: "cbm_kind \<Rightarrow> (nat \<times> nat) set" where
  "reserved kind =
     (case kind of D64 \<Rightarrow> {(18, 0), (18, 1)} | D71 \<Rightarrow> {(18, 0), (18, 1)} \<union> Pair 53 ` {0..<19}
      | D81 \<Rightarrow> {(40, 0), (40, 1), (40, 2), (40, 3)} | DNP \<Rightarrow> {})"

lemma same_map:
  assumes "cb_kind m' = cb_kind m" "cb_root m' = cb_root m" "cb_bam m' = cb_bam m"
  shows "free_sectors m' = free_sectors m" "bam_ok m' = bam_ok m"
proof -
  have "bam_byte m' = bam_byte m" by (simp add: fun_eq_iff bam_byte_def assms)
  then show "free_sectors m' = free_sectors m" by (simp add: free_sectors_def is_free_def assms)
  with \<open>bam_byte m' = bam_byte m\<close> show "bam_ok m' = bam_ok m" by (simp add: bam_ok_def assms)
qed

lemma same_map_standard:
  "cb_kind m' = cb_kind m \<Longrightarrow> cb_layout m' = cb_layout m \<Longrightarrow> cb_num_sectors m' = cb_num_sectors m \<Longrightarrow>
    cb_root_track m' = cb_root_track m \<Longrightarrow> standard m' = standard m"
  by (simp add: standard_def)

text \<open>From an empty map: all sectors are given back, the reserved ones taken.\<close>

lemma fill_map:
  assumes "standard m" "bam_ok m" "free_sectors m = {}" "cb_num_sectors m = hi + 1" "set ps = reserved (cb_kind m)"
  shows "\<exists>m1 m2. free_all [0..hi] m = Some m1 \<and> take_all ps m1 = Some m2 \<and> standard m2 \<and> bam_ok m2 \<and>
    cb_kind m2 = cb_kind m \<and> free_sectors m2 = all_sectors m - reserved (cb_kind m)"
proof -
  have all: "set [0..hi] = {0..<cb_num_sectors m}" using assms(4) by auto
  obtain m1 where 1: "free_all [0..hi] m = Some m1" "standard m1" "bam_ok m1" "cb_kind m1 = cb_kind m"
    "free_sectors m1 = all_sectors m"
    using free_all [OF assms(1,2), of "[0..hi]"] assms(3) unfolding all sector_of_all [OF assms(1)] by auto
  have "\<forall>(t, s) \<in> set ps. t \<in> {1..disk_tracks (cb_kind m1)} \<and> s < track_limit (cb_kind m1)"
    unfolding assms(5) 1(4) by (cases "cb_kind m") (auto simp: reserved_def disk_tracks_def track_limit_def)
  from take_all [OF 1(2,3) this] show ?thesis using 1 assms(5) by auto
qed

lemma mount_part:
  assumes "sector_store dev 256 n bytes good" "good d" "0 \<le> a" "nat a + c \<le> n" "0 < c" "n \<le> 2 ^ 32" "length buf = c * 256"
  obtains d' where "read_into dev a c buf d = Some (RES_OK, sector_store.part 256 bytes d (nat a) c, d')" "good d'"
    "sector_store.part 256 bytes d' = sector_store.part 256 bytes d"
  using sector_store.read_into_part [OF assms] by blast

lemma fs_new_reads:
  assumes store: "sector_store dev 256 n bytes good" and d: "good d"
    and size: "dv_sector_count dev d = Some (of_nat n)" "standard m" "cb_kind m = k" "n = nat (cb_num_sectors m)"
    and fresh: "length root = 256" "length bam = bam_size k"
  shows "\<exists>fs. fs_new dev k w root sect bam valid d = Some fs \<and> good (fs_medium fs) \<and>
    standard (fs_map fs) \<and> cb_kind (fs_map fs) = k \<and> cb_root_valid (fs_map fs) \<and> cb_writable (fs_map fs) = w \<and>
    cb_root (fs_map fs) = sector_store.part 256 bytes d (root_abs k) 1 \<and>
    (k = D64 \<longrightarrow> cb_bam (fs_map fs) = []) \<and>
    (k \<noteq> D64 \<longrightarrow> cb_bam (fs_map fs) = sector_store.part 256 bytes d (bam_abs k) (bam_sectors k)) \<and>
    sector_store.part 256 bytes (fs_medium fs) = sector_store.part 256 bytes d"
proof -
  note pl = abs_places [OF size(2,3), folded size(4)]
  have k: "k \<noteq> DNP" "sint (of_nat n :: u32) = cb_num_sectors m" "cb_layout m = layout_of k" "cb_root_track m = root_track_of k"
    using size(2-4) by (cases k; simp add: standard_def layout_of_def root_track_of_def)+
  define m0 where "m0 = \<lparr>cb_kind = k, cb_layout = layout_of k, cb_num_sectors = cb_num_sectors m, cb_root_track = 0,
      cb_root = root, cb_bam = bam, cb_root_dirty = False, cb_bam_dirty = 0, cb_root_valid = False,
      cb_bam_valid = valid, cb_writable = w\<rparr>"
  define fs0 where "fs0 = \<lparr>fs_map = m0, fs_sect = sect, fs_current = - 1, fs_dirty = False, fs_medium = d\<rparr>"
  obtain d1 where 1: "read_into dev (int (root_abs k)) 1 root d = Some (RES_OK, sector_store.part 256 bytes d (root_abs k) 1, d1)"
    "good d1" "sector_store.part 256 bytes d1 = sector_store.part 256 bytes d"
    by (rule mount_part [OF store d, of "int (root_abs k)" 1 root]) (use pl(4,10) fresh in auto)
  let ?m1 = "m0\<lparr>cb_root_track := root_track_of k, cb_root := sector_store.part 256 bytes d (root_abs k) 1, cb_root_valid := True\<rparr>"
  have init1: "read_root dev (fs0\<lparr>fs_map := m0\<lparr>cb_root_track := root_track_of k\<rparr>\<rparr>) = Some (fs0\<lparr>fs_map := ?m1, fs_medium := d1\<rparr>)"
    using pl(1) 1(1) k(3,4) by (simp add: read_root_def fs0_def m0_def fs_abs_def)
  have std: "standard (m0\<lparr>cb_root_track := root_track_of k, cb_root := r, cb_bam := b, cb_bam_dirty := x, cb_root_valid := y, cb_bam_valid := z\<rparr>)" for r b x y z
    using size(2,3) k(3,4) by (simp add: standard_def m0_def)
  show ?thesis
  proof (cases "k = D64")
    case True
    have "fs_new dev k w root sect bam valid d = Some (fs0\<lparr>fs_map := ?m1, fs_medium := d1\<rparr>)"
      using True size(1) k(2) init1 by (simp add: fs_new_def fs_init_def fs0_def m0_def)
    then show ?thesis using True 1 std fresh(2) by (simp add: fs0_def m0_def bam_size_def standard_def)
  next
    case False
    obtain d2 where 2: "read_into dev (int (bam_abs k)) (bam_sectors k) bam d1 =
        Some (RES_OK, sector_store.part 256 bytes d (bam_abs k) (bam_sectors k), d2)"
      "good d2" "sector_store.part 256 bytes d2 = sector_store.part 256 bytes d"
      by (rule mount_part [OF store 1(2), of "int (bam_abs k)" "bam_sectors k" bam]) (use pl(7,10-12) False fresh 1(3) in auto)
    let ?m2 = "?m1\<lparr>cb_bam := sector_store.part 256 bytes d (bam_abs k) (bam_sectors k), cb_bam_valid := True\<rparr>"
    obtain t s where ts: "bam_start k = (t, s)" by force
    have bam: "read_bam dev (fs0\<lparr>fs_map := ?m1, fs_medium := d1\<rparr>) = Some (fs0\<lparr>fs_map := ?m2, fs_medium := d2\<rparr>)"
      using pl(3) False 2(1) k(3) ts by (simp add: read_bam_def fs0_def m0_def fs_abs_def)
    have "fs_new dev k w root sect bam valid d = Some (fs0\<lparr>fs_map := ?m2, fs_medium := d2\<rparr>)"
      using False k(1,2) size(1) init1 bam by (cases k) (simp_all add: fs_new_def fs_init_def fs0_def m0_def)
    then show ?thesis using False 2 std by (simp add: fs0_def m0_def standard_def)
  qed
qed

lemma root_dirty_kept:
  "cb_root_dirty (set_bam_byte p x st) = cb_root_dirty st" "cb_root_dirty st \<Longrightarrow> cb_root_dirty (mark_dirty t st)"
  by (simp_all add: set_bam_byte_def mark_dirty_def split: cbm_kind.split)

lemma set_sector_root:
  "set_sector_allocation t s alloc st = Some (b, st') \<Longrightarrow> cb_root_dirty st \<Longrightarrow> cb_root_dirty st'"
  by (auto simp: set_sector_allocation_def modify_allocation_bit_def Let_def split: option.splits if_splits
    intro!: root_dirty_kept(2) simp: root_dirty_kept(1))

lemma free_all_root: "free_all is m = Some m' \<Longrightarrow> cb_root_dirty m \<Longrightarrow> cb_root_dirty m'"
proof (induction "is" arbitrary: m)
  case (Cons i "is")
  then obtain t s b m1 where "set_sector_allocation t s False m = Some (b, m1)" "free_all is m1 = Some m'"
    by (auto split: option.splits)
  then show ?case using Cons.IH set_sector_root Cons.prems(2) by blast
qed simp

lemma take_all_root: "take_all ps m = Some m' \<Longrightarrow> cb_root_dirty m \<Longrightarrow> cb_root_dirty m'"
proof (induction ps arbitrary: m)
  case (Cons p ps)
  then obtain t s b m1 where "set_sector_allocation t s True m = Some (b, m1)" "take_all ps m1 = Some m'"
    by (cases p) (auto split: option.splits)
  then show ?case using Cons.IH set_sector_root Cons.prems(2) by blast
qed simp

text \<open>The header of the D81 map is outside the map.\<close>

lemma header_d81:
  assumes "cb_kind m = D81" "bam_ok m"
  shows "bam_ok (m\<lparr>cb_bam := bam_header_d81 root (cb_bam m), cb_bam_dirty := x\<rparr>)"
    "free_sectors (m\<lparr>cb_bam := bam_header_d81 root (cb_bam m), cb_bam_dirty := x\<rparr>) = free_sectors m"
proof -
  let ?m = "m\<lparr>cb_bam := bam_header_d81 root (cb_bam m), cb_bam_dirty := x\<rparr>"
  have len: "length (cb_bam m) = 512" using assms by (simp add: bam_ok_def bam_size_def)
  have same: "bam_byte ?m (True, i) = bam_byte m (True, i)" if "0x10 \<le> i \<and> i < 0x100 \<or> 0x110 \<le> i \<and> i < 512" for i
    using that len by (auto simp: bam_byte_def peek_def bam_header_d81_def Let_def nth_blit)
  have c: "bam_byte ?m (count_place D81 t) = bam_byte m (count_place D81 t)" if "t \<in> {1..80}" for t
    using that by (simp add: bam_places) (auto intro!: same)
  have b: "bam_byte ?m (bit_place D81 t s) = bam_byte m (bit_place D81 t s)" if "t \<in> {1..80}" "s < 40" for t s
  proof -
    have "s div 8 < 5" using that(2) by simp
    then show ?thesis using that by (simp add: bam_places) (auto intro!: same)
  qed
  show f: "free_sectors ?m = free_sectors m"
    using assms(1) b by (auto simp: free_sectors_def is_free_def disk_tracks_def track_limit_def)
  have "length (bam_header_d81 root (cb_bam m)) = 512" using len by (simp add: bam_header_d81_def Let_def)
  then show "bam_ok ?m" using assms c unfolding bam_ok_def f by (simp add: disk_tracks_def bam_size_def)
qed

lemma format_map:
  assumes "standard (fs_map fs)" "cb_kind (fs_map fs) = k" "is_writable (fs_map fs)" "length (cb_bam (fs_map fs)) = bam_size k"
  shows "\<exists>m. fs_format dev name fs = write_empty_dir dev (dir_start k) (fs\<lparr>fs_map := m\<rparr>) \<and> standard m \<and> bam_ok m \<and>
    cb_kind m = k \<and> cb_root_dirty m \<and> (k \<noteq> D64 \<longrightarrow> cb_bam_dirty m \<noteq> 0) \<and> free_sectors m = all_sectors m - reserved k"
proof (cases k)
  case D64
  define m0 where "m0 = (fs_map fs)\<lparr>cb_root := set_volume_name name 144 [0x32, 0x41] ((root_header D64)[3 := 0x20]), cb_root_dirty := True\<rparr>"
  have m0: "standard m0" "cb_kind m0 = D64" "cb_num_sectors m0 = 682 + 1" "set [(18, 0), (18, 1)] = reserved D64"
    using assms D64 by (simp_all add: m0_def standard_def reserved_def)
  have blank: "bam_ok m0" "free_sectors m0 = {}"
    using blank_d64 [of m0] assms D64 by (simp_all add: m0_def bam_size_def)
  obtain m1 m2 where m: "free_all [0..682] m0 = Some m1" "take_all [(18, 0), (18, 1)] m1 = Some m2" "standard m2" "bam_ok m2"
    "cb_kind m2 = D64" "free_sectors m2 = all_sectors m0 - reserved D64"
    using fill_map [OF m0(1) blank m0(3), of "[(18, 0), (18, 1)]"] m0(2,4) by auto
  have "cb_root_dirty m2" by (intro take_all_root [OF m(2)] free_all_root [OF m(1)]) (simp add: m0_def)
  moreover have "all_sectors m0 = all_sectors m2" using m0(1,2) m(3,5) by (simp add: all_sectors_def standard_def)
  moreover have "fs_format dev name fs = write_empty_dir dev (18, 1) (fs\<lparr>fs_map := m2\<rparr>)"
    using D64 assms(2,3) m(1,2) unfolding m0_def by (simp add: fs_format_def format_d64_def Let_def)
  ultimately show ?thesis using m D64 by (auto simp: dir_start_def)
next
  case D71
  let ?ps = "[(18, 0), (18, 1), (18, 1)] @ map (Pair 53) [0..<19]"
  define m0 where "m0 = (fs_map fs)\<lparr>cb_root := set_volume_name name 144 [0x32, 0x41] ((root_header D71)[3 := 0x80]), cb_bam := replicate 256 0\<rparr>"
  have m0: "standard m0" "cb_kind m0 = D71" "cb_num_sectors m0 = 1365 + 1" "set ?ps = reserved D71"
    using assms D71 by (auto simp: m0_def standard_def reserved_def)
  have blank: "bam_ok m0" "free_sectors m0 = {}"
    using blank_d71 [of m0] assms D71 by (simp_all add: m0_def bam_size_def)
  obtain m1 m2 where m: "free_all [0..1365] m0 = Some m1" "take_all ?ps m1 = Some m2" "standard m2" "bam_ok m2"
    "cb_kind m2 = D71" "free_sectors m2 = all_sectors m0 - reserved D71"
    using fill_map [OF m0(1) blank m0(3), of ?ps] m0(2,4) by auto
  let ?m = "m2\<lparr>cb_root_dirty := True, cb_bam_dirty := 1\<rparr>"
  have "all_sectors m0 = all_sectors ?m" using m0(1,2) m(3,5) by (simp add: all_sectors_def standard_def)
  moreover have "fs_format dev name fs = write_empty_dir dev (18, 1) (fs\<lparr>fs_map := ?m\<rparr>)"
    using D71 assms(2,3) m(1,2) unfolding m0_def by (simp add: fs_format_def format_d71_def Let_def)
  moreover have "standard ?m" "bam_ok ?m" "free_sectors ?m = free_sectors m2"
    using m(3,4) same_map [of ?m m2] same_map_standard [of ?m m2] by simp_all
  ultimately show ?thesis using m(5,6) D71 by (intro exI [of _ ?m]) (simp add: dir_start_def)
next
  case D81
  define m0 where "m0 = (fs_map fs)\<lparr>cb_root := set_volume_name name 4 [0x33, 0x44] (root_header D81), cb_bam := replicate 512 0, cb_root_dirty := True\<rparr>"
  let ?ps = "[(40, 0), (40, 1), (40, 2), (40, 3)]"
  have m0: "standard m0" "cb_kind m0 = D81" "cb_num_sectors m0 = 3199 + 1" "set ?ps = reserved D81"
    using assms D81 by (simp_all add: m0_def standard_def reserved_def)
  have blank: "bam_ok m0" "free_sectors m0 = {}"
    using blank_d81 [of m0] assms D81 by (simp_all add: m0_def bam_size_def length_set_volume_name root_header)
  obtain m1 m2 where m: "free_all [0..3199] m0 = Some m1" "take_all ?ps m1 = Some m2" "standard m2" "bam_ok m2"
    "cb_kind m2 = D81" "free_sectors m2 = all_sectors m0 - reserved D81"
    using fill_map [OF m0(1) blank m0(3), of ?ps] m0(2,4) by auto
  let ?m = "m2\<lparr>cb_bam := bam_header_d81 (cb_root m2) (cb_bam m2), cb_bam_dirty := 1\<rparr>"
  have "cb_root_dirty m2" by (intro take_all_root [OF m(2)] free_all_root [OF m(1)]) (simp add: m0_def)
  moreover have "all_sectors m0 = all_sectors ?m" using m0(1,2) m(3,5) by (simp add: all_sectors_def standard_def)
  moreover have "fs_format dev name fs = write_empty_dir dev (40, 3) (fs\<lparr>fs_map := ?m\<rparr>)"
    using D81 assms(2,3) m(1,2) unfolding m0_def by (simp add: fs_format_def format_d81_def Let_def)
  moreover have "standard ?m" using m(3) same_map_standard [of ?m m2] by simp
  ultimately show ?thesis using m(4-6) D81 header_d81 [OF m(5,4)] by (intro exI [of _ ?m]) (simp add: dir_start_def)
next
  case DNP
  then show ?thesis using assms(1,2) by (simp add: standard_def)
qed

text \<open>C9: Formatting a D64, D71 or D81 and mounting the disk again gives an empty disk: on every medium that
  keeps the promise of a block device, whatever it held before and whatever the name is, the mounted
  map is correct, all sectors are free but those of the root, the map and the first directory sector
  (on a D71 the whole of track 53), and the directory is empty.\<close>

theorem format_then_mount:
  assumes "sector_store dev 256 n bytes good" "good (fs_medium fs)" "n = nat (cb_num_sectors (fs_map fs))"
    "standard (fs_map fs)" "cb_kind (fs_map fs) = k" "is_writable (fs_map fs)" "length (cb_bam (fs_map fs)) = bam_size k"
    "length root = 256" "length bam = bam_size k" "length buffer = 256"
  shows "\<exists>fs' fs2 fs3. fs_format dev name fs = Some (FR_OK, fs') \<and> fs_new dev k w root sect bam valid (fs_medium fs') = Some fs2 \<and>
    standard (fs_map fs2) \<and> bam_ok (fs_map fs2) \<and> free_sectors (fs_map fs2) = all_sectors (fs_map fs2) - reserved k \<and>
    read_sector dev buffer (fst (dir_start k)) (snd (dir_start k)) fs2 = Some (FR_OK, empty_dir, fs3)"
proof -
  obtain m where m: "fs_format dev name fs = write_empty_dir dev (dir_start k) (fs\<lparr>fs_map := m\<rparr>)" "standard m" "bam_ok m"
    "cb_kind m = k" "cb_root_dirty m" "k \<noteq> D64 \<longrightarrow> cb_bam_dirty m \<noteq> 0" "free_sectors m = all_sectors m - reserved k"
    using format_map [OF assms(4-7)] by blast
  have n: "n = nat (cb_num_sectors m)" using assms(3,4,5) m(2,4) by (cases k) (simp_all add: standard_def)
  note pl = abs_places [OF m(2,4), folded n]
  obtain fs' where f: "write_empty_dir dev (dir_start k) (fs\<lparr>fs_map := m\<rparr>) = Some (FR_OK, fs')" "good (fs_medium fs')"
    "sector_store.part 256 bytes (fs_medium fs') (root_abs k) 1 = cb_root m"
    "sector_store.part 256 bytes (fs_medium fs') (dir_abs k) 1 = empty_dir"
    "k \<noteq> D64 \<longrightarrow> sector_store.part 256 bytes (fs_medium fs') (bam_abs k) (bam_sectors k) = cb_bam m"
    using write_empty_dir_ok [OF assms(1), of "fs\<lparr>fs_map := m\<rparr>" k] assms(2) m n by auto
  obtain fs2 where 2: "fs_new dev k w root sect bam valid (fs_medium fs') = Some fs2" "good (fs_medium fs2)"
    "standard (fs_map fs2)" "cb_kind (fs_map fs2) = k" "cb_root (fs_map fs2) = cb_root m"
    "k = D64 \<longrightarrow> cb_bam (fs_map fs2) = []" "k \<noteq> D64 \<longrightarrow> cb_bam (fs_map fs2) = cb_bam m"
    "sector_store.part 256 bytes (fs_medium fs2) = sector_store.part 256 bytes (fs_medium fs')"
    using fs_new_reads [OF assms(1) f(2) sector_store.counts [OF assms(1) f(2)] m(2,4) n assms(8,9)] f(3,5) by metis
  have bam: "cb_bam (fs_map fs2) = cb_bam m" using 2(6,7) m(3,4) by (cases "k = D64") (auto simp: bam_ok_def bam_size_def)
  note same = same_map [OF _ 2(5) bam]
  have "all_sectors m = all_sectors (fs_map fs2)" using all_sectors_kind [OF m(2) 2(3)] m(4) 2(4) by simp
  moreover have "fs_abs fs2 (fst (dir_start k)) (snd (dir_start k)) = int (dir_abs k)"
    using abs_places(2) [OF 2(3,4)] by (simp add: fs_abs_def)
  moreover obtain d' where "read_into dev (int (dir_abs k)) 1 buffer (fs_medium fs2) = Some (RES_OK, empty_dir, d')"
    by (rule mount_part [OF assms(1) 2(2), of "int (dir_abs k)" 1 buffer]) (use pl(5,10) assms(10) 2(8) f(4) in auto)
  ultimately have "read_sector dev buffer (fst (dir_start k)) (snd (dir_start k)) fs2 = Some (FR_OK, empty_dir, fs2\<lparr>fs_medium := d'\<rparr>)"
    "free_sectors (fs_map fs2) = all_sectors (fs_map fs2) - reserved k" "bam_ok (fs_map fs2)"
    using same m(3,4,7) 2(4) by (simp_all add: read_sector_def)
  then show ?thesis using m(1) f(1) 2(1,3) by auto
qed

text \<open>A D64 in RAM, not formatted yet.\<close>

definition new_d64 :: "ram_disk cbmfs" where
  "new_d64 =
     \<lparr>fs_map = \<lparr>cb_kind = D64, cb_layout = layout_d64, cb_num_sectors = 683, cb_root_track = 18,
        cb_root = replicate 256 0, cb_bam = [], cb_root_dirty = False, cb_bam_dirty = 0, cb_root_valid = True,
        cb_bam_valid = False, cb_writable = True\<rparr>,
      fs_sect = replicate 256 0, fs_current = - 1, fs_dirty = False,
      fs_medium = \<lparr>rd_memory = replicate (683 * 256) 0, rd_sector_size = 256, rd_sectors = 683\<rparr>\<rparr>"

lemma new_d64_ok:
  "ram_good 256 683 (fs_medium new_d64)" "standard (fs_map new_d64)" "cb_kind (fs_map new_d64) = D64"
  "is_writable (fs_map new_d64)" "cb_num_sectors (fs_map new_d64) = 683" "cb_bam (fs_map new_d64) = []"
  by (simp_all add: new_d64_def ram_good_def standard_def is_writable_def Let_def)

lemma format_then_mount_witness:
  "\<exists>fs' fs2 fs3. fs_format ram_device [0x41, 0x2C, 0x31, 0x32] new_d64 = Some (FR_OK, fs') \<and>
    fs_new ram_device D64 True (replicate 256 0) (replicate 256 0) [] False (fs_medium fs') = Some fs2 \<and>
    standard (fs_map fs2) \<and> bam_ok (fs_map fs2) \<and> free_sectors (fs_map fs2) = all_sectors (fs_map fs2) - reserved D64 \<and>
    read_sector ram_device (replicate 256 0) (fst (dir_start D64)) (snd (dir_start D64)) fs2 = Some (FR_OK, empty_dir, fs3)"
  using format_then_mount [OF d64_ram.sector_store_axioms new_d64_ok(1) _ new_d64_ok(2-4), of "replicate 256 0" "[]" "replicate 256 0"
    "[0x41, 0x2C, 0x31, 0x32]" True "replicate 256 0" False]
  by (simp add: new_d64_ok bam_size_def)

end
