(* ===== verification/Cbm_Delete.thy ===== *)
theory Cbm_Delete
  imports Cbm_Disk_Correct
begin

text \<open>
  Giving back the sectors of a file, whatever the chain of sectors looks like on the medium: the loop
  ends, and the sectors it met, and no others, are free afterwards.
\<close>

section \<open>The medium through the window\<close>

context sector_store
begin

text \<open>A sector as the file system sees it: the one in the window may be newer than the medium.\<close>

definition seen :: "'d cbmfs \<Rightarrow> nat \<Rightarrow> byte list" where
  "seen fs a = (if fs_current fs = int a then fs_sect fs else part (fs_medium fs) a 1)"

text \<open>The sector in the window is one of the medium, and the same as there unless it has been changed.\<close>

definition window_ok :: "'d cbmfs \<Rightarrow> bool" where
  "window_ok fs \<longleftrightarrow> good (fs_medium fs) \<and> length (fs_sect fs) = sz \<and> n \<le> 2 ^ 32 \<and>
     (0 \<le> fs_current fs \<longrightarrow> nat (fs_current fs) < n) \<and> (fs_dirty fs \<longrightarrow> 0 \<le> fs_current fs) \<and>
     (\<not> fs_dirty fs \<longrightarrow> fs_current fs < 0 \<or> fs_sect fs = part (fs_medium fs) (nat (fs_current fs)) 1)"

lemma write_sect_seen:
  assumes "window_ok fs" "fs_dirty fs"
  shows "\<exists>fs'. write_sect dev fs = Some (RES_OK, fs') \<and> good (fs_medium fs') \<and> fs_map fs' = fs_map fs \<and>
    fs_sect fs' = fs_sect fs \<and>
    (\<forall>b < n. part (fs_medium fs') b 1 = seen fs b)"
proof -
  let ?c = "nat (fs_current fs)"
  have c: "?c < n" "int ?c = fs_current fs" using assms by (simp_all add: window_ok_def)
  obtain d where d: "write_from dev (fs_current fs) 1 (fs_sect fs) (fs_medium fs) = Some (RES_OK, d)" "good d"
    "part d ?c 1 = fs_sect fs"
    "\<forall>s' c'. s' + c' \<le> n \<longrightarrow> s' + c' \<le> ?c \<or> ?c + 1 \<le> s' \<longrightarrow> part d s' c' = part (fs_medium fs) s' c'"
    using write_from_part [of "fs_medium fs" "fs_current fs" 1 "fs_sect fs"] assms by (auto simp: window_ok_def)
  have "part d b 1 = seen fs b" if "b < n" for b
  proof (cases "b = ?c")
    case True
    then show ?thesis using d(3) c(2) by (simp add: seen_def)
  next
    case False
    then have "b + 1 \<le> n" "b + 1 \<le> ?c \<or> ?c + 1 \<le> b" using that by auto
    then have "part d b 1 = part (fs_medium fs) b 1" using d(4) by blast
    moreover have "fs_current fs \<noteq> int b" using False by auto
    ultimately show ?thesis by (simp add: seen_def)
  qed
  then show ?thesis using d(1,2) assms(1) by (simp add: write_sect_def window_ok_def)
qed

lemma move_window_seen:
  assumes "window_ok fs" "0 \<le> a" "nat a < n"
  shows "\<exists>fs'. move_window dev a fs = Some (FR_OK, fs') \<and> window_ok fs' \<and> fs_map fs' = fs_map fs \<and> fs_current fs' = a \<and>
    fs_sect fs' = seen fs (nat a) \<and> (\<forall>b < n. seen fs' b = seen fs b)"
proof (cases "fs_current fs = a")
  case True
  then show ?thesis using assms by (simp add: move_window_def seen_def)
next
  case False
  let ?pre = "if fs_dirty fs then write_sect dev fs else Some (RES_OK, fs)"
  have "\<exists>fs1. ?pre = Some (RES_OK, fs1) \<and> good (fs_medium fs1) \<and> fs_map fs1 = fs_map fs \<and> fs_sect fs1 = fs_sect fs \<and>
      (\<forall>b < n. part (fs_medium fs1) b 1 = seen fs b)"
    using write_sect_seen [OF assms(1)] assms(1) by (auto simp: window_ok_def seen_def)
  then obtain fs1 where 1: "?pre = Some (RES_OK, fs1)" "good (fs_medium fs1)" "fs_map fs1 = fs_map fs"
    "fs_sect fs1 = fs_sect fs" "\<forall>b < n. part (fs_medium fs1) b 1 = seen fs b" by blast
  obtain d where d: "read_into dev a 1 (fs_sect fs1) (fs_medium fs1) = Some (RES_OK, part (fs_medium fs1) (nat a) 1, d)"
    "good d" "part d = part (fs_medium fs1)"
    using read_into_part [OF 1(2) assms(2), of 1 "fs_sect fs1"] assms(1,3) 1(4) by (auto simp: window_ok_def)
  let ?fs = "fs1\<lparr>fs_sect := seen fs (nat a), fs_medium := d, fs_current := a, fs_dirty := False\<rparr>"
  have len: "length (seen fs (nat a)) = sz" using 1(2,5) assms(3) length_part [OF 1(2), of "nat a" 1] by auto
  have "move_window dev a fs = Some (FR_OK, ?fs)"
    using False assms(2,3) 1(1,5) d(1) by (simp add: move_window_def)
  moreover have "window_ok ?fs" using assms d(2,3) 1(5) len by (simp add: window_ok_def)
  moreover have "\<forall>b < n. seen ?fs b = seen fs b" using 1(5) d(3) assms(2) by (auto simp: seen_def [of ?fs])
  ultimately show ?thesis using 1(3) by (intro exI [of _ ?fs]) simp
qed

end

section \<open>A chain of sectors\<close>

definition abs_of :: "cbm \<Rightarrow> nat \<times> nat \<Rightarrow> int" where
  "abs_of m p = get_abs_sector (cb_layout m) (cb_num_sectors m) (int (fst p)) (int (snd p))"

text \<open>The first two bytes of a sector name the next one.  A chain from \<open>p\<close> through the sectors \<open>ps\<close>, leading
  to \<open>e\<close>.\<close>

definition next_sector :: "(nat \<Rightarrow> byte list) \<Rightarrow> cbm \<Rightarrow> nat \<times> nat \<Rightarrow> nat \<times> nat" where
  "next_sector f m p = (unat (f (nat (abs_of m p)) ! 0), unat (f (nat (abs_of m p)) ! 1))"

fun chain :: "(nat \<Rightarrow> byte list) \<Rightarrow> cbm \<Rightarrow> nat \<times> nat \<Rightarrow> (nat \<times> nat) list \<Rightarrow> nat \<times> nat \<Rightarrow> bool" where
  "chain f m p [] e \<longleftrightarrow> p = e"
| "chain f m p (q # qs) e \<longleftrightarrow> q = p \<and> chain f m (next_sector f m p) qs e"

text \<open>How the loop ends: at the end of the chain, at a place that is no sector, or at one seen before.\<close>

definition chain_ends :: "cbm \<Rightarrow> bool list \<Rightarrow> (nat \<times> nat) list \<Rightarrow> nat \<times> nat \<Rightarrow> fresult \<Rightarrow> bool" where
  "chain_ends m visited ps e res \<longleftrightarrow>
     res = FR_OK \<and> fst e = 0 \<or>
     res = FR_INT_ERR \<and> fst e \<noteq> 0 \<and> abs_of m e < 0 \<or>
     res = FR_LOOP_DETECTED \<and> fst e \<noteq> 0 \<and> 0 \<le> abs_of m e \<and> (visited ! nat (abs_of m e) \<or> e \<in> set ps)"

definition same_disk :: "cbm \<Rightarrow> cbm \<Rightarrow> bool" where
  "same_disk m m' \<longleftrightarrow> cb_kind m' = cb_kind m \<and> cb_layout m' = cb_layout m \<and> cb_num_sectors m' = cb_num_sectors m"

lemma same_disk_abs: "same_disk m m' \<Longrightarrow> abs_of m' = abs_of m" "same_disk m m' \<Longrightarrow> next_sector f m' = next_sector f m"
  "same_disk m m' \<Longrightarrow> chain_ends m' = chain_ends m"
  by (simp_all add: same_disk_def abs_of_def next_sector_def chain_ends_def fun_eq_iff)

lemma same_disk_chain: "same_disk m m' \<Longrightarrow> chain f m' p ps e = chain f m p ps e"
  by (induction ps arbitrary: p) (simp_all add: same_disk_abs)

lemma chain_cong:
  "(\<And>p. p \<in> set ps \<Longrightarrow> f (nat (abs_of m p)) = g (nat (abs_of m p))) \<Longrightarrow> chain f m p ps e \<Longrightarrow> chain g m p ps e"
  by (induction ps arbitrary: p) (simp_all add: next_sector_def)

lemma abs_of_valid:
  assumes "standard m" "0 \<le> abs_of m p"
  shows "abs_of m p < cb_num_sectors m" "fst p \<in> {1..disk_tracks (cb_kind m)}" "snd p < track_limit (cb_kind m)"
    "get_track_sector (cb_layout m) (cb_num_sectors m) (abs_of m p) = Some (int (fst p), int (snd p))"
proof -
  have ok: "layout_ok (cb_layout m)" using assms(1) layouts_ok by (cases "cb_kind m") (auto simp: standard_def)
  show g: "get_track_sector (cb_layout m) (cb_num_sectors m) (abs_of m p) = Some (int (fst p), int (snd p))"
    using get_abs_track [OF ok refl, of "cb_num_sectors m" "int (fst p)" "int (snd p)"] assms(2) by (simp add: abs_of_def)
  then show "abs_of m p < cb_num_sectors m" by (simp add: get_track_sector_def split: if_splits)
  show "fst p \<in> {1..disk_tracks (cb_kind m)}" "snd p < track_limit (cb_kind m)"
    using standard_inside [OF assms(1), of "fst p" "snd p"] assms(2) by (simp_all add: abs_of_def)
qed

lemma abs_of_inject: "standard m \<Longrightarrow> 0 \<le> abs_of m p \<Longrightarrow> abs_of m p = abs_of m q \<Longrightarrow> p = q"
  using abs_of_valid(4) [of m p] abs_of_valid(4) [of m q] by (metis nat_int option.inject prod.expand prod.inject)

section \<open>Giving back a chain\<close>

text \<open>What the loop has done: it followed a chain \<open>ps\<close> of sectors not met before, which are free now.\<close>

definition given_back :: "(nat \<Rightarrow> byte list) \<Rightarrow> nat \<times> nat \<Rightarrow> bool list \<Rightarrow> cbm \<Rightarrow> fresult \<Rightarrow> bool list \<Rightarrow> cbm \<Rightarrow> bool" where
  "given_back f p visited m res visited' m' \<longleftrightarrow>
     (\<exists>ps e. chain f m p ps e \<and> chain_ends m visited ps e res \<and> distinct ps \<and>
        (\<forall>q \<in> set ps. 0 \<le> abs_of m q \<and> \<not> visited ! nat (abs_of m q)) \<and>
        visited' = fold (\<lambda>q v. v[nat (abs_of m q) := True]) ps visited \<and>
        free_sectors m' = free_sectors m \<union> set ps)"

lemma given_back_stop:
  "chain_ends m visited [] p res \<Longrightarrow> given_back f p visited m res visited m"
  unfolding given_back_def by (rule exI [of _ "[]"], rule exI [of _ p]) simp

lemma given_back_step:
  assumes "standard m" "length visited = nat (cb_num_sectors m)" "same_disk m m1" "0 \<le> abs_of m p" "\<not> visited ! nat (abs_of m p)"
    "free_sectors m1 = insert p (free_sectors m)"
    "given_back f (next_sector f m p) (visited[nat (abs_of m p) := True]) m1 res visited' m'"
  shows "given_back f p visited m res visited' m'"
proof -
  let ?a = "nat (abs_of m p)" let ?v = "visited[?a := True]"
  have len: "?a < length visited" using abs_of_valid(1) [OF assms(1,4)] assms(2,4) by simp
  obtain ps e where c: "chain f m (next_sector f m p) ps e" "chain_ends m ?v ps e res" "distinct ps"
    "\<forall>q \<in> set ps. 0 \<le> abs_of m q \<and> \<not> ?v ! nat (abs_of m q)"
    "visited' = fold (\<lambda>q v. v[nat (abs_of m q) := True]) ps ?v" "free_sectors m' = free_sectors m1 \<union> set ps"
    using assms(7) unfolding given_back_def same_disk_abs [OF assms(3)] same_disk_chain [OF assms(3)] by blast
  have old: "0 \<le> abs_of m q \<and> \<not> visited ! nat (abs_of m q) \<and> q \<noteq> p" if "q \<in> set ps" for q
  proof -
    have q: "0 \<le> abs_of m q" "\<not> ?v ! nat (abs_of m q)" using c(4) that by blast+
    then have "nat (abs_of m q) \<noteq> ?a" using len by (metis nth_list_update_eq)
    then show ?thesis using q by auto
  qed
  have same: "e = p" if "0 \<le> abs_of m e" "nat (abs_of m e) = ?a"
    using abs_of_inject [OF assms(1) that(1)] that assms(4) by (metis eq_nat_nat_iff)
  have "chain_ends m visited (p # ps) e res"
    using c(2) same unfolding chain_ends_def by (metis insert_iff list.simps(15) nth_list_update_neq)
  moreover have "chain f m p (p # ps) e" using c(1) by simp
  moreover have "distinct (p # ps)" using c(3) old [of p] by auto
  moreover have "\<forall>q \<in> set (p # ps). 0 \<le> abs_of m q \<and> \<not> visited ! nat (abs_of m q)" using old assms(4,5) by simp
  moreover have "free_sectors m' = free_sectors m \<union> set (p # ps)" using c(6) assms(6) by simp
  moreover have "visited' = fold (\<lambda>q v. v[nat (abs_of m q) := True]) (p # ps) visited" using c(5) by simp
  ultimately show ?thesis unfolding given_back_def by blast
qed

lemma fold_length: "length (fold (\<lambda>q v. v[g q := True]) ps v) = length v"
  by (induction ps arbitrary: v) simp_all

lemma given_back_cong:
  assumes "standard m" "n = nat (cb_num_sectors m)" "\<And>b. b < n \<Longrightarrow> f b = g b" "given_back f p visited m res visited' m'"
  shows "given_back g p visited m res visited' m'"
proof -
  have "chain g m p ps e" if "chain f m p ps e" "\<forall>q \<in> set ps. 0 \<le> abs_of m q" for ps e
  proof (rule chain_cong [OF _ that(1)])
    fix q
    assume "q \<in> set ps"
    then have "nat (abs_of m q) < n" using abs_of_valid(1) [OF assms(1)] that(2) assms(2) by fastforce
    then show "f (nat (abs_of m q)) = g (nat (abs_of m q))" by (rule assms(3))
  qed
  note c = this
  obtain ps e where "chain f m p ps e" "chain_ends m visited ps e res" "distinct ps"
    "\<forall>q \<in> set ps. 0 \<le> abs_of m q \<and> \<not> visited ! nat (abs_of m q)"
    "visited' = fold (\<lambda>q v. v[nat (abs_of m q) := True]) ps visited" "free_sectors m' = free_sectors m \<union> set ps"
    using assms(4) unfolding given_back_def by blast
  then show ?thesis unfolding given_back_def using c [of ps e] by (intro exI [of _ ps] exI [of _ e]) simp
qed

text \<open>C11: Deleting a file gives back the sectors of its chain, and always ends: for every D64, D71 or D81
  with a correct map, on every medium that keeps the promise of a block device and whatever links its
  sectors hold, the loop returns without leaving its buffers; it followed the links as the window shows
  them, freed exactly the sectors it met, each once, kept the map correct and stopped where the chain
  ends, with an error where a link leads outside the disk, and with another where it leads back to a
  sector that was met before.\<close>

theorem deallocate_chain_exact:
  assumes store: "sector_store dev 256 n bytes good"
    and "sector_store.window_ok 256 n bytes good fs" "standard (fs_map fs)" "bam_ok (fs_map fs)"
    "n = nat (cb_num_sectors (fs_map fs))" "length visited = n"
  shows "\<exists>res visited' fs'. deallocate_chain dev track sector visited fs = Some (res, visited', fs') \<and>
    given_back (sector_store.seen 256 bytes fs) (track, sector) visited (fs_map fs) res visited' (fs_map fs') \<and>
    sector_store.window_ok 256 n bytes good fs' \<and> bam_ok (fs_map fs') \<and> standard (fs_map fs')"
  using assms(2-6)
proof (induction "length (filter Not visited)" arbitrary: track sector visited fs rule: less_induct)
  case less
  let ?m = "fs_map fs" and ?p = "(track, sector)" and ?f = "sector_store.seen 256 bytes fs"
  let ?a = "abs_of ?m ?p"
  have a: "fs_abs fs (int track) (int sector) = ?a" by (simp add: fs_abs_def abs_of_def)
  note step = deallocate_chain.simps [of dev track sector visited fs, unfolded a Let_def]
  have stop: ?case if "deallocate_chain dev track sector visited fs = Some (res, visited, fs)"
    "chain_ends ?m visited [] ?p res" for res
    using that given_back_stop [OF that(2)] less.prems by blast
  consider "track = 0" | "track \<noteq> 0" "?a < 0" | "track \<noteq> 0" "0 \<le> ?a" "visited ! nat ?a"
    | "track \<noteq> 0" "0 \<le> ?a" "\<not> visited ! nat ?a" by linarith
  then show ?case
  proof cases
    case 1
    then show ?thesis using step by (intro stop [of FR_OK]) (simp_all add: chain_ends_def)
  next
    case 2
    have "0 \<le> cb_num_sectors ?m" using less.prems(2) by (cases "cb_kind ?m") (auto simp: standard_def)
    then show ?thesis using 2 by (intro stop [of FR_INT_ERR]) (simp_all add: step chain_ends_def)
  next
    case 3
    then show ?thesis using abs_of_valid(1) [OF less.prems(2), of ?p] less.prems(4,5)
      by (intro stop [of FR_LOOP_DETECTED]) (simp_all add: step chain_ends_def)
  next
    case 4
    note v = abs_of_valid [OF less.prems(2), of ?p, OF 4(2), unfolded fst_conv snd_conv]
    have an: "nat ?a < n" using v(1) 4(2) less.prems(4) by simp
    obtain fs1 where 1: "move_window dev ?a fs = Some (FR_OK, fs1)" "sector_store.window_ok 256 n bytes good fs1"
      "fs_map fs1 = ?m" "fs_sect fs1 = ?f (nat ?a)" "\<forall>b < n. sector_store.seen 256 bytes fs1 b = ?f b"
      using sector_store.move_window_seen [OF store less.prems(1) 4(2) an] by blast
    obtain b m1 where 2: "set_sector_allocation track sector False ?m = Some (b, m1)" "standard m1" "bam_ok m1"
      "cb_kind m1 = cb_kind ?m" "free_sectors m1 = insert ?p (free_sectors ?m)"
      using set_sector_step [OF less.prems(2,3) v(2,3), of False] by auto
    let ?v = "visited[nat ?a := True]" and ?fs = "fs1\<lparr>fs_map := m1\<rparr>"
    note fl = set_sector_allocation_fields [OF 2(1)]
    have sd: "same_disk ?m m1" using fl by (simp add: same_disk_def)
    have seen: "sector_store.seen 256 bytes ?fs = sector_store.seen 256 bytes fs1"
      by (simp add: fun_eq_iff sector_store.seen_def [OF store])
    have win: "sector_store.window_ok 256 n bytes good ?fs"
      using 1(2) by (simp add: sector_store.window_ok_def [OF store])
    have less': "length (filter Not ?v) < length (filter Not visited)"
      using filter_not_update an less.prems(5) 4(3) by simp
    obtain t' s' where nx: "next_sector ?f ?m ?p = (t', s')" by force
    then have nx': "unat (fs_sect fs1 ! 0) = t'" "unat (fs_sect fs1 ! 1) = s'" using 1(4) by (simp_all add: next_sector_def)
    have "deallocate_chain dev track sector visited fs = deallocate_chain dev t' s' ?v ?fs"
      using 4 v(1) an less.prems(5) 1(1,3) 2(1) nx' by (simp add: step)
    moreover obtain res visited' fs' where r: "deallocate_chain dev t' s' ?v ?fs = Some (res, visited', fs')"
      "given_back (sector_store.seen 256 bytes ?fs) (t', s') ?v m1 res visited' (fs_map fs')"
      "sector_store.window_ok 256 n bytes good fs'" "bam_ok (fs_map fs')" "standard (fs_map fs')"
      using less.hyps [OF less' win, of t' s'] 2(2,3) less.prems(4,5) fl(3) by auto
    moreover have "given_back ?f ?p visited ?m res visited' (fs_map fs')"
    proof (rule given_back_step [OF less.prems(2) _ sd 4(2,3) 2(5)])
      show "given_back ?f (next_sector ?f ?m ?p) ?v m1 res visited' (fs_map fs')"
        unfolding nx by (rule given_back_cong [OF 2(2) _ _ r(2), of n]) (use less.prems(4) fl(3) 1(5) seen in auto)
    qed (use less.prems in simp)
    ultimately show ?thesis by auto
  qed
qed

text \<open>The file whose only sector is the first of track 17, on the disk full of zeros.\<close>

lemma new_d64_map: "bam_ok (fs_map new_d64)" "sector_store.window_ok 256 683 rd_memory (ram_good 256 683) new_d64"
proof -
  let ?m = "fs_map new_d64"
  have k: "cb_kind ?m = D64" by (rule new_d64_ok)
  have zero: "bam_byte ?m (False, i) = Some 0" if "i < 256" for i
    using that by (simp add: new_d64_def bam_byte_def peek_def)
  show "bam_ok ?m"
  proof (rule blank_map, unfold k)
    show "length (cb_root ?m) = 256" "length (cb_bam ?m) = bam_size D64" by (simp_all add: new_d64_def bam_size_def)
    show "bam_byte ?m (count_place D64 t) = Some 0" if "t \<in> {1..disk_tracks D64}" for t
      using that zero by (simp add: bam_places disk_tracks_def)
    show "bam_byte ?m (bit_place D64 t s) = Some 0" if "t \<in> {1..disk_tracks D64}" "s < track_limit D64" for t s
      using that zero div8_21 [of s] by (simp add: bam_places disk_tracks_def)
  qed
  show "sector_store.window_ok 256 683 rd_memory (ram_good 256 683) new_d64"
    using new_d64_ok(1) by (simp add: d64_ram.window_ok_def) (simp add: new_d64_def)
qed

lemma deallocate_chain_exact_witness:
  "\<exists>res visited' fs'. deallocate_chain ram_device 17 0 (replicate 683 False) new_d64 = Some (res, visited', fs') \<and>
    given_back (sector_store.seen 256 rd_memory new_d64) (17, 0) (replicate 683 False) (fs_map new_d64) res visited' (fs_map fs') \<and>
    sector_store.window_ok 256 683 rd_memory (ram_good 256 683) fs' \<and> bam_ok (fs_map fs') \<and> standard (fs_map fs')"
  by (rule deallocate_chain_exact [OF d64_ram.sector_store_axioms new_d64_map(2) new_d64_ok(2) new_d64_map(1)])
    (simp_all add: new_d64_ok)

end
