(* ===== verification/Cbm_Sync.thy ===== *)
theory Cbm_Sync
  imports Cbm_Delete
begin

text \<open>
  A Commodore file system on a medium that keeps the promise of a block device: the locale
  \<open>cbm_medium\<close>.  Flushing writes the window, the root and the map to their places and leaves every
  other sector as the file system saw it; taking a free sector never gives one of these.
\<close>

section \<open>The sectors of the file system itself\<close>

definition system_sectors :: "cbm_kind \<Rightarrow> (nat \<times> nat) set" where
  "system_sectors k =
     (case k of D64 \<Rightarrow> {(18, 0)} | D71 \<Rightarrow> {(18, 0), (53, 0)} | D81 \<Rightarrow> {(40, 0), (40, 1), (40, 2)} | DNP \<Rightarrow> {})"

definition system_abs :: "cbm_kind \<Rightarrow> nat \<Rightarrow> bool" where
  "system_abs k a \<longleftrightarrow> a = root_abs k \<or> k \<noteq> D64 \<and> bam_abs k \<le> a \<and> a < bam_abs k + bam_sectors k"

lemma system_abs_sector:
  assumes "standard m" "cb_kind m = k" "system_abs k a"
  shows "\<exists>p \<in> system_sectors k. abs_of m p = int a"
  using assms
  by (cases k; auto simp: standard_def system_abs_def system_sectors_def root_abs_def bam_abs_def bam_sectors_def abs_of_def
    get_abs_sector_def layout_d64_def layout_d71_def layout_d81_def less_Suc_eq)

lemma not_system:
  assumes "standard m" "0 \<le> abs_of m p" "p \<notin> system_sectors (cb_kind m)"
  shows "\<not> system_abs (cb_kind m) (nat (abs_of m p))"
proof
  assume "system_abs (cb_kind m) (nat (abs_of m p))"
  from system_abs_sector [OF assms(1) refl this] obtain q where q: "q \<in> system_sectors (cb_kind m)"
    "abs_of m q = int (nat (abs_of m p))" by blast
  then have "abs_of m q = abs_of m p" using assms(2) by simp
  with q(1) show False using abs_of_inject [OF assms(1,2)] assms(3) by metis
qed

section \<open>Flushing\<close>

locale cbm_medium = sector_store dev 256 n bytes good
  for dev :: "'d device" and n :: nat and bytes :: "'d \<Rightarrow> byte list" and good :: "'d \<Rightarrow> bool"
begin

text \<open>A mounted disk of the normal size, with a correct map.\<close>

definition disk_ok :: "'d cbmfs \<Rightarrow> bool" where
  "disk_ok fs \<longleftrightarrow> standard (fs_map fs) \<and> bam_ok (fs_map fs) \<and> n = nat (cb_num_sectors (fs_map fs))"

text \<open>A sector elsewhere on the medium than where it was written.\<close>

lemma write_elsewhere:
  assumes "good d" "0 \<le> a" "nat a + c \<le> n" "0 < c" "n \<le> 2 ^ 32" "length b = c * 256"
  obtains d' where "write_from dev a c b d = Some (RES_OK, d')" "good d'"
    "\<And>s. s < n \<Longrightarrow> s < nat a \<or> nat a + c \<le> s \<Longrightarrow> part d' s 1 = part d s 1"
proof -
  obtain d' where d: "write_from dev a c b d = Some (RES_OK, d')" "good d'"
    "\<forall>s' c'. s' + c' \<le> n \<longrightarrow> s' + c' \<le> nat a \<or> nat a + c \<le> s' \<longrightarrow> part d' s' c' = part d s' c'"
    using write_from_part [OF assms] by blast
  have "part d' s 1 = part d s 1" if "s < n" "s < nat a \<or> nat a + c \<le> s" for s
    using d(3) [rule_format, of s 1] that by auto
  then show ?thesis using that d(1,2) by blast
qed

lemma sync_base_seen:
  assumes "window_ok fs" "disk_ok fs" "\<not> system_abs (cb_kind (fs_map fs)) (nat (fs_current fs)) \<or> fs_current fs < 0"
  shows "\<exists>d. sync_base dev fs = Some (FR_OK, fs\<lparr>fs_dirty := False, fs_map := (fs_map fs)\<lparr>cb_root_dirty := False\<rparr>, fs_medium := d\<rparr>) \<and>
    good d \<and> (\<forall>b < n. \<not> system_abs (cb_kind (fs_map fs)) b \<longrightarrow> part d b 1 = seen fs b)"
proof -
  let ?m = "fs_map fs" let ?k = "cb_kind ?m" let ?r = "int (root_abs ?k)"
  have std: "standard ?m" "bam_ok ?m" and n: "n = nat (cb_num_sectors ?m)" using assms(2) by (simp_all add: disk_ok_def)
  note pl = abs_places [OF std(1) refl, folded n]
  let ?pre = "if fs_dirty fs then write_sect dev fs else Some (RES_OK, fs)"
  have "\<exists>d1. ?pre = Some (RES_OK, fs\<lparr>fs_medium := d1\<rparr>) \<and> good d1 \<and> (\<forall>b < n. part d1 b 1 = seen fs b)"
  proof (cases "fs_dirty fs")
    case True
    obtain fs' where "write_sect dev fs = Some (RES_OK, fs')" "good (fs_medium fs')" "\<forall>b < n. part (fs_medium fs') b 1 = seen fs b"
      using write_sect_seen [OF assms(1) True] by blast
    moreover from this(1) have "fs' = fs\<lparr>fs_medium := fs_medium fs'\<rparr>"
      by (auto simp: write_sect_def Option.bind_eq_Some_conv)
    ultimately show ?thesis using True by (intro exI [of _ "fs_medium fs'"]) simp
  next
    case False
    then show ?thesis using assms(1) by (intro exI [of _ "fs_medium fs"]) (auto simp: window_ok_def seen_def)
  qed
  then obtain d1 where 1: "?pre = Some (RES_OK, fs\<lparr>fs_medium := d1\<rparr>)" "good d1" "\<forall>b < n. part d1 b 1 = seen fs b" by blast
  have len: "length (cb_root ?m) = 1 * 256" using std(2) by (simp add: bam_ok_def)
  obtain d2 where w: "write_from dev ?r 1 (cb_root ?m) d1 = Some (RES_OK, d2)" "good d2"
    "\<And>s. s < n \<Longrightarrow> s < nat ?r \<or> nat ?r + 1 \<le> s \<Longrightarrow> part d2 s 1 = part d1 s 1"
    by (rule write_elsewhere [OF 1(2), of ?r 1 "cb_root ?m"]) (use pl(4,10) len in auto)
  define d3 where "d3 = (if cb_root_dirty ?m then d2 else d1)"
  have d3: "good d3" "\<forall>b < n. \<not> system_abs ?k b \<longrightarrow> part d3 b 1 = seen fs b"
  proof -
    show "good d3" using 1(2) w(2) by (simp add: d3_def)
    show "\<forall>b < n. \<not> system_abs ?k b \<longrightarrow> part d3 b 1 = seen fs b"
    proof (intro allI impI)
      fix b
      assume b: "b < n" "\<not> system_abs ?k b"
      then have "b < nat ?r \<or> nat ?r + 1 \<le> b" by (auto simp: system_abs_def)
      then show "part d3 b 1 = seen fs b" using w(3) [OF b(1)] 1(3) b(1) by (simp add: d3_def)
    qed
  qed
  let ?fs = "fs\<lparr>fs_dirty := False, fs_medium := d3, fs_map := ?m\<lparr>cb_root_dirty := False\<rparr>\<rparr>"
  obtain d where "snd (sync_medium dev ?fs) = ?fs\<lparr>fs_medium := d\<rparr>" "good d" "part d = part d3"
    using sync_medium_same [of ?fs] d3(1) by auto
  moreover have "sync_base dev fs = Some (FR_OK, snd (sync_medium dev ?fs))"
    using 1(1) w(1) pl(1) by (auto simp: sync_base_def fs_abs_def d3_def Let_def split: if_splits)
  ultimately show ?thesis using d3(2) by auto
qed

text \<open>The same map, but for what is still to be written.\<close>

definition same_sectors :: "cbm \<Rightarrow> cbm \<Rightarrow> bool" where
  "same_sectors m m' \<longleftrightarrow> cb_kind m' = cb_kind m \<and> cb_layout m' = cb_layout m \<and> cb_num_sectors m' = cb_num_sectors m \<and>
     cb_root_track m' = cb_root_track m \<and> cb_root m' = cb_root m \<and> cb_bam m' = cb_bam m \<and> cb_writable m' = cb_writable m \<and>
     cb_root_valid m' = cb_root_valid m"

lemma same_sectorsD:
  assumes "same_sectors m m'"
  shows "standard m' = standard m" "bam_ok m' = bam_ok m" "free_sectors m' = free_sectors m" "is_writable m' = is_writable m"
    "cb_kind m' = cb_kind m" "cb_layout m' = cb_layout m" "cb_num_sectors m' = cb_num_sectors m" "cb_root_track m' = cb_root_track m"
    "abs_of m' = abs_of m"
  using assms same_map [of m' m]
  by (simp_all add: same_sectors_def standard_def is_writable_def abs_of_def fun_eq_iff)

lemma fs_sync_seen:
  assumes "window_ok fs" "disk_ok fs" "\<not> system_abs (cb_kind (fs_map fs)) (nat (fs_current fs)) \<or> fs_current fs < 0"
  shows "\<exists>fs'. fs_sync dev fs = Some (FR_OK, fs') \<and> window_ok fs' \<and> same_sectors (fs_map fs) (fs_map fs') \<and>
    fs_current fs' = fs_current fs \<and> fs_sect fs' = fs_sect fs \<and>
    (\<forall>b < n. \<not> system_abs (cb_kind (fs_map fs)) b \<longrightarrow> seen fs' b = seen fs b)"
proof -
  let ?m = "fs_map fs" let ?k = "cb_kind ?m"
  have std: "standard ?m" "bam_ok ?m" and n: "n = nat (cb_num_sectors ?m)" using assms(2) by (simp_all add: disk_ok_def)
  note pl = abs_places [OF std(1) refl, folded n]
  have knd: "?k \<noteq> DNP" using std(1) by (simp add: standard_def)
  have len: "length (cb_bam ?m) = bam_sectors ?k * 256" using std(2) pl(12) by (simp add: bam_ok_def)
  obtain d where d: "sync_base dev fs = Some (FR_OK, fs\<lparr>fs_dirty := False, fs_map := ?m\<lparr>cb_root_dirty := False\<rparr>, fs_medium := d\<rparr>)"
    "good d" "\<forall>b < n. \<not> system_abs ?k b \<longrightarrow> part d b 1 = seen fs b"
    using sync_base_seen [OF assms] by blast
  let ?fs1 = "fs\<lparr>fs_dirty := False, fs_map := ?m\<lparr>cb_root_dirty := False\<rparr>, fs_medium := d\<rparr>"
  have "\<exists>fs'. fs_sync dev fs = Some (FR_OK, fs') \<and> good (fs_medium fs') \<and> same_sectors ?m (fs_map fs') \<and> \<not> fs_dirty fs' \<and>
      fs_current fs' = fs_current fs \<and> fs_sect fs' = fs_sect fs \<and>
      (\<forall>b < n. \<not> system_abs ?k b \<longrightarrow> part (fs_medium fs') b 1 = seen fs b)"
  proof (cases "?k = D64 \<or> cb_bam_dirty ?m = 0")
    case True
    then have "fs_sync dev fs = Some (FR_OK, ?fs1)"
      using d(1) knd by (cases ?k) (simp_all add: fs_sync_def sync_bam_def split: prod.split)
    then show ?thesis using d(2,3) by (intro exI [of _ ?fs1]) (simp add: same_sectors_def)
  next
    case False
    obtain t s where ts: "bam_start ?k = (t, s)" by force
    obtain d' where d': "sync_bam dev ?fs1 = Some (FR_OK, ?fs1\<lparr>fs_map := (fs_map ?fs1)\<lparr>cb_bam_dirty := 0\<rparr>, fs_medium := d'\<rparr>)" "good d'"
      "\<forall>s' c'. s' + c' \<le> n \<longrightarrow> s' + c' \<le> bam_abs ?k \<or> bam_abs ?k + bam_sectors ?k \<le> s' \<longrightarrow> part d' s' c' = part d s' c'"
      using sync_bam_writes [of ?fs1 t s "int (bam_abs ?k)" "bam_sectors ?k"] False d(2) ts pl(3,7,10,11) len
      by (auto simp: fs_abs_def)
    have "part d' b 1 = seen fs b" if "b < n" "\<not> system_abs ?k b" for b
    proof -
      have "b + 1 \<le> n" "b + 1 \<le> bam_abs ?k \<or> bam_abs ?k + bam_sectors ?k \<le> b" using that False by (auto simp: system_abs_def)
      then have "part d' b 1 = part d b 1" using d'(3) by blast
      then show ?thesis using d(3) that by simp
    qed
    moreover have "fs_sync dev fs = sync_bam dev ?fs1"
      using d(1) knd False by (cases ?k) (simp_all add: fs_sync_def)
    ultimately show ?thesis using d'(1,2)
      by (intro exI [of _ "?fs1\<lparr>fs_map := (fs_map ?fs1)\<lparr>cb_bam_dirty := 0\<rparr>, fs_medium := d'\<rparr>"]) (simp add: same_sectors_def)
  qed
  then obtain fs' where f: "fs_sync dev fs = Some (FR_OK, fs')" "good (fs_medium fs')" "same_sectors ?m (fs_map fs')" "\<not> fs_dirty fs'"
    "fs_current fs' = fs_current fs" "fs_sect fs' = fs_sect fs" "\<forall>b < n. \<not> system_abs ?k b \<longrightarrow> part (fs_medium fs') b 1 = seen fs b"
    by blast
  have seen': "seen fs' b = seen fs b" if "b < n" "\<not> system_abs ?k b" for b
    using f(5-7) that by (simp add: seen_def)
  have "window_ok fs'"
  proof -
    have "fs_sect fs = part (fs_medium fs') (nat (fs_current fs)) 1" if "0 \<le> fs_current fs"
    proof -
      have "nat (fs_current fs) < n" using assms(1) that by (simp add: window_ok_def)
      then show ?thesis using f(7) assms(3) that by (auto simp: seen_def [of fs])
    qed
    then have "fs_current fs < 0 \<or> fs_sect fs = part (fs_medium fs') (nat (fs_current fs)) 1" by linarith
    then show ?thesis using assms(1) f by (simp add: window_ok_def)
  qed
  then show ?thesis using f seen' by blast
qed

end

end
