(* ===== verification/Cbm_Take.thy ===== *)
theory Cbm_Take
  imports Cbm_Sync
begin

text \<open>
  Taking free sectors one after another on a D64 or D81: as long as there are usable ones, the search
  gives one of them, which is not one of the sectors of the file system itself.
\<close>

section \<open>What the search keeps\<close>

definition same_frame :: "cbm \<Rightarrow> cbm \<Rightarrow> bool" where
  "same_frame st st' \<longleftrightarrow> cb_kind st' = cb_kind st \<and> cb_layout st' = cb_layout st \<and> cb_num_sectors st' = cb_num_sectors st \<and>
     cb_root_track st' = cb_root_track st"

lemma same_frame_trans: "same_frame a b \<Longrightarrow> same_frame b c \<Longrightarrow> same_frame a c"
  by (simp add: same_frame_def)

lemma same_frame_steps:
  "same_frame st st" "same_frame st (set_bam_byte p x st') = same_frame st st'" "same_frame st (mark_dirty t st') = same_frame st st'"
  by (simp_all add: same_frame_def)

lemma take_free_frame:
  "(case take_free t is st of Beyond \<Rightarrow> True | Full st' \<Rightarrow> same_frame st st' | Got _ st' \<Rightarrow> same_frame st st')"
  by (induction "is") (auto simp: same_frame_steps Let_def split: option.split alloc.splits)

lemma allocate_on_track_frame:
  "(case allocate_sector_on_track t st of Beyond \<Rightarrow> True | Full st' \<Rightarrow> same_frame st st' | Got _ st' \<Rightarrow> same_frame st st')"
  using take_free_frame [where t = t and st = st and ?is = "[0..<track_limit (cb_kind st)]"]
  by (auto simp: allocate_sector_on_track_def same_frame_steps simp del: take_free.simps split: option.split)

lemma try_tracks_frame:
  "(case try_tracks ts st of Beyond \<Rightarrow> True | Full st' \<Rightarrow> same_frame st st' | Got _ st' \<Rightarrow> same_frame st st')"
proof (induction ts arbitrary: st)
  case (Cons t ts)
  show ?case
  proof (cases "allocate_sector_on_track t st")
    case (Full st1)
    then have "same_frame st st1" using allocate_on_track_frame [where t = t and st = st] by simp
    then show ?thesis using Cons.IH [of st1] Full same_frame_trans by (auto split: alloc.splits)
  qed (use allocate_on_track_frame [where t = t and st = st] in auto)
qed (simp add: same_frame_steps)

section \<open>Usable sectors\<close>

text \<open>All free sectors but those of the directory track, which files do not get.\<close>

definition usable :: "cbm \<Rightarrow> (nat \<times> nat) set" where
  "usable m = {p \<in> free_sectors m. int (fst p) \<noteq> cb_root_track m}"

lemma finite_usable: "finite (usable m)"
  by (rule finite_subset [of _ "{1..disk_tracks (cb_kind m)} \<times> {..<track_limit (cb_kind m)}"])
    (auto simp: usable_def free_sectors_def)

lemma search_order_tracks:
  assumes "standard m" "cb_kind m \<noteq> D71" "t = 0 \<or> t \<le> disk_tracks (cb_kind m) \<and> int t \<noteq> cb_root_track m"
  shows "set (search_order m t) = {t \<in> {1..disk_tracks (cb_kind m)}. int t \<noteq> cb_root_track m}"
  using assms
  by (cases "cb_kind m"; cases "t = 0") (auto simp: standard_def search_order_def disk_tracks_def simp del: upt_rec_numeral)

lemma usable_searched:
  assumes "standard m" "cb_kind m \<noteq> D71" "t = 0 \<or> t \<le> disk_tracks (cb_kind m) \<and> int t \<noteq> cb_root_track m"
  shows "p \<in> usable m \<longleftrightarrow> p \<in> free_sectors m \<and> p \<in> set (List.product (search_order m t) [0..<track_limit (cb_kind m)])"
proof -
  obtain a b where p: "p = (a, b)" by force
  show ?thesis
    unfolding p set_product search_order_tracks [OF assms] set_upt by (auto simp: usable_def free_sectors_def)
qed

lemma search_is_try:
  assumes "standard m" "cb_kind m \<noteq> D71"
  shows "\<exists>ts. get_next_free_sector t m = Some (try_tracks ts m)"
proof -
  have "cb_kind m = D64 \<or> cb_kind m = D81" using assms by (cases "cb_kind m") (simp_all add: standard_def)
  then have "get_next_free_sector t m = Some (get_next_free_sector_cbm t m)" by (auto simp: get_next_free_sector_def)
  then show ?thesis unfolding get_next_free_sector_cbm_def Let_def by (rule exI)
qed

lemma take_usable:
  assumes "standard m" "bam_ok m" "cb_kind m \<noteq> D71" "t = 0 \<or> t \<le> disk_tracks (cb_kind m) \<and> int t \<noteq> cb_root_track m"
    "usable m \<noteq> {}"
  shows "\<exists>p m'. get_next_free_sector t m = Some (Got p m') \<and> p \<in> usable m \<and> bam_ok m' \<and> standard m' \<and>
      same_frame m m' \<and> free_sectors m' = free_sectors m - {p}"
proof -
  let ?ps = "List.product (search_order m t) [0..<track_limit (cb_kind m)]"
  have t: "t \<le> disk_tracks (cb_kind m)" using assms(4) by auto
  note u = usable_searched [OF assms(1,3,4)]
  obtain q where "q \<in> usable m" using assms(5) by blast
  then have "find (\<lambda>p. p \<in> free_sectors m) ?ps \<noteq> None" unfolding find_None_iff using u by blast
  then obtain p where p: "find (\<lambda>p. p \<in> free_sectors m) ?ps = Some p" by blast
  obtain m' where m': "get_next_free_sector t m = Some (Got p m')" "bam_ok m'" "free_sectors m' = free_sectors m - {p}"
    using next_free_ok [OF assms(1,2) t] unfolding p by auto
  have "p \<in> free_sectors m \<and> p \<in> set ?ps" using p unfolding find_Some_iff by (metis nth_mem)
  then have "p \<in> usable m" using u by blast
  moreover have f: "same_frame m m'"
  proof -
    obtain ts where "try_tracks ts m = Got p m'" using search_is_try [OF assms(1,3), of t] m'(1) by auto
    then show ?thesis using try_tracks_frame [where ts = ts and st = m] by simp
  qed
  moreover have "standard m'" using assms(1) f by (simp add: same_frame_def standard_def)
  ultimately show ?thesis using m' by blast
qed

lemma take_none:
  assumes "standard m" "bam_ok m" "cb_kind m \<noteq> D71" "t = 0 \<or> t \<le> disk_tracks (cb_kind m) \<and> int t \<noteq> cb_root_track m"
    "usable m = {}"
  shows "get_next_free_sector t m = Some (Full m)"
proof -
  have t: "t \<le> disk_tracks (cb_kind m)" using assms(4) by auto
  have "find (\<lambda>p. p \<in> free_sectors m) (List.product (search_order m t) [0..<track_limit (cb_kind m)]) = None"
    unfolding find_None_iff using usable_searched [OF assms(1,3,4)] assms(5) by blast
  then show ?thesis using next_free_ok [OF assms(1,2) t] assms(3) by simp
qed

end
