(* ===== verification/Cbm_File.thy ===== *)
theory Cbm_File
  imports Side_Sectors
begin

text \<open>
  An open file of a Commodore file system, \<open>FileInCBM\<close> of \<^verbatim>\<open>software/filesystem/filesystem_d64.cc\<close>:
  reading, writing, seeking, the size and closing, for linear files, relative files with their side
  sectors, and GEOS files whose records are read one after another.  \<open>None\<close> is an access outside a
  buffer or an undefined value, and for \<open>follow_chain\<close> also a loop that does not end.
\<close>

section \<open>State\<close>

datatype file_state = ST_HEADER | ST_LINEAR | ST_CVT | ST_END

record cvt =
  cv_record_block :: "byte list"
  cv_records :: nat
  cv_current_section :: nat

text \<open>A directory entry is 32 bytes: type at 2, first data sector at 3 and 4, first side sector at 21 and 22,
  record size at 23, GEOS type at 24, and the number of blocks at 30 and 31.\<close>

record cbm_file =
  cf_dir_sect :: int
  cf_dir_offset :: nat
  cf_dir_entry :: "byte list"
  cf_start_cluster :: int
  cf_track :: nat
  cf_sector :: nat
  cf_offset :: nat
  cf_num_blocks :: int
  cf_file_size :: int
  cf_modified :: bool
  cf_is_rel :: bool
  cf_side :: "side_sectors option"
  cf_cvt :: "cvt option"
  cf_state :: file_state
  cf_header :: "byte list"
  cf_header_pos :: nat
  cf_visited :: "bool list"

definition new_file :: "'d cbmfs \<Rightarrow> byte list \<Rightarrow> int \<Rightarrow> int \<Rightarrow> nat \<Rightarrow> cbm_file" where
  "new_file fs entry dirtrack dirsector dirindex =
     \<lparr>cf_dir_sect = fs_abs fs dirtrack dirsector, cf_dir_offset = dirindex * 32, cf_dir_entry = entry,
      cf_start_cluster = 0, cf_track = 0, cf_sector = 0, cf_offset = 0, cf_num_blocks = 0, cf_file_size = 0,
      cf_modified = False, cf_is_rel = False, cf_side = None, cf_cvt = None, cf_state = ST_LINEAR, cf_header = [],
      cf_header_pos = 0, cf_visited = []\<rparr>"

definition file_abs :: "'d cbmfs \<Rightarrow> cbm_file \<Rightarrow> int" where
  "file_abs fs f = fs_abs fs (int (cf_track f)) (int (cf_sector f))"

text \<open>Marking the current sector; a second visit is a circle.\<close>

definition visit :: "'d cbmfs \<Rightarrow> cbm_file \<Rightarrow> (fresult \<times> cbm_file) option" where
  "visit fs f =
     (let a = file_abs fs f
      in if a < 0 then Some (FR_INT_ERR, f)
         else if length (cf_visited f) \<le> nat a then None
         else if cf_visited f ! nat a then Some (FR_INT_ERR, f)
         else Some (FR_OK, f\<lparr>cf_visited := (cf_visited f)[nat a := True]\<rparr>))"

definition clear_visited :: "'d cbmfs \<Rightarrow> cbm_file \<Rightarrow> cbm_file" where
  "clear_visited fs f = f\<lparr>cf_visited := replicate (nat (cb_num_sectors (fs_map fs))) False\<rparr>"

section \<open>Opening\<close>

text \<open>Where the data of the file starts, if it has any.\<close>

definition open_data :: "'d cbmfs \<Rightarrow> cbm_file \<Rightarrow> (fresult \<times> cbm_file) option" where
  "open_data fs f =
     (let e = cf_dir_entry f;
          blocks = int (256 * unat (e ! 31) + unat (e ! 30));
          f1 = (if e ! 3 = 0
                then f\<lparr>cf_start_cluster := - 1, cf_num_blocks := 0, cf_file_size := 0, cf_track := 0, cf_sector := 0\<rparr>
                else f\<lparr>cf_start_cluster := fs_abs fs (uint (e ! 3)) (uint (e ! 4)), cf_track := unat (e ! 3),
                       cf_sector := unat (e ! 4), cf_num_blocks := blocks, cf_offset := 2, cf_file_size := 254 * blocks\<rparr>)
      in case visit fs (clear_visited fs f1) of None \<Rightarrow> None | Some (_, f2) \<Rightarrow> Some (FR_OK, f2))"

text \<open>A relative file starts with a header of two bytes that stands for its record size.\<close>

definition open_rel :: "'d device \<Rightarrow> cbm_file \<Rightarrow> 'd cbmfs \<Rightarrow> ((fresult \<times> cbm_file) \<times> 'd cbmfs) option" where
  "open_rel dev f fs =
     (let e = cf_dir_entry f;
          f1 = f\<lparr>cf_is_rel := True, cf_state := ST_HEADER, cf_header := [e ! 23, 0], cf_header_pos := 0\<rparr>;
          ss = new_side_sectors (fs_map fs) (e ! 23)
      in if e ! 23 = 0 then Some ((FR_OK, f1), fs)
         else if e ! 21 = 0 then Some ((FR_OK, f1\<lparr>cf_side := Some ss\<rparr>), fs)
         else do { ((_, ss'), fs') \<leftarrow> side_load dev (e ! 21, e ! 22) ss fs;
                   Some ((FR_OK, f1\<lparr>cf_side := Some ss'\<rparr>), fs') })"

section \<open>Reading\<close>

text \<open>The next record of a GEOS file that has a sector; whether there is none.\<close>

function next_record :: "cvt \<Rightarrow> nat \<Rightarrow> nat \<Rightarrow> cvt \<times> nat \<times> nat" where
  "next_record cv t s =
     (let cv' = cv\<lparr>cv_current_section := cv_current_section cv + 1\<rparr>; i = cv_current_section cv'
      in if i \<ge> cv_records cv' then (cv', t, s)
         else let t' = unat (cv_record_block cv' ! (2 + 2 * i)); s' = unat (cv_record_block cv' ! (3 + 2 * i))
              in if t' = 0 then next_record cv' t' s' else (cv', t', s'))"
  by pat_completeness auto
termination by (relation "measure (\<lambda>(cv, _). cv_records cv - cv_current_section cv)") auto

declare next_record.simps [simp del]

text \<open>At the end of a sector: the next sector of the chain, or of the next record.\<close>

definition next_data_sector :: "bool \<Rightarrow> 'd cbmfs \<Rightarrow> cbm_file \<Rightarrow> (fresult \<times> cbm_file) option" where
  "next_data_sector merge fs f =
     (if fs_sect fs ! 0 = 0 then
        (if merge then
           (case cf_cvt f of
              None \<Rightarrow> None
            | Some cv \<Rightarrow>
                (case next_record cv (cf_track f) (cf_sector f) of
                   (cv', t, s) \<Rightarrow>
                     let f1 = f\<lparr>cf_cvt := Some cv', cf_track := t, cf_sector := s, cf_offset := 2\<rparr>
                     in if t = 0 then Some (FR_OK, f1\<lparr>cf_state := ST_END\<rparr>) else visit fs f1))
         else Some (FR_OK, f\<lparr>cf_state := ST_END\<rparr>))
      else visit fs (f\<lparr>cf_track := unat (fs_sect fs ! 0), cf_sector := unat (fs_sect fs ! 1), cf_offset := 2\<rparr>))"

text \<open>From the current sector, at most \<open>len\<close> bytes.\<close>

definition read_linear :: "'d device \<Rightarrow> nat \<Rightarrow> cbm_file \<Rightarrow> 'd cbmfs \<Rightarrow> ((fresult \<times> byte list \<times> cbm_file) \<times> 'd cbmfs) option" where
  "read_linear dev len f fs =
     do { (res, fs1) \<leftarrow> move_window dev (file_abs fs f) fs;
          let sect = fs_sect fs1;
          let merge = (case cf_cvt f of None \<Rightarrow> False | Some cv \<Rightarrow> int (cv_current_section cv) \<noteq> int (cv_records cv) - 1);
          if res \<noteq> FR_OK then Some ((res, [], f), fs1)
          else if len = 0 then Some ((FR_OK, [], f), fs1)
          else if \<not> (merge \<or> sect ! 0 \<noteq> 0) \<and> sect ! 1 < 2 then Some ((FR_DISK_ERR, [], f), fs1)
          else let left = (if merge \<or> sect ! 0 \<noteq> 0 then 256 - cf_offset f else 1 + unat (sect ! 1) - cf_offset f);
                   tr = min left len;
                   f1 = f\<lparr>cf_offset := cf_offset f + tr\<rparr>;
                   bytes = take tr (drop (cf_offset f) sect)
               in if cf_offset f1 = 256
                  then do { (res', f2) \<leftarrow> next_data_sector merge fs1 f1; Some ((res', bytes, f2), fs1) }
                  else Some ((FR_OK, bytes, f1), fs1) }"

definition read_header :: "nat \<Rightarrow> cbm_file \<Rightarrow> byte list \<times> cbm_file" where
  "read_header len f =
     (let tr = min (length (cf_header f) - cf_header_pos f) len; p = cf_header_pos f + tr
      in (take tr (drop (cf_header_pos f) (cf_header f)),
          f\<lparr>cf_header_pos := p, cf_state := (if p = length (cf_header f) then ST_LINEAR else cf_state f)\<rparr>))"

definition read_part :: "'d device \<Rightarrow> nat \<Rightarrow> cbm_file \<Rightarrow> 'd cbmfs \<Rightarrow> ((fresult \<times> byte list \<times> cbm_file) \<times> 'd cbmfs) option" where
  "read_part dev len f fs =
     (case cf_state f of
        ST_HEADER \<Rightarrow> (case read_header len f of (bs, f') \<Rightarrow> Some ((FR_OK, bs, f'), fs))
      | ST_END \<Rightarrow> Some ((FR_OK, [], f), fs)
      | _ \<Rightarrow> read_linear dev len f fs)"

text \<open>Until the length is reached, nothing more comes, or there is an error.\<close>

function file_read :: "'d device \<Rightarrow> nat \<Rightarrow> cbm_file \<Rightarrow> 'd cbmfs \<Rightarrow> ((fresult \<times> byte list \<times> cbm_file) \<times> 'd cbmfs) option" where
  "file_read dev len f fs =
     (if len = 0 then Some ((FR_OK, [], f), fs)
      else case read_part dev len f fs of
             None \<Rightarrow> None
           | Some ((res, bs, f'), fs') \<Rightarrow>
               if res \<noteq> FR_OK then Some ((res, [], f'), fs')
               else if bs = [] then Some ((FR_OK, [], f'), fs')
               else case file_read dev (len - length bs) f' fs' of
                      None \<Rightarrow> None
                    | Some ((res', rest, f2), fs2) \<Rightarrow> Some ((res', bs @ rest, f2), fs2))"
  by pat_completeness auto
termination by (relation "measure (\<lambda>(_, len, _, _). len)") auto

declare file_read.simps [simp del]

section \<open>Writing\<close>

text \<open>A free sector, preferably on the current track; \<open>get_next_free_sector\<close> changes the track it is given
  also when there is none.\<close>

definition preferred_track :: "nat \<Rightarrow> cbm \<Rightarrow> nat" where
  "preferred_track track m = (if cb_kind m = DNP then track else first_track track m)"

definition allocate_for :: "cbm_file \<Rightarrow> 'd cbmfs \<Rightarrow> ((bool \<times> cbm_file) \<times> 'd cbmfs) option" where
  "allocate_for f fs =
     (case get_next_free_sector (cf_track f) (fs_map fs) of
        Some (Got (t, s) m) \<Rightarrow> Some ((True, f\<lparr>cf_track := t, cf_sector := s\<rparr>), fs\<lparr>fs_map := m\<rparr>)
      | Some (Full m) \<Rightarrow>
          Some ((False, f\<lparr>cf_track := preferred_track (cf_track f) (fs_map fs)\<rparr>), fs\<lparr>fs_map := m\<rparr>)
      | _ \<Rightarrow> None)"

text \<open>A relative file lists the new sector.\<close>

definition list_sector :: "cbm_file \<Rightarrow> 'd cbmfs \<Rightarrow> ((bool \<times> cbm_file) \<times> 'd cbmfs) option" where
  "list_sector f fs =
     (case cf_side f of
        None \<Rightarrow> Some ((True, f), fs)
      | Some ss \<Rightarrow>
          (case side_add (of_nat (cf_track f)) (of_nat (cf_sector f)) ss (fs_map fs) of
             None \<Rightarrow> None
           | Some (ok, ss', m) \<Rightarrow> Some ((ok, f\<lparr>cf_side := Some ss'\<rparr>), fs\<lparr>fs_map := m\<rparr>)))"

text \<open>An empty data sector in the window.\<close>

definition unlink_sector :: "'d cbmfs \<Rightarrow> 'd cbmfs" where
  "unlink_sector fs = fs\<lparr>fs_sect := (fs_sect fs)[0 := 0, 1 := 1]\<rparr>"

definition first_block :: "'d device \<Rightarrow> cbm_file \<Rightarrow> 'd cbmfs \<Rightarrow> ((fresult \<times> cbm_file) \<times> 'd cbmfs) option" where
  "first_block dev f fs =
     do { (_, fs1) \<leftarrow> fs_sync dev fs;
          ((ok, f1), fs2) \<leftarrow> allocate_for f fs1;
          if \<not> ok then Some ((FR_DISK_FULL, f1), fs2)
          else let f2 = f1\<lparr>cf_num_blocks := 1, cf_start_cluster := file_abs fs2 f1\<rparr>
               in do { ((ok', f3), fs3) \<leftarrow> list_sector f2 fs2;
                       if \<not> ok' then Some ((FR_DISK_FULL, f3), fs3)
                       else do { (res, fs4) \<leftarrow> move_window dev (cf_start_cluster f3) fs3;
                                 Some (if res \<noteq> FR_OK then ((res, f3), fs4)
                                       else ((FR_OK, f3\<lparr>cf_modified := True, cf_offset := 2\<rparr>), unlink_sector fs4)) } } }"

definition extend_file :: "'d device \<Rightarrow> cbm_file \<Rightarrow> 'd cbmfs \<Rightarrow> ((fresult \<times> cbm_file) \<times> 'd cbmfs) option" where
  "extend_file dev f fs =
     do { ((ok, f1), fs1) \<leftarrow> allocate_for f fs;
          if \<not> ok then Some ((FR_DISK_FULL, f1), fs1)
          else do { ((ok', f2), fs2) \<leftarrow> list_sector f1 fs1;
                    if \<not> ok' then Some ((FR_DISK_FULL, f2), fs2)
                    else let fs3 = fs2\<lparr>fs_sect := (fs_sect fs2)[0 := of_nat (cf_track f2), 1 := of_nat (cf_sector f2)], fs_dirty := True\<rparr>;
                             f3 = f2\<lparr>cf_num_blocks := cf_num_blocks f2 + 1, cf_modified := True\<rparr>
                         in do { (res, fs4) \<leftarrow> move_window dev (file_abs fs3 f3) fs3;
                                 Some (if res \<noteq> FR_OK then ((res, f3), fs4) else ((FR_OK, f3\<lparr>cf_offset := 2\<rparr>), unlink_sector fs4)) } } }"

definition follow_link :: "'d device \<Rightarrow> cbm_file \<Rightarrow> 'd cbmfs \<Rightarrow> ((fresult \<times> cbm_file) \<times> 'd cbmfs) option" where
  "follow_link dev f fs =
     (let f1 = f\<lparr>cf_track := unat (fs_sect fs ! 0), cf_sector := unat (fs_sect fs ! 1)\<rparr>
      in do { (res, fs1) \<leftarrow> move_window dev (file_abs fs f1) fs;
              Some (if res \<noteq> FR_OK then ((res, f1), fs1) else ((FR_OK, f1\<lparr>cf_offset := 2\<rparr>), fs1)) })"

text \<open>The bytes into the window, and the length of the last sector.\<close>

definition put_bytes :: "byte list \<Rightarrow> cbm_file \<Rightarrow> 'd cbmfs \<Rightarrow> cbm_file \<times> 'd cbmfs" where
  "put_bytes bs f fs =
     (let sect = blit (cf_offset f) bs (fs_sect fs); off = cf_offset f + length bs; f1 = f\<lparr>cf_offset := off\<rparr>;
          fs1 = fs\<lparr>fs_sect := sect, fs_dirty := True\<rparr>
      in if sect ! 0 = 0 \<and> int off - 1 > uint (sect ! 1)
         then (f1\<lparr>cf_file_size := (cf_num_blocks f1 - 1) * 254 + (int off - 2)\<rparr>,
               fs1\<lparr>fs_sect := sect[1 := of_nat (off - 1)]\<rparr>)
         else (f1, fs1))"

definition advance_sector :: "'d device \<Rightarrow> cbm_file \<Rightarrow> 'd cbmfs \<Rightarrow> ((fresult \<times> cbm_file) \<times> 'd cbmfs) option" where
  "advance_sector dev f fs =
     (if cf_offset f \<noteq> 256 then Some ((FR_OK, f), fs)
      else if fs_sect fs ! 0 = 0 then extend_file dev f fs
      else follow_link dev f fs)"

text \<open>The offset stays within the sector, so every round writes something.  (An offset above 256, which the
  code never reaches, would be an access outside the window.)\<close>

function write_loop :: "'d device \<Rightarrow> byte list \<Rightarrow> cbm_file \<Rightarrow> 'd cbmfs \<Rightarrow> ((fresult \<times> cbm_file) \<times> 'd cbmfs) option" where
  "write_loop dev src f fs =
     (if src = [] then Some ((FR_OK, f), fs)
      else case advance_sector dev f fs of
             None \<Rightarrow> None
           | Some ((res, f1), fs1) \<Rightarrow>
               if res \<noteq> FR_OK then Some ((res, f1), fs1)
               else if cf_offset f1 \<ge> 256 then None
               else let n = 256 - cf_offset f1
                    in case put_bytes (take n src) f1 fs1 of (f2, fs2) \<Rightarrow> write_loop dev (drop n src) f2 fs2)"
  by pat_completeness auto
termination by (relation "measure (\<lambda>(_, src, _, _). length src)") (auto simp flip: length_greater_0_conv)

declare write_loop.simps [simp del]

text \<open>On an error nothing counts as transferred, whatever has been written.\<close>

definition write_linear :: "'d device \<Rightarrow> byte list \<Rightarrow> cbm_file \<Rightarrow> 'd cbmfs \<Rightarrow> ((fresult \<times> nat \<times> cbm_file) \<times> 'd cbmfs) option" where
  "write_linear dev src f fs =
     do { ((res, f1), fs1) \<leftarrow> (if cf_track f = 0 then first_block dev f fs
             else do { (res, fs1) \<leftarrow> move_window dev (file_abs fs f) fs; Some ((res, f), fs1) });
          if res \<noteq> FR_OK then Some ((res, 0, f1), fs1)
          else do { ((res', f2), fs2) \<leftarrow> write_loop dev src f1 fs1;
                    if res' \<noteq> FR_OK then Some ((res', 0, f2), fs2)
                    else do { (_, fs3) \<leftarrow> fs_sync dev fs2; Some ((FR_OK, length src, f2), fs3) } } }"

section \<open>The directory entry\<close>

definition fixup_cbm_file :: "'d device \<Rightarrow> bool \<Rightarrow> cbm_file \<Rightarrow> 'd cbmfs \<Rightarrow> ((fresult \<times> cbm_file) \<times> 'd cbmfs) option" where
  "fixup_cbm_file dev close f fs =
     do { (res, fs1) \<leftarrow> move_window dev (cf_dir_sect f) fs;
          if res \<noteq> FR_OK then Some ((res, f), fs1)
          else do { (t, s) \<leftarrow> get_track_sector (cb_layout (fs_map fs1)) (cb_num_sectors (fs_map fs1)) (cf_start_cluster f);
                    let at = cf_dir_offset f;
                    let ty = fs_sect fs1 ! (at + 2);
                    let blocks = (case cf_side f of None \<Rightarrow> cf_num_blocks f | Some ss \<Rightarrow> cf_num_blocks f + int (get_number_of_blocks ss));
                    let sect = (fs_sect fs1)[at + 2 := (if close then ty OR 0x80 else ty), at + 3 := of_int t, at + 4 := of_int s,
                      at + 30 := of_int blocks, at + 31 := of_int (blocks div 256)];
                    let f1 = f\<lparr>cf_num_blocks := blocks\<rparr>;
                    case cf_side f of
                      None \<Rightarrow>
                        do { (res', fs2) \<leftarrow> fs_sync dev (fs1\<lparr>fs_sect := sect, fs_dirty := True\<rparr>); Some ((res', f1), fs2) }
                    | Some ss \<Rightarrow>
                        do { ss' \<leftarrow> side_validate (cf_header f ! 0) ss;
                             let sect' = sect[at + 21 := fst (side_place ss), at + 22 := snd (side_place ss), at + 23 := cf_header f ! 0];
                             (_, fs2) \<leftarrow> side_write dev ss' (fs1\<lparr>fs_sect := sect'\<rparr>);
                             (res', fs3) \<leftarrow> fs_sync dev (fs2\<lparr>fs_dirty := True\<rparr>);
                             Some ((res', f1\<lparr>cf_side := Some ss'\<rparr>), fs3) } } }"

text \<open>Writing the header of a new relative file tells its record size.\<close>

definition write_header :: "'d device \<Rightarrow> byte list \<Rightarrow> cbm_file \<Rightarrow> 'd cbmfs \<Rightarrow> ((fresult \<times> nat \<times> cbm_file) \<times> 'd cbmfs) option" where
  "write_header dev src f fs =
     (let tr = min (length (cf_header f) - cf_header_pos f) (length src); p = cf_header_pos f + tr;
          f1 = f\<lparr>cf_header := blit (cf_header_pos f) (take tr src) (cf_header f), cf_header_pos := p\<rparr>
      in if p \<noteq> length (cf_header f) then Some ((FR_OK, tr, f1), fs)
         else if cf_is_rel f \<and> cf_side f = None
         then let r = cf_header f1 ! 0;
                  f2 = f1\<lparr>cf_state := ST_LINEAR, cf_dir_entry := (cf_dir_entry f1)[23 := r],
                    cf_side := Some (new_side_sectors (fs_map fs) r)\<rparr>
              in do { ((_, f3), fs') \<leftarrow> fixup_cbm_file dev False f2 fs; Some ((FR_OK, tr, f3), fs') }
         else Some ((FR_OK, tr, f1\<lparr>cf_state := ST_LINEAR\<rparr>), fs))"

definition write_part :: "'d device \<Rightarrow> byte list \<Rightarrow> cbm_file \<Rightarrow> 'd cbmfs \<Rightarrow> ((fresult \<times> nat \<times> cbm_file) \<times> 'd cbmfs) option" where
  "write_part dev src f fs =
     (case cf_state f of
        ST_HEADER \<Rightarrow> write_header dev src f fs
      | ST_CVT \<Rightarrow> Some ((FR_DENIED, 0, f), fs)
      | _ \<Rightarrow> write_linear dev src f fs)"

function write_all :: "'d device \<Rightarrow> byte list \<Rightarrow> cbm_file \<Rightarrow> 'd cbmfs \<Rightarrow> ((fresult \<times> nat \<times> cbm_file) \<times> 'd cbmfs) option" where
  "write_all dev src f fs =
     (if src = [] then Some ((FR_OK, 0, f), fs)
      else case write_part dev src f fs of
             None \<Rightarrow> None
           | Some ((res, n, f'), fs') \<Rightarrow>
               if res \<noteq> FR_OK then Some ((res, 0, f'), fs')
               else if n = 0 then Some ((FR_OK, 0, f'), fs')
               else case write_all dev (drop n src) f' fs' of
                      None \<Rightarrow> None
                    | Some ((res', k, f2), fs2) \<Rightarrow> Some ((res', n + k, f2), fs2))"
  by pat_completeness auto
termination by (relation "measure (\<lambda>(_, src, _, _). length src)") auto

declare write_all.simps [simp del]

definition file_write :: "'d device \<Rightarrow> byte list \<Rightarrow> cbm_file \<Rightarrow> 'd cbmfs \<Rightarrow> ((fresult \<times> nat \<times> cbm_file) \<times> 'd cbmfs) option" where
  "file_write dev src f fs =
     (if \<not> is_writable (fs_map fs) then Some ((FR_WRITE_PROTECTED, 0, f), fs) else write_all dev src f fs)"

section \<open>The size and the position\<close>

text \<open>Following the chain from here; a link outside the disk, a sector seen before or an unreadable one ends it.\<close>

function chain_size :: "'d device \<Rightarrow> nat \<Rightarrow> nat \<Rightarrow> int \<Rightarrow> bool list \<Rightarrow> 'd cbmfs \<Rightarrow> (int \<times> 'd cbmfs) option" where
  "chain_size dev t s sz visited fs =
     (let a = fs_abs fs (int t) (int s)
      in if a < 0 then Some (sz, fs)
         else if length visited \<le> nat a then None
         else if visited ! nat a then Some (sz, fs)
         else case move_window dev a fs of
                None \<Rightarrow> None
              | Some (res, fs1) \<Rightarrow>
                  if res \<noteq> FR_OK then Some (sz, fs1)
                  else if fs_sect fs1 ! 0 \<noteq> 0
                  then chain_size dev (unat (fs_sect fs1 ! 0)) (unat (fs_sect fs1 ! 1)) (sz + 254) (visited[nat a := True]) fs1
                  else Some (sz + (uint (fs_sect fs1 ! 1) - 1), fs1))"
  by pat_completeness auto
termination
proof (relation "measure (\<lambda>(_, _, _, _, visited, _). length (filter Not visited))", goal_cases)
  case (2 dev t s sz visited fs a)
  then show ?case by (simp add: filter_not_update)
qed simp

declare chain_size.simps [simp del]

definition file_get_size :: "'d device \<Rightarrow> byte list \<Rightarrow> cbm_file \<Rightarrow> 'd cbmfs \<Rightarrow> ((u32 \<times> cbm_file) \<times> 'd cbmfs) option" where
  "file_get_size dev fresh f fs =
     (case cf_side f of
        Some ss \<Rightarrow>
          do { (n, fs1) \<leftarrow> side_file_size dev fresh (ss_clusters ss) fs;
               let sz = of_nat (length (cf_header f)) + n;
               Some ((sz, f\<lparr>cf_file_size := sint sz\<rparr>), fs1) }
      | None \<Rightarrow>
          if cf_start_cluster f < 0 then Some ((0, f), fs)
          else do { (t, s) \<leftarrow> get_track_sector (cb_layout (fs_map fs)) (cb_num_sectors (fs_map fs)) (cf_start_cluster f);
                    (n, fs1) \<leftarrow> chain_size dev (nat t) (nat s) 0 (cf_visited (clear_visited fs f)) fs;
                    Some ((of_int n, clear_visited fs1 (f\<lparr>cf_file_size := sint (of_int n :: u32)\<rparr>)), fs1) })"

function seek_loop :: "'d device \<Rightarrow> nat \<Rightarrow> int \<Rightarrow> cbm_file \<Rightarrow> 'd cbmfs \<Rightarrow> ((fresult \<times> cbm_file) \<times> 'd cbmfs) option" where
  "seek_loop dev pos abs_pos f fs =
     (if pos < 254 then Some ((FR_OK, f\<lparr>cf_offset := pos + 2\<rparr>), fs)
      else case visit fs f of
             None \<Rightarrow> None
           | Some (res, f1) \<Rightarrow>
               if res \<noteq> FR_OK then Some ((res, f1), fs)
               else case move_window dev (file_abs fs f1) fs of
                      None \<Rightarrow> None
                    | Some (res', fs1) \<Rightarrow>
                        if res' \<noteq> FR_OK then Some ((res', f1), fs1)
                        else if fs_sect fs1 ! 0 \<noteq> 0
                        then seek_loop dev (pos - 254) (abs_pos + 254)
                               (f1\<lparr>cf_track := unat (fs_sect fs1 ! 0), cf_sector := unat (fs_sect fs1 ! 1)\<rparr>) fs1
                        else let p = uint (fs_sect fs1 ! 1) - 1
                             in Some ((FR_OK, f1\<lparr>cf_file_size := abs_pos + p, cf_offset := nat (p + 2)\<rparr>), fs1))"
  by pat_completeness auto
termination by (relation "measure (\<lambda>(_, pos, _). pos)") auto

declare seek_loop.simps [simp del]

definition file_seek :: "'d device \<Rightarrow> byte list \<Rightarrow> u32 \<Rightarrow> cbm_file \<Rightarrow> 'd cbmfs \<Rightarrow> ((fresult \<times> cbm_file) \<times> 'd cbmfs) option" where
  "file_seek dev fresh pos f fs =
     do { (_, fs1) \<leftarrow> fs_sync dev fs;
          let h = length (cf_header f);
          if cf_start_cluster f < 0 \<and> unat pos \<le> h
          then Some ((FR_OK, f\<lparr>cf_header_pos := unat pos, cf_state := (if unat pos < h then ST_HEADER else ST_LINEAR)\<rparr>), fs1)
          else do { (t, s) \<leftarrow> (case get_track_sector (cb_layout (fs_map fs1)) (cb_num_sectors (fs_map fs1)) (cf_start_cluster f) of
                       None \<Rightarrow> Some (int (cf_track f), int (cf_sector f)) | Some p \<Rightarrow> Some p);
                    let f1 = clear_visited fs1 (f\<lparr>cf_track := nat t, cf_sector := nat s\<rparr>);
                    (res, fs2) \<leftarrow> move_window dev (file_abs fs1 f1) fs1;
                    if res \<noteq> FR_OK then Some ((res, f1), fs2)
                    else let p = unat pos;
                             f2 = (if p < h then f1\<lparr>cf_state := ST_HEADER, cf_header_pos := p\<rparr> else f1\<lparr>cf_state := ST_LINEAR\<rparr>);
                             q = (if p < h then 0 else p - h)
                         in case cf_side f2 of
                              Some ss \<Rightarrow>
                                do { ((off, r), fs3) \<leftarrow> side_seek dev fresh (of_nat q) ss fs2;
                                     Some (case r of
                                         Inl e \<Rightarrow> ((e, f2\<lparr>cf_offset := off\<rparr>), fs3)
                                       | Inr (t', s') \<Rightarrow> ((FR_OK, f2\<lparr>cf_offset := off, cf_track := unat t', cf_sector := unat s'\<rparr>), fs3)) }
                            | None \<Rightarrow> seek_loop dev q 0 f2 fs2 } }"

section \<open>Closing\<close>

text \<open>A GEOS file that was created is not closed here: \<open>fixup_cvt\<close> is not modelled.\<close>

definition close_linear :: "'d device \<Rightarrow> cbm_file \<Rightarrow> 'd cbmfs \<Rightarrow> ((fresult \<times> cbm_file) \<times> 'd cbmfs) option" where
  "close_linear dev f fs =
     do { (_, fs1) \<leftarrow> fs_sync dev fs;
          if cf_modified f then fixup_cbm_file dev True (f\<lparr>cf_modified := False\<rparr>) fs1 else Some ((FR_OK, f), fs1) }"

text \<open>The number of sectors of a chain, and the length byte of the last: this loop does not notice a circle.\<close>

partial_function (option) follow_loop :: "'d device \<Rightarrow> int \<Rightarrow> int \<Rightarrow> nat \<Rightarrow> 'd cbmfs \<Rightarrow> ((fresult \<times> nat \<times> byte option) \<times> 'd cbmfs) option" where
  "follow_loop dev t s n fs =
     do { (res, fs1) \<leftarrow> move_window dev (fs_abs fs t s) fs;
          if res \<noteq> FR_OK then Some ((res, n + 1, None), fs1)
          else if fs_sect fs1 ! 0 = 0 then Some ((FR_OK, n + 1, Some (fs_sect fs1 ! 1)), fs1)
          else follow_loop dev (uint (fs_sect fs1 ! 0)) (uint (fs_sect fs1 ! 1)) (n + 1) fs1 }"

definition follow_chain :: "'d device \<Rightarrow> int \<Rightarrow> int \<Rightarrow> 'd cbmfs \<Rightarrow> ((fresult \<times> nat \<times> byte option) \<times> 'd cbmfs) option" where
  "follow_chain dev t s fs =
     do { (res, fs1) \<leftarrow> move_window dev (fs_abs fs t s) fs;
          if res \<noteq> FR_OK then Some ((res, 0, None), fs1) else follow_loop dev t s 0 fs1 }"

end
