(* ===== verification/Cbm_Write.thy ===== *)
theory Cbm_Write
  imports Cbm_Take Cbm_File
begin

text \<open>
  Writing a new file on a D64 or D81: the sectors it takes hold its bytes, 254 in each, linked in
  order, with the number of bytes in the last.
\<close>

section \<open>A stored file\<close>

text \<open>The sectors \<open>ps\<close> hold the bytes \<open>bs\<close>; \<open>g\<close> is the medium as the file system sees it.\<close>

definition piece :: "nat \<Rightarrow> byte list \<Rightarrow> byte list" where
  "piece i bs = take 254 (drop (254 * i) bs)"

definition stored_sector :: "byte list \<Rightarrow> byte list \<Rightarrow> (nat \<times> nat) option \<Rightarrow> bool" where
  "stored_sector sect b link \<longleftrightarrow> take (length b) (drop 2 sect) = b \<and>
     (case link of Some p \<Rightarrow> (unat (sect ! 0), unat (sect ! 1)) = p
      | None \<Rightarrow> sect ! 0 = 0 \<and> unat (sect ! 1) = length b + 1)"

definition stored :: "(nat \<Rightarrow> byte list) \<Rightarrow> cbm \<Rightarrow> (nat \<times> nat) list \<Rightarrow> byte list \<Rightarrow> bool" where
  "stored g m ps bs \<longleftrightarrow> ps \<noteq> [] \<and> length bs \<le> 254 * length ps \<and> 254 * (length ps - 1) \<le> length bs \<and>
     (\<forall>i < length ps. stored_sector (g (nat (abs_of m (ps ! i)))) (piece i bs)
        (if i + 1 < length ps then Some (ps ! (i + 1)) else None))"

text \<open>Sectors of a file: taken, different, and none of the file system itself.  Only sectors that exist and are
  not in use by the file system are free.\<close>

definition file_sectors :: "cbm \<Rightarrow> (nat \<times> nat) list \<Rightarrow> bool" where
  "file_sectors m ps \<longleftrightarrow> distinct ps \<and> free_sectors m \<subseteq> all_sectors m - system_sectors (cb_kind m) \<and>
     (\<forall>p \<in> set ps. 0 \<le> abs_of m p \<and> p \<notin> free_sectors m \<and> p \<notin> system_sectors (cb_kind m) \<and> int (fst p) \<noteq> cb_root_track m)"

lemma abs_different:
  "standard m \<Longrightarrow> 0 \<le> abs_of m p \<Longrightarrow> 0 \<le> abs_of m q \<Longrightarrow> nat (abs_of m p) = nat (abs_of m q) \<longleftrightarrow> p = q"
  using abs_of_inject by (metis eq_nat_nat_iff)

lemma free_abs:
  assumes "standard m" "free_sectors m \<subseteq> all_sectors m" "p \<in> free_sectors m"
  shows "0 \<le> abs_of m p"
proof -
  obtain t s where p: "p = (t, s)" by force
  then have "(t, s) \<in> all_sectors m" using assms(2,3) by blast
  from abs_inside [OF assms(1) this] show ?thesis by (simp add: abs_of_def p)
qed

text \<open>Adding to the last sector.\<close>

lemma stored_append:
  assumes "stored g m ps bs" "standard m" "\<forall>p \<in> set ps. 0 \<le> abs_of m p" "distinct ps"
    "length bs + length c \<le> 254 * length ps"
    "g' (nat (abs_of m (last ps))) = s'" "\<And>b. b \<noteq> nat (abs_of m (last ps)) \<Longrightarrow> g' b = g b"
    "stored_sector s' (piece (length ps - 1) (bs @ c)) None"
  shows "stored g' m ps (bs @ c)"
proof -
  note st = assms(1) [unfolded stored_def]
  let ?l = "length ps - 1"
  have l: "?l < length ps" "last ps = ps ! ?l" using st by (simp_all add: last_conv_nth)
  have "stored_sector (g' (nat (abs_of m (ps ! i)))) (piece i (bs @ c)) (if i + 1 < length ps then Some (ps ! (i + 1)) else None)"
    if i: "i < length ps" for i
  proof (cases "i = ?l")
    case True
    moreover have "?l + 1 = length ps" using l(1) by linarith
    ultimately show ?thesis using assms(6,8) l(2) by simp
  next
    case False
    then have il: "i < ?l" "i + 1 < length ps" using i by auto
    then have "254 * (i + 1) \<le> 254 * ?l" by simp
    moreover have "254 * ?l \<le> length bs" using st by blast
    ultimately have "254 * (i + 1) \<le> length bs" by (rule le_trans)
    then have "254 * i + 254 \<le> length bs" by simp
    then have "piece i (bs @ c) = piece i bs" by (simp add: piece_def)
    moreover have "ps ! i \<noteq> last ps" using nth_eq_iff_index_eq [OF assms(4) i l(1)] False l(2) by simp
    then have "nat (abs_of m (ps ! i)) \<noteq> nat (abs_of m (last ps))"
      using abs_different [OF assms(2)] assms(3) nth_mem [OF i] l(2) nth_mem [OF l(1)] by simp
    ultimately show ?thesis using st i assms(7) by simp
  qed
  then show ?thesis using st assms(5) by (simp add: stored_def)
qed

text \<open>A further sector, behind a full one.\<close>

lemma stored_extend:
  assumes "stored g m ps bs" "standard m" "\<forall>p \<in> set (ps @ [q]). 0 \<le> abs_of m p" "distinct (ps @ [q])" "length bs = 254 * length ps"
    "\<And>p. p \<in> set ps \<Longrightarrow> p \<noteq> last ps \<Longrightarrow> g' (nat (abs_of m p)) = g (nat (abs_of m p))"
    "drop 2 (g' (nat (abs_of m (last ps)))) = drop 2 (g (nat (abs_of m (last ps))))"
    "(unat (g' (nat (abs_of m (last ps))) ! 0), unat (g' (nat (abs_of m (last ps))) ! 1)) = q"
    "g' (nat (abs_of m q)) ! 0 = 0" "g' (nat (abs_of m q)) ! 1 = 1"
  shows "stored g' m (ps @ [q]) bs"
proof -
  note st = assms(1) [unfolded stored_def]
  let ?l = "length ps - 1"
  have l: "?l < length ps" "last ps = ps ! ?l" using st by (simp_all add: last_conv_nth)
  have all: "\<forall>i < length ps. stored_sector (g (nat (abs_of m (ps ! i)))) (piece i bs)
      (if i + 1 < length ps then Some (ps ! (i + 1)) else None)" using st by blast
  have "stored_sector (g' (nat (abs_of m ((ps @ [q]) ! i)))) (piece i bs)
      (if i + 1 < length (ps @ [q]) then Some ((ps @ [q]) ! (i + 1)) else None)" if i: "i < length (ps @ [q])" for i
  proof -
    have "i < ?l \<or> i = ?l \<or> i = length ps" using i l(1) by (simp only: length_append_singleton) linarith
    then consider "i < ?l" | "i = ?l" | "i = length ps" by blast
    then show ?thesis
    proof cases
      case 1
      then have "ps ! i \<noteq> last ps" using nth_eq_iff_index_eq [of ps i ?l] assms(4) l by auto
      then have same: "g' (nat (abs_of m (ps ! i))) = g (nat (abs_of m (ps ! i)))" using assms(6) 1 by simp
      have il: "i < length ps" "i + 1 < length ps" using 1 by auto
      from all [rule_format, OF il(1)] il(2)
      have old: "stored_sector (g (nat (abs_of m (ps ! i)))) (piece i bs) (Some (ps ! (i + 1)))" by (simp only: if_True)
      have e: "(ps @ [q]) ! i = ps ! i" "(ps @ [q]) ! (i + 1) = ps ! (i + 1)" "(i + 1 < length (ps @ [q])) = True"
        using il by (simp_all add: nth_append)
      show ?thesis unfolding e same if_True by (rule old)
    next
      case 2
      have l1: "\<not> ?l + 1 < length ps" "?l + 1 = length ps" using l(1) by linarith+
      have old: "stored_sector (g (nat (abs_of m (last ps)))) (piece ?l bs) None"
        using all [rule_format, OF l(1)] l1(1) l(2) by (simp only: if_False)
      have e: "(ps @ [q]) ! ?l = last ps" "(ps @ [q]) ! (?l + 1) = q" "(?l + 1 < length (ps @ [q])) = True"
        using l l1(2) by (simp_all only: nth_append nth_append_length if_True) simp_all
      show ?thesis unfolding 2 e if_True using old assms(7,8) by (simp add: stored_sector_def)
    next
      case 3
      then have "piece i bs = []" using assms(5) by (simp add: piece_def)
      then show ?thesis using 3 assms(9,10) by (simp add: stored_sector_def)
    qed
  qed
  then show ?thesis using assms(5) by (simp add: stored_def)
qed

end
