(* ===== verification/Cbm_Write_Loop.thy ===== *)
theory Cbm_Write_Loop
  imports Cbm_Write
begin

text \<open>
  The loop that writes the bytes of a new file on a D64 or D81, sector by sector.
\<close>

lemma same_frame_abs: "same_frame m m' \<Longrightarrow> abs_of m' = abs_of m"
  by (simp add: same_frame_def abs_of_def fun_eq_iff)

lemma unat_small: "x < 256 \<Longrightarrow> unat (of_nat x :: byte) = x"
  by (simp add: unat_of_nat)

text \<open>A file that was opened without data.\<close>

definition fresh_file :: "cbm_file \<Rightarrow> bool" where
  "fresh_file f \<longleftrightarrow> cf_track f = 0 \<and> cf_side f = None \<and> cf_cvt f = None \<and> cf_header f = [] \<and> cf_state f = ST_LINEAR"

context cbm_medium
begin

lemma disk_ok_map: "disk_ok fs \<Longrightarrow> fs_map fs' = fs_map fs \<Longrightarrow> disk_ok fs'"
  unfolding disk_ok_def by simp

text \<open>The file is being written: its sectors hold what was written so far, and the window is at the last.\<close>

definition writing :: "'d cbmfs \<Rightarrow> cbm_file \<Rightarrow> (nat \<times> nat) list \<Rightarrow> byte list \<Rightarrow> bool" where
  "writing fs f ps bs \<longleftrightarrow>
     window_ok (fs\<lparr>fs_dirty := True\<rparr>) \<and> disk_ok fs \<and> cb_kind (fs_map fs) \<noteq> D71 \<and>
     stored (seen fs) (fs_map fs) ps bs \<and> file_sectors (fs_map fs) ps \<and>
     fs_current fs = abs_of (fs_map fs) (last ps) \<and> (cf_track f, cf_sector f) = last ps \<and>
     cf_start_cluster f = abs_of (fs_map fs) (hd ps) \<and> cf_offset f = 2 + (length bs - 254 * (length ps - 1)) \<and>
     cf_side f = None \<and> cf_cvt f = None \<and> cf_header f = [] \<and> cf_state f = ST_LINEAR"

lemma writingD:
  assumes "writing fs f ps bs"
  shows "ps \<noteq> []" "cf_offset f \<le> 256" "2 \<le> cf_offset f" "standard (fs_map fs)" "bam_ok (fs_map fs)" "last ps \<in> set ps"
    "0 \<le> fs_current fs" "nat (fs_current fs) < n" "length (fs_sect fs) = 256" "seen fs (nat (fs_current fs)) = fs_sect fs"
    "fs_sect fs ! 0 = 0" "unat (fs_sect fs ! 1) = cf_offset f - 1" "piece (length ps - 1) bs = take (cf_offset f - 2) (drop 2 (fs_sect fs))"
    "length (piece (length ps - 1) bs) = cf_offset f - 2"
proof -
  note w = assms [unfolded writing_def]
  note st = conjunct1 [OF conjunct2 [OF conjunct2 [OF conjunct2 [OF w]]], unfolded stored_def]
  let ?l = "length ps - 1"
  show ne: "ps \<noteq> []" using st by blast
  then show lm: "last ps \<in> set ps" by simp
  have l: "?l < length ps" "?l + 1 = length ps" "last ps = ps ! ?l" using ne by (simp_all add: last_conv_nth)
  have b: "length bs \<le> 254 * length ps" "254 * ?l \<le> length bs" using st by blast+
  have "254 * length ps = 254 * (?l + 1)" unfolding l(2) ..
  then have b2: "length bs \<le> 254 * ?l + 254" using b(1) by simp
  have off: "cf_offset f = 2 + (length bs - 254 * ?l)" using w by blast
  show o: "cf_offset f \<le> 256" "2 \<le> cf_offset f" using off b2 by linarith+
  have dk: "disk_ok fs" using w by blast
  then show "standard (fs_map fs)" "bam_ok (fs_map fs)" by (simp_all add: disk_ok_def)
  have "window_ok (fs\<lparr>fs_dirty := True\<rparr>)" using w by blast
  then show c: "0 \<le> fs_current fs" "nat (fs_current fs) < n" "length (fs_sect fs) = 256" by (simp_all add: window_ok_def)
  show s: "seen fs (nat (fs_current fs)) = fs_sect fs" using c(1) by (simp add: seen_def)
  have cur: "fs_current fs = abs_of (fs_map fs) (last ps)" using w by blast
  have all: "\<forall>i < length ps. stored_sector (seen fs (nat (abs_of (fs_map fs) (ps ! i)))) (piece i bs)
      (if i + 1 < length ps then Some (ps ! (i + 1)) else None)" using st by blast
  have no: "\<not> ?l + 1 < length ps" using l(2) by simp
  have last: "stored_sector (fs_sect fs) (piece ?l bs) None"
    using all [rule_format, OF l(1)] no unfolding s [unfolded cur] l(3) [symmetric] by (simp only: if_False)
  have len: "length (piece ?l bs) = length bs - 254 * ?l" using b2 by (simp add: piece_def)
  then show p: "length (piece ?l bs) = cf_offset f - 2" using off by simp
  show "fs_sect fs ! 0 = 0" using last by (simp add: stored_sector_def)
  show "unat (fs_sect fs ! 1) = cf_offset f - 1" using last p o by (simp add: stored_sector_def)
  show "piece ?l bs = take (cf_offset f - 2) (drop 2 (fs_sect fs))" using last p by (simp add: stored_sector_def)
qed

text \<open>Only these sectors of the disk have changed.\<close>

definition spared :: "cbm \<Rightarrow> (nat \<times> nat) list \<Rightarrow> 'd cbmfs \<Rightarrow> 'd cbmfs \<Rightarrow> bool" where
  "spared m ps fs fs' \<longleftrightarrow> (\<forall>b < n. b \<notin> (\<lambda>p. nat (abs_of m p)) ` set ps \<longrightarrow> seen fs' b = seen fs b)"

lemma spared_refl: "spared m ps fs fs"
  by (simp add: spared_def)

lemma spared_trans: "spared m ps fs fs1 \<Longrightarrow> spared m qs fs1 fs2 \<Longrightarrow> set ps \<subseteq> set qs \<Longrightarrow> spared m qs fs fs2"
  unfolding spared_def by (metis image_mono subsetD)

lemma spared_abs: "abs_of m' = abs_of m \<Longrightarrow> spared m' ps fs fs' = spared m ps fs fs'"
  by (simp add: spared_def)

lemma put_bytes_writing:
  assumes "writing fs f ps bs" "c \<noteq> []" "cf_offset f + length c \<le> 256" "put_bytes c f fs = (f', fs')"
  shows "writing fs' f' ps (bs @ c)" "fs_map fs' = fs_map fs" "fs_dirty fs'" "cf_offset f' = cf_offset f + length c"
    "spared (fs_map fs) ps fs fs'"
proof -
  note w = assms(1) [unfolded writing_def] and d = writingD [OF assms(1)]
  let ?o = "cf_offset f" let ?s = "blit ?o c (fs_sect fs)" let ?s' = "?s[1 := of_nat (?o + length c - 1)]"
  let ?l = "length ps - 1"
  have cur: "fs_current fs = abs_of (fs_map fs) (last ps)" using w by blast
  have s: "length ?s = 256" "?s ! 0 = 0" "?s ! 1 = fs_sect fs ! 1" using d(3,9,11) assms(3) by (simp_all add: nth_blit)
  have c: "0 < length c" using assms(2) by simp
  have "int (?o + length c) - 1 > uint (?s ! 1)" using d(3,12) c unfolding s(3) by (simp add: uint_nat)
  then have r: "f' = f\<lparr>cf_offset := ?o + length c, cf_file_size := (cf_num_blocks f - 1) * 254 + (int (?o + length c) - 2)\<rparr>"
    "fs' = fs\<lparr>fs_sect := ?s', fs_dirty := True\<rparr>"
    using assms(4) s(2) by (auto simp: put_bytes_def Let_def)
  show "fs_map fs' = fs_map fs" "fs_dirty fs'" "cf_offset f' = ?o + length c" using r by simp_all
  have len: "length bs - 254 * ?l = ?o - 2" "254 * ?l \<le> length bs" "?l + 1 = length ps"
    using w d(1) by (auto simp: stored_def)
  have total: "length bs + length c \<le> 254 * length ps"
  proof -
    have "254 * length ps = 254 * ?l + 254" using len(3) by (metis add.commute mult.commute mult_Suc Suc_eq_plus1)
    then show ?thesis using len(1,2) assms(3) d(3) by linarith
  qed
  have piece: "piece ?l (bs @ c) = piece ?l bs @ c"
    using len total d(3) assms(3) by (simp add: piece_def)
  have sec: "stored_sector ?s' (piece ?l (bs @ c)) None"
  proof -
    have "take (length (piece ?l (bs @ c))) (drop 2 ?s') = take (?o - 2 + length c) (drop 2 ?s)"
      unfolding piece using d(14) by simp
    also have "\<dots> = take (?o - 2) (drop 2 (fs_sect fs)) @ c"
      using d(3,9) assms(3) by (simp add: blit_def drop_take)
    also have "\<dots> = piece ?l (bs @ c)" unfolding piece d(13) ..
    finally have "take (length (piece ?l (bs @ c))) (drop 2 ?s') = piece ?l (bs @ c)" .
    moreover have "unat (?s' ! 1) = length (piece ?l (bs @ c)) + 1"
    proof -
      have "unat (of_nat (?o + length c - 1) :: byte) = ?o + length c - 1"
        by (rule unat_small) (use assms(3) in simp)
      then show ?thesis using s(1) d(3,14) by (simp only: piece nth_list_update length_append) simp
    qed
    moreover have "?s' ! 0 = 0" using s by simp
    ultimately show ?thesis by (simp add: stored_sector_def)
  qed
  show "spared (fs_map fs) ps fs fs'"
    unfolding spared_def
  proof (intro allI impI)
    fix b
    assume "b \<notin> (\<lambda>p. nat (abs_of (fs_map fs) p)) ` set ps"
    then have "b \<noteq> nat (fs_current fs)" unfolding cur using d(6) by blast
    then have "fs_current fs \<noteq> int b" by auto
    then show "seen fs' b = seen fs b" unfolding r(2) by (simp add: seen_def)
  qed
  have "stored (seen fs') (fs_map fs) ps (bs @ c)"
  proof (rule stored_append [of "seen fs" "fs_map fs" ps bs])
    show "stored (seen fs) (fs_map fs) ps bs" "standard (fs_map fs)" using w d(4) by blast+
    show "\<forall>p \<in> set ps. 0 \<le> abs_of (fs_map fs) p" "distinct ps" using w by (auto simp: file_sectors_def)
    show "length bs + length c \<le> 254 * length ps" by (rule total)
    show "seen fs' (nat (abs_of (fs_map fs) (last ps))) = ?s'" using r(2) d(7) cur by (simp add: seen_def)
    show "seen fs' b = seen fs b" if "b \<noteq> nat (abs_of (fs_map fs) (last ps))" for b
      using r(2) that cur d(7) by (auto simp: seen_def)
  qed (rule sec)
  moreover have "window_ok (fs'\<lparr>fs_dirty := True\<rparr>)"
  proof -
    have "window_ok (fs\<lparr>fs_dirty := True\<rparr>)" using w by blast
    then show ?thesis unfolding r(2) using s(1) by (simp add: window_ok_def)
  qed
  moreover have "disk_ok fs'"
  proof -
    have "disk_ok fs" using w by blast
    then show ?thesis unfolding r(2) disk_ok_def by simp
  qed
  ultimately show "writing fs' f' ps (bs @ c)"
    using w r len d(3) by (simp add: writing_def)
qed

lemma writing_full:
  assumes "writing fs f ps bs" "cf_offset f = 256"
  shows "length bs = 254 * length ps"
proof -
  note w = assms(1) [unfolded writing_def] and d = writingD [OF assms(1)]
  have "length ps - 1 + 1 = length ps" using d(1) by simp
  then have "254 * length ps = 254 * (length ps - 1) + 254" by (metis add.commute mult.commute mult_Suc Suc_eq_plus1)
  moreover have "256 = 2 + (length bs - 254 * (length ps - 1))" using w assms(2) by metis
  ultimately show ?thesis by linarith
qed

text \<open>Taking one more sector.\<close>

lemma file_sectors_new:
  assumes "file_sectors m ps" "standard m" "p \<in> usable m" "same_frame m m'" "free_sectors m' = free_sectors m - {p}"
  shows "file_sectors m' (ps @ [p])" "0 \<le> abs_of m p" "abs_of m' = abs_of m" "usable m' = usable m - {p}"
proof -
  note f = assms(1) [unfolded file_sectors_def] and fr = assms(4) [unfolded same_frame_def]
  show ab: "abs_of m' = abs_of m" using fr by (simp add: abs_of_def fun_eq_iff)
  have p: "p \<in> free_sectors m" "int (fst p) \<noteq> cb_root_track m" using assms(3) by (simp_all add: usable_def)
  show "0 \<le> abs_of m p" using free_abs [OF assms(2) _ p(1)] f by blast
  show "usable m' = usable m - {p}" using assms(5) fr by (auto simp: usable_def)
  show "file_sectors m' (ps @ [p])"
    using f p fr ab assms(5) \<open>0 \<le> abs_of m p\<close> by (auto simp: file_sectors_def all_sectors_def)
qed

lemma allocate_for_usable:
  assumes "disk_ok fs" "cb_kind (fs_map fs) \<noteq> D71" "usable (fs_map fs) \<noteq> {}"
    "cf_track f = 0 \<or> cf_track f \<le> disk_tracks (cb_kind (fs_map fs)) \<and> int (cf_track f) \<noteq> cb_root_track (fs_map fs)"
  obtains p m where "allocate_for f fs = Some ((True, f\<lparr>cf_track := fst p, cf_sector := snd p\<rparr>), fs\<lparr>fs_map := m\<rparr>)"
    "p \<in> usable (fs_map fs)" "same_frame (fs_map fs) m" "free_sectors m = free_sectors (fs_map fs) - {p}"
    "disk_ok (fs\<lparr>fs_map := m\<rparr>)"
proof -
  obtain p m where g: "get_next_free_sector (cf_track f) (fs_map fs) = Some (Got p m)" "p \<in> usable (fs_map fs)" "bam_ok m"
    "standard m" "same_frame (fs_map fs) m" "free_sectors m = free_sectors (fs_map fs) - {p}"
    using take_usable [OF _ _ assms(2,4,3)] assms(1) by (auto simp: disk_ok_def)
  moreover have "disk_ok (fs\<lparr>fs_map := m\<rparr>)" using assms(1) g(3-5) unfolding disk_ok_def same_frame_def by simp
  moreover have "allocate_for f fs = Some ((True, f\<lparr>cf_track := fst p, cf_sector := snd p\<rparr>), fs\<lparr>fs_map := m\<rparr>)"
    using g(1) by (cases p) (simp add: allocate_for_def)
  ultimately show ?thesis using that by blast
qed

lemma abs_below: "disk_ok fs \<Longrightarrow> 0 \<le> abs_of (fs_map fs) p \<Longrightarrow> nat (abs_of (fs_map fs) p) < n"
  using abs_of_valid(1) [of "fs_map fs" p] by (simp add: disk_ok_def)

lemma seen_map: "seen (fs\<lparr>fs_map := m\<rparr>) = seen fs"
  by (simp add: seen_def fun_eq_iff)

lemma byte_sector:
  assumes "disk_ok fs" "0 \<le> abs_of (fs_map fs) p"
  shows "unat (of_nat (fst p) :: byte) = fst p" "unat (of_nat (snd p) :: byte) = snd p"
proof -
  have "fst p < 256" "snd p < 256"
    using abs_of_valid(2,3) [OF _ assms(2)] assms(1)
    by (cases "cb_kind (fs_map fs)"; auto simp: disk_ok_def disk_tracks_def track_limit_def standard_def)+
  then show "unat (of_nat (fst p) :: byte) = fst p" "unat (of_nat (snd p) :: byte) = snd p" by (simp_all add: unat_small)
qed

text \<open>An empty sector in the window.\<close>

lemma unlink_window:
  assumes "window_ok fs" "fs_current fs = int a" "a < n"
  shows "window_ok ((unlink_sector fs)\<lparr>fs_dirty := True\<rparr>)" "seen (unlink_sector fs) a ! 0 = 0" "seen (unlink_sector fs) a ! 1 = 1"
    "b \<noteq> a \<Longrightarrow> seen (unlink_sector fs) b = seen fs b" "fs_map (unlink_sector fs) = fs_map fs" "fs_current (unlink_sector fs) = int a"
  using assms by (simp_all add: unlink_sector_def window_ok_def seen_def)

lemma extend_writing:
  assumes "writing fs f ps bs" "cf_offset f = 256" "usable (fs_map fs) \<noteq> {}"
  shows "\<exists>p f' fs'. extend_file dev f fs = Some ((FR_OK, f'), fs') \<and> writing fs' f' (ps @ [p]) bs \<and> cf_offset f' = 2 \<and>
    p \<in> usable (fs_map fs) \<and> usable (fs_map fs') = usable (fs_map fs) - {p} \<and> same_frame (fs_map fs) (fs_map fs') \<and>
    spared (fs_map fs) (ps @ [p]) fs fs'"
proof -
  note w = assms(1) [unfolded writing_def] and d = writingD [OF assms(1)]
  let ?m = "fs_map fs" let ?q = "last ps" let ?a = "nat (fs_current fs)"
  have ok: "disk_ok fs" "cb_kind ?m \<noteq> D71" "file_sectors ?m ps" "stored (seen fs) ?m ps bs" using w by blast+
  have q: "0 \<le> abs_of ?m ?q" "int (fst ?q) \<noteq> cb_root_track ?m" using ok(3) d(6) by (auto simp: file_sectors_def)
  have cur: "fs_current fs = abs_of ?m ?q" and e: "(cf_track f, cf_sector f) = ?q" using w by blast+
  have ts: "cf_track f = fst ?q" "cf_sector f = snd ?q" unfolding e [symmetric] by simp_all
  have "fst ?q \<le> disk_tracks (cb_kind ?m)" using abs_of_valid(2) [OF d(4) q(1)] by simp
  then obtain p m where al: "allocate_for f fs = Some ((True, f\<lparr>cf_track := fst p, cf_sector := snd p\<rparr>), fs\<lparr>fs_map := m\<rparr>)"
    "p \<in> usable ?m" "same_frame ?m m" "free_sectors m = free_sectors ?m - {p}" "disk_ok (fs\<lparr>fs_map := m\<rparr>)"
    using allocate_for_usable [OF ok(1,2) assms(3), of f] ts q(2) by auto
  note new = file_sectors_new [OF ok(3) d(4) al(2-4)]
  let ?b = "nat (abs_of ?m p)"
  have b: "?b < n" using abs_below [OF al(5)] new(2,3) by simp
  let ?fs3 = "fs\<lparr>fs_map := m, fs_sect := (fs_sect fs)[0 := of_nat (fst p), 1 := of_nat (snd p)], fs_dirty := True\<rparr>"
  have "window_ok (fs\<lparr>fs_dirty := True\<rparr>)" using w by blast
  then have win: "window_ok ?fs3" by (simp add: window_ok_def)
  obtain fs4 where mv: "move_window dev (abs_of m p) ?fs3 = Some (FR_OK, fs4)" "window_ok fs4" "fs_map fs4 = m"
    "fs_current fs4 = abs_of m p" "\<forall>b < n. seen fs4 b = seen ?fs3 b"
    using move_window_seen [OF win, of "abs_of m p"] new(2,3) b by auto
  have u: "window_ok ((unlink_sector fs4)\<lparr>fs_dirty := True\<rparr>)" "seen (unlink_sector fs4) ?b ! 0 = 0" "seen (unlink_sector fs4) ?b ! 1 = 1"
    "\<And>c. c \<noteq> ?b \<Longrightarrow> seen (unlink_sector fs4) c = seen fs4 c" "fs_map (unlink_sector fs4) = m" "fs_current (unlink_sector fs4) = abs_of m p"
    using unlink_window [OF mv(2), of ?b] mv(3,4) new(2,3) b by auto
  let ?f = "f\<lparr>cf_track := fst p, cf_sector := snd p, cf_num_blocks := cf_num_blocks f + 1, cf_modified := True, cf_offset := 2\<rparr>"
  have "extend_file dev f fs = Some ((FR_OK, ?f), unlink_sector fs4)"
    using al(1) w mv(1) by (simp add: extend_file_def list_sector_def file_abs_def fs_abs_def abs_of_def Let_def)
  moreover have "writing (unlink_sector fs4) ?f (ps @ [p]) bs"
  proof -
    note full = writing_full [OF assms(1,2)]
    have dist: "distinct (ps @ [p])" "\<forall>r \<in> set (ps @ [p]). 0 \<le> abs_of ?m r"
      using new(1,3) by (auto simp: file_sectors_def)
    have other: "nat (abs_of ?m r) \<noteq> ?b" if "r \<in> set ps" for r
      using abs_different [OF d(4), of r p] dist that by auto
    have "stored (seen (unlink_sector fs4)) ?m (ps @ [p]) bs"
    proof (rule stored_extend [OF ok(4) d(4) dist(2,1) full])
      have seen4: "seen (unlink_sector fs4) (nat (abs_of ?m r)) = seen ?fs3 (nat (abs_of ?m r))" if "r \<in> set ps" for r
        using u(4) [OF other [OF that]] mv(5) abs_below [OF ok(1)] dist(2) that by simp
      show "seen (unlink_sector fs4) (nat (abs_of ?m r)) = seen fs (nat (abs_of ?m r))" if "r \<in> set ps" "r \<noteq> ?q" for r
        using seen4 [OF that(1)] abs_different [OF d(4), of r ?q] that dist(2) d(6) cur q(1) by (auto simp: seen_def)
      have last3: "seen (unlink_sector fs4) (nat (abs_of ?m ?q)) = (fs_sect fs)[0 := of_nat (fst p), 1 := of_nat (snd p)]"
        using seen4 [OF d(6)] q(1) cur by (simp add: seen_def)
      have last: "seen fs (nat (abs_of ?m ?q)) = fs_sect fs" using d(10) cur by simp
      show "drop 2 (seen (unlink_sector fs4) (nat (abs_of ?m ?q))) = drop 2 (seen fs (nat (abs_of ?m ?q)))"
        unfolding last3 last by simp
      show "(unat (seen (unlink_sector fs4) (nat (abs_of ?m ?q)) ! 0), unat (seen (unlink_sector fs4) (nat (abs_of ?m ?q)) ! 1)) = p"
        unfolding last3 using byte_sector [OF ok(1) new(2)] d(9) by simp
      show "seen (unlink_sector fs4) (nat (abs_of ?m p)) ! 0 = 0" "seen (unlink_sector fs4) (nat (abs_of ?m p)) ! 1 = 1"
        by (rule u(2), rule u(3))
    qed
    then have "stored (seen (unlink_sector fs4)) m (ps @ [p]) bs" by (simp add: stored_def new(3))
    moreover have "disk_ok (unlink_sector fs4)" by (rule disk_ok_map [OF al(5)]) (simp add: u(5))
    moreover have "cb_kind m \<noteq> D71" using ok(2) al(3) by (simp add: same_frame_def)
    ultimately show ?thesis using u(1,5,6) new(1,3) w full d(1) by (simp add: writing_def)
  qed
  moreover have "spared ?m (ps @ [p]) fs (unlink_sector fs4)"
  proof -
    have "seen (unlink_sector fs4) c = seen fs c" if c: "c < n" "c \<notin> (\<lambda>p. nat (abs_of ?m p)) ` set (ps @ [p])" for c
    proof -
      have "c \<noteq> ?b" "c \<noteq> ?a" using c(2) d(6) cur by auto
      then have "fs_current fs \<noteq> int c" by auto
      then have "seen ?fs3 c = seen fs c" by (simp add: seen_def)
      then show ?thesis using u(4) [OF \<open>c \<noteq> ?b\<close>] mv(5) c(1) by simp
    qed
    then show ?thesis by (simp add: spared_def)
  qed
  ultimately show ?thesis using al(2,3) new(4) u(5) by (intro exI [of _ p] exI [of _ ?f] exI [of _ "unlink_sector fs4"]) simp
qed

text \<open>The first sector.\<close>

definition quiet :: "'d cbmfs \<Rightarrow> bool" where
  "quiet fs \<longleftrightarrow> window_ok fs \<and> disk_ok fs \<and> cb_kind (fs_map fs) \<noteq> D71 \<and>
     (\<not> system_abs (cb_kind (fs_map fs)) (nat (fs_current fs)) \<or> fs_current fs < 0) \<and>
     free_sectors (fs_map fs) \<subseteq> all_sectors (fs_map fs) - system_sectors (cb_kind (fs_map fs))"

lemma first_block_writing:
  assumes "fresh_file f" "quiet fs" "usable (fs_map fs) \<noteq> {}"
  shows "\<exists>p f' fs'. first_block dev f fs = Some ((FR_OK, f'), fs') \<and> writing fs' f' [p] [] \<and> cf_offset f' = 2 \<and>
    p \<in> usable (fs_map fs) \<and> usable (fs_map fs') = usable (fs_map fs) - {p} \<and> same_frame (fs_map fs) (fs_map fs') \<and>
    (\<forall>b < n. \<not> system_abs (cb_kind (fs_map fs)) b \<longrightarrow> b \<noteq> nat (abs_of (fs_map fs) p) \<longrightarrow> seen fs' b = seen fs b)"
proof -
  note f = assms(1) [unfolded fresh_file_def] and qu = assms(2) [unfolded quiet_def]
  obtain fs1 where sy: "fs_sync dev fs = Some (FR_OK, fs1)" "window_ok fs1" "same_sectors (fs_map fs) (fs_map fs1)"
    "\<forall>b < n. \<not> system_abs (cb_kind (fs_map fs)) b \<longrightarrow> seen fs1 b = seen fs b"
    using fs_sync_seen [of fs] qu by blast
  note sm = same_sectorsD [OF sy(3)]
  let ?m = "fs_map fs1"
  have ok: "disk_ok fs1" "cb_kind ?m \<noteq> D71" "free_sectors ?m \<subseteq> all_sectors ?m - system_sectors (cb_kind ?m)"
    using qu sm unfolding disk_ok_def all_sectors_def by simp_all
  have us: "usable ?m = usable (fs_map fs)" using sm by (simp add: usable_def)
  have std: "standard ?m" using ok(1) by (simp add: disk_ok_def)
  obtain p m where al: "allocate_for f fs1 = Some ((True, f\<lparr>cf_track := fst p, cf_sector := snd p\<rparr>), fs1\<lparr>fs_map := m\<rparr>)"
    "p \<in> usable ?m" "same_frame ?m m" "free_sectors m = free_sectors ?m - {p}" "disk_ok (fs1\<lparr>fs_map := m\<rparr>)"
    using allocate_for_usable [OF ok(1,2), of f] assms(3) us f by auto
  have "file_sectors ?m []" using ok(3) by (simp add: file_sectors_def)
  note new = file_sectors_new [OF this std al(2-4), simplified]
  let ?b = "nat (abs_of ?m p)"
  have b: "?b < n" using abs_below [OF al(5)] new(2,3) by simp
  let ?fs2 = "fs1\<lparr>fs_map := m\<rparr>"
  have win: "window_ok ?fs2" using sy(2) by (simp add: window_ok_def)
  obtain fs4 where mv: "move_window dev (abs_of m p) ?fs2 = Some (FR_OK, fs4)" "window_ok fs4" "fs_map fs4 = m"
    "fs_current fs4 = abs_of m p" "\<forall>b < n. seen fs4 b = seen ?fs2 b"
    using move_window_seen [OF win, of "abs_of m p"] new(2,3) b by auto
  have u: "window_ok ((unlink_sector fs4)\<lparr>fs_dirty := True\<rparr>)" "seen (unlink_sector fs4) ?b ! 0 = 0" "seen (unlink_sector fs4) ?b ! 1 = 1"
    "fs_map (unlink_sector fs4) = m" "fs_current (unlink_sector fs4) = abs_of m p"
    "\<And>c. c \<noteq> ?b \<Longrightarrow> seen (unlink_sector fs4) c = seen fs4 c"
    using unlink_window [OF mv(2), of ?b] mv(3,4) new(2,3) b by auto
  let ?f = "f\<lparr>cf_track := fst p, cf_sector := snd p, cf_num_blocks := 1, cf_start_cluster := abs_of m p, cf_modified := True, cf_offset := 2\<rparr>"
  have "first_block dev f fs = Some ((FR_OK, ?f), unlink_sector fs4)"
    using sy(1) al(1) f mv(1) by (simp add: first_block_def list_sector_def file_abs_def fs_abs_def abs_of_def Let_def)
  moreover have "stored (seen (unlink_sector fs4)) m [p] []"
    using u(2,3) new(3) by (simp add: stored_def stored_sector_def piece_def)
  moreover have "disk_ok (unlink_sector fs4)" by (rule disk_ok_map [OF al(5)]) (simp add: u(4))
  moreover have "cb_kind m \<noteq> D71" using ok(2) al(3) by (simp add: same_frame_def)
  moreover have "seen (unlink_sector fs4) c = seen fs c"
    if "c < n" "\<not> system_abs (cb_kind (fs_map fs)) c" "c \<noteq> nat (abs_of (fs_map fs) p)" for c
    using u(6) that sm(9) mv(5) sy(4) by (simp add: seen_map)
  moreover have "same_frame (fs_map fs) m" using al(3) sm by (simp add: same_frame_def)
  ultimately show ?thesis using u(1,4,5) new f al(2) us
    by (intro exI [of _ p] exI [of _ ?f] exI [of _ "unlink_sector fs4"]) (simp add: writing_def)
qed

text \<open>At the end of a sector the next one is taken.\<close>

lemma advance_writing:
  assumes "writing fs f ps bs" "src \<noteq> []" "length bs + length src \<le> 254 * (length ps + card (usable (fs_map fs)))"
  shows "\<exists>rs f1 fs1. advance_sector dev f fs = Some ((FR_OK, f1), fs1) \<and> writing fs1 f1 (ps @ rs) bs \<and> cf_offset f1 < 256 \<and>
      set rs \<subseteq> usable (fs_map fs) \<and> usable (fs_map fs1) \<subseteq> usable (fs_map fs) \<and>
      length rs + card (usable (fs_map fs1)) = card (usable (fs_map fs)) \<and>
      same_frame (fs_map fs) (fs_map fs1) \<and> spared (fs_map fs) (ps @ rs) fs fs1"
proof (cases "cf_offset f = 256")
  case True
  have "usable (fs_map fs) \<noteq> {}" using writing_full [OF assms(1) True] assms(2,3) by (cases "usable (fs_map fs) = {}") auto
  then obtain p f1 fs1 where e: "extend_file dev f fs = Some ((FR_OK, f1), fs1)" "writing fs1 f1 (ps @ [p]) bs" "cf_offset f1 = 2"
    "p \<in> usable (fs_map fs)" "usable (fs_map fs1) = usable (fs_map fs) - {p}"
    "same_frame (fs_map fs) (fs_map fs1)" "spared (fs_map fs) (ps @ [p]) fs fs1"
    using extend_writing [OF assms(1) True] by blast
  have "1 + card (usable (fs_map fs1)) = card (usable (fs_map fs))"
    unfolding e(5) using card_Suc_Diff1 [OF finite_usable e(4)] by simp
  then show ?thesis using True e writingD(11) [OF assms(1)] by (intro exI [of _ "[p]"]) (simp add: advance_sector_def)
next
  case False
  then show ?thesis using assms(1) writingD(2) [OF assms(1)] by (intro exI [of _ "[]"]) (simp add: advance_sector_def spared_refl same_frame_steps)
qed

text \<open>All bytes.\<close>

lemma write_loop_writing:
  assumes "writing fs f ps bs" "length bs + length src \<le> 254 * (length ps + card (usable (fs_map fs)))" "src \<noteq> [] \<or> window_ok fs"
  shows "\<exists>qs f' fs'. write_loop dev src f fs = Some ((FR_OK, f'), fs') \<and> writing fs' f' (ps @ qs) (bs @ src) \<and>
    window_ok fs' \<and> set qs \<subseteq> usable (fs_map fs) \<and> same_frame (fs_map fs) (fs_map fs') \<and> spared (fs_map fs) (ps @ qs) fs fs'"
  using assms
proof (induction "length src" arbitrary: src f fs ps bs rule: less_induct)
  case less
  show ?case
  proof (cases "src = []")
    case True
    then show ?thesis using less.prems by (intro exI [of _ "[]"]) (simp add: write_loop.simps spared_refl same_frame_steps)
  next
    case False
    obtain rs f1 fs1 where a: "advance_sector dev f fs = Some ((FR_OK, f1), fs1)" "writing fs1 f1 (ps @ rs) bs" "cf_offset f1 < 256"
      "set rs \<subseteq> usable (fs_map fs)" "usable (fs_map fs1) \<subseteq> usable (fs_map fs)"
      "length rs + card (usable (fs_map fs1)) = card (usable (fs_map fs))" "same_frame (fs_map fs) (fs_map fs1)"
      "spared (fs_map fs) (ps @ rs) fs fs1"
      using advance_writing [OF less.prems(1) False less.prems(2)] by blast
    let ?n = "256 - cf_offset f1"
    obtain f2 fs2 where pb: "put_bytes (take ?n src) f1 fs1 = (f2, fs2)" by force
    have ne: "take ?n src \<noteq> []" and fit: "cf_offset f1 + length (take ?n src) \<le> 256" using False a(3) by simp_all
    note w = put_bytes_writing [OF a(2) ne fit pb]
    have "window_ok fs2"
    proof -
      have "window_ok (fs2\<lparr>fs_dirty := True\<rparr>)" using w(1) unfolding writing_def by blast
      moreover have "fs2\<lparr>fs_dirty := True\<rparr> = fs2" using w(3) by simp
      ultimately show ?thesis by metis
    qed
    moreover have "length (bs @ take ?n src) + length (drop ?n src) = length bs + length src" by simp
    moreover have "length (ps @ rs) + card (usable (fs_map fs2)) = length ps + card (usable (fs_map fs))"
      using a(6) w(2) by simp
    moreover have "length (drop ?n src) < length src"
    proof -
      have "0 < length src" "0 < ?n" using False a(3) by simp_all
      then show ?thesis by (simp only: length_drop diff_less)
    qed
    ultimately obtain qs f' fs' where r: "write_loop dev (drop ?n src) f2 fs2 = Some ((FR_OK, f'), fs')"
      "writing fs' f' ((ps @ rs) @ qs) ((bs @ take ?n src) @ drop ?n src)" "window_ok fs'" "set qs \<subseteq> usable (fs_map fs2)"
      "same_frame (fs_map fs2) (fs_map fs')" "spared (fs_map fs2) ((ps @ rs) @ qs) fs2 fs'"
      using less.hyps [of "drop ?n src" fs2 f2 "ps @ rs" "bs @ take ?n src"] w(1) less.prems(2) by metis
    have "write_loop dev src f fs = Some ((FR_OK, f'), fs')"
      using False a(1,3) pb r(1) by (subst write_loop.simps) simp
    moreover have "writing fs' f' (ps @ rs @ qs) (bs @ src)" using r(2) by simp
    moreover have "set (rs @ qs) \<subseteq> usable (fs_map fs)" using a(4,5) r(4) w(2) by auto
    moreover have f2: "same_frame (fs_map fs) (fs_map fs2)" using a(7) w(2) by simp
    moreover have "spared (fs_map fs) (ps @ rs @ qs) fs fs'"
    proof -
      have 1: "spared (fs_map fs) (ps @ rs) fs1 fs2" "spared (fs_map fs) ((ps @ rs) @ qs) fs2 fs'"
        using w(5) r(6) spared_abs [OF same_frame_abs [OF a(7)]] spared_abs [OF same_frame_abs [OF f2]] by simp_all
      have "spared (fs_map fs) ((ps @ rs) @ qs) fs fs'"
        by (rule spared_trans [OF spared_trans [OF a(8) 1(1)] 1(2)]) auto
      then show ?thesis by simp
    qed
    ultimately show ?thesis using r(3) same_frame_trans [OF f2 r(5)] by metis
  qed
qed

end

end
