(* ===== verification/Cbm_Roundtrip.thy ===== *)
theory Cbm_Roundtrip
  imports Cbm_Write_Loop
begin

text \<open>
  What is written to a new file on a D64 or D81 is what is read from it.
\<close>

context cbm_medium
begin

section \<open>The written file\<close>

text \<open>The file consists of the sectors \<open>ps\<close> and holds \<open>bs\<close>.\<close>

definition on_disk :: "'d cbmfs \<Rightarrow> cbm_file \<Rightarrow> (nat \<times> nat) list \<Rightarrow> byte list \<Rightarrow> bool" where
  "on_disk fs f ps bs \<longleftrightarrow> window_ok fs \<and> disk_ok fs \<and> stored (seen fs) (fs_map fs) ps bs \<and> file_sectors (fs_map fs) ps \<and>
     cf_side f = None \<and> cf_cvt f = None \<and> cf_header f = []"

lemma stored_cong:
  "(\<And>p. p \<in> set ps \<Longrightarrow> g' (nat (abs_of m p)) = g (nat (abs_of m p))) \<Longrightarrow> stored g' m ps bs = stored g m ps bs"
  by (simp add: stored_def)

text \<open>A change that spares the sectors of the file.\<close>

lemma on_disk_keeps:
  assumes "on_disk fs f ps bs" "window_ok fs'" "same_sectors (fs_map fs) (fs_map fs')"
    "\<forall>b < n. \<not> system_abs (cb_kind (fs_map fs)) b \<longrightarrow> seen fs' b = seen fs b"
    "cf_side f' = None" "cf_cvt f' = None" "cf_header f' = []"
  shows "on_disk fs' f' ps bs"
proof -
  note o = assms(1) [unfolded on_disk_def] and sm = same_sectorsD [OF assms(3)]
  let ?m = "fs_map fs"
  have dk: "disk_ok fs" and fl: "file_sectors ?m ps" using o by blast+
  have std: "standard ?m" using dk by (simp add: disk_ok_def)
  have "seen fs' (nat (abs_of ?m p)) = seen fs (nat (abs_of ?m p))" if "p \<in> set ps" for p
  proof -
    have p: "0 \<le> abs_of ?m p" "p \<notin> system_sectors (cb_kind ?m)" using fl that by (simp_all add: file_sectors_def)
    show ?thesis using assms(4) abs_below [OF dk p(1)] not_system [OF std p] by blast
  qed
  then have "stored (seen fs') ?m ps bs = stored (seen fs) ?m ps bs" by (rule stored_cong)
  then have "stored (seen fs') (fs_map fs') ps bs" using o sm(9) by (simp add: stored_def)
  moreover have "disk_ok fs'" using dk sm unfolding disk_ok_def by simp
  moreover have "file_sectors (fs_map fs') ps" using fl sm by (simp add: file_sectors_def all_sectors_def)
  ultimately show ?thesis using assms(2,5-7) by (simp add: on_disk_def)
qed

lemma file_write_on_disk:
  assumes "fresh_file f" "quiet fs" "is_writable (fs_map fs)" "src \<noteq> []" "length src \<le> 254 * card (usable (fs_map fs))"
  shows "\<exists>ps f' fs'. file_write dev src f fs = Some ((FR_OK, length src, f'), fs') \<and> on_disk fs' f' ps src \<and>
    cf_start_cluster f' = abs_of (fs_map fs') (hd ps) \<and> fs_current fs' = abs_of (fs_map fs') (last ps) \<and> set ps \<subseteq> usable (fs_map fs) \<and>
    (\<forall>b < n. \<not> system_abs (cb_kind (fs_map fs)) b \<longrightarrow> b \<notin> (\<lambda>p. nat (abs_of (fs_map fs) p)) ` usable (fs_map fs) \<longrightarrow> seen fs' b = seen fs b)"
proof -
  note fr = assms(1) [unfolded fresh_file_def]
  have "usable (fs_map fs) \<noteq> {}" using assms(4,5) by auto
  then obtain p f1 fs1 where b: "first_block dev f fs = Some ((FR_OK, f1), fs1)" "writing fs1 f1 [p] []"
    "p \<in> usable (fs_map fs)" "usable (fs_map fs1) = usable (fs_map fs) - {p}"
    "same_frame (fs_map fs) (fs_map fs1)"
    "\<forall>b < n. \<not> system_abs (cb_kind (fs_map fs)) b \<longrightarrow> b \<noteq> nat (abs_of (fs_map fs) p) \<longrightarrow> seen fs1 b = seen fs b"
    using first_block_writing [OF assms(1,2)] by blast
  have "Suc (card (usable (fs_map fs1))) = card (usable (fs_map fs))"
    unfolding b(4) by (rule card_Suc_Diff1 [OF finite_usable b(3)])
  then have "length ([] :: byte list) + length src \<le> 254 * (length [p] + card (usable (fs_map fs1)))" using assms(5) by simp
  then obtain qs f2 fs2 where l: "write_loop dev src f1 fs1 = Some ((FR_OK, f2), fs2)" "writing fs2 f2 ([p] @ qs) ([] @ src)"
    "window_ok fs2" "set qs \<subseteq> usable (fs_map fs1)"
    "same_frame (fs_map fs1) (fs_map fs2)" "spared (fs_map fs1) ([p] @ qs) fs1 fs2"
    using write_loop_writing [OF b(2), of src] assms(4) by blast
  let ?ps = "p # qs"
  have w: "writing fs2 f2 ?ps src" using l(2) by simp
  note w' = w [unfolded writing_def] and d = writingD [OF w]
  have dk: "disk_ok fs2" and fl: "file_sectors (fs_map fs2) ?ps" and cur: "fs_current fs2 = abs_of (fs_map fs2) (last ?ps)"
    using w' by blast+
  have q: "0 \<le> abs_of (fs_map fs2) (last ?ps)" "last ?ps \<notin> system_sectors (cb_kind (fs_map fs2))"
    using fl d(6) unfolding file_sectors_def by blast+
  then have "\<not> system_abs (cb_kind (fs_map fs2)) (nat (fs_current fs2))" unfolding cur by (rule not_system [OF d(4)])
  then obtain fs3 where s: "fs_sync dev fs2 = Some (FR_OK, fs3)" "window_ok fs3" "same_sectors (fs_map fs2) (fs_map fs3)"
    "fs_current fs3 = fs_current fs2" "\<forall>b < n. \<not> system_abs (cb_kind (fs_map fs2)) b \<longrightarrow> seen fs3 b = seen fs2 b"
    using fs_sync_seen [OF l(3) dk] by blast
  have lin: "write_linear dev src f fs = Some ((FR_OK, length src, f2), fs3)"
    using fr b(1) l(1) s(1) by (simp add: write_linear_def)
  have "write_all dev src f fs = Some ((FR_OK, length src, f2), fs3)"
    using assms(4) fr lin write_all.simps [of dev "[]" f2 fs3] by (subst write_all.simps) (simp add: write_part_def)
  then have "file_write dev src f fs = Some ((FR_OK, length src, f2), fs3)" using assms(3) by (simp add: file_write_def)
  moreover have "on_disk fs2 f2 ?ps src" using w' l(3) by (simp add: on_disk_def)
  then have "on_disk fs3 f2 ?ps src" by (rule on_disk_keeps [OF _ s(2,3,5)]) (use w' in simp_all)
  moreover have us: "set ?ps \<subseteq> usable (fs_map fs)" using b(3,4) l(4) by auto
  moreover have "seen fs3 c = seen fs c"
    if c: "c < n" "\<not> system_abs (cb_kind (fs_map fs)) c" "c \<notin> (\<lambda>p. nat (abs_of (fs_map fs) p)) ` usable (fs_map fs)" for c
  proof -
    have out: "c \<notin> (\<lambda>p. nat (abs_of (fs_map fs) p)) ` set ?ps" using c(3) us by blast
    have "cb_kind (fs_map fs2) = cb_kind (fs_map fs)" using b(5) l(5) by (simp add: same_frame_def)
    then have "seen fs3 c = seen fs2 c" using s(5) c by simp
    also have "\<dots> = seen fs1 c" using l(6) c(1) out unfolding spared_def same_frame_abs [OF b(5)] by simp
    also have "\<dots> = seen fs c" using b(6) c(1,2) out by simp
    finally show ?thesis .
  qed
  moreover have "cf_start_cluster f2 = abs_of (fs_map fs3) (hd ?ps)" using w' same_sectorsD(9) [OF s(3)] by simp
  moreover have "fs_current fs3 = abs_of (fs_map fs3) (last ?ps)" using cur s(4) same_sectorsD(9) [OF s(3)] by simp
  ultimately show ?thesis by blast
qed

section \<open>Reading it\<close>

text \<open>At the start of sector \<open>i\<close> of the file, with the sectors behind it not yet visited.\<close>

definition reading :: "'d cbmfs \<Rightarrow> cbm_file \<Rightarrow> (nat \<times> nat) list \<Rightarrow> byte list \<Rightarrow> nat \<Rightarrow> bool" where
  "reading fs f ps bs i \<longleftrightarrow> on_disk fs f ps bs \<and> i < length ps \<and> (cf_track f, cf_sector f) = ps ! i \<and> cf_offset f = 2 \<and>
     cf_state f = ST_LINEAR \<and> length (cf_visited f) = n \<and>
     (\<forall>j < length ps. i < j \<longrightarrow> \<not> cf_visited f ! nat (abs_of (fs_map fs) (ps ! j)))"

lemma on_diskD:
  assumes "on_disk fs f ps bs" "i < length ps"
  shows "0 \<le> abs_of (fs_map fs) (ps ! i)" "nat (abs_of (fs_map fs) (ps ! i)) < n" "0 < fst (ps ! i)" "standard (fs_map fs)"
    "stored_sector (seen fs (nat (abs_of (fs_map fs) (ps ! i)))) (piece i bs) (if i + 1 < length ps then Some (ps ! (i + 1)) else None)"
    "length bs \<le> 254 * length ps" "254 * (length ps - 1) \<le> length bs" "distinct ps" "disk_ok fs"
proof -
  note o = assms(1) [unfolded on_disk_def]
  have m: "ps ! i \<in> set ps" using assms(2) by simp
  show "0 \<le> abs_of (fs_map fs) (ps ! i)" "distinct ps" using o m unfolding file_sectors_def by blast+
  moreover show d: "disk_ok fs" using o by blast
  ultimately show "nat (abs_of (fs_map fs) (ps ! i)) < n" using abs_below by blast
  show std: "standard (fs_map fs)" using d by (simp add: disk_ok_def)
  show "0 < fst (ps ! i)" using abs_of_valid(2) [OF std \<open>0 \<le> abs_of (fs_map fs) (ps ! i)\<close>] by simp
  show "stored_sector (seen fs (nat (abs_of (fs_map fs) (ps ! i)))) (piece i bs) (if i + 1 < length ps then Some (ps ! (i + 1)) else None)"
    "length bs \<le> 254 * length ps" "254 * (length ps - 1) \<le> length bs" using o assms(2) unfolding stored_def by blast+
qed

lemma on_disk_window:
  assumes "on_disk fs f ps bs" "window_ok fs'" "fs_map fs' = fs_map fs" "\<forall>b < n. seen fs' b = seen fs b"
    "cf_side f' = None" "cf_cvt f' = None" "cf_header f' = []"
  shows "on_disk fs' f' ps bs"
  by (rule on_disk_keeps [OF assms(1,2) _ _ assms(5-7)]) (use assms(3,4) in \<open>simp_all add: same_sectors_def\<close>)

text \<open>A sector that is not the last.\<close>

lemma read_full_sector:
  assumes "reading fs f ps bs i" "i + 1 < length ps" "254 \<le> len"
  shows "\<exists>f' fs'. read_part dev len f fs = Some ((FR_OK, piece i bs, f'), fs') \<and> reading fs' f' ps bs (i + 1)"
proof -
  note r = assms(1) [unfolded reading_def]
  have od: "on_disk fs f ps bs" and il: "i < length ps" using r by blast+
  note d = on_diskD [OF od il] and d1 = on_diskD [OF od assms(2)]
  let ?m = "fs_map fs" let ?a = "abs_of ?m (ps ! i)" let ?b = "nat (abs_of ?m (ps ! (i + 1)))"
  have ts: "cf_track f = fst (ps ! i)" "cf_sector f = snd (ps ! i)" using r by (metis fst_conv snd_conv)+
  have at: "file_abs fs f = ?a" unfolding file_abs_def fs_abs_def abs_of_def ts ..
  have "window_ok fs" using od by (simp add: on_disk_def)
  then obtain fs1 where mv: "move_window dev ?a fs = Some (FR_OK, fs1)" "window_ok fs1" "fs_map fs1 = ?m"
    "fs_sect fs1 = seen fs (nat ?a)" "\<forall>b < n. seen fs1 b = seen fs b"
    using move_window_seen [OF _ d(1,2)] by blast
  have sec: "stored_sector (fs_sect fs1) (piece i bs) (Some (ps ! (i + 1)))" using d(5) assms(2) mv(4) by simp
  have len: "length (piece i bs) = 254"
  proof -
    have "i + 1 \<le> length ps - 1" using assms(2) by linarith
    then have "254 * (i + 1) \<le> 254 * (length ps - 1)" by (rule mult_le_mono2)
    then have "254 * (i + 1) \<le> length bs" using d(7) by (rule le_trans)
    then show ?thesis by (simp add: piece_def)
  qed
  have link: "unat (fs_sect fs1 ! 0) = fst (ps ! (i + 1))" "unat (fs_sect fs1 ! 1) = snd (ps ! (i + 1))"
    using sec unfolding stored_sector_def by (metis option.simps(5) fst_conv, metis option.simps(5) snd_conv)
  have nz: "fs_sect fs1 ! 0 \<noteq> 0" using link(1) d1(3) by auto
  let ?f1 = "f\<lparr>cf_offset := 256, cf_track := fst (ps ! (i + 1)), cf_sector := snd (ps ! (i + 1)), cf_offset := 2\<rparr>"
  let ?f2 = "?f1\<lparr>cf_visited := (cf_visited f)[?b := True]\<rparr>"
  have at1: "file_abs fs1 ?f1 = abs_of ?m (ps ! (i + 1))" by (simp add: file_abs_def fs_abs_def abs_of_def mv(3))
  have lv: "length (cf_visited f) = n" and nv: "\<not> cf_visited f ! ?b" using r assms(2) by auto
  have "visit fs1 ?f1 = Some (FR_OK, ?f2)"
    unfolding visit_def at1 Let_def using d1(1,2) lv nv by simp
  then have "next_data_sector False fs1 (f\<lparr>cf_offset := 256\<rparr>) = Some (FR_OK, ?f2)"
    using nz link by (simp add: next_data_sector_def)
  moreover have "cf_cvt f = None" "cf_offset f = 2" "cf_state f = ST_LINEAR" using od r by (simp_all add: on_disk_def)
  moreover have "take 254 (drop 2 (fs_sect fs1)) = piece i bs" using sec len unfolding stored_sector_def by metis
  ultimately have "read_part dev len f fs = Some ((FR_OK, piece i bs, ?f2), fs1)"
    using at mv(1) nz assms(3) by (simp add: read_part_def read_linear_def min_def)
  moreover have "reading fs1 ?f2 ps bs (i + 1)"
  proof -
    have "on_disk fs1 ?f2 ps bs"
      by (rule on_disk_window [OF od mv(2,3,5)]) (use od in \<open>simp_all add: on_disk_def\<close>)
    moreover have "\<not> ((cf_visited f)[?b := True]) ! nat (abs_of ?m (ps ! j))" if "j < length ps" "i + 1 < j" for j
    proof -
      have "ps ! j \<noteq> ps ! (i + 1)" using nth_eq_iff_index_eq [OF d(8) that(1) assms(2)] that(2) by simp
      then have "nat (abs_of ?m (ps ! j)) \<noteq> ?b" using abs_different [OF d(4)] on_diskD(1) [OF od that(1)] d1(1) by blast
      then show ?thesis using r that by simp
    qed
    ultimately show ?thesis using assms(2) r lv mv(3) by (simp add: reading_def)
  qed
  ultimately show ?thesis by blast
qed

text \<open>The last sector.\<close>

lemma read_last_sector:
  assumes "reading fs f ps bs i" "i + 1 = length ps" "len = length bs - 254 * i" "0 < len"
  shows "\<exists>f' fs'. read_part dev len f fs = Some ((FR_OK, piece i bs, f'), fs')"
proof -
  note r = assms(1) [unfolded reading_def]
  have od: "on_disk fs f ps bs" and il: "i < length ps" using r by blast+
  note d = on_diskD [OF od il]
  let ?a = "abs_of (fs_map fs) (ps ! i)"
  have ts: "cf_track f = fst (ps ! i)" "cf_sector f = snd (ps ! i)" using r by (metis fst_conv snd_conv)+
  have at: "file_abs fs f = ?a" unfolding file_abs_def fs_abs_def abs_of_def ts ..
  have "window_ok fs" using od by (simp add: on_disk_def)
  then obtain fs1 where mv: "move_window dev ?a fs = Some (FR_OK, fs1)" "fs_sect fs1 = seen fs (nat ?a)"
    using move_window_seen [OF _ d(1,2)] by blast
  have sec: "stored_sector (fs_sect fs1) (piece i bs) None" using d(5) assms(2) mv(2) by simp
  have "length bs \<le> 254 * (i + 1)" using d(6) unfolding assms(2) .
  then have len: "len \<le> 254" "length (piece i bs) = len" using assms(3) by (simp_all add: piece_def)
  have s: "fs_sect fs1 ! 0 = 0" "unat (fs_sect fs1 ! 1) = len + 1" "take len (drop 2 (fs_sect fs1)) = piece i bs"
    using sec len(2) by (simp_all add: stored_sector_def)
  have big: "\<not> fs_sect fs1 ! 1 < 2" using s(2) assms(4) by (simp add: word_less_nat_alt)
  have "cf_cvt f = None" "cf_offset f = 2" "cf_state f = ST_LINEAR" using od r by (simp_all add: on_disk_def)
  then show ?thesis
    using at mv(1) s big assms(4) by (cases "len = 254") (simp_all add: read_part_def read_linear_def next_data_sector_def Let_def)
qed

lemma piece_rest: "drop (254 * i) bs = piece i bs @ drop (254 * (i + 1)) bs"
proof -
  have "drop (254 * (i + 1)) bs = drop 254 (drop (254 * i) bs)" by (simp add: add.commute)
  then show ?thesis unfolding piece_def by (metis append_take_drop_id)
qed

lemma file_read_rest:
  assumes "reading fs f ps bs i"
  shows "\<exists>f' fs'. file_read dev (length bs - 254 * i) f fs = Some ((FR_OK, drop (254 * i) bs, f'), fs')"
  using assms
proof (induction "length ps - i" arbitrary: i f fs rule: less_induct)
  case less
  have il: "i < length ps" and od: "on_disk fs f ps bs" using less.prems by (simp_all add: reading_def)
  note d = on_diskD [OF od il]
  let ?len = "length bs - 254 * i"
  consider "?len = 0" | "0 < ?len" "i + 1 = length ps" | "0 < ?len" "i + 1 < length ps" using il by linarith
  then show ?case
  proof cases
    case 1
    then show ?thesis by (simp add: file_read.simps)
  next
    case 2
    then obtain f' fs' where p: "read_part dev ?len f fs = Some ((FR_OK, piece i bs, f'), fs')"
      using read_last_sector [OF less.prems 2(2) refl 2(1)] by blast
    have b: "length bs \<le> 254 * (i + 1)" using d(6) unfolding 2(2) .
    then have e: "length (piece i bs) = ?len" "drop (254 * i) bs = piece i bs" using piece_rest [of i bs] by (simp_all add: piece_def)
    have "file_read dev 0 f' fs' = Some ((FR_OK, [], f'), fs')" by (simp add: file_read.simps)
    moreover have "piece i bs \<noteq> []" using e(1) 2(1) by auto
    ultimately show ?thesis using 2(1) p e by (subst file_read.simps) simp
  next
    case 3
    have "i + 1 \<le> length ps - 1" using 3(2) by linarith
    then have "254 * (i + 1) \<le> 254 * (length ps - 1)" by (rule mult_le_mono2)
    then have b: "254 * (i + 1) \<le> length bs" using d(7) by (rule le_trans)
    then have len: "254 \<le> ?len" "length (piece i bs) = 254" "?len - 254 = length bs - 254 * (i + 1)" by (simp_all add: piece_def)
    obtain f' fs' where p: "read_part dev ?len f fs = Some ((FR_OK, piece i bs, f'), fs')" "reading fs' f' ps bs (i + 1)"
      using read_full_sector [OF less.prems 3(2) len(1)] by blast
    have "length ps - (i + 1) < length ps - i" using il by linarith
    then obtain f2 fs2 where r: "file_read dev (length bs - 254 * (i + 1)) f' fs' = Some ((FR_OK, drop (254 * (i + 1)) bs, f2), fs2)"
      using less.hyps [OF _ p(2)] by blast
    have "piece i bs \<noteq> []" using len(2) by auto
    then have "file_read dev ?len f fs = Some ((FR_OK, piece i bs @ drop (254 * (i + 1)) bs, f2), fs2)"
      using 3(1) p(1) r len(2,3) by (subst file_read.simps) simp
    then show ?thesis unfolding piece_rest [of i bs] by blast
  qed
qed

text \<open>Back to the start.\<close>

lemma seek_start_reading:
  assumes "on_disk fs f ps bs" "cf_start_cluster f = abs_of (fs_map fs) (hd ps)"
    "\<not> system_abs (cb_kind (fs_map fs)) (nat (fs_current fs))"
  shows "\<exists>f' fs'. file_seek dev fresh 0 f fs = Some ((FR_OK, f'), fs') \<and> reading fs' f' ps bs 0"
proof -
  note o = assms(1) [unfolded on_disk_def]
  have ne: "0 < length ps" using o by (auto simp: stored_def)
  note d = on_diskD [OF assms(1) ne]
  have hd: "hd ps = ps ! 0" using ne by (simp add: hd_conv_nth)
  obtain fs1 where s: "fs_sync dev fs = Some (FR_OK, fs1)" "window_ok fs1" "same_sectors (fs_map fs) (fs_map fs1)"
    "\<forall>b < n. \<not> system_abs (cb_kind (fs_map fs)) b \<longrightarrow> seen fs1 b = seen fs b"
    using fs_sync_seen [of fs] o assms(3) by blast
  note sm = same_sectorsD [OF s(3)]
  let ?m = "fs_map fs1" let ?a = "abs_of ?m (ps ! 0)"
  have o1: "on_disk fs1 f ps bs" by (rule on_disk_keeps [OF assms(1) s(2-4)]) (use o in simp_all)
  note d1 = on_diskD [OF o1 ne]
  have g: "get_track_sector (cb_layout ?m) (cb_num_sectors ?m) ?a = Some (int (fst (ps ! 0)), int (snd (ps ! 0)))"
    by (rule abs_of_valid(4) [OF d1(4,1)])
  obtain fs2 where mv: "move_window dev ?a fs1 = Some (FR_OK, fs2)" "window_ok fs2" "fs_map fs2 = ?m" "\<forall>b < n. seen fs2 b = seen fs1 b"
    using move_window_seen [OF s(2) d1(1,2)] by blast
  have start: "cf_start_cluster f = ?a" using assms(2) hd sm(9) by simp
  let ?f1 = "clear_visited fs1 (f\<lparr>cf_track := fst (ps ! 0), cf_sector := snd (ps ! 0)\<rparr>)"
  let ?f2 = "?f1\<lparr>cf_state := ST_LINEAR, cf_offset := 2\<rparr>"
  have at: "file_abs fs1 ?f1 = ?a" by (simp add: file_abs_def fs_abs_def abs_of_def clear_visited_def)
  have "file_seek dev fresh 0 f fs = Some ((FR_OK, ?f2), fs2)"
    using s(1) start d1(1) g mv(1) at o by (simp add: file_seek_def seek_loop.simps clear_visited_def Let_def)
  moreover have "on_disk fs2 ?f2 ps bs"
    by (rule on_disk_window [OF o1 mv(2-4)]) (use o in \<open>simp_all add: clear_visited_def\<close>)
  moreover have "nat (cb_num_sectors ?m) = n" using d1(9) by (simp add: disk_ok_def)
  moreover have "\<not> replicate (nat (cb_num_sectors ?m)) False ! nat (abs_of ?m (ps ! j))" if "j < length ps" for j
    using on_diskD(2) [OF o1 that] \<open>nat (cb_num_sectors ?m) = n\<close> by simp
  ultimately show ?thesis using ne mv(3) by (intro exI [of _ ?f2] exI [of _ fs2]) (simp add: reading_def clear_visited_def)
qed

lemma write_read:
  assumes "fresh_file f" "quiet fs" "is_writable (fs_map fs)" "src \<noteq> []" "length src \<le> 254 * card (usable (fs_map fs))"
  shows "\<exists>f1 fs1 f2 fs2 f3 fs3. file_write dev src f fs = Some ((FR_OK, length src, f1), fs1) \<and>
    file_seek dev fresh 0 f1 fs1 = Some ((FR_OK, f2), fs2) \<and> file_read dev (length src) f2 fs2 = Some ((FR_OK, src, f3), fs3) \<and>
    (\<forall>b < n. \<not> system_abs (cb_kind (fs_map fs)) b \<longrightarrow> b \<notin> (\<lambda>p. nat (abs_of (fs_map fs) p)) ` usable (fs_map fs) \<longrightarrow> seen fs1 b = seen fs b)"
proof -
  obtain ps f1 fs1 where w: "file_write dev src f fs = Some ((FR_OK, length src, f1), fs1)" "on_disk fs1 f1 ps src"
    "cf_start_cluster f1 = abs_of (fs_map fs1) (hd ps)" "fs_current fs1 = abs_of (fs_map fs1) (last ps)"
    "\<forall>b < n. \<not> system_abs (cb_kind (fs_map fs)) b \<longrightarrow> b \<notin> (\<lambda>p. nat (abs_of (fs_map fs) p)) ` usable (fs_map fs) \<longrightarrow> seen fs1 b = seen fs b"
    using file_write_on_disk [OF assms] by blast
  note o = w(2) [unfolded on_disk_def]
  have "ps \<noteq> []" using o by (auto simp: stored_def)
  then have "last ps \<in> set ps" by simp
  moreover have fl: "file_sectors (fs_map fs1) ps" using o by blast
  ultimately have l: "0 \<le> abs_of (fs_map fs1) (last ps)" "last ps \<notin> system_sectors (cb_kind (fs_map fs1))"
    unfolding file_sectors_def by blast+
  have "standard (fs_map fs1)" using o unfolding disk_ok_def by blast
  then have "\<not> system_abs (cb_kind (fs_map fs1)) (nat (fs_current fs1))" unfolding w(4) by (rule not_system [OF _ l])
  then obtain f2 fs2 where s: "file_seek dev fresh 0 f1 fs1 = Some ((FR_OK, f2), fs2)" "reading fs2 f2 ps src 0"
    using seek_start_reading [OF w(2,3)] by blast
  obtain f3 fs3 where "file_read dev (length src) f2 fs2 = Some ((FR_OK, src, f3), fs3)"
    using file_read_rest [OF s(2)] by auto
  then show ?thesis using w(1,5) s(1) by blast
qed

end

section \<open>A D64 in memory\<close>

interpretation d64_cbm: cbm_medium ram_device 683 rd_memory "ram_good 256 683"
  by unfold_locales

text \<open>C7: What is written to a new file on a D64 or D81 is what is read back from its start, for any number of
  bytes that the free sectors off the directory track can hold.  The write succeeds as a whole, and it
  leaves every sector as it was that was not such a free sector, but for the map of the file system itself:
  the data of no other file is touched.\<close>

theorem write_then_read:
  assumes "cbm_medium dev n bytes good" "sector_store.window_ok 256 n bytes good fs" "standard (fs_map fs)" "bam_ok (fs_map fs)"
    "n = nat (cb_num_sectors (fs_map fs))" "cb_kind (fs_map fs) \<noteq> D71" "is_writable (fs_map fs)"
    "fs_current fs < 0 \<or> \<not> system_abs (cb_kind (fs_map fs)) (nat (fs_current fs))"
    "free_sectors (fs_map fs) \<subseteq> all_sectors (fs_map fs) - system_sectors (cb_kind (fs_map fs))"
    "fresh_file f" "src \<noteq> []" "length src \<le> 254 * card (usable (fs_map fs))"
  shows "\<exists>f1 fs1 f2 fs2 f3 fs3. file_write dev src f fs = Some ((FR_OK, length src, f1), fs1) \<and>
    file_seek dev fresh 0 f1 fs1 = Some ((FR_OK, f2), fs2) \<and> file_read dev (length src) f2 fs2 = Some ((FR_OK, src, f3), fs3) \<and>
    (\<forall>b < n. \<not> system_abs (cb_kind (fs_map fs)) b \<longrightarrow> b \<notin> (\<lambda>p. nat (abs_of (fs_map fs) p)) ` usable (fs_map fs) \<longrightarrow>
       sector_store.seen 256 bytes fs1 b = sector_store.seen 256 bytes fs b)"
proof -
  have "cbm_medium.disk_ok n fs" 
    unfolding cbm_medium.disk_ok_def [OF assms(1)] using assms(3-5) by blast
  then have "cbm_medium.quiet n bytes good fs"
    unfolding cbm_medium.quiet_def [OF assms(1)] using assms(2,6,8,9) by blast
  then show ?thesis by (rule cbm_medium.write_read [OF assms(1) assms(10) _ assms(7,11,12)])
qed

text \<open>Three bytes into the only free sector.\<close>

definition almost_full :: "ram_disk cbmfs" where
  "almost_full = new_d64\<lparr>fs_map := one_free\<rparr>"

lemma almost_full_usable: "usable (fs_map almost_full) = {(17, 0)}"
proof -
  have m: "fs_map almost_full = one_free" by (simp add: almost_full_def)
  have "cb_root_track one_free = 18" by (simp add: one_free_def)
  then show ?thesis unfolding usable_def m one_free_ok(2) by auto
qed

lemma write_then_read_witness:
  "\<exists>f1 fs1 f2 fs2 f3 fs3.
    file_write ram_device [1, 2, 3] (new_file almost_full [] 18 1 0) almost_full = Some ((FR_OK, 3, f1), fs1) \<and>
    file_seek ram_device [] 0 f1 fs1 = Some ((FR_OK, f2), fs2) \<and> file_read ram_device 3 f2 fs2 = Some ((FR_OK, [1, 2, 3], f3), fs3)"
proof -
  let ?fs = almost_full
  have m: "fs_map ?fs = one_free" "fs_current ?fs = - 1" by (simp_all add: almost_full_def new_d64_def)
  have w: "sector_store.window_ok 256 683 rd_memory (ram_good 256 683) ?fs"
    using new_d64_map(2) by (simp add: d64_ram.window_ok_def almost_full_def)
  have f: "fresh_file (new_file ?fs [] 18 1 0)" by (simp add: fresh_file_def new_file_def)
  have k: "is_writable one_free" "cb_num_sectors one_free = 683" by (simp_all add: is_writable_def one_free_def)
  have a: "(17, 0) \<in> all_sectors one_free - system_sectors D64"
    by (simp add: all_sectors_def system_sectors_def one_free_ok(4) disk_tracks_def one_free_def get_sectors_in_track_def layout_d64_def)
  have u: "length ([1, 2, 3] :: byte list) \<le> 254 * card (usable (fs_map ?fs))" by (simp add: almost_full_usable)
  have l: "length ([1, 2, 3] :: byte list) = 3" by simp
  have s: "standard (fs_map ?fs)" "bam_ok (fs_map ?fs)" "683 = nat (cb_num_sectors (fs_map ?fs))" "cb_kind (fs_map ?fs) \<noteq> D71"
    "is_writable (fs_map ?fs)" "fs_current ?fs < 0 \<or> \<not> system_abs (cb_kind (fs_map ?fs)) (nat (fs_current ?fs))"
    "free_sectors (fs_map ?fs) \<subseteq> all_sectors (fs_map ?fs) - system_sectors (cb_kind (fs_map ?fs))"
    using m one_free_ok k a by simp_all
  show ?thesis
    using write_then_read [OF d64_cbm.cbm_medium_axioms w s f _ u, of "[]"] unfolding l by blast
qed

end
