(* ===== verification/Names.thy ===== *)
theory Names
  imports Prelude
begin

text \<open>
  Names and patterns, \<^verbatim>\<open>software/components/pattern.cc\<close>: wildcards, extensions, and the ways a PETSCII
  name is written on a FAT medium and as text.  A NUL terminated string is the list of the bytes before
  the NUL.  Upper case is that of the C locale.
\<close>

section \<open>Bytes\<close>

definition toupper :: "byte \<Rightarrow> byte" where
  "toupper c = (if 0x61 \<le> c \<and> c \<le> 0x7A then c - 0x20 else c)"

definition hex2bin :: "byte \<Rightarrow> byte option" where
  "hex2bin c =
     (if 0x30 \<le> c \<and> c \<le> 0x39 then Some (c - 0x30)
      else if 0x41 \<le> c \<and> c \<le> 0x46 then Some (c - 0x41 + 10)
      else if 0x61 \<le> c \<and> c \<le> 0x66 then Some (c - 0x61 + 10)
      else None)"

text \<open>The digits \<open>0123456789ABCDEF\<close>, and the two of a byte.\<close>

definition hex_digit :: "byte \<Rightarrow> byte" where
  "hex_digit n = (if n < 10 then 0x30 + n else 0x37 + n)"

definition hex_byte :: "byte \<Rightarrow> byte list" where
  "hex_byte p = [hex_digit (drop_bit 4 p), hex_digit (p AND 15)]"

definition unhex :: "byte \<Rightarrow> byte \<Rightarrow> byte option" where
  "unhex h l =
     (case hex2bin h of None \<Rightarrow> None
      | Some hb \<Rightarrow> (case hex2bin l of None \<Rightarrow> None | Some lb \<Rightarrow> Some (push_bit 4 hb OR lb)))"

definition ascii :: "string \<Rightarrow> byte list" where
  "ascii s = map of_char s"

abbreviation star :: byte where "star \<equiv> 0x2A"
abbreviation quest :: byte where "quest \<equiv> 0x3F"
abbreviation dot :: byte where "dot \<equiv> 0x2E"
abbreviation lbrace :: byte where "lbrace \<equiv> 0x7B"
abbreviation rbrace :: byte where "rbrace \<equiv> 0x7D"
abbreviation shifted_space :: byte where "shifted_space \<equiv> 0xA0"

section \<open>Wildcards\<close>

definition same_char :: "bool \<Rightarrow> byte \<Rightarrow> byte \<Rightarrow> bool" where
  "same_char case_sensitive a b \<longleftrightarrow> (if case_sensitive then a = b else toupper a = toupper b)"

text \<open>What is left of the pattern and of the name, and where both were after the last star.\<close>

type_synonym match_state = "byte list \<times> byte list \<times> (byte list \<times> byte list) option"

text \<open>No match from here: the last star takes one more character.\<close>

definition match_retry :: "(byte list \<times> byte list) option \<Rightarrow> bool + match_state" where
  "match_retry s =
     (case s of
        Some (sp, _ # sf) \<Rightarrow> Inr (sp, sf, Some (sp, sf))
      | _ \<Rightarrow> Inl False)"

definition match_step :: "bool \<Rightarrow> match_state \<Rightarrow> bool + match_state" where
  "match_step cs st =
     (case st of (p, f, s) \<Rightarrow>
        case f of
          [] \<Rightarrow> if dropWhile (\<lambda>c. c = star) p = [] then Inl True else match_retry s
        | c # f' \<Rightarrow>
            (case p of
               [] \<Rightarrow> match_retry s
             | q # p' \<Rightarrow>
                 if q = star then (if p' = [] then Inl True else Inr (p', f, Some (p', f)))
                 else if q = quest \<or> same_char cs q c then Inr (p', f', s)
                 else match_retry s))"

partial_function (option) match_run :: "bool \<Rightarrow> match_state \<Rightarrow> bool option" where
  "match_run cs st = (case match_step cs st of Inl r \<Rightarrow> Some r | Inr st' \<Rightarrow> match_run cs st')"

definition pattern_match :: "byte list \<Rightarrow> byte list \<Rightarrow> bool \<Rightarrow> bool option" where
  "pattern_match pattern fixed case_sensitive = match_run case_sensitive (pattern, fixed, None)"

section \<open>Escaped names\<close>

text \<open>The next character of a string in which \<open>{XX}\<close> stands for a byte; zero at the end.\<close>

fun get_escaped_char :: "byte list \<Rightarrow> bool \<Rightarrow> byte \<times> byte list \<times> bool" where
  "get_escaped_char [] escape = (0, [], escape)"
| "get_escaped_char (c # p) escape =
     (if escape then
        (if c = rbrace then get_escaped_char p False
         else case p of
                [] \<Rightarrow> (0, c # p, True)
              | l # q \<Rightarrow> (case unhex c l of None \<Rightarrow> (lbrace, c # p, False) | Some b \<Rightarrow> (b, q, True)))
      else if c = lbrace then get_escaped_char p True
      else (c, p, False))"

lemma get_escaped_char_shorter:
  "get_escaped_char p e = (c, p', e') \<Longrightarrow> c \<noteq> 0 \<Longrightarrow> 2 * length p' + of_bool e' < 2 * length p + of_bool e"
  by (induction p e arbitrary: c p' e' rule: get_escaped_char.induct) (auto split: if_splits list.splits option.splits)

text \<open>After a star the position in the name is set back, but not whether it is in an escape.\<close>

function (sequential) match_escaped :: "bool \<Rightarrow> byte list \<Rightarrow> bool \<Rightarrow> byte list \<Rightarrow> bool \<Rightarrow> bool"
  and star_escaped :: "bool \<Rightarrow> byte list \<Rightarrow> bool \<Rightarrow> byte list \<Rightarrow> bool \<Rightarrow> bool" where
  "match_escaped cs p pe f fe =
     (case get_escaped_char f fe of (cf, f', fe') \<Rightarrow>
        case get_escaped_char p pe of (cp, p', pe') \<Rightarrow>
          let rp = (case p of [] \<Rightarrow> 0 | c # _ \<Rightarrow> c)
          in if cp = 0 then cf = 0
             else if cf = 0 then rp = star
             else if rp = star then p' = [] \<or> star_escaped cs p' pe' f fe'
             else if rp = quest \<or> same_char cs cp cf then match_escaped cs p' pe' f' fe'
             else False)"
| "star_escaped cs p pe f fe =
     (if match_escaped cs p pe f fe then True
      else case get_escaped_char f fe of (cf, f', fe') \<Rightarrow> if cf = 0 then False else star_escaped cs p pe f' fe')"
  by pat_completeness auto
termination
  by (relation "measures
      [\<lambda>x. case x of Inl (_, p, pe, _) \<Rightarrow> 2 * length p + of_bool pe | Inr (_, p, pe, _) \<Rightarrow> 2 * length p + of_bool pe,
       \<lambda>x. case x of Inl _ \<Rightarrow> 0 | Inr _ \<Rightarrow> 1,
       \<lambda>x. case x of Inl _ \<Rightarrow> 0 | Inr (_, _, _, f, fe) \<Rightarrow> 2 * length f + of_bool fe]")
    (auto dest!: get_escaped_char_shorter [OF sym] simp del: get_escaped_char.simps)

declare match_escaped.simps [simp del] star_escaped.simps [simp del]

definition pattern_match_escaped :: "byte list \<Rightarrow> byte list \<Rightarrow> bool \<Rightarrow> bool \<Rightarrow> bool \<Rightarrow> bool" where
  "pattern_match_escaped pattern fixed case_sensitive p_esc f_esc = match_escaped case_sensitive pattern p_esc fixed f_esc"

section \<open>Parts\<close>

text \<open>At most \<open>n\<close> parts; the last keeps its separators.\<close>

fun split_string :: "byte \<Rightarrow> nat \<Rightarrow> byte list \<Rightarrow> byte list list" where
  "split_string sep n s =
     (if n \<le> 1 \<or> sep \<notin> set s then [s]
      else takeWhile (\<lambda>c. c \<noteq> sep) s # split_string sep (n - 1) (tl (dropWhile (\<lambda>c. c \<noteq> sep) s)))"

declare split_string.simps [simp del]

definition isEmptyString :: "byte list option \<Rightarrow> bool" where
  "isEmptyString c = (case c of None \<Rightarrow> True | Some s \<Rightarrow> s = [])"

text \<open>The part before the last dot, and behind it; the whole string and nothing when there is no dot.\<close>

definition base_name :: "byte list \<Rightarrow> byte list" where
  "base_name s = (if dot \<in> set s then rev (tl (dropWhile (\<lambda>c. c \<noteq> dot) (rev s))) else s)"

definition behind_dot :: "byte list \<Rightarrow> byte list" where
  "behind_dot s = (if dot \<in> set s then rev (takeWhile (\<lambda>c. c \<noteq> dot) (rev s)) else [])"

definition tolower :: "byte \<Rightarrow> byte" where
  "tolower c = (if 0x41 \<le> c \<and> c \<le> 0x5A then c + 0x20 else c)"

definition add_extension :: "byte list \<Rightarrow> byte list \<Rightarrow> nat \<Rightarrow> byte list" where
  "add_extension buffer ext buf_size =
     (let e = dropWhile (\<lambda>c. c = dot) ext; ext_len = length e + 1
      in if buf_size < 1 + ext_len \<or> e = [] then buffer
         else (if length buffer + ext_len + 1 > buf_size then take (buf_size - ext_len - 1) buffer else buffer) @ dot # map tolower e)"

definition set_extension :: "byte list \<Rightarrow> byte list \<Rightarrow> nat \<Rightarrow> byte list" where
  "set_extension buffer ext buf_size = add_extension (base_name buffer) ext buf_size"

text \<open>The length of the base, and at most three characters behind the last dot.\<close>

definition get_extension :: "byte list \<Rightarrow> bool \<Rightarrow> nat \<times> byte list" where
  "get_extension name caps =
     (length (base_name name), map (\<lambda>c. if caps then toupper c else c) (take 3 (behind_dot name)))"

definition illegal_chars :: "byte list" where
  "illegal_chars = [0x22, 0x2A, 0x3A, 0x2F, 0x3C, 0x3E, 0x5C, 0x3F, 0x7C, 0x2C, 0x7F]"

definition fix_filename :: "byte list \<Rightarrow> nat \<times> byte list" where
  "fix_filename buffer =
     (length (filter (\<lambda>c. c \<in> set illegal_chars) buffer), map (\<lambda>c. if c \<in> set illegal_chars then 0x5F else c) buffer)"

definition truncate_filename :: "byte list \<Rightarrow> nat \<Rightarrow> byte list" where
  "truncate_filename orig bufsize =
     (if bufsize < 5 then [] else set_extension (take (bufsize - 5) orig) (snd (get_extension orig False)) bufsize)"

text \<open>The first character is never looked at.\<close>

definition get_filename :: "byte list \<Rightarrow> byte list" where
  "get_filename path =
     (case path of [] \<Rightarrow> []
      | c # cs \<Rightarrow> if 0x2F \<in> set cs then rev (takeWhile (\<lambda>c. c \<noteq> 0x2F) (rev cs)) else path)"

text \<open>A line of a text, its leading blanks and carriage returns left out; the index of the next one.
  \<open>None\<close> is an index behind the end of the text.\<close>

definition read_line :: "byte list \<Rightarrow> nat \<Rightarrow> nat \<Rightarrow> (nat \<times> byte list) option" where
  "read_line buffer index outlen =
     (if length buffer < index then None
      else let rest = drop index buffer;
               blanks = takeWhile (\<lambda>c. c = 0x20 \<or> c = 0x09) rest;
               line = takeWhile (\<lambda>c. c \<noteq> 0x0A) (drop (length blanks) rest)
           in Some (index + length blanks + length line + 1, take (outlen - 1) (filter (\<lambda>c. c \<noteq> 0x0D) line)))"

text \<open>Percent encoding.  Where \<open>char\<close> is signed, a byte from 0x80 on is written with eight digits and does
  not fit the four bytes of \<open>pct\<close>.\<close>

definition url_safe :: "byte \<Rightarrow> bool" where
  "url_safe c \<longleftrightarrow> c \<in> {0x5F, 0x2D, 0x2E, 0x2A} \<or> 0x61 \<le> c \<and> c \<le> 0x7A \<or> 0x41 \<le> c \<and> c \<le> 0x5A \<or> 0x30 \<le> c \<and> c \<le> 0x39"

definition low_digit :: "byte \<Rightarrow> byte" where
  "low_digit n = (if n < 10 then 0x30 + n else 0x57 + n)"

fun url_encode :: "bool \<Rightarrow> byte list \<Rightarrow> byte list \<Rightarrow> byte list option" where
  "url_encode signed_char [] dest = Some dest"
| "url_encode signed_char (c # src) dest =
     (if url_safe c then url_encode signed_char src (dest @ [c])
      else if signed_char \<and> c \<ge> 0x80 then None
      else url_encode signed_char src (dest @ [0x25, low_digit (drop_bit 4 c), low_digit (c AND 15)]))"

end
