(* ===== verification/Names_Correct.thy ===== *)
theory Names_Correct
  imports Names
begin

text \<open>
  The wildcard matcher finds a match exactly when there is one: the meaning of a pattern is given by
  recursion over it, and every step of the loop keeps the answer, also where it gives up an earlier star.
\<close>

section \<open>The meaning of a pattern\<close>

text \<open>A star stands for any number of characters, a question mark for one.\<close>

fun name_glob :: "bool \<Rightarrow> byte list \<Rightarrow> byte list \<Rightarrow> bool" where
  "name_glob cs [] f = (f = [])"
| "name_glob cs (q # p) f =
     (if q = star then (\<exists>k \<in> {0..length f}. name_glob cs p (drop k f))
      else case f of [] \<Rightarrow> False | c # f' \<Rightarrow> (q = quest \<or> same_char cs q c) \<and> name_glob cs p f')"

lemma name_glob_empty: "name_glob cs p [] \<longleftrightarrow> dropWhile (\<lambda>c. c = star) p = []"
  by (induction p) auto

lemma name_glob_star: "name_glob cs (star # p) f \<longleftrightarrow> (\<exists>k \<le> length f. name_glob cs p (drop k f))"
  by auto

lemma name_glob_star_drop:
  assumes "name_glob cs (star # p) (drop k f)"
  shows "name_glob cs (star # p) f"
proof -
  obtain j where j: "j \<le> length f - k" "name_glob cs p (drop (j + k) f)" using assms by (auto simp: name_glob_star)
  show ?thesis
  proof (cases "k \<le> length f")
    case True
    then show ?thesis using j unfolding name_glob_star by (intro exI [of _ "j + k"]) simp
  next
    case False
    then show ?thesis using j unfolding name_glob_star by (intro exI [of _ "length f"]) simp
  qed
qed

text \<open>A part without a star takes as many characters as it has.\<close>

lemma name_glob_prefix:
  assumes "name_glob cs (q @ p) s" "star \<notin> set q"
  shows "length q \<le> length s" "name_glob cs p (drop (length q) s)"
  using assms by (induction q arbitrary: s) (auto split: list.splits)

section \<open>The loop\<close>

text \<open>The part of the pattern behind the last star that has been matched is aligned with what it took.\<close>

definition match_inv :: "match_state \<Rightarrow> bool" where
  "match_inv st =
     (case st of (p, f, s) \<Rightarrow>
        case s of None \<Rightarrow> True
        | Some (sp, sf) \<Rightarrow> \<exists>q w. sp = q @ p \<and> sf = w @ f \<and> length q = length w \<and> star \<notin> set q)"

text \<open>What a state can still find: a match from here, or one further on behind the last star.\<close>

definition finds :: "bool \<Rightarrow> match_state \<Rightarrow> bool" where
  "finds cs st =
     (case st of (p, f, s) \<Rightarrow>
        name_glob cs p f \<or> (case s of None \<Rightarrow> False | Some (sp, sf) \<Rightarrow> \<exists>k \<in> {1..length sf}. name_glob cs sp (drop k sf)))"

definition match_order :: "(match_state \<times> match_state) set" where
  "match_order = measures
     [\<lambda>(p, f, s). case s of None \<Rightarrow> Suc (length p) | Some (sp, _) \<Rightarrow> length sp,
      \<lambda>(p, f, s). case s of None \<Rightarrow> 0 | Some (_, sf) \<Rightarrow> length sf,
      \<lambda>(p, f, s). length p]"

definition step_ok :: "bool \<Rightarrow> match_state \<Rightarrow> bool + match_state \<Rightarrow> bool" where
  "step_ok cs st r =
     (case r of
        Inl b \<Rightarrow> b = finds cs st
      | Inr st' \<Rightarrow> match_inv st' \<and> finds cs st' = finds cs st \<and> (st', st) \<in> match_order)"

lemma match_retry_ok:
  assumes "match_inv (p, f, s)" "\<not> name_glob cs p f"
  shows "step_ok cs (p, f, s) (match_retry s)"
proof (cases "\<exists>sp x sf. s = Some (sp, x # sf)")
  case True
  then obtain sp x sf where s: "s = Some (sp, x # sf)" by blast
  have "(\<exists>k \<in> {1..length (x # sf)}. name_glob cs sp (drop k (x # sf))) \<longleftrightarrow> (\<exists>j \<in> {0..length sf}. name_glob cs sp (drop j sf))"
  proof
    assume "\<exists>k \<in> {1..length (x # sf)}. name_glob cs sp (drop k (x # sf))"
    then obtain k where "k \<in> {1..length (x # sf)}" "name_glob cs sp (drop k (x # sf))" by blast
    then show "\<exists>j \<in> {0..length sf}. name_glob cs sp (drop j sf)" by (intro bexI [of _ "k - 1"]) (auto simp: drop_Cons')
  next
    assume "\<exists>j \<in> {0..length sf}. name_glob cs sp (drop j sf)"
    then obtain j where "j \<le> length sf" "name_glob cs sp (drop j sf)" by auto
    then show "\<exists>k \<in> {1..length (x # sf)}. name_glob cs sp (drop k (x # sf))" by (intro bexI [of _ "Suc j"]) auto
  qed
  moreover have "(\<exists>j \<in> {0..length sf}. name_glob cs sp (drop j sf)) \<longleftrightarrow>
      name_glob cs sp sf \<or> (\<exists>k \<in> {1..length sf}. name_glob cs sp (drop k sf))"
    by (metis One_nat_def Suc_le_eq atLeastAtMost_iff drop0 le0 neq0_conv)
  moreover have "match_inv (sp, sf, Some (sp, sf))" by (simp add: match_inv_def)
  ultimately show ?thesis using assms(2) by (simp add: step_ok_def match_retry_def finds_def match_order_def s)
next
  case False
  then have "s = None \<or> (\<exists>sp. s = Some (sp, []))" by (metis list.exhaust not_Some_eq surj_pair)
  then show ?thesis using assms(2) by (auto simp: step_ok_def match_retry_def finds_def)
qed

lemma match_star_ok:
  assumes "match_inv (star # p, f, s)"
  shows "step_ok cs (star # p, f, s) (Inr (p, f, Some (p, f)))"
proof -
  have new: "finds cs (p, f, Some (p, f)) \<longleftrightarrow> name_glob cs (star # p) f"
  proof -
    have "(\<exists>k \<in> {0..length f}. name_glob cs p (drop k f)) \<longleftrightarrow> name_glob cs p f \<or> (\<exists>k \<in> {1..length f}. name_glob cs p (drop k f))"
      by (metis One_nat_def Suc_le_eq atLeastAtMost_iff drop0 le0 neq0_conv)
    then show ?thesis by (simp add: finds_def)
  qed
  have "finds cs (star # p, f, s) \<longleftrightarrow> name_glob cs (star # p) f"
  proof (cases s)
    case (Some t)
    obtain sp sf where t: "t = (sp, sf)" by force
    obtain q w where i: "sp = q @ star # p" "sf = w @ f" "length q = length w" "star \<notin> set q"
      using assms by (auto simp: match_inv_def Some t)
    have "name_glob cs (star # p) f" if "name_glob cs sp (drop k sf)" for k
    proof -
      have "name_glob cs (star # p) (drop (length q) (drop k sf))" using name_glob_prefix(2) i(4) that unfolding i(1) by blast
      moreover have "drop (length w) (drop k (w @ f)) = drop k f"
        using drop_drop [of k "length w" "w @ f"] drop_drop [of "length w" k "w @ f"] by (simp add: add.commute)
      ultimately have "name_glob cs (star # p) (drop k f)" unfolding i(2,3) by (simp only:)
      then show ?thesis by (rule name_glob_star_drop)
    qed
    then show ?thesis by (auto simp: finds_def Some t simp del: name_glob.simps)
  qed (simp add: finds_def)
  moreover have "((p, f, Some (p, f)), star # p, f, s) \<in> match_order"
  proof (cases s)
    case (Some t)
    then show ?thesis using assms by (cases t) (auto simp: match_order_def match_inv_def)
  qed (simp add: match_order_def)
  ultimately show ?thesis using new by (simp add: step_ok_def match_inv_def)
qed

lemma match_char_ok:
  assumes "match_inv (q # p, c # f, s)" "q \<noteq> star" "q = quest \<or> same_char cs q c"
  shows "step_ok cs (q # p, c # f, s) (Inr (p, f, s))"
proof -
  have "match_inv (p, f, s)"
  proof (cases s)
    case (Some t)
    obtain sp sf where t: "t = (sp, sf)" by force
    obtain a w where "sp = a @ q # p" "sf = w @ c # f" "length a = length w" "star \<notin> set a"
      using assms(1) by (auto simp: match_inv_def Some t)
    then have "sp = (a @ [q]) @ p \<and> sf = (w @ [c]) @ f \<and> length (a @ [q]) = length (w @ [c]) \<and> star \<notin> set (a @ [q])"
      using assms(2) by simp
    then show ?thesis unfolding match_inv_def Some t prod.case option.case by blast
  qed (simp add: match_inv_def)
  then show ?thesis using assms(2,3) by (auto simp: step_ok_def finds_def match_order_def split: option.split)
qed

lemma match_step_ok:
  assumes "match_inv st"
  shows "step_ok cs st (match_step cs st)"
proof -
  obtain p f s where st: "st = (p, f, s)" by (cases st)
  consider "f = []" | c f' where "f = c # f'" "p = []" | c f' q p' where "f = c # f'" "p = q # p'"
    by (cases f; cases p) auto
  then show ?thesis
  proof cases
    case 1
    then show ?thesis using assms match_retry_ok [of p f s cs]
      by (auto simp: st match_step_def name_glob_empty) (simp add: step_ok_def finds_def name_glob_empty)
  next
    case 2
    then show ?thesis using assms match_retry_ok [of p f s cs] by (simp add: st match_step_def)
  next
    case 3
    have mism: "\<not> name_glob cs p f" if "q \<noteq> star" "\<not> (q = quest \<or> same_char cs q c)" using that 3 by simp
    have all: "name_glob cs [star] f" unfolding name_glob_star by (intro exI [of _ "length f"]) simp
    show ?thesis
      using assms match_retry_ok [of p f s cs] match_star_ok [of p' f s cs] match_char_ok [of q p' c f' s cs] mism all
      by (auto simp: st match_step_def 3 simp del: name_glob.simps) (simp_all add: step_ok_def finds_def 3 del: name_glob.simps)
  qed
qed

lemma wf_match_order: "wf match_order"
  by (simp add: match_order_def)

lemma match_run_finds: "match_inv st \<Longrightarrow> match_run cs st = Some (finds cs st)"
proof (induction st rule: wf_induct_rule [OF wf_match_order])
  case (1 st)
  note s = match_step_ok [OF 1(2), of cs, unfolded step_ok_def]
  show ?case
  proof (cases "match_step cs st")
    case (Inl b)
    then show ?thesis using s by (subst match_run.simps) simp
  next
    case (Inr st')
    then show ?thesis using s 1(1) [of st'] by (subst match_run.simps) simp
  qed
qed

text \<open>C22: The search for files by a pattern always ends, and finds exactly the names the pattern means: each
  star stands for any run of characters, also none, each question mark for one, and letters match in
  both cases unless it is told otherwise.\<close>

theorem pattern_match_exact: "pattern_match pattern fixed case_sensitive = Some (name_glob case_sensitive pattern fixed)"
  by (simp add: pattern_match_def match_run_finds match_inv_def finds_def)

end
