(* ===== verification/Petscii.thy ===== *)
theory Petscii
  imports Names
begin

text \<open>
  A PETSCII name on a FAT medium and as text, \<^verbatim>\<open>software/components/pattern.cc\<close>: bytes that FAT or the
  character set cannot show are written as \<open>{XX}\<close>, one pair of braces around a run of them.
\<close>

section \<open>Names on FAT\<close>

definition reserved_names :: "byte list list" where
  "reserved_names = map ascii
     [''CON'', ''PRN'', ''AUX'', ''NUL'',
      ''COM1'', ''COM2'', ''COM3'', ''COM4'', ''COM5'', ''COM6'', ''COM7'', ''COM8'', ''COM9'',
      ''LPT1'', ''LPT2'', ''LPT3'', ''LPT4'', ''LPT5'', ''LPT6'', ''LPT7'', ''LPT8'', ''LPT9'']"

text \<open>The name itself, or the name and an extension.\<close>

fun reserved_match :: "byte list \<Rightarrow> byte list \<Rightarrow> bool" where
  "reserved_match [] b = (b = [])"
| "reserved_match (a # as) [] = (a = dot)"
| "reserved_match (a # as) (b # bs) = (a = b \<and> reserved_match as bs)"

definition fat_special :: "bool \<Rightarrow> byte \<Rightarrow> bool" where
  "fat_special first p \<longleftrightarrow> p < 32 \<or> p \<ge> 96 \<or> p \<in> {0x3A, 0x2F, 0x5C, 0x2A, 0x22, 0x3C, 0x3E, 0x3F} \<or> first \<and> p = dot"

text \<open>The loop over the name; \<open>fat\<close> is what was written, and the result also tells whether an escape is open.\<close>

fun to_fat :: "nat \<Rightarrow> bool \<Rightarrow> bool \<Rightarrow> byte list \<Rightarrow> byte list \<Rightarrow> byte list \<times> bool" where
  "to_fat maxlen first escape [] fat = (fat, escape)"
| "to_fat maxlen first escape (p # pet) fat =
     (if p = shifted_space \<and> dropWhile (\<lambda>c. c = shifted_space) pet = [] then (fat, escape)
      else if fat_special first p
      then (if length fat + 4 \<ge> maxlen then (fat, escape)
            else to_fat maxlen False True pet (fat @ (if escape then [] else [lbrace]) @ hex_byte p))
      else if length fat + 2 \<ge> maxlen then (fat, escape)
      else to_fat maxlen False False pet (fat @ (if escape then [rbrace] else []) @ [p]))"

definition file_types :: "byte list list" where
  "file_types = map ascii [''.PRG'', ''.SEQ'', ''.USR'', ''.REL'']"

text \<open>A name that ends like a file type gets an empty escape behind it.\<close>

definition petscii_to_fat :: "byte list \<Rightarrow> nat \<Rightarrow> byte list" where
  "petscii_to_fat pet maxlen =
     (let start = (if list_ex (reserved_match pet) reserved_names then [lbrace, rbrace] else []);
          fat = (case to_fat maxlen True False pet start of (s, e) \<Rightarrow> s @ (if e then [rbrace] else []))
      in if length fat > 3 \<and> length fat + 3 \<le> maxlen \<and> map toupper (drop (length fat - 4) fat) \<in> set file_types
         then fat @ [lbrace, rbrace] else fat)"

text \<open>Back: \<open>m\<close> characters of \<open>fat\<close> are the name, the others its extension; an escape may run into these.
  A pair that is no number ends the escape.\<close>

function from_fat :: "nat \<Rightarrow> byte list \<Rightarrow> nat \<Rightarrow> bool \<Rightarrow> byte list \<Rightarrow> byte list" where
  "from_fat len fat m escape pet =
     (if fat = [] \<or> m = 0 \<or> length pet \<ge> len then pet
      else let f = hd fat;
               (esc, s, m') = (if f = lbrace then (True, tl fat, m - 1) else (escape, fat, m))
           in if esc
              then (case s of
                      h # l # r \<Rightarrow>
                        (case unhex h l of
                           None \<Rightarrow> from_fat len s m' False pet
                         | Some b \<Rightarrow> from_fat len r (m' - 2) True (pet @ [b]))
                    | _ \<Rightarrow> pet)
              else if f = rbrace then from_fat len (tl fat) (m - 1) False pet
              else from_fat len (tl fat) (m - 1) False (pet @ [toupper f]))"
  by pat_completeness auto
termination
proof (relation "measure (\<lambda>(_, fat, _, escape, _). 2 * length fat + of_bool escape)", goal_cases)
  case (2 len fat m escape pet f x esc y s m' h z l r)
  then show ?case by (cases fat) (auto split: if_splits)
next
  case (3 len fat m escape pet f x esc y s m' h z l r b)
  then show ?case by (cases fat) (auto split: if_splits)
qed auto

declare from_fat.simps [simp del]

text \<open>Where the extension starts, looked for in the last four characters.  \<open>None\<close>: the string is shorter than
  that and has no dot, and the byte in front of it is read.\<close>

definition cut_extension :: "byte list \<Rightarrow> nat option" where
  "cut_extension fat =
     (let n = length fat; t = rev (drop (n - 4) fat)
      in if dot \<in> set t then Some (n - 1 - length (takeWhile (\<lambda>c. c \<noteq> dot) t))
         else if n < 4 then None
         else Some n)"

definition fat_to_petscii :: "byte list \<Rightarrow> bool \<Rightarrow> nat \<Rightarrow> byte list option" where
  "fat_to_petscii fat cutExt len =
     (case (if cutExt then cut_extension fat else Some (length fat)) of
        None \<Rightarrow> None
      | Some m \<Rightarrow> Some (from_fat len fat m False []))"

section \<open>Names as text\<close>

definition petscii_text_char :: "byte \<Rightarrow> byte" where
  "petscii_text_char p =
     (if 0x41 \<le> p \<and> p \<le> 0x5A then p + 0x20
      else if 0xC1 \<le> p \<and> p \<le> 0xDA then p - 0x80
      else if 0x20 \<le> p \<and> p \<le> 0x5F \<and> p \<noteq> 0x5C then p
      else 0)"

definition shown_char :: "bool \<Rightarrow> byte \<Rightarrow> byte" where
  "shown_char lossless p = (if \<not> lossless \<and> 0x61 \<le> p \<and> p \<le> 0x7A then p - 0x20 else petscii_text_char p)"

text \<open>What was written, whether an escape is open, and what did not fit.\<close>

fun to_text :: "nat \<Rightarrow> bool \<Rightarrow> bool \<Rightarrow> byte list \<Rightarrow> byte list \<Rightarrow> byte list \<times> bool \<times> byte list" where
  "to_text len lossless escape [] text = (text, escape, [])"
| "to_text len lossless escape (p # pet) text =
     (if length text + 5 > len then (text, escape, p # pet)
      else let c = shown_char lossless p
           in if c \<noteq> 0 then to_text len lossless False pet (text @ (if escape then [rbrace] else []) @ [c])
              else to_text len lossless True pet (text @ (if escape then [] else [lbrace]) @ hex_byte p))"

text \<open>Whether all fitted, and the text; no text at all without a buffer.\<close>

definition petscii_to_text :: "byte list \<Rightarrow> nat \<Rightarrow> bool \<Rightarrow> bool \<times> byte list option" where
  "petscii_to_text pet len lossless =
     (if len = 0 then (False, None)
      else case to_text len lossless False pet [] of
             (t, e, rest) \<Rightarrow> (rest = [], Some (t @ (if e then [rbrace] else []))))"

text \<open>The pairs of an escape up to its brace; the rest of the text and the name so far.\<close>

fun hex_run :: "nat \<Rightarrow> byte list \<Rightarrow> byte list \<Rightarrow> (byte list \<times> byte list) option" where
  "hex_run len (h # l # r) pet =
     (case unhex h l of
        None \<Rightarrow> None
      | Some p \<Rightarrow>
          if p = 0 \<or> length pet \<ge> len - 1 then None
          else (case r of
                  c # r' \<Rightarrow> if c = rbrace then Some (r', pet @ [p]) else hex_run len r (pet @ [p])
                | [] \<Rightarrow> None))"
| "hex_run len _ pet = None"

lemma hex_run_shorter: "hex_run len s pet = Some (r, pet') \<Longrightarrow> length r < length s"
  by (induction len s pet rule: hex_run.induct) (auto split: option.splits if_splits list.splits intro: less_SucI)

definition text_byte :: "byte \<Rightarrow> byte option" where
  "text_byte c =
     (if 0x61 \<le> c \<and> c \<le> 0x7A then Some (c - 0x20)
      else if 0x41 \<le> c \<and> c \<le> 0x5A then Some (c + 0x80)
      else if petscii_text_char c = c then Some c
      else None)"

function from_text :: "nat \<Rightarrow> byte list \<Rightarrow> byte list \<Rightarrow> byte list option" where
  "from_text len text pet =
     (case text of
        [] \<Rightarrow> Some pet
      | c # r \<Rightarrow>
          if c = lbrace then (case hex_run len r pet of None \<Rightarrow> None | Some (r', pet') \<Rightarrow> from_text len r' pet')
          else (case text_byte c of
                  None \<Rightarrow> None
                | Some p \<Rightarrow> if length pet \<ge> len - 1 then None else from_text len r (pet @ [p])))"
  by pat_completeness auto
termination
  by (relation "measure (\<lambda>(_, text, _). length text)") (auto dest: hex_run_shorter)

declare from_text.simps [simp del]

text \<open>\<open>None\<close> is the answer -1; otherwise the answer is the length of the name.\<close>

definition text_to_petscii :: "byte list \<Rightarrow> nat \<Rightarrow> byte list option" where
  "text_to_petscii text len = (if len = 0 then None else from_text len text [])"

end
