(* ===== verification/Petscii_Correct.thy ===== *)
theory Petscii_Correct
  imports Petscii
begin

text \<open>
  A PETSCII name comes back from its text and from its name on FAT.
\<close>

section \<open>All bytes\<close>

lemma all_bytes: "list_all P (map word_of_int [0..255]) \<Longrightarrow> P (b :: byte)"
proof -
  assume a: "list_all P (map word_of_int [0..255])"
  have "uint b < 256" using unsigned_less [of b, where ?'a = int] by simp
  then have "word_of_int (uint b) = b" "uint b \<in> set [0..255]" by simp_all
  then have "b \<in> set (map word_of_int [0..255])" by (metis image_eqI set_map)
  then show "P b" using a by (metis list_all_iff)
qed

lemma hex_byte_unhex: "unhex (hex_digit (drop_bit 4 p)) (hex_digit (p AND 15)) = Some p"
  by (rule all_bytes [where b = p]) code_simp

lemma hex_digit_plain: "hex_digit (drop_bit 4 p) \<notin> {lbrace, rbrace}" "hex_digit (p AND 15) \<notin> {lbrace, rbrace}"
  by (rule all_bytes [where b = p], code_simp)+

lemma text_char_back:
  "petscii_text_char p = 0 \<or>
   text_byte (petscii_text_char p) = Some p \<and> petscii_text_char p \<noteq> lbrace \<and> petscii_text_char p \<noteq> rbrace"
  by (rule all_bytes [where b = p]) code_simp

lemma fat_plain: "fat_special first p \<or> toupper p = p \<and> p \<noteq> lbrace \<and> p \<noteq> rbrace"
proof -
  have "p < 96 \<Longrightarrow> toupper p = p \<and> p \<noteq> lbrace \<and> p \<noteq> rbrace"
    by (auto simp: toupper_def word_less_nat_alt word_le_nat_alt)
  moreover have "\<not> fat_special first p \<Longrightarrow> p < 96" by (auto simp: fat_special_def)
  ultimately show ?thesis by blast
qed

section \<open>Text\<close>

text \<open>The text of a name, after an open escape or not.\<close>

fun text_of :: "bool \<Rightarrow> byte list \<Rightarrow> byte list" where
  "text_of escape [] = (if escape then [rbrace] else [])"
| "text_of escape (p # pet) =
     (if petscii_text_char p \<noteq> 0 then (if escape then [rbrace] else []) @ petscii_text_char p # text_of False pet
      else (if escape then [] else [lbrace]) @ hex_byte p @ text_of True pet)"

lemma to_text_complete:
  "to_text len True escape pet t0 = (t, e, []) \<Longrightarrow> t @ (if e then [rbrace] else []) = t0 @ text_of escape pet"
  by (induction len True escape pet t0 rule: to_text.induct) (auto simp: shown_char_def Let_def split: if_splits)

text \<open>Behind a pair of digits the escape ends or goes on.\<close>

definition after_pair :: "nat \<Rightarrow> byte list \<Rightarrow> byte list \<Rightarrow> (byte list \<times> byte list) option" where
  "after_pair len s pet =
     (case s of c # r \<Rightarrow> if c = rbrace then Some (r, pet) else hex_run len s pet | [] \<Rightarrow> None)"

lemma hex_run_pair:
  "p \<noteq> 0 \<Longrightarrow> length pet < len - 1 \<Longrightarrow> hex_run len (hex_byte p @ s) pet = after_pair len s (pet @ [p])"
  by (simp add: hex_byte_def hex_byte_unhex after_pair_def)

definition finish_pair :: "nat \<Rightarrow> (byte list \<times> byte list) option \<Rightarrow> byte list option" where
  "finish_pair len r = (case r of None \<Rightarrow> None | Some (s, pet) \<Rightarrow> from_text len s pet)"

lemma from_text_escape: "from_text len (lbrace # s) pet = finish_pair len (hex_run len s pet)"
  by (simp add: from_text.simps [of len "lbrace # s"] finish_pair_def)

lemma from_text_char:
  "petscii_text_char p \<noteq> 0 \<Longrightarrow> length pet < len - 1 \<Longrightarrow>
   from_text len (petscii_text_char p # s) pet = from_text len s (pet @ [p])"
  using text_char_back [of p] by (simp add: from_text.simps [of len "petscii_text_char p # s"])

lemma from_text_of:
  assumes "0 \<notin> set pet" "length acc + length pet \<le> len - 1"
  shows "from_text len (text_of False pet) acc = Some (acc @ pet) \<and>
    finish_pair len (after_pair len (text_of True pet) acc) = Some (acc @ pet)"
  using assms
proof (induction pet arbitrary: acc)
  case Nil
  then show ?case by (simp add: from_text.simps after_pair_def finish_pair_def)
next
  case (Cons p pet)
  have p: "p \<noteq> 0" "length acc < len - 1" using Cons.prems by auto
  note ih = Cons.IH [of "acc @ [p]"]
  show ?case
  proof (cases "petscii_text_char p = 0")
    case True
    have h: "after_pair len (hex_byte p @ text_of True pet) acc = hex_run len (hex_byte p @ text_of True pet) acc"
      using hex_digit_plain(1) [of p] by (simp add: after_pair_def hex_byte_def del: hex_run.simps)
    show ?thesis using ih Cons.prems True hex_run_pair [OF p] by (simp add: from_text_escape h)
  next
    case False
    have "after_pair len (rbrace # s) acc = Some (s, acc)" for s by (simp add: after_pair_def)
    then show ?thesis using ih Cons.prems False from_text_char [OF False p(2)] by (simp add: finish_pair_def)
  qed
qed

text \<open>C27: A name that a file dialog shows can be typed back: when the text of a PETSCII name fits its buffer,
  turning the text into PETSCII again gives the same name, whatever bytes it consists of.\<close>

theorem petscii_text_roundtrip:
  assumes "petscii_to_text pet len True = (True, Some text)" "0 \<notin> set pet" "length pet < size'"
  shows "text_to_petscii text size' = Some pet"
proof -
  obtain t e rest where t: "to_text len True False pet [] = (t, e, rest)" by (metis prod_cases3)
  then have "rest = []" "text = t @ (if e then [rbrace] else [])"
    using assms(1) by (auto simp: petscii_to_text_def split: if_splits)
  then have "text = text_of False pet" using to_text_complete [of len False pet "[]" t e] t by simp
  then show ?thesis using from_text_of [of pet "[]" size'] assms(2,3) by (simp add: text_to_petscii_def)
qed

lemma petscii_text_roundtrip_witness:
  "petscii_to_text [0x41, 0xC1, 0x12, 0x92] 20 True = (True, Some (ascii ''aA{1292}'')) \<and>
   text_to_petscii (ascii ''aA{1292}'') 16 = Some [0x41, 0xC1, 0x12, 0x92]"
proof -
  have "petscii_to_text [0x41, 0xC1, 0x12, 0x92] 20 True = (True, Some (ascii ''aA{1292}''))" by code_simp
  then show ?thesis using petscii_text_roundtrip by simp
qed

section \<open>Names on FAT\<close>

text \<open>The bytes of a directory entry up to the shifted spaces that fill it.\<close>

definition unpadded :: "byte list \<Rightarrow> byte list" where
  "unpadded pet = rev (dropWhile (\<lambda>c. c = shifted_space) (rev pet))"

fun fat_of :: "bool \<Rightarrow> bool \<Rightarrow> byte list \<Rightarrow> byte list" where
  "fat_of first escape [] = (if escape then [rbrace] else [])"
| "fat_of first escape (p # pet) =
     (if fat_special first p then (if escape then [] else [lbrace]) @ hex_byte p @ fat_of False True pet
      else (if escape then [rbrace] else []) @ p # fat_of False False pet)"

lemma unpadded_Cons:
  "unpadded (p # pet) = (if p = shifted_space \<and> dropWhile (\<lambda>c. c = shifted_space) pet = [] then [] else p # unpadded pet)"
  by (auto simp: unpadded_def dropWhile_append dropWhile_eq_Nil_conv)

lemma to_fat_complete:
  assumes "length fat + 4 * length pet < maxlen"
  shows "(case to_fat maxlen first escape pet fat of (s, e) \<Rightarrow> s @ (if e then [rbrace] else [])) =
    fat @ fat_of first escape (unpadded pet)"
  using assms
proof (induction pet arbitrary: first escape fat)
  case (Cons p pet)
  have "length (fat @ (if escape then [] else [lbrace]) @ hex_byte p) + 4 * length pet < maxlen"
    "length (fat @ (if escape then [rbrace] else []) @ [p]) + 4 * length pet < maxlen"
    using Cons.prems by (auto simp: hex_byte_def)
  then show ?case
    using Cons.IH [of "fat @ (if escape then [] else [lbrace]) @ hex_byte p" False True]
      Cons.IH [of "fat @ (if escape then [rbrace] else []) @ [p]" False False] Cons.prems
    by (auto simp: unpadded_Cons)
qed (simp add: unpadded_def)

text \<open>What is read back: a brace that closes an escape, an open escape, a plain character.\<close>

lemma from_fat_full: "len \<le> length pet \<Longrightarrow> from_fat len fat m escape pet = pet"
  by (simp add: from_fat.simps)

lemma from_fat_close:
  "length pet < len \<Longrightarrow> s \<noteq> [] \<Longrightarrow> length s < m \<Longrightarrow>
   from_fat len (rbrace # s) m escape pet = from_fat len s (m - 1) False pet"
  "from_fat len [rbrace] m escape pet = pet"
  by (cases escape; cases s; simp add: from_fat.simps [of len "rbrace # s"] unhex_def hex2bin_def from_fat.simps)+

lemma from_fat_pair:
  "unhex h l = Some b \<Longrightarrow> h \<noteq> lbrace \<Longrightarrow> length pet < len \<Longrightarrow> 0 < m \<Longrightarrow>
   from_fat len (h # l # s) m True pet = from_fat len s (m - 2) True (pet @ [b])"
  "unhex h l = Some b \<Longrightarrow> length pet < len \<Longrightarrow> 0 < m \<Longrightarrow>
   from_fat len (lbrace # h # l # s) m False pet = from_fat len s (m - 1 - 2) True (pet @ [b])"
  by (simp_all add: from_fat.simps [of len "h # l # s"] from_fat.simps [of len "lbrace # h # l # s"])

lemma from_fat_hex:
  "length pet < len \<Longrightarrow> length s + 2 \<le> m \<Longrightarrow>
   from_fat len (hex_byte p @ s) m True pet = from_fat len s (m - 2) True (pet @ [p])"
  "length pet < len \<Longrightarrow> length s + 3 \<le> m \<Longrightarrow>
   from_fat len (lbrace # hex_byte p @ s) m False pet = from_fat len s (m - 3) True (pet @ [p])"
  using from_fat_pair [OF hex_byte_unhex [of p], of pet len m s] hex_digit_plain(1) [of p]
  by (simp_all add: hex_byte_def numeral_3_eq_3)

lemma from_fat_reserved:
  assumes "0 < len" "s \<noteq> []"
  shows "from_fat len (lbrace # rbrace # s) (length s + 2) False [] = from_fat len s (length s) False []"
proof -
  obtain a r where s: "s = a # r" using assms(2) by (cases s) auto
  have "from_fat len (lbrace # rbrace # a # r) (length (a # r) + 2) False [] =
      from_fat len (rbrace # a # r) (Suc (length (a # r))) False []"
    using assms(1) by (simp add: from_fat.simps [of len "lbrace # rbrace # a # r"] unhex_def hex2bin_def)
  then show ?thesis using from_fat_close(1) [of "[]" len "a # r" "Suc (length (a # r))" False] assms(1) by (simp add: s)
qed

lemma from_fat_char:
  "\<not> fat_special first p \<Longrightarrow> length pet < len \<Longrightarrow> length s < m \<Longrightarrow>
   from_fat len (p # s) m False pet = from_fat len s (m - 1) False (pet @ [p])"
  using fat_plain [of first p] by (simp add: from_fat.simps [of len "p # s"])

lemma from_fat_of:
  assumes "end_mark = [] \<or> end_mark = [lbrace, rbrace]" "length acc + length pet \<le> len"
    "length (fat_of first escape pet @ end_mark) \<le> m"
  shows "from_fat len (fat_of first escape pet @ end_mark) m escape acc = acc @ pet"
  using assms(2,3)
proof (induction pet arbitrary: first escape acc m)
  case Nil
  have mark: "from_fat len end_mark m' False acc = acc" for m'
    using assms(1) by (auto simp: from_fat.simps)
  show ?case
  proof (cases "len \<le> length acc")
    case False
    then show ?thesis using Nil mark assms(1) from_fat_close(1) [of acc len end_mark m] from_fat_close(2)
      by (cases escape; cases "end_mark = []") simp_all
  qed (simp add: from_fat_full)
next
  case (Cons p pet)
  have room: "length acc < len" "length (acc @ [p]) + length pet \<le> len" using Cons.prems(1) by simp_all
  show ?case
  proof (cases "fat_special first p")
    case True
    then show ?thesis
      using Cons.IH [OF room(2), of False True "m - (if escape then 2 else 3)"] Cons.prems(2)
        from_fat_hex [OF room(1), of "fat_of False True pet @ end_mark" m p]
      by (cases escape) (simp_all add: hex_byte_def)
  next
    case False
    have plain: "from_fat len (p # fat_of False False pet @ end_mark) k False acc = acc @ p # pet"
      if "length (fat_of False False pet @ end_mark) < k" for k
      using from_fat_char [OF False room(1) that] Cons.IH [OF room(2), of False False "k - 1"] that by simp
    have "escape \<Longrightarrow> from_fat len (rbrace # p # fat_of False False pet @ end_mark) m True acc = acc @ p # pet"
      using plain [of "m - 1"] from_fat_close(1) [OF room(1), of "p # fat_of False False pet @ end_mark" m] Cons.prems(2) False
      by simp
    then show ?thesis using plain [of m] Cons.prems(2) False by (cases escape) simp_all
  qed
qed

text \<open>The bounds, and that only characters a FAT name may have are written.\<close>

definition fat_legal :: "byte \<Rightarrow> bool" where
  "fat_legal c \<longleftrightarrow> c = lbrace \<or> c = rbrace \<or> \<not> fat_special False c"

lemma hex_byte_legal: "\<forall>c \<in> set (hex_byte p). fat_legal c"
proof -
  have digit: "fat_legal c" if "0x30 \<le> c \<and> c \<le> 0x39 \<or> 0x41 \<le> c \<and> c \<le> 0x46" for c
    using that by (auto simp: fat_legal_def fat_special_def word_less_nat_alt word_le_nat_alt)
  have "(\<lambda>c. 0x30 \<le> c \<and> c \<le> 0x39 \<or> 0x41 \<le> c \<and> c \<le> 0x46) (hex_digit (drop_bit 4 p)) \<and>
      (\<lambda>c. 0x30 \<le> c \<and> c \<le> 0x39 \<or> 0x41 \<le> c \<and> c \<le> 0x46) (hex_digit (p AND 15))"
    by (rule all_bytes [where b = p]) code_simp
  then show ?thesis using digit by (simp add: hex_byte_def)
qed

lemma to_fat_bounds:
  assumes "length fat + (if escape then 1 else 0) < maxlen" "\<forall>c \<in> set fat. fat_legal c"
  shows "case to_fat maxlen first escape pet fat of (s, e) \<Rightarrow> length s + (if e then 1 else 0) < maxlen \<and> (\<forall>c \<in> set s. fat_legal c)"
  using assms
proof (induction pet arbitrary: first escape fat)
  case (Cons p pet)
  let ?e = "fat @ (if escape then [] else [lbrace]) @ hex_byte p" and ?c = "fat @ (if escape then [rbrace] else []) @ [p]"
  have brace: "fat_legal lbrace" "fat_legal rbrace" by (simp_all add: fat_legal_def)
  then have e: "\<forall>c \<in> set ?e. fat_legal c" using Cons.prems(2) hex_byte_legal [of p] by auto
  have plain: "\<not> fat_special first p \<Longrightarrow> fat_legal p" by (auto simp: fat_legal_def fat_special_def)
  have c: "\<not> fat_special first p \<Longrightarrow> \<forall>c \<in> set ?c. fat_legal c" using Cons.prems(2) brace plain by auto
  have len: "\<not> length fat + 4 \<ge> maxlen \<Longrightarrow> length ?e + (if True then 1 else 0) < maxlen"
    "\<not> length fat + 2 \<ge> maxlen \<Longrightarrow> length ?c + (if False then 1 else 0) < maxlen"
    by (simp_all add: hex_byte_def)
  let ?stop = "p = shifted_space \<and> dropWhile (\<lambda>c. c = shifted_space) pet = []"
  consider "?stop \<or> (if fat_special first p then length fat + 4 \<ge> maxlen else length fat + 2 \<ge> maxlen)"
    | "\<not> ?stop" "fat_special first p" "\<not> length fat + 4 \<ge> maxlen" | "\<not> ?stop" "\<not> fat_special first p" "\<not> length fat + 2 \<ge> maxlen"
    by (cases "fat_special first p") auto
  then show ?case
  proof cases
    case 1
    then have "to_fat maxlen first escape (p # pet) fat = (fat, escape)" by (cases "fat_special first p") (auto simp del: dropWhile_eq_Nil_conv)
    then show ?thesis using Cons.prems by simp
  next
    case 2
    then show ?thesis using Cons.IH [OF len(1) e, of False] by (simp only: to_fat.simps if_False if_True simp_thms)
  next
    case 3
    then show ?thesis using Cons.IH [OF len(2) c, of False] by (simp only: to_fat.simps if_False if_True simp_thms)
  qed
qed simp

text \<open>Reading back: the name, behind the braces of a reserved one and in front of those of a file type.\<close>

lemma from_fat_written:
  assumes "length (unpadded pet) \<le> len" "mark = [] \<or> mark = [lbrace, rbrace]" "start = [] \<or> start = [lbrace, rbrace]"
  defines "t \<equiv> fat_of True False (unpadded pet) @ mark"
  shows "from_fat len (start @ t) (length (start @ t)) False [] = unpadded pet"
proof -
  have l: "length ([] :: byte list) + length (unpadded pet) \<le> len" using assms(1) by simp
  have t: "from_fat len t m False [] = unpadded pet" if "length t \<le> m" for m
    using from_fat_of [OF assms(2) l that [unfolded t_def]] by (simp add: t_def)
  have none: "unpadded pet = []" if "len = 0 \<or> t = []"
    using that l assms(2) by (cases "unpadded pet") (auto simp: t_def split: if_splits)
  show ?thesis
  proof (cases "len = 0 \<or> t = []")
    case True
    then show ?thesis using assms(3) none t [OF order_refl] by (auto simp: from_fat_full from_fat.simps)
  next
    case False
    then have "from_fat len (lbrace # rbrace # t) (length t + 2) False [] = unpadded pet"
      using from_fat_reserved [of len t] t [OF order_refl] by simp
    then show ?thesis using assms(3) t [OF order_refl] by auto
  qed
qed

lemma petscii_fat_facts:
  assumes "3 \<le> maxlen"
  shows "length (petscii_to_fat pet maxlen) < maxlen" "\<forall>c \<in> set (petscii_to_fat pet maxlen). fat_legal c"
    "4 * length pet + 2 < maxlen \<Longrightarrow> length pet \<le> len \<Longrightarrow>
     fat_to_petscii (petscii_to_fat pet maxlen) False len = Some (unpadded pet)"
proof -
  define start where "start = (if list_ex (reserved_match pet) reserved_names then [lbrace, rbrace] else [])"
  obtain s e where se: "to_fat maxlen True False pet start = (s, e)" by force
  define fat where "fat = s @ (if e then [rbrace] else [])"
  have "petscii_to_fat pet maxlen =
      (if length fat > 3 \<and> length fat + 3 \<le> maxlen \<and> map toupper (drop (length fat - 4) fat) \<in> set file_types
       then fat @ [lbrace, rbrace] else fat)"
    unfolding petscii_to_fat_def Let_def start_def [symmetric] se prod.case fat_def ..
  then obtain mark where mark: "petscii_to_fat pet maxlen = fat @ mark" "mark = [] \<or> mark = [lbrace, rbrace] \<and> length fat + 3 \<le> maxlen"
    by (metis append_Nil2)
  have "length start < maxlen" "\<forall>c \<in> set start. fat_legal c" using assms by (auto simp: start_def fat_legal_def)
  then have b: "length fat < maxlen" "\<forall>c \<in> set fat. fat_legal c"
    using to_fat_bounds [of start False maxlen True pet] se by (auto simp: fat_def fat_legal_def)
  show "length (petscii_to_fat pet maxlen) < maxlen" using b(1) mark by auto
  show "\<forall>c \<in> set (petscii_to_fat pet maxlen). fat_legal c" using b(2) mark by (auto simp: fat_legal_def)
  assume room: "4 * length pet + 2 < maxlen" "length pet \<le> len"
  have f: "fat = start @ fat_of True False (unpadded pet)"
    using to_fat_complete [of start pet maxlen True False] room(1) se by (simp add: fat_def start_def split: if_splits)
  have "length (unpadded pet) \<le> length pet"
    unfolding unpadded_def by (metis length_dropWhile_le length_rev)
  then have "from_fat len (start @ fat_of True False (unpadded pet) @ mark) (length (start @ fat_of True False (unpadded pet) @ mark)) False [] =
      unpadded pet"
    using from_fat_written [of pet len mark start] room(2) mark(2) by (auto simp: start_def)
  then show "fat_to_petscii (petscii_to_fat pet maxlen) False len = Some (unpadded pet)"
    using mark(1) f by (simp add: fat_to_petscii_def)
qed



end
