(* ===== verification/Cbmdos_Path.thy ===== *)
theory Cbmdos_Path
  imports Names
begin

text \<open>
  File names as a Commodore sends them over the serial bus, \<^verbatim>\<open>software/io/iec/cbmdos_parser.cc\<close>: a
  partition, a path and a name, what follows the name of a file to open, and the options of a directory.
  A string is the list of the bytes before its NUL; \<open>first\<close> of it is the NUL when it is empty.
\<close>

section \<open>Strings\<close>

abbreviation colon :: byte where "colon \<equiv> 0x3A"
abbreviation comma :: byte where "comma \<equiv> 0x2C"
abbreviation equals :: byte where "equals \<equiv> 0x3D"
abbreviation slash :: byte where "slash \<equiv> 0x2F"
abbreviation space :: byte where "space \<equiv> 0x20"

definition first :: "byte list \<Rightarrow> byte" where
  "first s = (case s of [] \<Rightarrow> 0 | c # _ \<Rightarrow> c)"

definition isdigit :: "byte \<Rightarrow> bool" where
  "isdigit c \<longleftrightarrow> 0x30 \<le> c \<and> c \<le> 0x39"

definition isalpha :: "byte \<Rightarrow> bool" where
  "isalpha c \<longleftrightarrow> 0x41 \<le> c \<and> c \<le> 0x5A \<or> 0x61 \<le> c \<and> c \<le> 0x7A"

definition isspace :: "byte \<Rightarrow> bool" where
  "isspace c \<longleftrightarrow> c = 0x20 \<or> 0x09 \<le> c \<and> c \<le> 0x0D"

text \<open>\<open>mstring::split\<close>: before and behind the first separator, or the parts between all separators.\<close>

definition split_once :: "byte \<Rightarrow> byte list \<Rightarrow> (byte list \<times> byte list) option" where
  "split_once c s = (if c \<in> set s then Some (takeWhile (\<lambda>x. x \<noteq> c) s, tl (dropWhile (\<lambda>x. x \<noteq> c) s)) else None)"

fun split_all :: "byte \<Rightarrow> byte list \<Rightarrow> byte list list" where
  "split_all c [] = [[]]"
| "split_all c (x # s) = (if x = c then [] # split_all c s else (x # hd (split_all c s)) # tl (split_all c s))"

definition split_max :: "byte \<Rightarrow> byte list \<Rightarrow> nat \<Rightarrow> byte list list" where
  "split_max c s count' = take count' (split_all c s)"

definition contains_any :: "byte list \<Rightarrow> byte list \<Rightarrow> bool" where
  "contains_any s cs \<longleftrightarrow> list_ex (\<lambda>c. c \<in> set s) cs"

text \<open>A number, no larger than sixteen bits.\<close>

definition capped_number :: "byte list \<Rightarrow> nat" where
  "capped_number ds = foldl (\<lambda>v c. min 0xFFFF (v * 10 + (unat c - 48))) 0 ds"

section \<open>Errors\<close>

definition ERR_SYNTAX :: nat where "ERR_SYNTAX = 30"
definition ERR_UNKNOWN_CMD :: nat where "ERR_UNKNOWN_CMD = 31"
definition ERR_CMD_TOO_LONG :: nat where "ERR_CMD_TOO_LONG = 32"
definition ERR_ILLEGAL_NAME :: nat where "ERR_ILLEGAL_NAME = 33"
definition ERR_NO_NAME :: nat where "ERR_NO_NAME = 34"
definition ERR_REPLACE_TYPE :: nat where "ERR_REPLACE_TYPE = 64"
definition ERR_UNKNOWN_DRIVECODE :: nat where "ERR_UNKNOWN_DRIVECODE = 98"

lemmas error_codes = ERR_SYNTAX_def ERR_UNKNOWN_CMD_def ERR_CMD_TOO_LONG_def ERR_ILLEGAL_NAME_def ERR_NO_NAME_def
  ERR_REPLACE_TYPE_def ERR_UNKNOWN_DRIVECODE_def

section \<open>Partition, path and name\<close>

text \<open>Partition -1: none was given.\<close>

record filename =
  fn_partition :: int
  fn_path :: "byte list"
  fn_name :: "byte list"
  fn_wildcard :: bool

definition finish_path :: "bool \<Rightarrow> bool \<Rightarrow> int \<Rightarrow> byte list \<Rightarrow> byte list \<Rightarrow> nat + filename \<times> bool" where
  "finish_path path_only replace part path name =
     (if \<not> path_only \<and> name = [] then Inl ERR_NO_NAME
      else Inr (\<lparr>fn_partition = part, fn_path = path, fn_name = name, fn_wildcard = contains_any name [quest, star]\<rparr>, replace))"

text \<open>Whether \<open>@\<close> was in front is answered too; it is an error where nothing can be replaced.\<close>

definition parse_full_path :: "byte list \<Rightarrow> bool \<Rightarrow> bool \<Rightarrow> nat + filename \<times> bool" where
  "parse_full_path buf can_replace path_only =
     (let has_colon = colon \<in> set buf
      in if \<not> has_colon \<and> \<not> path_only then finish_path path_only False (- 1) [] buf
         else
           let name = (if has_colon then tl (dropWhile (\<lambda>c. c \<noteq> colon) buf) else []);
               at = (first buf = 0x40);
               s = dropWhile (\<lambda>c. c = space) (if at then tl buf else buf);
               ds = takeWhile isdigit s;
               part = (if ds = [] then - 1 else int (capped_number ds));
               r = dropWhile (\<lambda>c. c = space) (dropWhile isdigit s)
           in if at \<and> \<not> can_replace then Inl ERR_SYNTAX
              else if first r = slash \<or> path_only \<and> first r = 0x5F
              then finish_path path_only at part (takeWhile (\<lambda>c. c \<noteq> colon) r) name
              else if \<not> path_only \<and> first r \<noteq> colon then Inl ERR_SYNTAX
              else finish_path path_only at part [] name)"

section \<open>Options of a directory\<close>

datatype stream_type = Stream_File | Stream_Buffer | Stream_Dir | Stream_Partitions
datatype stamp_format = Stamp_None | Stamp_Short | Stamp_Long

record dir_options =
  do_stream :: stream_type
  do_timefmt :: stamp_format
  do_min_datetime :: u32
  do_max_datetime :: u32
  do_filetypes :: byte
  do_partition_types :: byte
  do_show_hidden :: bool

definition dir_options_init :: dir_options where
  "dir_options_init = \<lparr>do_stream = Stream_File, do_timefmt = Stamp_None, do_min_datetime = 0, do_max_datetime = 0,
     do_filetypes = 0, do_partition_types = 0, do_show_hidden = False\<rparr>"

definition make_fat_time :: "int \<Rightarrow> int \<Rightarrow> int \<Rightarrow> int \<Rightarrow> int \<Rightarrow> int \<Rightarrow> u32" where
  "make_fat_time y M d h m s =
     push_bit 25 (of_int (y - 1980)) OR push_bit 21 (of_int M) OR push_bit 16 (of_int d) OR push_bit 11 (of_int h) OR
     push_bit 5 (of_int m) OR of_int (s div 2)"

text \<open>What \<open>sscanf\<close> takes for \<open>%d\<close> and for a character of its format.\<close>

definition digits_value :: "byte list \<Rightarrow> int" where
  "digits_value ds = foldl (\<lambda>v c. v * 10 + (uint c - 48)) 0 ds"

definition scan_int :: "byte list \<Rightarrow> (int \<times> byte list) option" where
  "scan_int s =
     (let t = dropWhile isspace s;
          neg = (first t = 0x2D);
          u = (if neg \<or> first t = 0x2B then tl t else t);
          ds = takeWhile isdigit u
      in if ds = [] then None else Some ((if neg then - 1 else 1) * digits_value ds, dropWhile isdigit u))"

definition scan_char :: "byte \<Rightarrow> byte list \<Rightarrow> byte list option" where
  "scan_char c s = (if s \<noteq> [] \<and> hd s = c then Some (tl s) else None)"

text \<open>The format \<open>%d/%d/%d %d:%d %c\<close>.\<close>

definition scan_stamp :: "byte list \<Rightarrow> (int \<times> int \<times> int \<times> int \<times> int \<times> byte) option" where
  "scan_stamp s =
     Option.bind (scan_int s) (\<lambda>(M, s). Option.bind (scan_char slash s) (\<lambda>s.
     Option.bind (scan_int s) (\<lambda>(d, s). Option.bind (scan_char slash s) (\<lambda>s.
     Option.bind (scan_int s) (\<lambda>(y, s). Option.bind (scan_int (dropWhile isspace s)) (\<lambda>(h, s).
     Option.bind (scan_char colon s) (\<lambda>s. Option.bind (scan_int s) (\<lambda>(m, s).
     case dropWhile isspace s of [] \<Rightarrow> None | c # _ \<Rightarrow> Some (M, d, y, h, m, c)))))))))"

text \<open>A year that is no year of this century or the last runs into the other fields, or out of the word.\<close>

definition stamp_option :: "byte list \<Rightarrow> u32 option" where
  "stamp_option s =
     (case scan_stamp s of
        None \<Rightarrow> None
      | Some (M, d, y, h12, m, ampm) \<Rightarrow>
          let mark = tl (dropWhile (\<lambda>c. c \<noteq> ampm) s)
          in if ampm \<noteq> 0x41 \<and> ampm \<noteq> 0x50 \<or> M < 1 \<or> M > 12 \<or> d < 1 \<or> d > 31 \<or> h12 < 1 \<or> h12 > 12 \<or> m < 0 \<or> m > 59 then None
             else if first mark \<noteq> 0x4D then None
             else Some (make_fat_time (y + (if y < 80 then 2000 else 1900)) M d (h12 mod 12 + (if ampm = 0x50 then 12 else 0)) m 0))"

definition parse_dir_option :: "byte list \<Rightarrow> dir_options \<Rightarrow> nat + dir_options" where
  "parse_dir_option buf opt =
     (let c = first buf; types = (\<lambda>b. Inr (opt\<lparr>do_filetypes := do_filetypes opt OR b\<rparr>))
      in if c = 0x4C then Inr (opt\<lparr>do_timefmt := Stamp_Long\<rparr>)
         else if c = 0x50 then types 0x02
         else if c = 0x53 then types 0x04
         else if c = 0x55 then types 0x08
         else if c = 0x52 then types 0x10
         else if c = 0x42 \<or> c = 0x44 then types 0x20
         else if c = 0x48 then Inr (opt\<lparr>do_show_hidden := True\<rparr>)
         else if c = 0x4E then Inr (opt\<lparr>do_timefmt := Stamp_None\<rparr>)
         else if c = 0x3C \<or> c = 0x3E
         then (case stamp_option (tl buf) of
                 None \<Rightarrow> Inl ERR_SYNTAX
               | Some dt \<Rightarrow> Inr (if c = 0x3C then opt\<lparr>do_max_datetime := dt\<rparr> else opt\<lparr>do_min_datetime := dt\<rparr>))
         else Inl ERR_SYNTAX)"

definition parse_partition_option :: "byte list \<Rightarrow> dir_options \<Rightarrow> nat + dir_options" where
  "parse_partition_option buf opt =
     (let c = first buf; types = (\<lambda>k. Inr (opt\<lparr>do_partition_types := do_partition_types opt OR push_bit k 1\<rparr>))
      in if c = 0x4E then types 1 else if c = 0x34 then types 2 else if c = 0x37 then types 3
         else if c = 0x38 then types 4 else if c = 0x43 then types 5 else Inl ERR_SYNTAX)"

fun parse_options :: "(byte list \<Rightarrow> dir_options \<Rightarrow> nat + dir_options) \<Rightarrow> byte list list \<Rightarrow> dir_options \<Rightarrow> nat + dir_options" where
  "parse_options f [] opt = Inr opt"
| "parse_options f (p # ps) opt = (case f p opt of Inl e \<Rightarrow> Inl e | Inr opt' \<Rightarrow> parse_options f ps opt')"

section \<open>The name of a file to open\<close>

datatype file_access = Access_Not_Set | Access_Read | Access_Write | Access_Append
datatype file_type = Type_Any | Type_Prg | Type_Seq | Type_Usr | Type_Rel | Type_Folder

record open_request =
  or_file :: filename
  or_replace :: bool
  or_filetype :: file_type
  or_access :: file_access
  or_dir_opt :: dir_options
  or_record_size :: u16
  or_buffers :: nat

text \<open>What follows the name; \<open>L\<close> comes first, and takes the part behind it.\<close>

fun open_modifiers :: "bool \<Rightarrow> byte list list \<Rightarrow> open_request \<Rightarrow> nat + open_request" where
  "open_modifiers is_first [] o' = Inr o'"
| "open_modifiers is_first (x # xs) o' =
     (let c = first x
      in if c = 0x52 \<or> c = 0x4D then open_modifiers False xs (o'\<lparr>or_access := Access_Read\<rparr>)
         else if c = 0x57 then open_modifiers False xs (o'\<lparr>or_access := Access_Write\<rparr>)
         else if c = 0x41 then open_modifiers False xs (o'\<lparr>or_access := Access_Append\<rparr>)
         else if c = 0x50 then open_modifiers False xs (o'\<lparr>or_filetype := Type_Prg\<rparr>)
         else if c = 0x53 then open_modifiers False xs (o'\<lparr>or_filetype := Type_Seq\<rparr>)
         else if c = 0x55 then open_modifiers False xs (o'\<lparr>or_filetype := Type_Usr\<rparr>)
         else if c = 0x4C \<and> is_first
         then open_modifiers False (tl xs) (o'\<lparr>or_filetype := Type_Rel,
                or_record_size := (if xs = [] then or_record_size o' else ucast (first (hd xs)))\<rparr>)
         else Inl ERR_SYNTAX)"

definition blank_request :: open_request where
  "blank_request =
     \<lparr>or_file = \<lparr>fn_partition = - 1, fn_path = [], fn_name = [], fn_wildcard = False\<rparr>, or_replace = False,
      or_filetype = Type_Any, or_access = Access_Not_Set, or_dir_opt = dir_options_init, or_record_size = 0, or_buffers = 0\<rparr>"

definition rename_file :: "byte list \<Rightarrow> open_request \<Rightarrow> open_request" where
  "rename_file name o' = o'\<lparr>or_file := (or_file o')\<lparr>fn_name := name\<rparr>\<rparr>"

text \<open>The name in front of \<open>,L,\<close> and the one byte behind it, if the string ends so.\<close>

fun find_rel :: "byte list \<Rightarrow> (byte list \<times> byte list) option" where
  "find_rel (a # b # c # s) =
     (if a = comma \<and> b = 0x4C \<and> c = comma then Some ([], s)
      else map_option (\<lambda>(n, r). (a # n, r)) (find_rel (b # c # s)))"
| "find_rel _ = None"

definition open_buffer :: "byte list \<Rightarrow> nat + open_request" where
  "open_buffer buf =
     (let n = (if length buf = 3 \<and> buf ! 1 = 0x23 \<and> isdigit (buf ! 2) then unat (buf ! 2) - 48 else 0)
      in case parse_full_path (tl buf) False True of
           Inl e \<Rightarrow> Inl e
         | Inr (f, _) \<Rightarrow>
             Inr (blank_request\<lparr>or_file := f, or_buffers := n, or_dir_opt := dir_options_init\<lparr>do_stream := Stream_Buffer\<rparr>\<rparr>))"

text \<open>Two bytes behind the equals sign are skipped, so a name that ends there is read behind its end: \<open>None\<close>.\<close>

definition open_dir :: "byte list \<Rightarrow> (nat + open_request) option" where
  "open_dir buf =
     (let eq = (first (tl buf) = equals); kind = first (drop 2 buf);
          opt = dir_options_init\<lparr>do_stream := (if eq \<and> kind = 0x50 then Stream_Partitions else Stream_Dir),
            do_timefmt := (if eq \<and> kind = 0x54 then Stamp_Short else Stamp_None)\<rparr>
      in if eq \<and> length buf < 3 then None
         else Some (case parse_full_path (if eq then drop 3 buf else tl buf) True True of
                Inl e \<Rightarrow> Inl e
              | Inr (f, at) \<Rightarrow>
                  let o' = blank_request\<lparr>or_file := f, or_replace := at, or_dir_opt := opt\<rparr>
                  in case split_once equals (fn_name f) of
                       None \<Rightarrow> Inr o'
                     | Some (name, rest) \<Rightarrow>
                         (case parse_options (if do_stream opt = Stream_Partitions then parse_partition_option else parse_dir_option)
                                 (split_max comma rest 6) opt of
                            Inl e \<Rightarrow> Inl e
                          | Inr opt' \<Rightarrow> Inr (rename_file name (o'\<lparr>or_dir_opt := opt'\<rparr>)))))"

definition open_file :: "byte list \<Rightarrow> nat + open_request" where
  "open_file buf =
     (let rel = (case find_rel buf of Some (n, [r]) \<Rightarrow> Some (n, r) | _ \<Rightarrow> None)
      in case parse_full_path (case rel of Some (n, _) \<Rightarrow> n | None \<Rightarrow> buf) True False of
           Inl e \<Rightarrow> Inl e
         | Inr (f, at) \<Rightarrow>
             let o' = blank_request\<lparr>or_file := f, or_replace := at\<rparr>;
                 parts = split_max comma (fn_name f) 3
             in case (case rel of
                        Some (_, r) \<Rightarrow> Inr (o'\<lparr>or_filetype := Type_Rel, or_record_size := ucast r\<rparr>)
                      | None \<Rightarrow> open_modifiers True (tl parts) (rename_file (hd parts) o')) of
                  Inl e \<Rightarrow> Inl e
                | Inr o2 \<Rightarrow>
                    if or_replace o2 \<and> first (fn_name (or_file o2)) = shifted_space then Inl ERR_REPLACE_TYPE
                    else if contains_any (fn_name (or_file o2)) [comma, equals, colon, 0x0D] then Inl ERR_ILLEGAL_NAME
                    else Inr o2)"

definition parse_open :: "byte list \<Rightarrow> (nat + open_request) option" where
  "parse_open buf =
     (if first buf = 0x23 then Some (open_buffer buf)
      else if first buf = 0x24 then open_dir buf
      else Some (open_file buf))"

section \<open>A date as a listing shows it\<close>

definition two_digits :: "nat \<Rightarrow> byte list" where
  "two_digits n = [0x30 + of_nat (n div 10), 0x30 + of_nat (n mod 10)]"

definition cbmdos_time :: "u32 \<Rightarrow> bool \<Rightarrow> byte list" where
  "cbmdos_time dt longfmt =
     (let y = 1980 + unat (drop_bit 25 dt); M = unat (drop_bit 21 dt AND 15); D = unat (drop_bit 16 dt AND 31);
          h = unat (drop_bit 11 dt AND 31); m = unat (drop_bit 5 dt AND 63);
          h12 = (if h mod 12 = 0 then 12 else h mod 12); x = (if h \<ge> 12 then 0x50 else 0x41)
      in if longfmt
         then two_digits M @ slash # two_digits D @ slash # two_digits (y mod 100) @ [space, space, space] @
           two_digits h12 @ dot # two_digits m @ [space, x, 0x4D]
         else two_digits M @ slash # two_digits D @ space # two_digits h12 @ dot # two_digits m @ [space, x])"

end
