(* ===== verification/Cbmdos_Clock.thy ===== *)
theory Cbmdos_Clock
  imports Cbmdos_Path
begin

text \<open>
  The clock of a drive, \<^verbatim>\<open>software/io/iec/cbmdos_parser.cc\<close>: the four forms in which it is set and read, and
  the seconds by which it differs from the clock of the system.  Divisions truncate as in C.
\<close>

section \<open>The calendar\<close>

record clock_time =
  ct_wd :: int
  ct_year :: int
  ct_month :: int
  ct_day :: int
  ct_hour :: int
  ct_min :: int
  ct_sec :: int

definition c_weekday_4 :: "byte list list" where
  "c_weekday_4 = map ascii [''SUN.'', ''MON.'', ''TUES'', ''WED.'', ''THUR'', ''FRI.'', ''SAT.'']"

definition c_weekday_3 :: "byte list list" where
  "c_weekday_3 = map ascii [''SUN'', ''MON'', ''TUE'', ''WED'', ''THU'', ''FRI'', ''SAT'']"

definition CLOCK_FIRST_YEAR :: int where "CLOCK_FIRST_YEAR = 1980"
definition CLOCK_LAST_YEAR :: int where "CLOCK_LAST_YEAR = 2079"

definition bcdbyte :: "int \<Rightarrow> byte" where
  "bcdbyte a = (if a > 99 then 0x99 else of_int (push_bit 4 (a sdiv 10) OR (a smod 10)))"

text \<open>A field of decimal digits, or -1.\<close>

definition clock_field :: "byte list \<Rightarrow> int" where
  "clock_field p = (if list_all isdigit p then digits_value p else - 1)"

definition clock_bcd :: "byte \<Rightarrow> int" where
  "clock_bcd b = (if b AND 0x0F > 9 \<or> drop_bit 4 b > 9 then - 1 else uint (drop_bit 4 b) * 10 + uint (b AND 0x0F))"

definition clock_year_of :: "int \<Rightarrow> int" where
  "clock_year_of two_digit = (if two_digit < 80 then 2000 + two_digit else 1900 + two_digit)"

definition month_days :: "int list" where
  "month_days = [31, 28, 31, 30, 31, 30, 31, 31, 30, 31, 30, 31]"

definition clock_days_in_month :: "int \<Rightarrow> int \<Rightarrow> int" where
  "clock_days_in_month year month =
     (if month = 2 \<and> year smod 4 = 0 \<and> (year smod 100 \<noteq> 0 \<or> year smod 400 = 0) then 29 else month_days ! nat (month - 1))"

definition clock_day_of_week :: "int \<Rightarrow> int \<Rightarrow> int \<Rightarrow> int" where
  "clock_day_of_week year month day =
     (let y = (if month < 3 then year - 1 else year); d = day + (if month < 3 then year else year - 2)
      in (23 * month sdiv 9 + d + 4 + y sdiv 4 - y sdiv 100 + y sdiv 400) smod 7)"

definition clock_time_valid :: "clock_time \<Rightarrow> bool" where
  "clock_time_valid t \<longleftrightarrow> CLOCK_FIRST_YEAR \<le> ct_year t \<and> ct_year t \<le> CLOCK_LAST_YEAR \<and>
     1 \<le> ct_month t \<and> ct_month t \<le> 12 \<and>
     1 \<le> ct_day t \<and> ct_day t \<le> clock_days_in_month (ct_year t) (ct_month t) \<and>
     0 \<le> ct_wd t \<and> ct_wd t \<le> 6 \<and> 0 \<le> ct_hour t \<and> ct_hour t \<le> 23 \<and>
     0 \<le> ct_min t \<and> ct_min t \<le> 59 \<and> 0 \<le> ct_sec t \<and> ct_sec t \<le> 59"

text \<open>Seconds since the first of March of the year 0, and back.\<close>

definition day_of_year :: "int \<Rightarrow> int \<Rightarrow> int" where
  "day_of_year month day = (153 * (month + (if month > 2 then - 3 else 9)) + 2) sdiv 5 + day - 1"

definition clock_seconds :: "int \<Rightarrow> int \<Rightarrow> int \<Rightarrow> int \<Rightarrow> int \<Rightarrow> int \<Rightarrow> int" where
  "clock_seconds year month day hour min' sec =
     (let y = year - (if month \<le> 2 then 1 else 0);
          era = y sdiv 400;
          yoe = y - era * 400;
          doe = yoe * 365 + yoe sdiv 4 - yoe sdiv 100 + day_of_year month day;
          days = era * 146097 + doe
      in days * 86400 + (hour * 60 + min') * 60 + sec)"

definition clock_from_seconds :: "int \<Rightarrow> clock_time" where
  "clock_from_seconds seconds =
     (let days = seconds sdiv 86400;
          rest = seconds - days * 86400;
          era = days sdiv 146097;
          doe = days - era * 146097;
          yoe = (doe - doe sdiv 1460 + doe sdiv 36524 - doe sdiv 146096) sdiv 365;
          doy = doe - (365 * yoe + yoe sdiv 4 - yoe sdiv 100);
          mp = (5 * doy + 2) sdiv 153;
          day = doy - (153 * mp + 2) sdiv 5 + 1;
          month = (if mp < 10 then mp + 3 else mp - 9);
          year = yoe + era * 400 + (if month \<le> 2 then 1 else 0)
      in \<lparr>ct_wd = clock_day_of_week year month day, ct_year = year, ct_month = month, ct_day = day,
          ct_hour = rest sdiv 3600, ct_min = (rest sdiv 60) smod 60, ct_sec = rest smod 60\<rparr>)"

definition clock_count :: "clock_time \<Rightarrow> int" where
  "clock_count t = clock_seconds (ct_year t) (ct_month t) (ct_day t) (ct_hour t) (ct_min t) (ct_sec t)"

section \<open>Setting the clock\<close>

text \<open>The bytes behind the letter of the form; every index stays below the length that was checked.\<close>

definition write_ascii :: "byte list \<Rightarrow> clock_time option" where
  "write_ascii p =
     (let f = (\<lambda>i. clock_field (take 2 (drop i p)));
          wd = length (takeWhile (\<lambda>w. take 2 w \<noteq> take 2 p) c_weekday_4);
          t = \<lparr>ct_wd = int wd, ct_year = clock_year_of (f 11), ct_month = f 5, ct_day = f 8, ct_hour = f 14, ct_min = f 17,
               ct_sec = f 20\<rparr>
      in if length p \<noteq> 22 \<and> length p \<noteq> 25 then None
         else if wd = 7 \<or> p ! 4 \<noteq> space \<or> p ! 7 \<noteq> slash \<or> p ! 10 \<noteq> slash \<or> p ! 13 \<noteq> space \<or> p ! 16 \<noteq> colon \<or> p ! 19 \<noteq> colon then None
         else if f 5 < 0 \<or> f 8 < 0 \<or> f 11 < 0 \<or> f 14 < 0 \<or> f 17 < 0 \<or> f 20 < 0 then None
         else if length p = 22 then Some t
         else if p ! 22 \<noteq> space \<or> p ! 24 \<noteq> 0x4D \<or> p ! 23 \<noteq> 0x41 \<and> p ! 23 \<noteq> 0x50 then None
         else Some (t\<lparr>ct_hour := (if f 14 = 12 then 0 else f 14) + (if p ! 23 = 0x50 then 12 else 0)\<rparr>))"

definition write_fields :: "bool \<Rightarrow> byte list \<Rightarrow> clock_time option" where
  "write_fields bcd p =
     (let g = (\<lambda>i. if bcd then clock_bcd (p ! i) else uint (p ! i))
      in if length p < 8 then None
         else if g 1 < 0 \<or> g 4 < 0 then None
         else Some \<lparr>ct_wd = g 0, ct_year = clock_year_of (g 1), ct_month = g 2, ct_day = g 3,
                ct_hour = (if g 4 = 12 then 0 else g 4) + (if p ! 7 \<noteq> 0 then 12 else 0), ct_min = g 5, ct_sec = g 6\<rparr>)"

definition write_iso :: "byte list \<Rightarrow> clock_time option" where
  "write_iso p =
     (let f = (\<lambda>i n. clock_field (take n (drop i p))); year = f 0 4; month = f 5 2; day = f 8 2
      in if length p \<noteq> 19 \<and> (length p \<noteq> 23 \<or> p ! 19 \<noteq> space) then None
         else if p ! 4 \<noteq> 0x2D \<or> p ! 7 \<noteq> 0x2D \<or> p ! 10 \<noteq> 0x54 \<or> p ! 13 \<noteq> colon \<or> p ! 16 \<noteq> colon then None
         else if year < CLOCK_FIRST_YEAR \<or> year > CLOCK_LAST_YEAR \<or> month < 1 \<or> month > 12 then None
         else Some \<lparr>ct_wd = clock_day_of_week year month day, ct_year = year, ct_month = month, ct_day = day,
                ct_hour = f 11 2, ct_min = f 14 2, ct_sec = f 17 2\<rparr>)"

text \<open>The command up to its length, at least four bytes.\<close>

definition parse_clock_write :: "byte list \<Rightarrow> nat + clock_time" where
  "parse_clock_write cmd =
     (let p = drop 4 cmd; form = cmd ! 3;
          t = (if form = 0x41 then write_ascii p
               else if form = 0x42 then write_fields True p
               else if form = 0x44 then write_fields False p
               else if form = 0x49 then write_iso p
               else None)
      in case t of None \<Rightarrow> Inl ERR_SYNTAX | Some t \<Rightarrow> if clock_time_valid t then Inr t else Inl ERR_SYNTAX)"

section \<open>Reading the clock\<close>

text \<open>\<open>%02d\<close> and \<open>%04d\<close>, of the numbers a clock shows.\<close>

definition decimal2 :: "int \<Rightarrow> byte list" where
  "decimal2 n = [0x30 + of_int (n div 10), 0x30 + of_int (n mod 10)]"

definition decimal4 :: "int \<Rightarrow> byte list" where
  "decimal4 n = decimal2 (n div 100) @ decimal2 (n mod 100)"

text \<open>What the drive's clock shows, given the system clock and the offset.\<close>

definition drive_time :: "clock_time \<Rightarrow> int \<Rightarrow> clock_time" where
  "drive_time now offset =
     (if offset = 0 then now else clock_from_seconds (clock_count now + offset))"

definition hour12 :: "clock_time \<Rightarrow> int" where
  "hour12 t = (if ct_hour t smod 12 = 0 then 12 else ct_hour t smod 12)"

definition read_ascii :: "clock_time \<Rightarrow> byte list" where
  "read_ascii t = c_weekday_4 ! nat (ct_wd t) @ space # decimal2 (ct_month t) @ slash # decimal2 (ct_day t) @ slash #
     decimal2 (ct_year t smod 100) @ space # decimal2 (hour12 t) @ colon # decimal2 (ct_min t) @ colon # decimal2 (ct_sec t) @
     [space, (if ct_hour t \<ge> 12 then 0x50 else 0x41), 0x4D, 0x0D]"

definition read_fields :: "bool \<Rightarrow> clock_time \<Rightarrow> byte list" where
  "read_fields bcd t =
     (let g = (\<lambda>n. if bcd then bcdbyte n else of_int n)
      in [of_int (ct_wd t), if bcd then bcdbyte (ct_year t smod 100) else of_int (ct_year t - 1900), g (ct_month t), g (ct_day t),
          g (hour12 t), g (ct_min t), g (ct_sec t), if ct_hour t \<ge> 12 then 1 else 0, 0x0D])"

definition read_iso :: "clock_time \<Rightarrow> byte list" where
  "read_iso t = decimal4 (ct_year t) @ 0x2D # decimal2 (ct_month t) @ 0x2D # decimal2 (ct_day t) @ 0x54 # decimal2 (ct_hour t) @
     colon # decimal2 (ct_min t) @ colon # decimal2 (ct_sec t) @ space # c_weekday_3 ! nat (ct_wd t) @ [0x0D]"

text \<open>The answer to a form letter.\<close>

definition clock_read :: "byte \<Rightarrow> clock_time \<Rightarrow> byte list option" where
  "clock_read form t =
     (if form = 0x41 then Some (read_ascii t)
      else if form = 0x44 then Some (read_fields False t)
      else if form = 0x42 then Some (read_fields True t)
      else if form = 0x49 then Some (read_iso t)
      else None)"

end
