(* ===== verification/Clock_Correct.thy ===== *)
theory Clock_Correct
  imports Cbmdos_Clock
begin

text \<open>
  The calendar of the drive's clock: seconds and dates are converted into each other exactly, the day of the
  week follows the days, and a time that was set in any of the four forms is the time that is read.
\<close>

section \<open>Division\<close>

lemma sdiv_nonneg [simp]: "0 \<le> a \<Longrightarrow> a sdiv numeral k = a div (numeral k :: int)"
  by (cases "a = 0") (simp_all add: signed_divide_int_def)

lemma smod_nonneg [simp]: "0 \<le> a \<Longrightarrow> a smod numeral k = a mod (numeral k :: int)"
  by (cases "a = 0") (simp_all add: signed_modulo_int_def minus_div_mult_eq_mod)

section \<open>The year within four centuries\<close>

definition year_start :: "int \<Rightarrow> int" where
  "year_start yoe = yoe * 365 + yoe div 4 - yoe div 100"

definition year_last :: "int \<Rightarrow> int" where
  "year_last yoe = (if yoe = 399 then 146096 else year_start (yoe + 1) - 1)"

definition day_count :: "int \<Rightarrow> int" where
  "day_count doe = doe - doe div 1460 + doe div 36524 - doe div 146096"

lemma day_count_step:
  assumes "0 \<le> d" "d < 146096"
  shows "day_count d \<le> day_count (d + 1)"
proof (cases "d = 146095")
  case False
  have "(d + 1) div 146096 = 0" "d div 146096 = 0" by (rule div_pos_pos_trivial; use assms False in linarith)+
  moreover have "(d + 1) div 1460 \<le> d div 1460 + 1" using zdiv_mono1 [of "d + 1" "d + 1460" 1460] by simp
  moreover have "d div 36524 \<le> (d + 1) div 36524" by (rule zdiv_mono1) simp_all
  ultimately show ?thesis unfolding day_count_def by linarith
next
  case True
  show ?thesis unfolding True by (simp add: day_count_def)
qed

lemma day_count_mono:
  assumes "0 \<le> d" "d \<le> e" "e \<le> 146096"
  shows "day_count d \<le> day_count e"
proof -
  have "day_count d \<le> day_count (d + int k)" if "d + int k \<le> 146096" for k
    using that
  proof (induction k)
    case (Suc k)
    then have "day_count (d + int k) \<le> day_count (d + int k + 1)" using assms(1) by (intro day_count_step) simp_all
    then show ?case using Suc by (simp add: add.assoc add.commute [of 1])
  qed simp
  from this [of "nat (e - d)"] show ?thesis using assms by simp
qed

lemma year_ends: "yoe \<in> {0..399} \<Longrightarrow> day_count (year_start yoe) div 365 = yoe \<and> day_count (year_last yoe) div 365 = yoe"
proof -
  assume y: "yoe \<in> {0..399}"
  have "list_all (\<lambda>yoe. day_count (year_start yoe) div 365 = yoe \<and> day_count (year_last yoe) div 365 = yoe) [0..399]"
    by code_simp
  then show ?thesis using y by (simp only: list_all_iff set_upto)
qed

lemma year_of_day:
  assumes "yoe \<in> {0..399}" "year_start yoe \<le> d" "d \<le> year_last yoe"
  shows "day_count d div 365 = yoe"
proof -
  have b: "0 \<le> year_start yoe" "year_last yoe \<le> 146096"
    using assms(1) by (auto simp: year_start_def year_last_def)
  have "day_count (year_start yoe) div 365 \<le> day_count d div 365"
    by (rule zdiv_mono1 [OF day_count_mono]) (use assms b in simp_all)
  moreover have "day_count d div 365 \<le> day_count (year_last yoe) div 365"
    by (rule zdiv_mono1 [OF day_count_mono]) (use assms b in simp_all)
  ultimately show ?thesis using year_ends [OF assms(1)] by simp
qed

section \<open>The month within a year from March\<close>

definition march_month :: "int \<Rightarrow> int" where
  "march_month month = month + (if month > 2 then - 3 else 9)"

lemma month_cases:
  "1 \<le> (m :: int) \<Longrightarrow> m \<le> 12 \<Longrightarrow> m \<in> {1, 2, 3, 4, 5, 6, 7, 8, 9, 10, 11, 12}"
  unfolding insert_iff empty_iff by presburger

lemma month_of_day:
  assumes "1 \<le> month" "month \<le> 12" "1 \<le> day" "day \<le> clock_days_in_month year month"
  defines "doy \<equiv> day_of_year month day"
  shows "0 \<le> doy" "(5 * doy + 2) div 153 = march_month month"
    "doy - (153 * march_month month + 2) div 5 + 1 = day" "doy \<le> 365" "doy = 365 \<Longrightarrow> month = 2 \<and> day = 29"
  using month_cases [OF assms(1,2)] assms(3,4) unfolding doy_def
  by (auto simp: day_of_year_def march_month_def clock_days_in_month_def month_days_def split: if_splits)

section \<open>Dates and seconds\<close>

definition right_time :: "clock_time \<Rightarrow> bool" where
  "right_time t \<longleftrightarrow> clock_time_valid t \<and> ct_wd t = clock_day_of_week (ct_year t) (ct_month t) (ct_day t)"

text \<open>The years counted from March, split into eras of four centuries.\<close>

definition march_year :: "clock_time \<Rightarrow> int" where
  "march_year t = ct_year t - (if ct_month t \<le> 2 then 1 else 0)"

lemma div_split: "0 \<le> r \<Longrightarrow> r < k \<Longrightarrow> (q * k + r) div k = (q :: int)"
  by (simp add: div_pos_pos_trivial)

lemma div_next: "0 < k \<Longrightarrow> (a + 1) mod k \<noteq> 0 \<Longrightarrow> (a + 1) div k = a div (k :: int)"
proof -
  assume k: "0 < k" "(a + 1) mod k \<noteq> 0"
  have r: "0 \<le> (a + 1) mod k - 1" "(a + 1) mod k - 1 < k"
    using k pos_mod_sign [of k "a + 1"] pos_mod_bound [of k "a + 1"] by linarith+
  have "a = ((a + 1) mod k - 1) + k * ((a + 1) div k)" using mult_div_mod_eq [of k "a + 1"] by linarith
  then have "a div k = (((a + 1) mod k - 1) + k * ((a + 1) div k)) div k" by simp
  also have "\<dots> = (a + 1) div k" using k(1) r by (simp add: div_pos_pos_trivial)
  finally show ?thesis by simp
qed

lemma div_next_four: "(a + 1) mod 4 = 0 \<Longrightarrow> (a + 1) div 4 = a div 4 + (1 :: int)"
  by presburger

lemma leap_year_start:
  assumes "year mod 4 = 0" "year mod 100 \<noteq> 0 \<or> year mod 400 = 0" "yoe = (year - 1) mod 400"
  shows "year_last yoe = year_start yoe + 365"
proof (cases "yoe = 399")
  case False
  have b: "0 \<le> yoe" "yoe < 400" unfolding assms(3) by simp_all
  have "(yoe + 1) mod 400 = year mod 400" unfolding assms(3) by (simp add: mod_simps)
  then have y: "yoe + 1 = year mod 400" using b False by simp
  then have "(yoe + 1) mod 4 = 0" using assms(1) by (simp add: mod_mod_cancel)
  then have 1: "(yoe + 1) div 4 = yoe div 4 + 1" by (rule div_next_four)
  have "year mod 400 \<noteq> 0" using y b by linarith
  then have "(yoe + 1) mod 100 \<noteq> 0" using assms(2) y by (simp add: mod_mod_cancel)
  then have "(yoe + 1) div 100 = yoe div 100" by (intro div_next) simp_all
  then show ?thesis using 1 False by (simp add: year_last_def year_start_def)
qed (simp add: year_last_def year_start_def)

lemma common_year_last:
  assumes "0 \<le> yoe" "yoe \<le> 399"
  shows "year_start yoe + 364 \<le> year_last yoe"
proof -
  have 1: "yoe div 4 \<le> (yoe + 1) div 4" by (rule zdiv_mono1) simp_all
  have 2: "(yoe + 1) div 100 \<le> yoe div 100 + 1" using zdiv_mono1 [of "yoe + 1" "yoe + 100" 100] by simp
  have "(yoe + 1) div 100 - yoe div 100 \<le> (yoe + 1) div 4 - yoe div 4"
  proof (cases "(yoe + 1) mod 100 = 0")
    case True
    then have "(yoe + 1) mod 100 mod 4 = 0" by simp
    then have "(yoe + 1) mod 4 = 0" by (simp add: mod_mod_cancel)
    then show ?thesis using div_next_four 2 by simp
  next
    case False
    then show ?thesis using div_next [of 100 yoe] 1 by simp
  qed
  then show ?thesis by (simp add: year_last_def year_start_def)
qed

lemma valid_date:
  assumes "clock_time_valid t"
  defines "yoe \<equiv> march_year t mod 400" and "doy \<equiv> day_of_year (ct_month t) (ct_day t)"
  shows "0 \<le> doy" "year_start yoe + doy \<le> year_last yoe" "0 \<le> yoe" "yoe \<le> 399"
proof -
  note v = assms(1) [unfolded clock_time_valid_def CLOCK_FIRST_YEAR_def]
  have m: "1 \<le> ct_month t" "ct_month t \<le> 12" "1 \<le> ct_day t" "ct_day t \<le> clock_days_in_month (ct_year t) (ct_month t)" using v by blast+
  note d = month_of_day [OF m, folded doy_def]
  show "0 \<le> doy" by (rule d(1))
  show y: "0 \<le> yoe" "yoe \<le> 399" unfolding yoe_def using pos_mod_bound [of 400 "march_year t"] by simp_all
  show "year_start yoe + doy \<le> year_last yoe"
  proof (cases "doy = 365")
    case True
    then have f: "ct_month t = 2" "ct_day t = 29" using d(5) by blast+
    have "0 \<le> ct_year t" using v by linarith
    then have "ct_year t mod 4 = 0" "ct_year t mod 100 \<noteq> 0 \<or> ct_year t mod 400 = 0"
      using m(4) f by (auto simp: clock_days_in_month_def month_days_def split: if_splits)
    moreover have "yoe = (ct_year t - 1) mod 400" using f by (simp add: yoe_def march_year_def)
    ultimately show ?thesis using leap_year_start True by simp
  next
    case False
    then show ?thesis using d(4) common_year_last [OF y] by linarith
  qed
qed

lemma clock_count_valid:
  assumes "clock_time_valid t"
  shows "clock_count t = ((march_year t div 400) * 146097 + year_start (march_year t mod 400) + day_of_year (ct_month t) (ct_day t)) * 86400 +
    (ct_hour t * 60 + ct_min t) * 60 + ct_sec t" "0 \<le> clock_count t"
proof -
  have y: "0 \<le> march_year t" using assms by (simp add: clock_time_valid_def march_year_def CLOCK_FIRST_YEAR_def)
  then have yoe: "march_year t - march_year t div 400 * 400 = march_year t mod 400" by (simp add: minus_div_mult_eq_mod)
  have yn: "0 \<le> march_year t mod 400" by simp
  have e: "clock_count t =
      (march_year t sdiv 400 * 146097 + ((march_year t - march_year t sdiv 400 * 400) * 365 + (march_year t - march_year t sdiv 400 * 400) sdiv 4 -
        (march_year t - march_year t sdiv 400 * 400) sdiv 100 + day_of_year (ct_month t) (ct_day t))) * 86400 +
      (ct_hour t * 60 + ct_min t) * 60 + ct_sec t"
    by (simp only: clock_count_def clock_seconds_def Let_def march_year_def)
  show c: "clock_count t = ((march_year t div 400) * 146097 + year_start (march_year t mod 400) + day_of_year (ct_month t) (ct_day t)) * 86400 +
      (ct_hour t * 60 + ct_min t) * 60 + ct_sec t"
    unfolding e sdiv_nonneg [OF y] yoe sdiv_nonneg [OF yn] year_start_def by simp
  have "0 \<le> march_year t div 400" using y by (simp add: pos_imp_zdiv_nonneg_iff)
  moreover have "0 \<le> year_start (march_year t mod 400)" by (simp add: year_start_def)
  moreover have "0 \<le> ct_hour t" "0 \<le> ct_min t" "0 \<le> ct_sec t" using assms by (simp_all add: clock_time_valid_def)
  ultimately show "0 \<le> clock_count t" unfolding c using valid_date(1) [OF assms] by simp
qed

lemma clock_roundtrip:
  assumes "right_time t"
  shows "clock_from_seconds (clock_count t) = t"
proof -
  have v: "clock_time_valid t" using assms by (simp add: right_time_def)
  note v' = v [unfolded clock_time_valid_def]
  define yoe where "yoe = march_year t mod 400"
  define era where "era = march_year t div 400"
  define doy where "doy = day_of_year (ct_month t) (ct_day t)"
  define doe where "doe = year_start yoe + doy"
  define r where "r = (ct_hour t * 60 + ct_min t) * 60 + ct_sec t"
  note d = valid_date [OF v, folded yoe_def doy_def]
  have y0: "0 \<le> march_year t" using v' by (auto simp: march_year_def CLOCK_FIRST_YEAR_def)
  then have era: "0 \<le> era" "march_year t = yoe + era * 400" by (simp_all add: era_def yoe_def pos_imp_zdiv_nonneg_iff)
  have ys: "0 \<le> year_start yoe" "year_last yoe \<le> 146096" using d(3,4) by (auto simp: year_start_def year_last_def)
  have doe: "0 \<le> doe" "doe \<le> 146096" using d ys by (simp_all add: doe_def)
  have r: "0 \<le> r" "r < 86400" using v' by (auto simp: r_def)
  let ?days = "era * 146097 + doe"
  have c: "clock_count t = ?days * 86400 + r"
    using clock_count_valid(1) [OF v] by (simp add: yoe_def era_def doy_def doe_def r_def)
  have days: "0 \<le> ?days" "clock_count t div 86400 = ?days" "clock_count t - ?days * 86400 = r"
    unfolding c by (rule add_nonneg_nonneg mult_nonneg_nonneg era(1) doe(1) div_split r | simp only: add_diff_cancel_left')+
  have "doe < 146097" using doe(2) by linarith
  then have e: "?days div 146097 = era" "?days - era * 146097 = doe" using div_split [OF doe(1)] by (blast, linarith)
  have "yoe \<in> {0..399}" using d(3,4) by simp
  then have Y: "(doe - doe div 1460 + doe div 36524 - doe div 146096) div 365 = yoe"
    using year_of_day [of yoe doe] d(1,2) by (simp add: doe_def day_count_def)
  have pos: "0 \<le> day_count doe" using day_count_mono [of 0 doe] doe by (simp add: day_count_def)
  have D: "doe - (365 * yoe + yoe div 4 - yoe div 100) = doy" by (simp add: doe_def year_start_def)
  have m: "1 \<le> ct_month t" "ct_month t \<le> 12" "1 \<le> ct_day t" "ct_day t \<le> clock_days_in_month (ct_year t) (ct_month t)" using v' by blast+
  note M = month_of_day [OF m, folded doy_def]
  have mp: "0 \<le> march_month (ct_month t)" using m by (simp add: march_month_def)
  have month: "(if march_month (ct_month t) < 10 then march_month (ct_month t) + 3 else march_month (ct_month t) - 9) = ct_month t"
    using m by (simp add: march_month_def)
  have year: "yoe + era * 400 + (if ct_month t \<le> 2 then 1 else 0) = ct_year t" using era(2) by (simp add: march_year_def)
  have split: "0 \<le> b \<Longrightarrow> b \<le> 59 \<Longrightarrow> (a * 60 + b) div 60 = a \<and> (a * 60 + b) mod 60 = (b :: int)" for a b by simp
  have h: "r div 60 = ct_hour t * 60 + ct_min t" "r mod 60 = ct_sec t"
    unfolding r_def using split [of "ct_sec t" "ct_hour t * 60 + ct_min t"] v' by blast+
  have "r div 3600 = (r div 60) div 60" using zdiv_zmult2_eq [of 60 r 60] by simp
  then have time: "r div 3600 = ct_hour t" "(r div 60) mod 60 = ct_min t" "r mod 60 = ct_sec t" "0 \<le> r div 60"
    using h split [of "ct_min t" "ct_hour t"] v' by auto
  have s: "0 \<le> clock_count t" by (rule clock_count_valid(2) [OF v])
  have n1: "0 \<le> 5 * doy + 2" and n2: "0 \<le> 153 * march_month (ct_month t) + 2" using d(1) mp by linarith+
  have pos': "0 \<le> doe - doe div 1460 + doe div 36524 - doe div 146096" using pos by (simp add: day_count_def)
  have "clock_from_seconds (clock_count t) =
      \<lparr>ct_wd = clock_day_of_week (ct_year t) (ct_month t) (ct_day t), ct_year = ct_year t, ct_month = ct_month t, ct_day = ct_day t,
       ct_hour = ct_hour t, ct_min = ct_min t, ct_sec = ct_sec t\<rparr>"
    unfolding clock_from_seconds_def Let_def sdiv_nonneg [OF s] days(2,3) sdiv_nonneg [OF days(1)] e sdiv_nonneg [OF doe(1)]
      sdiv_nonneg [OF pos'] Y sdiv_nonneg [OF d(3)] D sdiv_nonneg [OF n1] M(2) sdiv_nonneg [OF n2] month M(3) year
      sdiv_nonneg [OF r(1)] smod_nonneg [OF time(4)] smod_nonneg [OF r(1)] time(1-3) ..
  then show ?thesis using assms by (simp add: right_time_def)
qed

section \<open>The day of the week\<close>

text \<open>The first of March of the year 0 was a Wednesday.\<close>

lemma mod_seven_step: "(a + 7 * b) mod 7 = a mod (7 :: int)"
  by simp

lemma week_of_date:
  assumes "clock_time_valid t"
  shows "clock_day_of_week (ct_year t) (ct_month t) (ct_day t) = (clock_count t div 86400 + 3) mod 7"
proof -
  note v = assms [unfolded clock_time_valid_def CLOCK_FIRST_YEAR_def]
  have m: "1 \<le> ct_month t" "ct_month t \<le> 12" "1 \<le> ct_day t" using v by blast+
  define era where "era = march_year t div 400"
  define yoe where "yoe = march_year t mod 400"
  have y: "1979 \<le> march_year t" "march_year t = yoe + era * 400" using v by (auto simp: march_year_def era_def yoe_def)
  have b: "0 \<le> yoe" "yoe < 400" by (simp_all add: yoe_def)
  have "march_year t div 4 = yoe div 4 + 100 * era"
    unfolding y(2) using div_mult_self1 [of 4 yoe "100 * era"] by (simp add: algebra_simps)
  moreover have "march_year t div 100 = yoe div 100 + 4 * era"
    unfolding y(2) using div_mult_self1 [of 100 yoe "4 * era"] by (simp add: algebra_simps)
  moreover have "march_year t div 400 = era" by (simp add: era_def)
  ultimately have yy: "march_year t div 4 - march_year t div 100 + march_year t div 400 = yoe div 4 - yoe div 100 + 97 * era" by simp
  have time: "0 \<le> (ct_hour t * 60 + ct_min t) * 60 + ct_sec t" "(ct_hour t * 60 + ct_min t) * 60 + ct_sec t < 86400"
    using v by auto
  have days: "clock_count t div 86400 = era * 146097 + year_start yoe + day_of_year (ct_month t) (ct_day t)"
    unfolding clock_count_valid(1) [OF assms] using div_split [OF time] by (simp only: era_def yoe_def add.assoc)
  define a where "a = 23 * ct_month t div 9 + (ct_day t + (if ct_month t < 3 then ct_year t else ct_year t - 2)) + 4"
  have "7 dvd march_year t + day_of_year (ct_month t) (ct_day t) + 3 - a"
    using month_cases [OF m(1,2)] m(3) by (auto simp: day_of_year_def march_year_def a_def)
  then obtain k where k: "march_year t + day_of_year (ct_month t) (ct_day t) + 3 = a + 7 * k" unfolding dvd_def by (metis diff_add_cancel add.commute)
  have "clock_count t div 86400 + 3 = a + (march_year t div 4 - march_year t div 100 + march_year t div 400) +
      7 * (20800 * era + 52 * yoe + k)"
  proof -
    obtain p where p: "p = yoe div 4 - yoe div 100" by blast
    show ?thesis unfolding days yy year_start_def using k y(2) unfolding add_diff_eq [symmetric] p [symmetric] by (simp add: algebra_simps)
  qed
  then have "(clock_count t div 86400 + 3) mod 7 = (a + (march_year t div 4 - march_year t div 100 + march_year t div 400)) mod 7"
    by (simp only: mod_seven_step)
  moreover have "clock_day_of_week (ct_year t) (ct_month t) (ct_day t) =
      (a + (march_year t div 4 - march_year t div 100 + march_year t div 400)) mod 7"
  proof -
    have my: "march_year t = (if ct_month t < 3 then ct_year t - 1 else ct_year t)" by (simp add: march_year_def)
    have pos: "0 \<le> march_year t" "0 \<le> 23 * ct_month t" using y(1) m by linarith+
    have "march_year t div 100 \<le> march_year t div 4" by (rule zdiv_mono2) (use pos in simp_all)
    moreover have "0 \<le> march_year t div 400" "0 \<le> 23 * ct_month t div 9" using pos by (simp_all add: pos_imp_zdiv_nonneg_iff)
    ultimately have "0 \<le> a + (march_year t div 4 - march_year t div 100 + march_year t div 400)"
      unfolding a_def using y(1) m my by (simp split: if_splits)
    moreover have "clock_day_of_week (ct_year t) (ct_month t) (ct_day t) =
        (a + (march_year t div 4 - march_year t div 100 + march_year t div 400)) smod 7"
      unfolding clock_day_of_week_def Let_def my [symmetric] sdiv_nonneg [OF pos(1)] sdiv_nonneg [OF pos(2)] a_def
      by (simp only: algebra_simps)
    ultimately show ?thesis by (simp only: smod_nonneg)
  qed
  ultimately show ?thesis by simp
qed

end
