(* ===== verification/Cbmdos_Command.thy ===== *)
theory Cbmdos_Command
  imports Cbmdos_Clock "HOL-Library.Monad_Syntax"
begin

text \<open>
  The commands a Commodore sends to a drive, \<open>IecParser\<close> of \<^verbatim>\<open>software/io/iec/cbmdos_parser.cc\<close>.  The drive
  that executes them is \<open>IecCommandExecuter\<close> of the header; a command ends in at most one call of it, which
  is the answer of the model, with \<open>Done\<close> where nothing is called and \<open>Error\<close> for an error code.  The
  buffer is the whole array behind the command of length \<open>len\<close>; \<open>None\<close> is an access outside of it.
\<close>

section \<open>Calls\<close>

datatype call =
    Block_Read int int int int bool
  | Block_Write int int int int bool
  | Block_Allocate int int int bool
  | Buffer_Position int int
  | Set_Current_Partition int
  | Change_Dir filename
  | Make_Dir filename
  | Remove_Dir filename
  | Copy_Files filename "filename list"
  | Initialize
  | Initialize_Buffers
  | Reset bool
  | Format filename "byte list"
  | Rename filename filename
  | Scratch "filename list"
  | Cmd_Response "byte list"
  | Set_Position int u32 int int
  | Pwd_Command
  | Get_Partition_Info int
  | Set_Device_Number int
  | Restore_Device_Number
  | Set_Write_Protect bool
  | Set_Clock_Offset int
  | Toggle_Attributes filename byte
  | Set_Attributes "filename list" byte byte
  | Set_Header filename "byte list"
  | Rename_Partition "byte list" "byte list"

datatype answer = Error nat | Done | Call call

definition IEC_ATTR_LOCKED :: byte where "IEC_ATTR_LOCKED = 0x01"
definition IEC_ATTR_HIDDEN :: byte where "IEC_ATTR_HIDDEN = 0x02"
definition IEC_ATTR_ARCHIVE :: byte where "IEC_ATTR_ARCHIVE = 0x04"

definition CBMDOS_COMMAND_BUFFER_SIZE :: nat where "CBMDOS_COMMAND_BUFFER_SIZE = 254"

section \<open>Strings of a buffer\<close>

text \<open>\<open>mstring(k, from, to)\<close> with \<open>n = 1 + to - from\<close>: up to \<open>n\<close> bytes, or fewer at a NUL.\<close>

definition substring :: "byte list \<Rightarrow> nat \<Rightarrow> int \<Rightarrow> byte list option" where
  "substring buf from' n =
     (if n < 0 \<or> length buf < from' then None
      else let s = take (nat n) (drop from' buf)
           in if length s = nat n \<or> 0 \<in> set s then Some (takeWhile (\<lambda>c. c \<noteq> 0) s) else None)"

text \<open>The command word is skipped, whatever its letters are.\<close>

definition behind_word :: "byte list \<Rightarrow> nat \<Rightarrow> byte list option" where
  "behind_word buf len =
     (let k = length (takeWhile isalpha buf)
      in if k = length buf then None else substring buf k (int len - int k))"

section \<open>Block commands\<close>

definition is_block_parameter_separator :: "byte \<Rightarrow> bool \<Rightarrow> bool" where
  "is_block_parameter_separator c before_first \<longleftrightarrow> c = space \<or> c = comma \<or> c = 0x1D \<or> before_first \<and> c = colon"

fun block_parameters :: "nat \<Rightarrow> bool \<Rightarrow> byte list \<Rightarrow> int list" where
  "block_parameters 0 before_first ps = []"
| "block_parameters (Suc n) before_first ps =
     (let s = dropWhile (\<lambda>c. is_block_parameter_separator c before_first) ps; ds = takeWhile isdigit s
      in if ds = [] then [] else int (capped_number ds) # block_parameters n False (dropWhile isdigit s))"

definition parse_block_parameters :: "byte list \<Rightarrow> nat \<Rightarrow> int list" where
  "parse_block_parameters params n = block_parameters n True params"

definition block_call :: "byte \<Rightarrow> byte list \<Rightarrow> answer" where
  "block_call letter params =
     (if letter = 0x52 \<or> letter = 0x57
      then (case parse_block_parameters params 4 of
              [a, b, c, d] \<Rightarrow> Call (if letter = 0x52 then Block_Read a b c d True else Block_Write a b c d True)
            | _ \<Rightarrow> Error ERR_SYNTAX)
      else if letter = 0x50
      then (case parse_block_parameters params 3 of
              [a, b] \<Rightarrow> Call (Buffer_Position a (b AND 0xFF))
            | [a, b, c] \<Rightarrow> Call (Buffer_Position a (b + push_bit 8 c))
            | _ \<Rightarrow> Error ERR_SYNTAX)
      else if letter = 0x41 \<or> letter = 0x46
      then (case parse_block_parameters params 4 of
              a # b # c # _ \<Rightarrow> Call (Block_Allocate a b c (letter = 0x41))
            | _ \<Rightarrow> Error ERR_SYNTAX)
      else Error ERR_SYNTAX)"

definition block_command :: "byte list \<Rightarrow> answer" where
  "block_command cmd =
     (let r = dropWhile isalpha (tl cmd)
      in case r of
           d # letter # s \<Rightarrow> if d \<noteq> 0x2D then Error ERR_SYNTAX else block_call letter (dropWhile isalpha s)
         | _ \<Rightarrow> Error ERR_SYNTAX)"

definition cp_command :: "byte list \<Rightarrow> nat \<Rightarrow> answer option" where
  "cp_command buf len =
     do { b1 \<leftarrow> peek buf 1;
          if bit b1 7
          then if len < 3 then Some (Error ERR_SYNTAX)
               else do { p \<leftarrow> peek buf 2; Some (Call (Set_Current_Partition (uint p))) }
          else case parse_block_parameters (drop 2 (take len buf)) 1 of
                 [p] \<Rightarrow> Some (Call (Set_Current_Partition p))
               | _ \<Rightarrow> Some (Call (Set_Current_Partition 0)) }"

section \<open>Names\<close>

text \<open>A path without \<open>@\<close> in front.\<close>

definition parse_name :: "byte list \<Rightarrow> bool \<Rightarrow> nat + filename" where
  "parse_name buf path_only = (case parse_full_path buf False path_only of Inl e \<Rightarrow> Inl e | Inr (f, _) \<Rightarrow> Inr f)"

fun parse_names :: "byte list list \<Rightarrow> nat + filename list" where
  "parse_names [] = Inr []"
| "parse_names (p # ps) =
     (case parse_name p False of
        Inl e \<Rightarrow> Inl e
      | Inr f \<Rightarrow> (case parse_names ps of Inl e \<Rightarrow> Inl e | Inr fs \<Rightarrow> Inr (f # fs)))"

definition parse_name_list :: "byte list \<Rightarrow> nat + filename list" where
  "parse_name_list buf = parse_names (split_all comma buf)"

definition answer_of :: "('a \<Rightarrow> call) \<Rightarrow> nat + 'a \<Rightarrow> answer" where
  "answer_of f r = (case r of Inl e \<Rightarrow> Error e | Inr x \<Rightarrow> Call (f x))"

text \<open>What a name must be like for the three directory commands.\<close>

definition dir_refused :: "byte \<Rightarrow> byte list \<Rightarrow> bool" where
  "dir_refused kind cmd =
     (if kind = 0x4D then colon \<notin> set cmd \<or> first (tl (dropWhile (\<lambda>c. c \<noteq> colon) cmd)) = shifted_space
      else if kind = 0x52
      then slash \<in> set cmd \<or> first (dropWhile (\<lambda>c. c = space \<or> isdigit c) cmd) \<noteq> colon
      else False)"

definition dir_call :: "byte \<Rightarrow> byte list \<Rightarrow> answer" where
  "dir_call kind cmd =
     (if dir_refused kind cmd then Error ERR_NO_NAME
      else case parse_name cmd True of
             Inl e \<Rightarrow> Error e
           | Inr dest \<Rightarrow>
               if kind \<noteq> 0x43 \<and> fn_name dest = [] then Error ERR_NO_NAME
               else if kind = 0x4D \<and> (fn_wildcard dest \<or> last (fn_name dest) = dot \<or> last (fn_name dest) = space)
               then Error ERR_ILLEGAL_NAME
               else if kind = 0x43 then Call (Change_Dir dest)
               else if kind = 0x4D then Call (Make_Dir dest)
               else if kind = 0x52 then Call (Remove_Dir dest)
               else Error ERR_SYNTAX)"

definition dir_command :: "byte list \<Rightarrow> nat \<Rightarrow> answer option" where
  "dir_command buf len =
     do { b1 \<leftarrow> peek buf 1;
          if b1 \<noteq> 0x44 then Some (Error ERR_SYNTAX)
          else do { kind \<leftarrow> peek buf 0; cmd \<leftarrow> substring buf 2 (int len - 2); Some (dir_call kind cmd) } }"

definition copy_call :: "byte list \<Rightarrow> answer" where
  "copy_call cmd =
     (case split_once equals cmd of
        None \<Rightarrow> Error ERR_SYNTAX
      | Some (name, rest) \<Rightarrow>
          (case parse_name name False of
             Inl e \<Rightarrow> Error e
           | Inr dest \<Rightarrow>
               if fn_wildcard dest then Error ERR_ILLEGAL_NAME else answer_of (Copy_Files dest) (parse_name_list rest)))"

definition copy_command :: "byte list \<Rightarrow> nat \<Rightarrow> answer option" where
  "copy_command buf len = map_option copy_call (behind_word buf len)"

definition get_command :: "byte list \<Rightarrow> nat \<Rightarrow> answer option" where
  "get_command buf len =
     do { b1 \<leftarrow> peek buf 1;
          if b1 \<noteq> 0x2D then Some (Error ERR_SYNTAX)
          else do { b2 \<leftarrow> peek buf 2;
                    if b2 \<noteq> 0x50 then Some (Error ERR_SYNTAX)
                    else if len = 4
                    then do { w \<leftarrow> peek buf 3; Some (Call (Get_Partition_Info (if w = 255 then - 1 else uint w))) }
                    else if len = 3 then Some (Call (Get_Partition_Info (- 1)))
                    else Some (Error ERR_SYNTAX) } }"

definition initialize_command :: answer where
  "initialize_command = Call Initialize_Buffers"

text \<open>A name and what follows its first comma.\<close>

definition name_and_id :: "byte list \<Rightarrow> nat + filename \<times> byte list" where
  "name_and_id arg =
     (case parse_name arg False of
        Inl e \<Rightarrow> Inl e
      | Inr f \<Rightarrow>
          (case (case split_once comma (fn_name f) of None \<Rightarrow> (f, []) | Some (n, i) \<Rightarrow> (f\<lparr>fn_name := n\<rparr>, i)) of
             (f', i) \<Rightarrow> if fn_name f' = [] then Inl ERR_NO_NAME else Inr (f', i)))"

definition format_call :: "byte list \<Rightarrow> answer" where
  "format_call cmd =
     (if colon \<notin> set cmd then Error ERR_NO_NAME else answer_of (\<lambda>(f, i). Format f i) (name_and_id cmd))"

definition format_command :: "byte list \<Rightarrow> nat \<Rightarrow> answer option" where
  "format_command buf len = map_option format_call (substring buf 1 (int len - 1))"

text \<open>The bytes of a position, the lowest first.\<close>

fun position_bytes :: "byte list \<Rightarrow> u32" where
  "position_bytes [] = 0"
| "position_bytes (b # bs) = ucast b OR push_bit 8 (position_bytes bs)"

definition position_command :: "byte list \<Rightarrow> nat \<Rightarrow> nat \<Rightarrow> answer option" where
  "position_command buf len stripped_len =
     do { chan \<leftarrow> peek buf 1;
          if len < 3 then Some (Error ERR_SYNTAX)
          else do { b0 \<leftarrow> peek buf 2;
                    b1 \<leftarrow> (if len \<ge> 4 then peek buf 3 else Some 0);
                    b2 \<leftarrow> (if len \<ge> 5 then peek buf 4 else Some 0);
                    Some (Call (Set_Position (uint chan) (position_bytes (take (min 4 (stripped_len - 2)) (drop 2 buf)))
                      (uint b0 OR push_bit 8 (uint b1)) (uint b2))) } }"

definition rename_call :: "byte list \<Rightarrow> answer" where
  "rename_call cmd =
     (case split_once equals cmd of
        None \<Rightarrow> Error ERR_SYNTAX
      | Some (name, rest) \<Rightarrow>
          (case parse_name name False of
             Inl e \<Rightarrow> Error e
           | Inr dest \<Rightarrow>
               (case parse_name rest False of
                  Inl e \<Rightarrow> Error e
                | Inr src \<Rightarrow>
                    if fn_wildcard dest then Error ERR_ILLEGAL_NAME
                    else if first (fn_name dest) = shifted_space then Error ERR_NO_NAME
                    else Call (Rename src dest))))"

definition rename_command :: "byte list \<Rightarrow> nat \<Rightarrow> answer option" where
  "rename_command buf len = map_option rename_call (behind_word buf len)"

definition header_command :: "byte list \<Rightarrow> answer" where
  "header_command arg =
     (if colon \<notin> set arg then Error ERR_NO_NAME
      else case name_and_id arg of
             Inl e \<Rightarrow> Error e
           | Inr (f, i) \<Rightarrow> if contains_any (fn_name f) [quest, star] then Error ERR_ILLEGAL_NAME else Call (Set_Header f i))"

definition rename_partition_call :: "byte list \<Rightarrow> answer" where
  "rename_partition_call cmd =
     (case split_once equals cmd of
        None \<Rightarrow> Error ERR_SYNTAX
      | Some (name, rest) \<Rightarrow>
          let newname = (if first name = colon then tl name else name)
          in if newname = [] \<or> rest = [] then Error ERR_NO_NAME else Call (Rename_Partition newname rest))"

definition rename_dashed_command :: "byte list \<Rightarrow> nat \<Rightarrow> answer option" where
  "rename_dashed_command buf len =
     do { cmd \<leftarrow> substring buf 3 (int len - 3);
          b2 \<leftarrow> peek buf 2;
          Some (if b2 = 0x50 then rename_partition_call cmd else if b2 = 0x48 then header_command cmd else Error ERR_SYNTAX) }"

definition scratch_command :: "byte list \<Rightarrow> nat \<Rightarrow> answer option" where
  "scratch_command buf len = map_option (\<lambda>cmd. answer_of Scratch (parse_name_list cmd)) (behind_word buf len)"

definition swap_command :: "byte list \<Rightarrow> answer option" where
  "swap_command buf =
     do { b2 \<leftarrow> peek buf 2;
          Some (if b2 = 0x38 then Call (Set_Device_Number 8) else if b2 = 0x39 then Call (Set_Device_Number 9)
                else if b2 = 0x44 then Call Restore_Device_Number else Error ERR_SYNTAX) }"

definition lock_command :: "byte list \<Rightarrow> nat \<Rightarrow> answer option" where
  "lock_command buf len =
     map_option (\<lambda>cmd. answer_of (\<lambda>f. Toggle_Attributes f IEC_ATTR_LOCKED) (parse_name cmd False)) (substring buf 1 (int len - 1))"

section \<open>Attributes\<close>

fun attribute_letters :: "byte list \<Rightarrow> byte \<Rightarrow> byte option" where
  "attribute_letters [] a = Some a"
| "attribute_letters (c # cs) a =
     (if c = 0x52 then attribute_letters cs (a OR IEC_ATTR_LOCKED)
      else if c = 0x48 then attribute_letters cs (a OR IEC_ATTR_HIDDEN)
      else if c = 0x41 then attribute_letters cs (a OR IEC_ATTR_ARCHIVE)
      else None)"

definition attribute_call :: "byte list \<Rightarrow> answer" where
  "attribute_call arg =
     (case split_once equals arg of
        None \<Rightarrow> Error ERR_UNKNOWN_CMD
      | Some (letters, rest) \<Rightarrow>
          (case attribute_letters letters 0 of
             None \<Rightarrow> Error ERR_SYNTAX
           | Some a \<Rightarrow>
               answer_of (\<lambda>fs. Set_Attributes fs a (IEC_ATTR_LOCKED OR IEC_ATTR_HIDDEN OR IEC_ATTR_ARCHIVE)) (parse_name_list rest)))"

definition hide_call :: "byte list \<Rightarrow> answer" where
  "hide_call arg =
     (if first (dropWhile (\<lambda>c. c = space \<or> isdigit c) arg) = colon then header_command arg
      else answer_of (\<lambda>f. Toggle_Attributes f IEC_ATTR_HIDDEN) (parse_name arg False))"

definition attribute_command :: "byte list \<Rightarrow> nat \<Rightarrow> answer option" where
  "attribute_command buf len =
     do { cmd \<leftarrow> substring buf 0 (int len);
          kind \<leftarrow> peek buf 0;
          b1 \<leftarrow> peek buf 1;
          let arg2 = (if length cmd < 2 then None else Some (drop 2 cmd));
          if kind = 0x41
          then if b1 \<noteq> colon then Some (Error ERR_UNKNOWN_CMD) else map_option attribute_call arg2
          else if kind = 0x44
          then if b1 \<noteq> colon then Some (Error ERR_SYNTAX)
               else if cmd = [] then None else Some (header_command (tl cmd))
          else if kind \<noteq> 0x45 \<and> kind \<noteq> 0x58 then Some (Error ERR_SYNTAX)
          else if b1 = 0x4C \<or> b1 = 0x55
          then if kind = 0x58 then Some (Error ERR_SYNTAX)
               else map_option (\<lambda>arg. answer_of (\<lambda>fs. Set_Attributes fs (if b1 = 0x4C then IEC_ATTR_LOCKED else 0) IEC_ATTR_LOCKED)
                      (parse_name_list arg)) arg2
          else if b1 = 0x48
          then if kind = 0x58 then (if len = 3 then Some (Error ERR_SYNTAX) else map_option header_command arg2)
               else map_option hide_call arg2
          else if b1 = 0x50 \<and> cmd = [0x58, 0x50, 0x57, 0x44] then Some (Call Pwd_Command)
          else Some (Error ERR_SYNTAX) }"

section \<open>Memory and clock\<close>

definition memory_command :: "byte list \<Rightarrow> nat \<Rightarrow> answer option" where
  "memory_command buf len =
     do { b2 \<leftarrow> peek buf 2;
          if b2 = 0x52
          then if len < 5 then Some (Error ERR_SYNTAX)
               else do { b5 \<leftarrow> (if len \<ge> 6 then peek buf 5 else Some 1);
                         b3 \<leftarrow> peek buf 3;
                         let n = (if b5 = 0 then 256 else unat b5);
                         Some (Call (Cmd_Response (replicate (min n (256 - unat b3)) 0))) }
          else if b2 = 0x45 then Some (Error ERR_UNKNOWN_DRIVECODE)
          else if b2 = 0x57 \<and> len \<ge> 7
          then do { b3 \<leftarrow> peek buf 3; b4 \<leftarrow> peek buf 4; b5 \<leftarrow> peek buf 5; b6 \<leftarrow> peek buf 6;
                    let dev = uint (b6 AND 0x1F);
                    Some (if b3 = 0x77 \<and> b4 = 0 \<and> b5 \<noteq> 0 \<and> 8 \<le> dev \<and> dev \<le> 30 then Call (Set_Device_Number dev)
                          else Error ERR_SYNTAX) }
          else Some (Error ERR_SYNTAX) }"

text \<open>The system clock and the offset of the drive are read first.\<close>

definition time_command :: "clock_time \<Rightarrow> int \<Rightarrow> byte list \<Rightarrow> nat \<Rightarrow> answer option" where
  "time_command now offset buf len =
     do { b1 \<leftarrow> peek buf 1;
          if b1 \<noteq> 0x2D then Some (Error ERR_SYNTAX)
          else do { b2 \<leftarrow> peek buf 2;
                    if b2 = 0x52
                    then if len \<noteq> 4 then Some (Error ERR_SYNTAX)
                         else do { form \<leftarrow> peek buf 3;
                                   Some (case clock_read form (drive_time now offset) of
                                           None \<Rightarrow> Error ERR_SYNTAX
                                         | Some s \<Rightarrow> Call (Cmd_Response s)) }
                    else if b2 = 0x57
                    then if len < 4 then Some (Error ERR_SYNTAX)
                         else if length buf < len then None
                         else Some (answer_of (\<lambda>t. Set_Clock_Offset (clock_count t - clock_count now)) (parse_clock_write (take len buf)))
                    else Some (Error ERR_SYNTAX) } }"

section \<open>User commands\<close>

definition user_block :: "(int \<Rightarrow> int \<Rightarrow> int \<Rightarrow> int \<Rightarrow> bool \<Rightarrow> call) \<Rightarrow> byte list \<Rightarrow> answer" where
  "user_block f params =
     (case parse_block_parameters params 4 of [a, b, c, d] \<Rightarrow> Call (f a b c d False) | _ \<Rightarrow> Error ERR_SYNTAX)"

definition user_command :: "byte list \<Rightarrow> nat \<Rightarrow> answer option" where
  "user_command buf len =
     do { b1 \<leftarrow> peek buf 1;
          let params = drop 2 (take len buf);
          Some (if b1 = 0x31 \<or> b1 = 0x41 then user_block Block_Read params
                else if b1 = 0x32 \<or> b1 = 0x42 then user_block Block_Write params
                else if b1 = 0x39 \<or> b1 = 0x49
                then (if first params = 0x2B \<or> first params = 0x2D then Done else Call Initialize)
                else if b1 = colon \<or> b1 = 0x4A then Call (Reset False)
                else if b1 = 0xCA then Call (Reset True)
                else if b1 = 0x30
                then (case params of
                        [a, d] \<Rightarrow> if a AND 0x1F = 0x1E \<and> 8 \<le> d \<and> d \<le> 30 then Call (Set_Device_Number (uint d)) else Error ERR_SYNTAX
                      | _ \<Rightarrow> Error ERR_SYNTAX)
                else Error ERR_SYNTAX) }"

section \<open>A command\<close>

definition strip_terminator :: "byte list \<Rightarrow> nat \<Rightarrow> nat" where
  "strip_terminator buf len =
     (if len > 1 \<and> buf ! 0 = 0x43 \<and> buf ! 1 = 0xD0 then len
      else if len = 4 \<and> take 3 buf = [0x55, 0x30, 0x3E] then len
      else if len > 0 \<and> buf ! (len - 1) = 0x0D then len - 1
      else if len > 2 \<and> buf ! (len - 2) = 0x0D \<and> buf ! (len - 1) = 0x0A then len - 2
      else len)"

definition dispatch :: "clock_time \<Rightarrow> int \<Rightarrow> byte list \<Rightarrow> nat \<Rightarrow> nat \<Rightarrow> answer option" where
  "dispatch now offset buf original_len len =
     do { b0 \<leftarrow> peek buf 0;
          b1 \<leftarrow> peek buf 1;
          if b0 = 0x42 then Some (block_command (take len buf))
          else if b0 = 0x43
          then if b1 = 0x44 then dir_command buf len
               else if b1 = 0x50 \<or> b1 = 0xD0 then cp_command buf len
               else copy_command buf len
          else if b0 = 0x47 then get_command buf len
          else if b0 = 0x49 then Some initialize_command
          else if b0 = 0x4D then (if b1 = 0x2D then memory_command buf len else dir_command buf len)
          else if b0 = 0x4E then format_command buf len
          else if b0 = 0x50 then position_command buf original_len len
          else if b0 = 0x52
          then if b1 = 0x44 then dir_command buf len
               else if len > 2 \<and> b1 = 0x2D then rename_dashed_command buf len
               else rename_command buf len
          else if b0 = 0x53 then (if len = 3 \<and> b1 = 0x2D then swap_command buf else scratch_command buf len)
          else if b0 = 0x54 then time_command now offset buf len
          else if b0 = 0x57
          then if len = 3 \<and> b1 = 0x2D
               then do { b2 \<leftarrow> peek buf 2;
                         Some (if b2 = 0x30 \<or> b2 = 0x31 then Call (Set_Write_Protect (b2 = 0x31)) else Error ERR_SYNTAX) }
               else Some (Error ERR_SYNTAX)
          else if b0 = 0x55 then user_command buf len
          else if b0 \<in> {0x41, 0x44, 0x45, 0x58} then attribute_command buf len
          else if b0 = 0x4C then lock_command buf len
          else Some (Error ERR_UNKNOWN_CMD) }"

definition execute_command :: "clock_time \<Rightarrow> int \<Rightarrow> byte list \<Rightarrow> nat \<Rightarrow> answer option" where
  "execute_command now offset buf len =
     (if len \<ge> CBMDOS_COMMAND_BUFFER_SIZE then Some (Error ERR_CMD_TOO_LONG)
      else if length buf < len then None
      else let n = strip_terminator buf len
           in if n = 0 then Some (Error ERR_UNKNOWN_CMD) else dispatch now offset buf len n)"

end
