(* ===== verification/Clock_Forms.thy ===== *)
theory Clock_Forms
  imports Clock_Correct Cbmdos_Command
begin

text \<open>
  The four forms of the drive's clock: a time that was set is the time that is read.
\<close>

section \<open>Fields\<close>

lemma int_list_all: "list_all P [a..b] \<Longrightarrow> a \<le> n \<Longrightarrow> n \<le> b \<Longrightarrow> P n"
  by (simp add: list_all_iff)

lemma clock_field_decimal2: "0 \<le> n \<Longrightarrow> n \<le> 99 \<Longrightarrow> clock_field (decimal2 n) = n"
  by (rule int_list_all [where a = 0 and b = 99]) (code_simp, assumption+)

lemma clock_field_decimal4: "1980 \<le> n \<Longrightarrow> n \<le> 2079 \<Longrightarrow> clock_field (decimal4 n) = n"
  by (rule int_list_all [where a = 1980 and b = 2079]) (code_simp, assumption+)

lemma clock_bcd_byte: "0 \<le> n \<Longrightarrow> n \<le> 99 \<Longrightarrow> clock_bcd (bcdbyte n) = n"
  by (rule int_list_all [where a = 0 and b = 99]) (code_simp, assumption+)

lemma clock_bcd_small: "0 \<le> n \<Longrightarrow> n \<le> 6 \<Longrightarrow> clock_bcd (of_int n) = n"
  by (rule int_list_all [where a = 0 and b = 6]) (code_simp, assumption+)

lemma uint_byte: "0 \<le> n \<Longrightarrow> n \<le> 255 \<Longrightarrow> uint (of_int n :: byte) = n"
  by (simp add: unsigned_of_int take_bit_int_eq_self)

lemma length_decimal [simp]: "length (decimal2 n) = 2" "length (decimal4 n) = 4"
  by (simp_all add: decimal2_def decimal4_def)

lemma mod_split: "0 \<le> r \<Longrightarrow> r < k \<Longrightarrow> n = q * k + r \<Longrightarrow> n mod k = (r :: int)"
  by simp

lemma two_digit_year:
  assumes "1980 \<le> y" "y \<le> 2079"
  shows "clock_year_of (y mod 100) = y" "0 \<le> y mod 100" "y mod 100 \<le> 99"
proof -
  have "y mod 100 = (if y < 2000 then y - 1900 else y - 2000)"
    by (rule mod_split [where q = "if y < 2000 then 19 else 20"]) (use assms in auto)
  then show "clock_year_of (y mod 100) = y" "0 \<le> y mod 100" "y mod 100 \<le> 99"
    using assms by (auto simp: clock_year_of_def)
qed

lemma hour12_back:
  assumes "0 \<le> ct_hour t" "ct_hour t \<le> 23"
  shows "(if hour12 t = 12 then 0 else hour12 t) + (if 12 \<le> ct_hour t then 12 else 0) = ct_hour t" "0 \<le> hour12 t" "hour12 t \<le> 12"
proof -
  have "ct_hour t mod 12 = (if 12 \<le> ct_hour t then ct_hour t - 12 else ct_hour t)"
    by (rule mod_split [where q = "if 12 \<le> ct_hour t then 1 else 0"]) (use assms in auto)
  then show "(if hour12 t = 12 then 0 else hour12 t) + (if 12 \<le> ct_hour t then 12 else 0) = ct_hour t" "0 \<le> hour12 t" "hour12 t \<le> 12"
    using assms by (auto simp: hour12_def)
qed

section \<open>Written and read\<close>

lemma weekday_found:
  assumes "0 \<le> w" "w \<le> 6"
  shows "length (takeWhile (\<lambda>v. take 2 v \<noteq> take 2 (c_weekday_4 ! nat w)) c_weekday_4) = nat w" "length (c_weekday_4 ! nat w) = 4"
    "length (c_weekday_3 ! nat w) = 3"
  by (rule int_list_all [where a = 0 and b = 6 and n = w]; (code_simp | rule assms))+

lemma fields:
  assumes "right_time t"
  shows "1980 \<le> ct_year t" "ct_year t \<le> 2079" "1 \<le> ct_month t" "ct_month t \<le> 12" "1 \<le> ct_day t" "ct_day t \<le> 31"
    "0 \<le> ct_wd t" "ct_wd t \<le> 6" "0 \<le> ct_hour t" "ct_hour t \<le> 23" "0 \<le> ct_min t" "ct_min t \<le> 59" "0 \<le> ct_sec t" "ct_sec t \<le> 59"
proof -
  have v: "clock_time_valid t" using assms by (simp add: right_time_def)
  then show r: "1980 \<le> ct_year t" "ct_year t \<le> 2079" "1 \<le> ct_month t" "ct_month t \<le> 12" "1 \<le> ct_day t"
    "0 \<le> ct_wd t" "ct_wd t \<le> 6" "0 \<le> ct_hour t" "ct_hour t \<le> 23" "0 \<le> ct_min t" "ct_min t \<le> 59" "0 \<le> ct_sec t" "ct_sec t \<le> 59"
    unfolding clock_time_valid_def CLOCK_FIRST_YEAR_def CLOCK_LAST_YEAR_def by blast+
  have "ct_day t \<le> clock_days_in_month (ct_year t) (ct_month t)" using v unfolding clock_time_valid_def by blast
  then show "ct_day t \<le> 31"
    using month_cases [OF r(3,4)] by (auto simp: clock_days_in_month_def month_days_def split: if_splits)
qed

lemma clock_time_fields:
  "ct_hour t = h \<Longrightarrow>
   \<lparr>ct_wd = ct_wd t, ct_year = ct_year t, ct_month = ct_month t, ct_day = ct_day t, ct_hour = h, ct_min = ct_min t, ct_sec = ct_sec t\<rparr> = t"
  by (cases t) simp

lemma half_of_day [simp]:
  "((if p then 1 else 0 :: byte) = 0) = (\<not> p)" "((if p then 0x50 else 0x41 :: byte) = 0x50) = p" "((if p then 0x50 else 0x41 :: byte) = 0x41) = (\<not> p)"
  by simp_all

lemma half_of_day_byte:
  "(if p then 1 else 0 :: byte) \<noteq> 0x0D" "(if p then 1 else 0 :: byte) \<noteq> 0x0A"
  by simp_all

lemma write_fields_back:
  assumes "right_time t"
  shows "write_fields bcd (butlast (read_fields bcd t)) = Some t"
proof -
  note f = fields [OF assms]
  note h = hour12_back [OF f(9,10)]
  have c: "clock_year_of (ct_year t - 1900) = ct_year t" using f(1) by (simp add: clock_year_of_def)
  have y0: "0 \<le> ct_year t" using f(1) by linarith
  note y = two_digit_year [OF f(1,2), folded smod_nonneg [OF y0]]
  show ?thesis
  proof (cases bcd)
    case True
    then show ?thesis using f h(2,3) y clock_time_fields [OF h(1) [symmetric]]
      by (simp add: write_fields_def read_fields_def Let_def clock_bcd_byte clock_bcd_small del: smod_nonneg split del: if_split cong del: if_weak_cong)
  next
    case False
    have "uint (of_int (ct_year t - 1900) :: byte) = ct_year t - 1900" using f by (intro uint_byte) simp_all
    then show ?thesis using False f h(2,3) c clock_time_fields [OF h(1) [symmetric]]
      by (simp add: write_fields_def read_fields_def Let_def uint_byte del: of_int_diff split del: if_split cong del: if_weak_cong)
  qed
qed

lemma write_iso_back:
  assumes "right_time t"
  shows "write_iso (butlast (read_iso t)) = Some t"
proof -
  note f = fields [OF assms]
  show ?thesis using f assms weekday_found(3) [OF f(7,8)]
    by (simp add: write_iso_def read_iso_def butlast_append nth_append Let_def clock_field_decimal2 clock_field_decimal4
      right_time_def CLOCK_FIRST_YEAR_def CLOCK_LAST_YEAR_def)
qed

lemma write_ascii_back:
  assumes "right_time t"
  shows "write_ascii (butlast (read_ascii t)) = Some t"
proof -
  note f = fields [OF assms]
  note h = hour12_back [OF f(9,10)]
  have y0: "0 \<le> ct_year t" using f(1) by linarith
  note y = two_digit_year [OF f(1,2), folded smod_nonneg [OF y0]]
  have w: "(nat (ct_wd t) = 7) = False" "int (nat (ct_wd t)) = ct_wd t" using f(7,8) by auto
  show ?thesis
    using f h(2,3) y weekday_found(1,2) [OF f(7,8)] clock_time_fields [OF h(1) [symmetric]]
    by (simp add: w write_ascii_def read_ascii_def butlast_append nth_append Let_def clock_field_decimal2 del: smod_nonneg split del: if_split cong del: if_weak_cong)
qed

section \<open>The commands\<close>

lemma right_drive_time:
  assumes "right_time t" "right_time now"
  shows "drive_time now (clock_count t - clock_count now) = t"
proof (cases "clock_count t = clock_count now")
  case True
  then have "t = now" using clock_roundtrip [OF assms(1)] clock_roundtrip [OF assms(2)] by argo
  then show ?thesis by (simp add: drive_time_def)
next
  case False
  have "clock_count now + (clock_count t - clock_count now) = clock_count t" by linarith
  then show ?thesis using clock_roundtrip [OF assms(1)] False unfolding drive_time_def by (simp only: right_minus_eq if_False)
qed

text \<open>The answers are short, and without their carriage return they do not end in a terminator.\<close>

lemma weekday_names:
  assumes "0 \<le> w" "w \<le> 6"
  shows "last (c_weekday_3 ! nat w) \<noteq> 0x0D" "last (c_weekday_3 ! nat w) \<noteq> 0x0A" "c_weekday_3 ! nat w \<noteq> []"
  by (rule int_list_all [where a = 0 and b = 6 and n = w]; (code_simp | rule assms))+

lemma clock_read_cases:
  assumes "clock_read form t = Some s"
  obtains "form = 0x41" "s = read_ascii t" | "form = 0x44" "s = read_fields False t" | "form = 0x42" "s = read_fields True t"
    | "form = 0x49" "s = read_iso t"
  using assms by (auto simp: clock_read_def split: if_splits)

lemma clock_answer:
  assumes "right_time t" "clock_read form t = Some s"
  shows "length s \<le> 26" "1 < length s" "last (butlast s) \<noteq> 0x0D" "last (butlast s) \<noteq> 0x0A" "s \<noteq> []"
proof -
  note f = fields [OF assms(1)]
  note w = weekday_found(2,3) [OF f(7,8)] weekday_names [OF f(7,8)]
  show "length s \<le> 26" "1 < length s" "last (butlast s) \<noteq> 0x0D" "last (butlast s) \<noteq> 0x0A" "s \<noteq> []"
    using assms(2) w by (auto elim!: clock_read_cases simp: half_of_day_byte read_ascii_def read_fields_def read_iso_def Let_def butlast_append split del: if_split)
qed

lemma clock_write_back:
  assumes "right_time t" "clock_read form t = Some s"
  shows "parse_clock_write (ascii ''T-W'' @ form # butlast s) = Inr t"
proof -
  have v: "clock_time_valid t" using assms(1) by (simp add: right_time_def)
  have "(if form = 0x41 then write_ascii (butlast s) else if form = 0x42 then write_fields True (butlast s)
      else if form = 0x44 then write_fields False (butlast s) else if form = 0x49 then write_iso (butlast s) else None) = Some t"
    using assms(2) write_ascii_back [OF assms(1)] write_fields_back [OF assms(1)] write_iso_back [OF assms(1)]
    by (elim clock_read_cases) simp_all
  then show ?thesis using v by (simp add: parse_clock_write_def ascii_def)
qed

text \<open>C20: Setting the clock of the drive to the time that one of the four forms shows, whatever it is set to at
  the moment, calls for the offset from the system clock at which the drive, asked for the same form, answers
  exactly these bytes.\<close>

theorem clock_set_then_read:
  assumes "right_time t" "right_time now" "clock_read form t = Some s"
  defines "offset \<equiv> clock_count t - clock_count now"
  shows "execute_command now old (ascii ''T-W'' @ form # butlast s) (3 + length s) = Some (Call (Set_Clock_Offset offset)) \<and>
    execute_command now offset (ascii ''T-R'' @ [form]) 4 = Some (Call (Cmd_Response s))"
proof -
  let ?cmd = "ascii ''T-W'' @ form # butlast s"
  note s = clock_answer [OF assms(1,3)]
  obtain u c where u: "butlast s = u @ [c]" "c \<noteq> 0x0D" "c \<noteq> 0x0A" using s by (cases "butlast s" rule: rev_cases) (auto, metis One_nat_def Suc_lessI length_butlast length_greater_0_conv list.size(3) zero_less_diff)
  have n: "length s = length u + 2" using arg_cong [OF u(1), of length] by simp
  have strip: "strip_terminator ?cmd (3 + length s) = 3 + length s" "strip_terminator (ascii ''T-R'' @ [form]) 4 = 4 - (if form = 0x0D then 1 else 0)"
    using u n by (auto simp: strip_terminator_def ascii_def nth_append)
  have form: "form \<noteq> 0x0D" using assms(3) by (auto simp: clock_read_def)
  have "execute_command now old ?cmd (3 + length s) = Some (answer_of (\<lambda>t. Set_Clock_Offset (clock_count t - clock_count now)) (parse_clock_write ?cmd))"
    using s(1) strip(1) n u by (simp add: execute_command_def CBMDOS_COMMAND_BUFFER_SIZE_def dispatch_def time_command_def peek_def ascii_def)
  moreover have "execute_command now offset (ascii ''T-R'' @ [form]) 4 = Some (Call (Cmd_Response s))"
    using strip(2) form assms(3) right_drive_time [OF assms(1,2)]
    by (simp add: offset_def execute_command_def CBMDOS_COMMAND_BUFFER_SIZE_def dispatch_def time_command_def peek_def ascii_def)
  ultimately show ?thesis using clock_write_back [OF assms(1,3)] by (simp add: answer_of_def offset_def)
qed

definition leap_day :: clock_time where
  "leap_day = \<lparr>ct_wd = 4, ct_year = 2024, ct_month = 2, ct_day = 29, ct_hour = 23, ct_min = 59, ct_sec = 30\<rparr>"

definition new_year :: clock_time where
  "new_year = \<lparr>ct_wd = 6, ct_year = 2000, ct_month = 1, ct_day = 1, ct_hour = 0, ct_min = 0, ct_sec = 0\<rparr>"

theorem clock_set_then_read_witness:
  "execute_command new_year 5 (ascii ''T-WATHUR 02/29/24 11:59:30 PM'') 29 = Some (Call (Set_Clock_Offset 762566370)) \<and>
   execute_command new_year 762566370 (ascii ''T-RA'') 4 = Some (Call (Cmd_Response (ascii ''THUR 02/29/24 11:59:30 PM'' @ [0x0D])))"
proof -
  have 1: "right_time leap_day" "right_time new_year" "clock_count leap_day - clock_count new_year = 762566370" by code_simp+
  have 2: "clock_read 0x41 leap_day = Some (ascii ''THUR 02/29/24 11:59:30 PM'' @ [0x0D])" by code_simp
  show ?thesis using clock_set_then_read [OF 1(1,2) 2, of 5] 1(3) by (simp add: ascii_def)
qed

end
