(* ===== verification/Cbmdos_Correct.thy ===== *)
theory Cbmdos_Correct
  imports Cbmdos_Command Clock_Correct
begin

text \<open>
  Every command gets an answer, whatever its bytes are: nothing is read outside the buffer, an error is one
  of the codes of the DOS, and what the drive is called with is what its operations expect.
\<close>

section \<open>Numbers and names\<close>

definition in16 :: "int \<Rightarrow> bool" where
  "in16 n \<longleftrightarrow> 0 \<le> n \<and> n \<le> 0xFFFF"

lemma capped_number_bound: "capped_number ds \<le> 0xFFFF"
  by (cases ds rule: rev_cases) (simp_all add: capped_number_def)

lemma in16_capped [simp]: "in16 (int (capped_number ds))"
  using capped_number_bound [of ds] by (simp add: in16_def)

lemma block_parameters_ok: "list_all in16 (block_parameters n b ps)" "length (block_parameters n b ps) \<le> n"
  by (induction n b ps rule: block_parameters.induct) (simp_all add: Let_def)

definition filename_ok :: "filename \<Rightarrow> bool" where
  "filename_ok f \<longleftrightarrow> - 1 \<le> fn_partition f \<and> fn_partition f \<le> 0xFFFF \<and>
     (fn_path f = [] \<or> hd (fn_path f) \<in> {slash, 0x5F}) \<and> colon \<notin> set (fn_path f) \<and>
     0 \<notin> set (fn_path f) \<and> 0 \<notin> set (fn_name f)"

definition plain_name :: "filename \<Rightarrow> bool" where
  "plain_name f \<longleftrightarrow> filename_ok f \<and> fn_name f \<noteq> [] \<and> \<not> contains_any (fn_name f) [quest, star]"

definition some_name :: "filename \<Rightarrow> bool" where
  "some_name f \<longleftrightarrow> filename_ok f \<and> fn_name f \<noteq> []"

definition names_ok :: "filename list \<Rightarrow> bool" where
  "names_ok fs \<longleftrightarrow> fs \<noteq> [] \<and> list_all some_name fs"

definition text_ok :: "byte list \<Rightarrow> bool" where
  "text_ok s \<longleftrightarrow> 0 \<notin> set s"

fun call_ok :: "call \<Rightarrow> bool" where
  "call_ok (Block_Read a b c d l) = (in16 a \<and> in16 b \<and> in16 c \<and> in16 d)"
| "call_ok (Block_Write a b c d l) = (in16 a \<and> in16 b \<and> in16 c \<and> in16 d)"
| "call_ok (Block_Allocate a b c l) = (in16 a \<and> in16 b \<and> in16 c)"
| "call_ok (Buffer_Position a b) = (in16 a \<and> 0 \<le> b \<and> b \<le> 0xFFFF + 0xFFFF * 256)"
| "call_ok (Set_Current_Partition p) = in16 p"
| "call_ok (Change_Dir f) = filename_ok f"
| "call_ok (Make_Dir f) = plain_name f"
| "call_ok (Remove_Dir f) = some_name f"
| "call_ok (Copy_Files f fs) = (plain_name f \<and> names_ok fs)"
| "call_ok (Format f i) = (some_name f \<and> text_ok i)"
| "call_ok (Rename f g) = (some_name f \<and> plain_name g)"
| "call_ok (Scratch fs) = names_ok fs"
| "call_ok (Cmd_Response s) = (s \<noteq> [] \<and> length s \<le> 256)"
| "call_ok (Set_Position c p r x) = (0 \<le> c \<and> c \<le> 255 \<and> in16 r \<and> 0 \<le> x \<and> x \<le> 255)"
| "call_ok (Get_Partition_Info p) = (- 1 \<le> p \<and> p < 255)"
| "call_ok (Set_Device_Number d) = (8 \<le> d \<and> d \<le> 30)"
| "call_ok (Toggle_Attributes f b) = (some_name f \<and> b \<noteq> 0)"
| "call_ok (Set_Attributes fs a m) = (names_ok fs \<and> a AND m = a)"
| "call_ok (Set_Header f i) = (plain_name f \<and> text_ok i)"
| "call_ok (Rename_Partition n o') = (text_ok n \<and> text_ok o' \<and> n \<noteq> [] \<and> o' \<noteq> [])"
| "call_ok c = True"

definition answer_ok :: "answer \<Rightarrow> bool" where
  "answer_ok a =
     (case a of
        Error e \<Rightarrow> e \<in> {ERR_SYNTAX, ERR_UNKNOWN_CMD, ERR_CMD_TOO_LONG, ERR_ILLEGAL_NAME, ERR_NO_NAME, ERR_UNKNOWN_DRIVECODE}
      | Done \<Rightarrow> True
      | Call c \<Rightarrow> call_ok c)"

definition name_error :: "nat \<Rightarrow> bool" where
  "name_error e \<longleftrightarrow> e = ERR_SYNTAX \<or> e = ERR_NO_NAME"

lemma answer_ok_simps [simp]:
  "answer_ok (Error ERR_SYNTAX)" "answer_ok (Error ERR_UNKNOWN_CMD)" "answer_ok (Error ERR_CMD_TOO_LONG)"
  "answer_ok (Error ERR_ILLEGAL_NAME)" "answer_ok (Error ERR_NO_NAME)" "answer_ok (Error ERR_UNKNOWN_DRIVECODE)"
  "answer_ok Done" "answer_ok (Call c) = call_ok c" "name_error e \<Longrightarrow> answer_ok (Error e)"
  by (auto simp: answer_ok_def name_error_def)

section \<open>Paths\<close>

lemma tl_dropWhile_set: "x \<in> set (tl (dropWhile P s)) \<Longrightarrow> x \<in> set s"
  by (metis list.sel(2) list.set_sel(2) set_dropWhileD)

lemma text_ok_simps [simp]: "text_ok []" "text_ok (x # s) \<longleftrightarrow> x \<noteq> 0 \<and> text_ok s"
  by (auto simp: text_ok_def)

lemma text_ok_parts:
  "text_ok s \<Longrightarrow> text_ok (tl (dropWhile P s))" "text_ok s \<Longrightarrow> text_ok (takeWhile P s)" "text_ok s \<Longrightarrow> text_ok (tl s)"
  "text_ok s \<Longrightarrow> text_ok (dropWhile P s)" "text_ok s \<Longrightarrow> text_ok (drop k s)"
  unfolding text_ok_def
  by (blast dest: tl_dropWhile_set set_takeWhileD set_dropWhileD in_set_dropD list.set_sel(2))
    (blast dest: tl_dropWhile_set set_takeWhileD set_dropWhileD in_set_dropD,
     metis list.sel(2) list.set_sel(2), blast dest: set_dropWhileD, blast dest: in_set_dropD)

lemma split_once_text: "text_ok s \<Longrightarrow> split_once c s = Some (a, b) \<Longrightarrow> text_ok a \<and> text_ok b"
  by (auto simp: split_once_def text_ok_parts split: if_splits)

lemma split_all_text: "text_ok s \<Longrightarrow> list_all text_ok (split_all c s) \<and> split_all c s \<noteq> []"
proof (induction c s rule: split_all.induct)
  case (2 c x s)
  then have x: "x \<noteq> 0" and ih: "list_all text_ok (split_all c s)" "split_all c s \<noteq> []" by auto
  from ih(2) obtain p ps where "split_all c s = p # ps" by (cases "split_all c s") auto
  then show ?case using ih x by auto
qed simp

lemma finish_path_ok:
  assumes "finish_path path_only replace part path name = Inr (f, r)" "text_ok path" "text_ok name"
    "- 1 \<le> part" "part \<le> 0xFFFF" "path = [] \<or> hd path \<in> {slash, 0x5F}" "colon \<notin> set path"
  shows "filename_ok f \<and> (path_only \<or> fn_name f \<noteq> []) \<and> fn_wildcard f = contains_any (fn_name f) [quest, star]"
  using assms by (auto simp: finish_path_def filename_ok_def text_ok_def split: if_splits)

lemma finish_path_error: "finish_path path_only replace part path name = Inl e \<Longrightarrow> name_error e"
  by (auto simp: finish_path_def name_error_def split: if_splits)

lemma parse_full_path_ok:
  assumes "text_ok buf"
  shows "case parse_full_path buf can_replace path_only of
      Inl e \<Rightarrow> name_error e
    | Inr (f, r) \<Rightarrow> filename_ok f \<and> (path_only \<or> fn_name f \<noteq> []) \<and> fn_wildcard f = contains_any (fn_name f) [quest, star]"
proof -
  define at where "at = (first buf = 0x40)"
  define s where "s = dropWhile (\<lambda>c. c = space) (if at then tl buf else buf)"
  define r where "r = dropWhile (\<lambda>c. c = space) (dropWhile isdigit s)"
  define part where "part = (if takeWhile isdigit s = [] then - 1 else int (capped_number (takeWhile isdigit s)))"
  define name where "name = (if colon \<in> set buf then tl (dropWhile (\<lambda>c. c \<noteq> colon) buf) else [])"
  define path where "path = takeWhile (\<lambda>c. c \<noteq> colon) r"
  have "text_ok s" unfolding s_def using assms by (simp add: text_ok_parts)
  then have t: "text_ok r" "text_ok name" unfolding r_def name_def using assms by (simp_all add: text_ok_parts)
  have p: "text_ok path" "colon \<notin> set path" unfolding path_def using t(1) by (simp_all add: text_ok_parts) (metis set_takeWhileD)
  have part: "- 1 \<le> part" "part \<le> 0xFFFF" using capped_number_bound [of "takeWhile isdigit s"] by (simp_all add: part_def)
  have hd: "path = [] \<or> hd path \<in> {slash, 0x5F}" if "first r \<in> {slash, 0x5F}"
    using that by (cases r) (auto simp: path_def first_def)
  have fin: "case finish_path path_only a q x y of
      Inl e \<Rightarrow> name_error e
    | Inr (f, r) \<Rightarrow> filename_ok f \<and> (path_only \<or> fn_name f \<noteq> []) \<and> fn_wildcard f = contains_any (fn_name f) [quest, star]"
    if "text_ok x" "text_ok y" "- 1 \<le> q" "q \<le> 0xFFFF" "x = [] \<or> hd x \<in> {slash, 0x5F}" "colon \<notin> set x" for a q x y
    using finish_path_ok [of path_only a q x y] finish_path_error [of path_only a q x y] that
    by (auto split: sum.split)
  have "parse_full_path buf can_replace path_only \<in>
      {finish_path path_only False (- 1) [] buf, Inl ERR_SYNTAX, finish_path path_only at part [] name} \<union>
      {x. x = finish_path path_only at part path name \<and> first r \<in> {slash, 0x5F}}"
    unfolding parse_full_path_def Let_def at_def [symmetric] s_def [symmetric] r_def [symmetric]
      part_def [symmetric] name_def [symmetric] path_def [symmetric]
    by (simp split: if_split)
  then consider "parse_full_path buf can_replace path_only = finish_path path_only False (- 1) [] buf"
    | "parse_full_path buf can_replace path_only = Inl ERR_SYNTAX"
    | "parse_full_path buf can_replace path_only = finish_path path_only at part [] name"
    | "parse_full_path buf can_replace path_only = finish_path path_only at part path name" "first r \<in> {slash, 0x5F}" by blast
  then show ?thesis
  proof cases
    case 1
    then show ?thesis using fin [of "[]" buf "- 1" False] assms by simp
  next
    case 2
    then show ?thesis by (simp add: name_error_def)
  next
    case 3
    then show ?thesis using fin [of "[]" name part at] t(2) part by simp
  next
    case 4
    then show ?thesis using fin [OF p(1) t(2) part hd p(2), of at] by simp
  qed
qed

lemma parse_name_ok:
  assumes "text_ok buf"
  shows "(case parse_name buf path_only of
      Inl e \<Rightarrow> name_error e
    | Inr f \<Rightarrow> filename_ok f \<and> (path_only \<or> some_name f) \<and> fn_wildcard f = contains_any (fn_name f) [quest, star])"
  using parse_full_path_ok [OF assms, where can_replace = False and path_only = path_only] by (auto simp: parse_name_def some_name_def split: sum.splits prod.splits)

lemma parse_names_ok:
  "list_all text_ok ps \<Longrightarrow> case parse_names ps of Inl e \<Rightarrow> name_error e | Inr fs \<Rightarrow> list_all some_name fs \<and> length fs = length ps"
proof (induction ps)
  case (Cons p ps)
  then show ?case using parse_name_ok [of p False] by (auto split: sum.splits)
qed simp

lemma parse_name_list_ok:
  assumes "text_ok s"
  shows "case parse_name_list s of Inl e \<Rightarrow> name_error e | Inr fs \<Rightarrow> names_ok fs"
  using parse_names_ok [of "split_all comma s"] split_all_text [OF assms, of comma]
  by (auto simp: parse_name_list_def names_ok_def split: sum.splits)

lemma name_and_id_ok:
  assumes "text_ok s"
  shows "case name_and_id s of Inl e \<Rightarrow> name_error e | Inr (f, i) \<Rightarrow> some_name f \<and> text_ok i"
proof (cases "parse_name s False")
  case (Inl e)
  then show ?thesis using parse_name_ok [OF assms, of False] by (simp add: name_and_id_def)
next
  case (Inr f)
  then have f: "filename_ok f" using parse_name_ok [OF assms, of False] by simp
  then have "text_ok (fn_name f)" by (simp add: filename_ok_def text_ok_def)
  then show ?thesis
    using Inr f split_once_text [of "fn_name f" comma]
    by (auto simp: name_and_id_def some_name_def filename_ok_def name_error_def text_ok_def split: option.splits)
qed

section \<open>The day the clock shows\<close>

lemma year_found:
  assumes "0 \<le> d" "d \<le> 146096"
  defines "yoe \<equiv> day_count d div 365"
  shows "0 \<le> yoe" "yoe \<le> 399" "year_start yoe \<le> d"
proof -
  have "day_count 0 \<le> day_count d" "day_count d \<le> day_count 146096" by (rule day_count_mono; use assms in simp)+
  then have c: "0 \<le> day_count d" "day_count d \<le> 146000 - 1" by (simp_all add: day_count_def)
  then have "day_count d div 365 \<le> (146000 - 1) div 365" by (intro zdiv_mono1) simp_all
  with c show y: "0 \<le> yoe" "yoe \<le> 399" by (simp_all add: yoe_def pos_imp_zdiv_nonneg_iff)
  show "year_start yoe \<le> d"
  proof (rule ccontr)
    assume "\<not> year_start yoe \<le> d"
    then have n: "d \<le> year_start yoe - 1" by simp
    then have "yoe \<noteq> 0" using assms by (auto simp: year_start_def)
    then have p: "yoe - 1 \<in> {0..399}" "year_last (yoe - 1) = year_start yoe - 1" using y by (auto simp: year_last_def)
    have "year_last (yoe - 1) \<le> 146096" using p(1) by (auto simp: year_last_def year_start_def)
    then have "day_count d div 365 \<le> day_count (year_last (yoe - 1)) div 365"
      by (intro zdiv_mono1 day_count_mono) (use assms n p in simp_all)
    then show False using year_ends [OF p(1)] by (simp add: yoe_def)
  qed
qed

lemma weekday_bound:
  assumes "0 \<le> y" "0 < day" "0 \<le> month" "year = y + (if month < 3 then 1 else 0)"
  shows "0 \<le> clock_day_of_week year month day" "clock_day_of_week year month day \<le> 6"
proof -
  define a where "a = 23 * month div 9 + (day + (if month < 3 then year else year - 2)) + 4 + y div 4 - y div 100 + y div 400"
  have "y div 100 \<le> y div 4" by (rule zdiv_mono2) (use assms in simp_all)
  moreover have "0 \<le> 23 * month div 9" "0 \<le> y div 400" using assms by (simp_all add: pos_imp_zdiv_nonneg_iff)
  ultimately have a: "0 \<le> a" using assms by (simp add: a_def)
  have y: "(if month < 3 then year - 1 else year) = y" using assms(4) by simp
  have "0 \<le> 23 * month" using assms by simp
  then have "clock_day_of_week year month day = a smod 7"
    unfolding clock_day_of_week_def Let_def y sdiv_nonneg [OF assms(1)] by (simp only: sdiv_nonneg a_def)
  then have "clock_day_of_week year month day = a mod 7" by (simp only: smod_nonneg [OF a])
  then show "0 \<le> clock_day_of_week year month day" "clock_day_of_week year month day \<le> 6" by simp_all
qed

lemma day_found:
  assumes "0 \<le> doy"
  defines "mp \<equiv> (5 * doy + 2) div 153"
  shows "0 \<le> mp" "0 < doy - (153 * mp + 2) div 5 + (1 :: int)"
proof -
  show "0 \<le> mp" using assms by (simp add: pos_imp_zdiv_nonneg_iff)
  have "153 * mp \<le> 5 * doy + 2" unfolding mp_def using mult_div_mod_eq [of 153 "5 * doy + 2"] pos_mod_sign [of 153 "5 * doy + 2"] by linarith
  then have "(153 * mp + 2) div 5 \<le> (doy * 5 + 4) div 5" by (intro zdiv_mono1) simp_all
  moreover have "(doy * 5 + 4) div 5 = doy" by (rule div_split) simp_all
  ultimately show "0 < doy - (153 * mp + 2) div 5 + 1" by simp
qed

lemma shown_day:
  assumes "0 \<le> seconds"
  shows "0 \<le> ct_wd (clock_from_seconds seconds)" "ct_wd (clock_from_seconds seconds) \<le> 6"
proof -
  define days where "days = seconds div 86400"
  have days: "0 \<le> days" using assms by (simp add: days_def pos_imp_zdiv_nonneg_iff)
  define era where "era = days div 146097"
  define doe where "doe = days - era * 146097"
  have era: "0 \<le> era" using days by (simp add: era_def pos_imp_zdiv_nonneg_iff)
  have "doe = days mod 146097" by (simp add: doe_def era_def minus_div_mult_eq_mod)
  then have doe: "0 \<le> doe" "doe \<le> 146096" using pos_mod_bound [of 146097 days] by simp_all
  define yoe where "yoe = day_count doe div 365"
  note y = year_found [OF doe, folded yoe_def]
  define doy where "doy = doe - (365 * yoe + yoe div 4 - yoe div 100)"
  have doy: "0 \<le> doy" using y(3) by (simp add: doy_def year_start_def)
  define mp where "mp = (5 * doy + 2) div 153"
  define day where "day = doy - (153 * mp + 2) div 5 + 1"
  note mp = day_found [OF doy, folded mp_def, folded day_def]
  define month where "month = (if mp < 10 then mp + 3 else mp - 9)"
  have month: "0 \<le> month" using mp(1) by (simp add: month_def)
  define year where "year = yoe + era * 400 + (if month \<le> 2 then 1 else 0)"
  have pos: "0 \<le> day_count doe" "0 \<le> 5 * doy + 2" "0 \<le> 153 * mp + 2"
    using day_count_mono [of 0 doe] doe doy mp(1) by (simp_all add: day_count_def)
  have "ct_wd (clock_from_seconds seconds) = clock_day_of_week year month day"
    unfolding clock_from_seconds_def Let_def clock_time.simps sdiv_nonneg [OF assms] days_def [symmetric]
      sdiv_nonneg [OF days] era_def [symmetric] doe_def [symmetric] sdiv_nonneg [OF doe(1)]
      day_count_def [symmetric] sdiv_nonneg [OF pos(1)] yoe_def [symmetric] sdiv_nonneg [OF y(1)] doy_def [symmetric] sdiv_nonneg [OF pos(2)]
      mp_def [symmetric] sdiv_nonneg [OF pos(3)] day_def [symmetric] month_def [symmetric] year_def [symmetric] ..
  moreover have "0 \<le> yoe + era * 400" using y era by simp
  moreover have "year = yoe + era * 400 + (if month < 3 then 1 else 0)" by (simp add: year_def)
  ultimately show "0 \<le> ct_wd (clock_from_seconds seconds)" "ct_wd (clock_from_seconds seconds) \<le> 6"
    using weekday_bound [of "yoe + era * 400" day month year] mp(2) month by simp_all
qed

lemma weekday_lengths: "0 \<le> w \<Longrightarrow> w \<le> 6 \<Longrightarrow> length (c_weekday_4 ! nat w) = 4 \<and> length (c_weekday_3 ! nat w) = 3"
proof -
  assume w: "0 \<le> w" "w \<le> 6"
  have "list_all (\<lambda>w. length (c_weekday_4 ! nat w) = 4 \<and> length (c_weekday_3 ! nat w) = 3) [0..6]" by code_simp
  then show ?thesis using w by (simp only: list_all_iff set_upto) simp
qed

lemma clock_read_ok:
  assumes "clock_time_valid now" "0 \<le> clock_count now + offset" "clock_read form (drive_time now offset) = Some s"
  shows "s \<noteq> [] \<and> length s \<le> 256"
proof -
  have "0 \<le> ct_wd (drive_time now offset) \<and> ct_wd (drive_time now offset) \<le> 6"
    using shown_day [OF assms(2)] assms(1) by (simp add: drive_time_def clock_time_valid_def)
  then show ?thesis using weekday_lengths assms(3)
    by (auto simp: clock_read_def read_ascii_def read_fields_def read_iso_def decimal2_def decimal4_def Let_def split: if_splits)
qed

end
