(* ===== verification/Cbmdos_Typed.thy ===== *)
theory Cbmdos_Typed
  imports Cbmdos_Correct Clock_Forms
begin

text \<open>
  One lemma per command of the DOS, and the theorem that every command is answered within its type.
\<close>

section \<open>The end of a command\<close>

text \<open>Behind a command stands a NUL or the carriage return it was stripped of.\<close>

definition ends_at :: "byte list \<Rightarrow> nat \<Rightarrow> bool" where
  "ends_at buf n \<longleftrightarrow> n < length buf \<and> (buf ! n = 0 \<or> buf ! n = 0x0D)"

lemma strip_terminator_ends:
  assumes "len < length buf" "buf ! len = 0"
  shows "ends_at buf (strip_terminator buf len)" "strip_terminator buf len \<le> len"
  using assms by (auto simp: strip_terminator_def ends_at_def)

text \<open>A byte that is no terminator lies in front of the end.\<close>

lemma ends_at_peek:
  assumes "ends_at buf n"
  shows "i \<le> n \<Longrightarrow> peek buf i = Some (buf ! i)" "i \<le> n \<Longrightarrow> buf ! i \<noteq> 0 \<Longrightarrow> buf ! i \<noteq> 0x0D \<Longrightarrow> i < n"
  using assms by (auto simp: ends_at_def peek_def le_less)

definition well :: "answer option \<Rightarrow> bool" where
  "well a \<longleftrightarrow> (case a of None \<Rightarrow> False | Some x \<Rightarrow> answer_ok x)"

lemma well_simps [simp]: "well (Some x) = answer_ok x" "\<not> well None"
  by (simp_all add: well_def)

lemma well_if: "well (if p then a else b) = ((p \<longrightarrow> well a) \<and> (\<not> p \<longrightarrow> well b))"
  by simp

lemma well_map: "x = Some s \<Longrightarrow> answer_ok (f s) \<Longrightarrow> well (map_option f x)"
  by simp

lemma answer_of_ok: "(case r of Inl e \<Rightarrow> name_error e | Inr x \<Rightarrow> call_ok (f x)) \<Longrightarrow> answer_ok (answer_of f r)"
  by (auto simp: answer_of_def split: sum.splits)

section \<open>Strings\<close>

lemma text_takeWhile: "text_ok (takeWhile (\<lambda>c. c \<noteq> 0) s)"
  by (auto simp: text_ok_def dest: set_takeWhileD)

lemma substring_text:
  assumes "i \<le> n" "n \<le> length buf"
  shows "\<exists>s. substring buf i (int n - int i) = Some s \<and> text_ok s"
  using assms text_takeWhile by (simp add: substring_def nat_diff_distrib' of_nat_diff [symmetric] del: of_nat_diff)

lemma behind_word_text:
  assumes "ends_at buf n"
  shows "\<exists>s. behind_word buf n = Some s \<and> text_ok s"
proof -
  have "\<not> isalpha (buf ! n)" "n < length buf" using assms by (auto simp: ends_at_def isalpha_def)
  then have k: "length (takeWhile isalpha buf) \<le> n" by (metis not_le nth_mem set_takeWhileD takeWhile_nth)
  then show ?thesis using substring_text [OF k] assms by (auto simp: behind_word_def ends_at_def Let_def)
qed

section \<open>Block commands\<close>

lemma parse_block_parameters_ok: "list_all in16 (parse_block_parameters ps n)"
  unfolding parse_block_parameters_def by (rule block_parameters_ok)

lemma block_call_ok: "answer_ok (block_call letter params)"
  using parse_block_parameters_ok [of params 4] parse_block_parameters_ok [of params 3]
  by (auto simp: block_call_def in16_def push_bit_eq_mult split: list.splits)

lemma block_command_ok: "answer_ok (block_command cmd)"
  by (simp add: block_command_def Let_def block_call_ok split: list.split)

section \<open>Commands with names\<close>

lemma header_command_ok: "text_ok s \<Longrightarrow> answer_ok (header_command s)"
  using name_and_id_ok [of s] by (auto simp: header_command_def plain_name_def some_name_def split: sum.splits)

lemma format_call_ok: "text_ok s \<Longrightarrow> answer_ok (format_call s)"
  unfolding format_call_def using name_and_id_ok [of s] by (auto intro!: answer_of_ok split: sum.splits)

lemma dir_call_ok: "text_ok s \<Longrightarrow> answer_ok (dir_call kind s)"
  using parse_name_ok [of s True] by (auto simp: dir_call_def plain_name_def some_name_def split: sum.splits)

lemma copy_call_ok:
  assumes "text_ok s"
  shows "answer_ok (copy_call s)"
proof (cases "split_once equals s")
  case None
  then show ?thesis by (simp add: copy_call_def)
next
  case (Some p)
  then obtain a b where ab: "split_once equals s = Some (a, b)" "text_ok a" "text_ok b"
    using split_once_text [OF assms] by (metis prod.collapse)
  show ?thesis using ab(1) parse_name_ok [OF ab(2), of False] parse_name_list_ok [OF ab(3)]
    by (auto simp: copy_call_def plain_name_def some_name_def intro!: answer_of_ok split: sum.splits)
qed

lemma rename_call_ok:
  assumes "text_ok s"
  shows "answer_ok (rename_call s)"
proof (cases "split_once equals s")
  case None
  then show ?thesis by (simp add: rename_call_def)
next
  case (Some p)
  then obtain a b where ab: "split_once equals s = Some (a, b)" "text_ok a" "text_ok b"
    using split_once_text [OF assms] by (metis prod.collapse)
  show ?thesis using ab(1) parse_name_ok [OF ab(2), of False] parse_name_ok [OF ab(3), of False]
    by (auto simp: rename_call_def plain_name_def some_name_def split: sum.splits)
qed

lemma rename_partition_call_ok:
  assumes "text_ok s"
  shows "answer_ok (rename_partition_call s)"
  using split_once_text [OF assms, of equals] text_ok_parts(3)
  by (auto simp: rename_partition_call_def Let_def split: option.splits)

lemma scratch_ok: "text_ok s \<Longrightarrow> answer_ok (answer_of Scratch (parse_name_list s))"
  using parse_name_list_ok [of s] by (auto intro!: answer_of_ok split: sum.splits)

lemma toggle_ok: "text_ok s \<Longrightarrow> b \<noteq> 0 \<Longrightarrow> answer_ok (answer_of (\<lambda>f. Toggle_Attributes f b) (parse_name s False))"
  using parse_name_ok [of s False] by (auto intro!: answer_of_ok split: sum.splits)

lemma set_attributes_ok: "text_ok s \<Longrightarrow> a AND m = a \<Longrightarrow> answer_ok (answer_of (\<lambda>fs. Set_Attributes fs a m) (parse_name_list s))"
  using parse_name_list_ok [of s] by (auto intro!: answer_of_ok split: sum.splits)

text \<open>The three bits of the attributes.\<close>

abbreviation attribute_mask :: byte where
  "attribute_mask \<equiv> IEC_ATTR_LOCKED OR IEC_ATTR_HIDDEN OR IEC_ATTR_ARCHIVE"

lemma attribute_letters_ok: "attribute_letters cs a = Some b \<Longrightarrow> a AND attribute_mask = a \<Longrightarrow> b AND attribute_mask = b"
  by (induction cs a rule: attribute_letters.induct)
    (auto simp: bit.conj_disj_distrib2 IEC_ATTR_LOCKED_def IEC_ATTR_HIDDEN_def IEC_ATTR_ARCHIVE_def split: if_splits)

lemma attribute_call_ok:
  assumes "text_ok s"
  shows "answer_ok (attribute_call s)"
  using split_once_text [OF assms, of equals] attribute_letters_ok [of _ 0]
  by (auto simp: attribute_call_def intro!: set_attributes_ok split: option.splits)

lemma hide_call_ok: "text_ok s \<Longrightarrow> answer_ok (hide_call s)"
  by (simp add: hide_call_def header_command_ok toggle_ok IEC_ATTR_HIDDEN_def)

section \<open>Commands of a buffer\<close>

lemma named_commands_ok:
  assumes "ends_at buf n" "0 < n"
  shows "well (copy_command buf n)" "well (rename_command buf n)" "well (scratch_command buf n)" "well (format_command buf n)"
    "well (lock_command buf n)"
proof -
  obtain s where s: "behind_word buf n = Some s" "text_ok s" using behind_word_text [OF assms(1)] by blast
  obtain u where u: "substring buf 1 (int n - 1) = Some u" "text_ok u"
    using substring_text [of 1 n buf] assms by (auto simp: ends_at_def)
  show "well (copy_command buf n)" "well (rename_command buf n)" "well (scratch_command buf n)" "well (format_command buf n)"
    "well (lock_command buf n)"
    using s u by (simp_all add: copy_command_def rename_command_def scratch_command_def format_command_def lock_command_def
      copy_call_ok rename_call_ok scratch_ok format_call_ok toggle_ok IEC_ATTR_LOCKED_def)
qed

lemma dir_command_ok:
  assumes "ends_at buf n" "0 < n"
  shows "well (dir_command buf n)"
proof (cases "buf ! 1 = 0x44")
  case True
  then have n: "1 < n" using ends_at_peek(2) [OF assms(1), of 1] assms(2) by auto
  then obtain u where "substring buf 2 (int n - 2) = Some u" "text_ok u"
    using substring_text [of 2 n buf] assms(1) by (auto simp: ends_at_def)
  then show ?thesis using n ends_at_peek(1) [OF assms(1)] by (simp add: dir_command_def dir_call_ok)
next
  case False
  then show ?thesis using ends_at_peek(1) [OF assms(1), of 1] assms(2) by (simp add: dir_command_def)
qed

text \<open>A byte behind a dash is still inside the buffer.\<close>

lemma behind_dash:
  assumes "ends_at buf n" "0 < n" "buf ! 1 = 0x2D"
  shows "1 < n" "peek buf 2 = Some (buf ! 2)"
proof -
  show "1 < n" using ends_at_peek(2) [OF assms(1), of 1] assms(2,3) by auto
  then show "peek buf 2 = Some (buf ! 2)" using ends_at_peek(1) [OF assms(1), of 2] by simp
qed

lemma in16_zero [simp]: "in16 0"
  by (simp add: in16_def)

lemma byte_int [simp]: "0 \<le> uint w" "uint w \<le> 255" "in16 (uint w)" for w :: byte
  using unsigned_less [where 'a = int, of w] by (simp_all add: in16_def)

lemma partition_number_ok: "w \<noteq> 255 \<Longrightarrow> - 1 \<le> uint w \<and> uint w < 255" for w :: byte
proof -
  assume "w \<noteq> 255"
  then have "uint w \<noteq> 255" by (metis word_of_int_uint word_of_int_numeral)
  then show "- 1 \<le> uint w \<and> uint w < 255" using byte_int(1,2) [of w] by linarith
qed

lemma get_command_ok:
  assumes "ends_at buf n" "0 < n"
  shows "well (get_command buf n)"
proof (cases "buf ! 1 = 0x2D")
  case True
  then show ?thesis using assms behind_dash [OF assms True] ends_at_peek(1) [OF assms(1)] partition_number_ok [of "buf ! 3"]
    by (simp add: get_command_def)
next
  case False
  then show ?thesis using ends_at_peek(1) [OF assms(1), of 1] assms(2) by (simp add: get_command_def)
qed

lemma in16_word: "in16 (uint a OR push_bit 8 (uint b))" for a b :: byte
  using OR_upper [of "uint a" 16 "uint b * 256"] byte_int(2) [of a] byte_int(2) [of b]
  by (simp add: in16_def push_bit_eq_mult)

lemma position_command_ok:
  assumes "len < length buf" "0 < n" "n \<le> len"
  shows "well (position_command buf len n)"
  using assms in16_word [of _ 0] by (simp add: position_command_def in16_word)

lemma cp_command_ok:
  assumes "ends_at buf n" "0 < n"
  shows "well (cp_command buf n)"
  using assms ends_at_peek(1) [OF assms(1)] parse_block_parameters_ok [of "drop 2 (take n buf)" 1]
  by (auto simp: cp_command_def simp del: in16_capped split: list.splits)

lemma rename_dashed_command_ok:
  assumes "ends_at buf n" "2 < n"
  shows "well (rename_dashed_command buf n)"
proof -
  obtain u where "substring buf 3 (int n - 3) = Some u" "text_ok u"
    using substring_text [of 3 n buf] assms by (auto simp: ends_at_def)
  then show ?thesis using assms ends_at_peek(1) [OF assms(1), of 2]
    by (simp add: rename_dashed_command_def rename_partition_call_ok header_command_ok)
qed

lemma swap_command_ok: "ends_at buf n \<Longrightarrow> 2 < n \<Longrightarrow> well (swap_command buf)"
  using ends_at_peek(1) [of buf n 2] by (simp add: swap_command_def)

lemma user_command_ok:
  assumes "ends_at buf n" "0 < n"
  shows "well (user_command buf n)"
proof -
  have b: "answer_ok (user_block Block_Read ps)" "answer_ok (user_block Block_Write ps)" for ps
    using parse_block_parameters_ok [of ps 4] by (auto simp: user_block_def split: list.splits)
  have d: "8 \<le> d \<and> d \<le> 30 \<Longrightarrow> 8 \<le> uint d \<and> uint d \<le> 30" for d :: byte
    by (simp add: word_le_def)
  show ?thesis using ends_at_peek(1) [OF assms(1), of 1] assms(2)
    by (auto simp: user_command_def Let_def b d split: list.splits)
qed

lemma memory_command_ok:
  assumes "ends_at buf n" "0 < n" "buf ! 1 = 0x2D"
  shows "well (memory_command buf n)"
proof -
  have "unat (buf ! 3) < 256" using unsigned_less [where 'a = nat, of "buf ! 3"] by simp
  then show ?thesis using behind_dash [OF assms] ends_at_peek(1) [OF assms(1)]
    by (simp add: memory_command_def Let_def unat_gt_0 min_le_iff_disj)
qed

lemma time_command_ok:
  assumes "ends_at buf n" "0 < n" "clock_time_valid now" "0 \<le> clock_count now + offset"
  shows "well (time_command now offset buf n)"
proof (cases "buf ! 1 = 0x2D")
  case True
  have w: "answer_ok (answer_of (\<lambda>t. Set_Clock_Offset (clock_count t - clock_count now)) (parse_clock_write c))" for c
    by (rule answer_of_ok) (auto simp: parse_clock_write_def Let_def name_error_def split: option.splits sum.splits if_splits)
  have r: "clock_read f (drive_time now offset) = Some s \<Longrightarrow> s \<noteq> [] \<and> length s \<le> 256" for f s
    by (rule clock_read_ok [OF assms(3,4)])
  show ?thesis using behind_dash [OF assms(1,2) True] ends_at_peek(1) [OF assms(1)] assms(1) True
    by (auto simp: time_command_def w ends_at_def dest!: r split: option.splits)
next
  case False
  then show ?thesis using ends_at_peek(1) [OF assms(1), of 1] assms(2) by (simp add: time_command_def)
qed

lemma attribute_kinds:
  assumes "substring buf 0 (int n) = Some (k # b1 # d)" "peek buf 0 = Some k" "peek buf 1 = Some b1" "text_ok d"
  shows "well (attribute_command buf n)"
proof -
  have u: "answer_ok (answer_of (\<lambda>fs. Set_Attributes fs (if p then IEC_ATTR_LOCKED else 0) IEC_ATTR_LOCKED) (parse_name_list d))" for p
    by (intro set_attributes_ok assms(4)) simp
  note ok = u header_command_ok [OF assms(4)] attribute_call_ok [OF assms(4)] hide_call_ok [OF assms(4)]
  have h: "answer_ok (header_command (colon # d))" using assms(4) by (intro header_command_ok) simp
  show ?thesis
    unfolding attribute_command_def assms(1-3) Let_def
    by (simp add: ok h well_if split del: if_split cong: if_cong)
qed

lemma attribute_command_ok:
  assumes "ends_at buf n" "0 < n" "buf ! 0 \<noteq> 0"
  shows "well (attribute_command buf n)"
proof (cases "buf ! 1 = 0 \<or> buf ! 1 = 0x0D")
  case True
  then have b1: "buf ! 1 \<notin> {colon, 0x4C, 0x55, 0x48, 0x50}" by auto
  obtain s where "substring buf 0 (int n) = Some s" using substring_text [of 0 n buf] assms(1) by (auto simp: ends_at_def)
  then show ?thesis using b1 ends_at_peek(1) [OF assms(1)] assms(2)
    by (simp add: attribute_command_def Let_def well_if split del: if_split cong: if_cong)
next
  case False
  then have n: "1 < n" using ends_at_peek(2) [OF assms(1), of 1] assms(2) by auto
  have l: "n < length buf" using assms(1) by (simp add: ends_at_def)
  with n obtain k b1 r where buf: "buf = k # b1 # r" by (cases buf; cases "tl buf") auto
  have n2: "take n buf = k # b1 # take (n - 2) r" using n unfolding buf by (cases n; cases "n - 1") simp_all
  define d where "d = takeWhile (\<lambda>c. c \<noteq> 0) (take (n - 2) r)"
  have "length (take n buf) = n" "k \<noteq> 0" "b1 \<noteq> 0" using l buf assms(3) False by simp_all
  then have s: "substring buf 0 (int n) = Some (k # b1 # d)"
    unfolding substring_def d_def buf using n l n2 [unfolded buf] by (simp add: buf)
  have d: "text_ok d" unfolding d_def by (rule text_takeWhile)
  show ?thesis using ends_at_peek(1) [OF assms(1)] n buf d by (intro attribute_kinds [OF s]) simp_all
qed

section \<open>Every command\<close>

lemma dispatch_ok:
  assumes "ends_at buf n" "0 < n" "n \<le> len" "len < length buf" "clock_time_valid now" "0 \<le> clock_count now + offset"
  shows "well (dispatch now offset buf len n)"
proof -
  have peeks: "peek buf 0 = Some (buf ! 0)" "peek buf 1 = Some (buf ! 1)" using ends_at_peek(1) [OF assms(1)] assms(2) by simp_all
  have w: "2 < n \<Longrightarrow> peek buf 2 = Some (buf ! 2)" using ends_at_peek(1) [OF assms(1), of 2] by simp
  have a: "buf ! 0 \<in> {0x41, 0x44, 0x45, 0x58} \<Longrightarrow> well (attribute_command buf n)"
    by (rule attribute_command_ok [OF assms(1,2)]) auto
  have wp: "answer_ok (if p then Call (Set_Write_Protect q) else Error ERR_SYNTAX)" for p q by simp
  note ok = wp named_commands_ok [OF assms(1,2)] dir_command_ok [OF assms(1,2)] get_command_ok [OF assms(1,2)]
    cp_command_ok [OF assms(1,2)] user_command_ok [OF assms(1,2)] memory_command_ok [OF assms(1,2)]
    position_command_ok [OF assms(4,2,3)] time_command_ok [OF assms(1,2,5,6)] rename_dashed_command_ok [OF assms(1)]
    swap_command_ok [OF assms(1)] block_command_ok
  show ?thesis
    unfolding dispatch_def peeks
    by (simp add: well_if ok a w initialize_command_def split del: if_split cong: if_cong conj_cong)
qed

text \<open>C18: Whatever bytes a computer sends, and with whatever the buffer still holds from a longer command, the command is
  answered without a byte outside the buffer being read: with nothing to do, with one of the six error codes of the parser, or with
  one call of the drive whose arguments are in range.  Numbers are those of sixteen bits; a file is renamed, created or
  given a label under a name that is not empty and has no wildcard; a list of names is not empty; no text holds a NUL; a
  device number lies between 8 and 30; an answer has between one and 256 bytes.\<close>

theorem execute_command_typed:
  assumes "len < length buf" "buf ! len = 0" "clock_time_valid now" "0 \<le> clock_count now + offset"
  shows "\<exists>a. execute_command now offset buf len = Some a \<and> answer_ok a"
proof -
  let ?n = "strip_terminator buf len"
  note e = strip_terminator_ends [OF assms(1,2)]
  have "well (execute_command now offset buf len)"
    using assms(1) dispatch_ok [OF e(1) _ e(2) assms(1,3,4)]
    by (simp add: execute_command_def Let_def well_if split del: if_split cong: if_cong)
  then show ?thesis by (simp add: well_def split: option.splits)
qed

text \<open>A directory that is made, with the remains of a longer command behind it.\<close>

theorem execute_command_typed_witness:
  "execute_command new_year 0 (ascii ''MD:A'' @ [0x0D, 0] @ ascii ''XYZ'') 5 =
     Some (Call (Make_Dir \<lparr>fn_partition = - 1, fn_path = [], fn_name = [0x41], fn_wildcard = False\<rparr>)) \<and>
   answer_ok (Call (Make_Dir \<lparr>fn_partition = - 1, fn_path = [], fn_name = [0x41], fn_wildcard = False\<rparr>))"
proof -
  let ?buf = "ascii ''MD:A'' @ [0x0D, 0] @ ascii ''XYZ''"
  have e: "execute_command new_year 0 ?buf 5 = Some (Call (Make_Dir \<lparr>fn_partition = - 1, fn_path = [], fn_name = [0x41], fn_wildcard = False\<rparr>))"
    by code_simp
  have "5 < length ?buf" "?buf ! 5 = 0" "clock_time_valid new_year" "0 \<le> clock_count new_year + 0" by code_simp+
  from execute_command_typed [OF this] e show ?thesis by simp
qed

end
