(* ===== verification/Spec2Isabelle.thy ===== *)
theory Spec2Isabelle
  imports Containers Dictionary Manifest_Correct Recovery_Url Image_Correct Nvs Power_State
    Button_Handler Recovery_Correct Recovery_Leds Disk_Roundtrip Side_Correct Cbm_Roundtrip
    Names_Correct Petscii_Correct Clock_Forms Cbmdos_Typed
begin

text \<open>
  A verification library for the firmware of the Ultimate machines (cartridges and computers that are
  compatible with the Commodore 64).  The firmware consists of the application, which runs on the CPU
  inside the FPGA and serves disk drives, disks, cartridges, a network and a user interface, and of the
  control module, which switches the power, watches the buttons and can load a new firmware over the
  network when the application does not start.  The library models the parts of both in which data and
  decisions are made, and proves that they do what they are for.  All paths below are under
  \<^verbatim>\<open>src/software\<close>.

  \<^bold>\<open>Conventions.\<close>  \<open>Prelude\<close> names the machine types.  Integers that wrap in the source are words of their
  width; a C \<open>int\<close> that cannot overflow is an \<open>int\<close>, or a \<open>nat\<close> where it is never negative.  Buffers are byte
  lists.  An access outside a buffer, an uninitialised value or another undefined behaviour is a value of
  its own: \<open>None\<close>, or a constructor such as \<open>Beyond\<close>.  Errors are values of the result types.  Loops that
  may run forever are partial functions into \<open>option\<close> or take fuel, and it is proved that they return, or
  with which inputs they do not.  Code outside the repository (the flash of the ESP32, cryptography,
  the encoder registers of the FPGA, the medium of a disk) is a parameter; what is relied on is stated in
  a locale, and every locale has an interpretation.

  \<^bold>\<open>Containers\<close> (\<^verbatim>\<open>components\<close>).  \<open>Containers\<close>: ring buffer, stack and managed arrays; \<open>Indexed_List\<close>: the
  growing array with its marks and its comb sort; \<open>Dictionary\<close>: two indexed lists as a map.  Proved: the
  order of delivery, that the sort ends and leaves a sorted permutation that keeps elements and marks
  together, what purging leaves, and that a dictionary answers the last assignment.

  \<^bold>\<open>Network recovery\<close> (\<^verbatim>\<open>u64ctrl/main\<close>).  \<open>Recovery_Manifest\<close> is the signed manifest and its parser,
  \<open>Recovery_Url\<close> its URLs, \<open>Recovery_Image\<close> the streaming reader of update images, \<open>Recovery_Load\<close> the
  loader with hash and size checks, \<open>Recovery_Net\<close> requests and redirects, \<open>Recovery_Leds\<close> the task and what
  it shows.  \<open>Manifest_Correct\<close> proves the parser equivalent to a grammar and the serial matcher to the
  meaning of its patterns; \<open>Image_Correct\<close> that exactly the well-formed images are loaded, however the
  stream is cut; \<open>Recovery_Memory\<close> and \<open>Recovery_Correct\<close> that nothing is started that was not verified, and
  that the memory then holds the image.  The hash, the signature check, the HTTP client and the JTAG
  transport are parameters.  Loops over a file are bounded by its length.

  \<^bold>\<open>Power and buttons\<close> (\<^verbatim>\<open>u64ctrl/main\<close>).  \<open>Nvs\<close> is the interface of the flash storage (locale \<open>nvs_flash\<close>,
  interpreted by the stand-in of the host tests), \<open>Power_State\<close> the stored power state and the
  recognition of magic packets, \<open>Button_Handler\<close> the task that polls the buttons, a step relation whose
  reachable states satisfy the invariant that the rails follow the belief.

  \<^bold>\<open>Disk images of the drive\<close> (\<^verbatim>\<open>drive/disk_image.cc\<close>).  \<open>Gcr_Coder\<close> is the group code (locale
  \<open>gcr_coder\<close>, interpreted by the real table), \<open>Gcr_Track\<close> building and scanning a track, \<open>Gcr_Image\<close> G64
  files, \<open>Bin_Image\<close> D64 and D71 files and the conversions.  \<open>Gcr_Correct\<close>, \<open>Gcr_Saved\<close>, \<open>Bin_Correct\<close> and
  \<open>Disk_Roundtrip\<close> prove the round trips of a track, of a saved image and of a whole disk, and the bounds of
  every track for every file.  The scan takes fuel; a scan that succeeds does so with any larger fuel,
  and a track is found on which no fuel is enough.

  \<^bold>\<open>Commodore file systems\<close> (\<^verbatim>\<open>filesystem\<close>).  \<open>Block_Device\<close> models the devices under a file system,
  \<open>Block_Correct\<close> their promise as a locale (\<open>sector_store\<close>), which every one of them keeps.  \<open>Cbm_Layout\<close> is
  the numbering of sectors, \<open>Cbm_Bam\<close> the map of free sectors, \<open>Cbm_Disk\<close> mounting, the sector window,
  flushing and formatting, \<open>Side_Sectors\<close> the index of relative files, \<open>Cbm_File\<close> open files.
  \<open>Cbm_Bam_Correct\<close> and \<open>Cbm_Alloc\<close> show that the map is a set of sectors with exact counts, through a
  locale (\<open>bam_map\<close>) interpreted for D64, D71 and D81; \<open>Cbm_Disk_Correct\<close> that a formatted disk is mounted
  empty; \<open>Cbm_Delete\<close> that giving back a chain always ends and frees just what it met; \<open>Cbm_Sync\<close>,
  \<open>Cbm_Take\<close>, \<open>Cbm_Write\<close>, \<open>Cbm_Write_Loop\<close> and \<open>Cbm_Roundtrip\<close> that a file reads as it was written, on
  every medium that keeps the promise (locale \<open>cbm_medium\<close>); \<open>Side_Correct\<close> that a position of a relative
  file is found in its sector.  Following a chain is bounded by the sectors not yet visited.

  \<^bold>\<open>Names and DOS commands\<close> (\<^verbatim>\<open>components/pattern.cc\<close>, \<^verbatim>\<open>io/iec/cbmdos_parser.cc\<close>).  \<open>Names\<close> has patterns with
  wildcards and the parts of a file name, \<open>Petscii\<close> the ways a PETSCII name is written on a FAT medium and as
  text, \<open>Cbmdos_Path\<close> the names, types and options a computer sends when it opens a file, \<open>Cbmdos_Command\<close> the
  commands and \<open>Cbmdos_Clock\<close> the clock of the drive.  The drive that executes a command is the type of the
  calls it can get.  \<open>Names_Correct\<close> shows that the matcher ends and means what patterns mean,
  \<open>Petscii_Correct\<close> that names survive both ways of writing, \<open>Clock_Correct\<close> that dates and seconds are
  converted into each other, \<open>Clock_Forms\<close> that the time that was set is the time that is read, and
  \<open>Cbmdos_Correct\<close> and \<open>Cbmdos_Typed\<close> that every command is answered within the types of the drive.

  \<^bold>\<open>Not modelled.\<close>  Third-party code (FreeRTOS, lwIP, FatFs, jsmn, 64tass), generated code and hardware
  descriptions; code that only accesses registers (machine control, drives, JTAG) or sockets (the network
  services); the user interface and the machine monitor; the channels and the bus of the software IEC drive, whose
  commands are modelled; the file manager; the directories and paths of the Commodore file systems, and the
  conversion of GEOS files.
\<close>

end
